(* ===== verification/Prelude.thy ===== *)
theory Prelude
  imports Main "HOL-Library.Word"
begin

text \<open>
  Vocabulary shared by every component: the machine integer types of the C++ code, the result
  type of an operation that may throw, abort or run into undefined behaviour, checked array
  accesses, and generic facts on lists, words and ring positions.
\<close>

unbundle bit_operations_syntax

type_synonym u8 = "8 word"
type_synonym u16 = "16 word"
type_synonym u32 = "32 word"
type_synonym u64 = "64 word"
type_synonym bytes = "u8 list"

named_theorems res_simps \<open>evaluation of fallible computations\<close>
named_theorems ring_simps \<open>arithmetic of positions in a ring\<close>

subsection \<open>Faults and results\<close>

text \<open>
  What a C++ operation can do instead of returning: throw one of the standard exceptions the
  source throws (with the message up to its formatted arguments; \<open>JsonError\<close> is a type error of
  the JSON library, \<open>BadAnyCast\<close> a failed \<open>std::any_cast\<close>), leave the process
  (\<open>exit(0)\<close>), or reach undefined behaviour such as a read past the end of a vector, a null
  pointer or a deleted object, or block for ever (\<open>Hang\<close>). \<open>OutOfFuel\<close> is not an event of the program: it marks a bounded
  unrolling of a loop that was exhausted. Each such loop comes with a lemma that says how much fuel is
  enough, or, for the loops of the source that can run for ever, with a theorem that no amount is.
\<close>

datatype fault =
    RuntimeError string
  | LogicError string
  | OutOfRange
  | JsonError
  | BadAnyCast
  | ProcessExit
  | OutOfFuel
  | Hang
  | Undefined

type_synonym 'a res = "fault + 'a"

definition andThen :: "'a res \<Rightarrow> ('a \<Rightarrow> 'b res) \<Rightarrow> 'b res" where
  "andThen r f = (case r of Inl e \<Rightarrow> Inl e | Inr x \<Rightarrow> f x)"

lemma andThen_Inr [simp, res_simps]: "andThen (Inr x) f = f x"
  and andThen_Inl [simp, res_simps]: "andThen (Inl e) f = Inl e"
  by (simp_all add: andThen_def)

lemma andThen_eq_Inr: "andThen r f = Inr y \<longleftrightarrow> (\<exists>x. r = Inr x \<and> f x = Inr y)"
  by (cases r) simp_all

lemma andThen_eq_Inl: "andThen r f = Inl e \<longleftrightarrow> r = Inl e \<or> (\<exists>x. r = Inr x \<and> f x = Inl e)"
  by (cases r) simp_all

lemma andThen_assoc: "andThen (andThen r f) g = andThen r (\<lambda>x. andThen (f x) g)"
  by (cases r) simp_all

lemma andThen_if: "andThen (if b then r else s) f = (if b then andThen r f else andThen s f)"
  by simp

definition isOk :: "'a res \<Rightarrow> bool" where
  "isOk r \<longleftrightarrow> (\<exists>x. r = Inr x)"

lemma isOk_simps [simp]: "isOk (Inr x)" "\<not> isOk (Inl e)"
  by (simp_all add: isOk_def)

subsection \<open>Checked array accesses\<close>

text \<open>Indexing a vector or array out of range is undefined behaviour, not an exception.\<close>

definition at :: "'a list \<Rightarrow> nat \<Rightarrow> 'a res" where
  "at xs i = (if i < length xs then Inr (xs ! i) else Inl Undefined)"

definition put :: "'a list \<Rightarrow> nat \<Rightarrow> 'a \<Rightarrow> 'a list res" where
  "put xs i v = (if i < length xs then Inr (xs[i := v]) else Inl Undefined)"

lemma at_ok [simp, res_simps]: "i < length xs \<Longrightarrow> at xs i = Inr (xs ! i)"
  by (simp add: at_def)

lemma put_ok [simp, res_simps]: "i < length xs \<Longrightarrow> put xs i v = Inr (xs[i := v])"
  by (simp add: put_def)

lemma at_out [simp]: "length xs \<le> i \<Longrightarrow> at xs i = Inl Undefined"
  by (simp add: at_def)

lemma put_out [simp]: "length xs \<le> i \<Longrightarrow> put xs i v = Inl Undefined"
  by (simp add: put_def)

text \<open>\<open>std::vector::at\<close> and iterator ranges: the former throws, a reversed range is undefined.\<close>

definition at_throw :: "'a list \<Rightarrow> nat \<Rightarrow> 'a res" where
  "at_throw xs i = (if i < length xs then Inr (xs ! i) else Inl OutOfRange)"

lemma at_throw_ok [simp, res_simps]: "i < length xs \<Longrightarrow> at_throw xs i = Inr (xs ! i)"
  by (simp add: at_throw_def)

definition range_of :: "'a list \<Rightarrow> nat \<Rightarrow> nat \<Rightarrow> 'a list res" where
  "range_of xs b e = (if b \<le> e \<and> e \<le> length xs then Inr (take (e - b) (drop b xs)) else Inl Undefined)"

lemma range_of_ok [simp, res_simps]:
  "b \<le> e \<Longrightarrow> e \<le> length xs \<Longrightarrow> range_of xs b e = Inr (take (e - b) (drop b xs))"
  by (simp add: range_of_def)

subsection \<open>Positions in a ring of fixed size\<close>

text \<open>
  \<open>ring_dist n a b\<close> is how far position \<open>a\<close> is ahead of position \<open>b\<close> in a ring of \<open>n\<close> slots.
\<close>

definition ring_dist :: "nat \<Rightarrow> nat \<Rightarrow> nat \<Rightarrow> nat" where
  "ring_dist n a b = (a + n - b) mod n"

lemma ring_dist_cases:
  assumes "a < n" "b < n"
  shows "ring_dist n a b = (if b \<le> a then a - b else a + n - b)"
  using assms by (auto simp: ring_dist_def mod_if)

lemma ring_dist_less [simp]: "0 < n \<Longrightarrow> ring_dist n a b < n"
  by (simp add: ring_dist_def)

lemma ring_dist_self [simp]: "b < n \<Longrightarrow> ring_dist n b b = 0"
  by (simp add: ring_dist_cases)

lemma ring_dist_0_iff: "a < n \<Longrightarrow> b < n \<Longrightarrow> ring_dist n a b = 0 \<longleftrightarrow> a = b"
  by (auto simp: ring_dist_cases)

lemma ring_suc_mod: "(a :: nat) < n \<Longrightarrow> (a + 1) mod n = (if a + 1 = n then 0 else a + 1)"
  by (auto simp: mod_if)

lemma ring_add_mod:
  fixes a i n :: nat
  assumes "a < n" "i \<le> n"
  shows "(a + i) mod n = (if a + i < n then a + i else a + i - n)"
  using assms by (auto simp: mod_if)

lemma ring_dist_add:
  assumes "b < n" "i < n"
  shows "ring_dist n ((b + i) mod n) b = i"
  using assms by (subst ring_dist_cases) (auto simp: ring_add_mod)

lemma ring_dist_inverse:
  assumes "a < n" "b < n"
  shows "(b + ring_dist n a b) mod n = a"
  using assms by (auto simp: ring_dist_cases)

lemma ring_dist_inj:
  "a < n \<Longrightarrow> b < n \<Longrightarrow> c < n \<Longrightarrow> ring_dist n a c = ring_dist n b c \<longleftrightarrow> a = b"
  by (auto simp: ring_dist_cases split: if_splits)

lemma ring_dist_next_front:
  "a < n \<Longrightarrow> b < n \<Longrightarrow> ring_dist n a b < n - 1 \<Longrightarrow>
   ring_dist n ((a + 1) mod n) b = Suc (ring_dist n a b)"
  by (auto simp: ring_dist_cases mod_Suc split: if_splits)

lemma ring_dist_next_back:
  "a < n \<Longrightarrow> b < n \<Longrightarrow> a \<noteq> b \<Longrightarrow>
   Suc (ring_dist n a ((b + 1) mod n)) = ring_dist n a b"
  by (auto simp: ring_dist_cases mod_Suc split: if_splits)

lemma ring_dist_next_full:
  "a < n \<Longrightarrow> b < n \<Longrightarrow> (a + 1) mod n = b \<longleftrightarrow> ring_dist n a b = n - 1"
  by (auto simp: ring_dist_cases mod_Suc split: if_splits)

lemma ring_dist_sub:
  assumes "h < n" "a < n" "b < n" "ring_dist n h b \<le> ring_dist n a b"
  shows "ring_dist n a h = ring_dist n a b - ring_dist n h b"
  using assms by (auto simp: ring_dist_cases split: if_splits)

lemma ring_pos_inj:
  fixes h c i j :: nat
  assumes "h < c" "i < c" "j < c"
  shows "(h + i) mod c = (h + j) mod c \<longleftrightarrow> i = j"
  using assms by (auto simp: ring_add_mod split: if_splits)

subsection \<open>Single bits\<close>

lemma and_one_nonzero: "(w :: 'a::len word) AND 1 \<noteq> 0 \<longleftrightarrow> bit w 0"
  by (simp add: and_one_eq mod_2_eq_odd bit_0)

lemma drop_bit_and_one_nonzero: "drop_bit n (w :: 'a::len word) AND 1 \<noteq> 0 \<longleftrightarrow> bit w n"
  by (simp add: and_one_nonzero bit_drop_bit_eq)

end
