(* ===== verification/Bytes.thy ===== *)
theory Bytes
  imports Prelude
begin

text \<open>
  The namespace \<open>seeker::bytes\<close> of \<open>mod/janitor/include/seeker/common.h\<close>: reading and writing
  integers in a byte buffer and copying byte ranges (theory \<open>Serial\<close> holds hexadecimal text and the
  serialisation of vectors). A pointer into a buffer is the list of bytes from that
  address to the end of the allocation, so an access past it is undefined behaviour.
\<close>

subsection \<open>Integers in a byte buffer\<close>

text \<open>
  \<open>writeData\<close>: the byte at index \<open>i\<close> is \<open>(num >> (i * 8)) & 0xFF\<close> for little endian and
  \<open>(num >> ((len - i - 1) * 8)) & 0xFF\<close> for big endian.
\<close>

primrec writeLoop :: "(nat \<Rightarrow> nat) \<Rightarrow> 'a::len word \<Rightarrow> nat list \<Rightarrow> bytes \<Rightarrow> bytes res" where
  "writeLoop sh num [] buf = Inr buf"
| "writeLoop sh num (i # is) buf =
     andThen (put buf i (ucast (drop_bit (sh i * 8) num AND 0xFF)))
       (\<lambda>buf. writeLoop sh num is buf)"

definition writeData :: "bytes \<Rightarrow> 'a::len word \<Rightarrow> bool \<Rightarrow> bytes res" where
  "writeData buf num littleEndian =
     (let len = LENGTH('a) div 8
      in if littleEndian then writeLoop (\<lambda>i. i) num [0..<len] buf
         else writeLoop (\<lambda>i. len - i - 1) num [0..<len] buf)"

text \<open>\<open>readData\<close>: \<open>num <<= 8; num |= buf[j]\<close> over the indices in reading order.\<close>

primrec readLoop :: "bytes \<Rightarrow> nat list \<Rightarrow> 'a::len word \<Rightarrow> 'a word res" where
  "readLoop buf [] num = Inr num"
| "readLoop buf (j # js) num =
     andThen (at buf j) (\<lambda>b. readLoop buf js (push_bit 8 num OR ucast (b AND 0xFF)))"

definition readData :: "bytes \<Rightarrow> bool \<Rightarrow> 'a::len word res" where
  "readData buf littleEndian =
     (let len = LENGTH('a) div 8
      in if littleEndian then readLoop buf (map (\<lambda>i. len - 1 - i) [0..<len]) 0
         else readLoop buf [0..<len] 0)"

text \<open>The overloads that copy \<open>len\<close> bytes, and the one that appends them to a vector.\<close>

primrec writeBytesFrom :: "nat \<Rightarrow> nat \<Rightarrow> bytes \<Rightarrow> bytes \<Rightarrow> bytes res" where
  "writeBytesFrom 0 i dst data = Inr dst"
| "writeBytesFrom (Suc k) i dst data =
     andThen (at data i) (\<lambda>b. andThen (put dst i b) (\<lambda>dst. writeBytesFrom k (Suc i) dst data))"

definition writeBytes :: "bytes \<Rightarrow> bytes \<Rightarrow> nat \<Rightarrow> bytes res" where
  "writeBytes dst data len = writeBytesFrom len 0 dst data"

definition readBytes :: "bytes \<Rightarrow> bytes \<Rightarrow> nat \<Rightarrow> bytes res" where
  "readBytes src data len = writeBytesFrom len 0 data src"

primrec readVectorFrom :: "nat \<Rightarrow> nat \<Rightarrow> bytes \<Rightarrow> bytes \<Rightarrow> bytes res" where
  "readVectorFrom 0 i src data = Inr data"
| "readVectorFrom (Suc k) i src data =
     andThen (at src i) (\<lambda>b. readVectorFrom k (Suc i) src (data @ [b]))"

definition readVector :: "bytes \<Rightarrow> bytes \<Rightarrow> nat \<Rightarrow> bytes res" where
  "readVector src data len = readVectorFrom len 0 src data"

subsection \<open>Closed forms of the loops\<close>

lemma and_0xFF_byte [simp]: "(b :: u8) AND 0xFF = b"
proof -
  have "(0xFF :: u8) = -1" by simp
  then show ?thesis by (metis and.right_neutral)
qed

lemma ucast_and_0xFF [simp]: "(ucast ((w :: 'a::len word) AND 0xFF) :: u8) = ucast w"
proof (rule bit_word_eqI)
  fix n assume "n < LENGTH(8)"
  then have n: "n < 8" by simp
  have eq: "(0xFF :: 'a word) = mask 8" by (simp add: mask_eq_exp_minus_1)
  have "bit (0xFF :: 'a word) n \<longleftrightarrow> n < LENGTH('a)"
    unfolding eq using n by (simp only: bit_mask_iff) (auto simp: exp_eq_0_imp_not_bit)
  then show "bit (ucast (w AND 0xFF) :: u8) n = bit (ucast w :: u8) n"
    using n by (auto simp: bit_simps dest: bit_imp_le_length)
qed

definition beBytes :: "'a::len word \<Rightarrow> bytes" where
  "beBytes num = map (\<lambda>i. ucast (drop_bit ((LENGTH('a) div 8 - i - 1) * 8) num)) [0..<LENGTH('a) div 8]"

lemma length_beBytes [simp]: "length (beBytes (num :: 'a::len word)) = LENGTH('a) div 8"
  by (simp add: beBytes_def)

lemma writeLoop_upt:
  "n \<le> length buf \<Longrightarrow> k \<le> n \<Longrightarrow>
   writeLoop sh num [k..<n] buf =
     Inr (take k buf @ map (\<lambda>i. ucast (drop_bit (sh i * 8) num)) [k..<n] @ drop n buf)"
proof (induction "n - k" arbitrary: k buf)
  case 0
  then show ?case by simp
next
  case (Suc m)
  then have k: "k < n" by simp
  let ?b = "ucast (drop_bit (sh k * 8) num) :: u8"
  have "writeLoop sh num [k..<n] buf = writeLoop sh num [Suc k..<n] (buf[k := ?b])"
    using k Suc.prems by (subst upt_conv_Cons) (simp_all add: put_def)
  also have "\<dots> = Inr (take (Suc k) (buf[k := ?b])
       @ map (\<lambda>i. ucast (drop_bit (sh i * 8) num)) [Suc k..<n] @ drop n (buf[k := ?b]))"
    using Suc k by (intro Suc.hyps) auto
  also have "take (Suc k) (buf[k := ?b]) = take k buf @ [?b]"
    using k Suc.prems by (simp add: take_Suc_conv_app_nth)
  also have "drop n (buf[k := ?b]) = drop n buf"
    using k by simp
  finally show ?case
    using k by (subst upt_conv_Cons) simp_all
qed

lemma writeData_be:
  "LENGTH('a) div 8 \<le> length buf \<Longrightarrow>
   writeData buf (num :: 'a::len word) False = Inr (beBytes num @ drop (LENGTH('a) div 8) buf)"
  by (simp add: writeData_def writeLoop_upt beBytes_def Let_def)

lemma readLoop_step:
  fixes x :: "'a::len word"
  shows "push_bit 8 (drop_bit (8 * Suc m) x) OR ucast (ucast (drop_bit (8 * m) x) :: u8)
       = drop_bit (8 * m) x"
proof (rule bit_word_eqI)
  fix n assume n: "n < LENGTH('a)"
  show "bit (push_bit 8 (drop_bit (8 * Suc m) x) OR ucast (ucast (drop_bit (8 * m) x) :: u8)) n
      = bit (drop_bit (8 * m) x) n"
  proof (cases "n < 8")
    case True
    then show ?thesis using n by (simp add: bit_simps)
  next
    case False
    then have "8 * Suc m + (n - 8) = 8 * m + n" by simp
    then show ?thesis using False n by (simp add: bit_simps)
  qed
qed

lemma readLoop_be:
  fixes x :: "'a::len word"
  assumes "k \<le> len" "len \<le> length buf"
    and "\<forall>i < len. buf ! i = ucast (drop_bit (8 * (len - Suc i)) x)"
  shows "readLoop buf [k..<len] (drop_bit (8 * (len - k)) x) = Inr x"
  using assms(1)
proof (induction "len - k" arbitrary: k)
  case 0
  then show ?case by simp
next
  case (Suc m)
  then have k: "k < len" and eq: "len - k = Suc (len - Suc k)" by simp_all
  have "readLoop buf [k..<len] (drop_bit (8 * (len - k)) x)
      = readLoop buf [Suc k..<len] (drop_bit (8 * (len - Suc k)) x)"
    using k assms(2,3) eq readLoop_step [of "len - Suc k" x]
    by (subst upt_conv_Cons) (simp_all add: eq del: mult_Suc_right)
  also have "\<dots> = Inr x" using Suc k by (intro Suc.hyps) simp_all
  finally show ?case .
qed

lemma drop_bit_all [simp]: "drop_bit (LENGTH('a)) (x :: 'a::len word) = 0"
  by (rule bit_word_eqI) (simp add: bit_simps)

lemma readData_be:
  fixes x :: "'a::len word"
  assumes "8 dvd LENGTH('a)"
  shows "readData (beBytes x @ rest) False = Inr x"
proof -
  let ?len = "LENGTH('a) div 8"
  have len: "8 * ?len = LENGTH('a)" using assms by simp
  have "readLoop (beBytes x @ rest) [0..<?len] (drop_bit (8 * (?len - 0)) x) = Inr x"
    by (rule readLoop_be) (auto simp: nth_append beBytes_def mult.commute)
  then show ?thesis by (simp add: readData_def len)
qed

lemma readData_be_at:
  fixes x :: "'a::len word"
  assumes "8 dvd LENGTH('a)" and "take (LENGTH('a) div 8) buf = beBytes x"
  shows "readData buf False = Inr x"
proof -
  have "buf = beBytes x @ drop (LENGTH('a) div 8) buf"
    by (metis append_take_drop_id assms(2))
  then show ?thesis using readData_be [OF assms(1), of x] by metis
qed

text \<open>Reading never fails inside the buffer, and always fails outside it.\<close>

lemma readLoop_isOk: "isOk (readLoop buf js num) \<longleftrightarrow> (\<forall>j \<in> set js. j < length buf)"
proof (induction js arbitrary: num)
  case Nil
  then show ?case by simp
next
  case (Cons j js)
  then show ?case by (cases "j < length buf") simp_all
qed

lemma readData_isOk:
  "isOk (readData buf False :: 'a::len word res) \<longleftrightarrow> LENGTH('a) div 8 \<le> length buf"
proof -
  have "(\<forall>j < n. j < length buf) \<longleftrightarrow> n \<le> length buf" for n
    by (cases n) (auto simp: less_Suc_eq_le Suc_le_eq)
  then show ?thesis by (simp add: readData_def readLoop_isOk Ball_def)
qed

end
