(* ===== verification/RtpHeader.thy ===== *)
theory RtpHeader
  imports Bytes
begin

text \<open>
  RTP packets, after \<open>mod/janitor/include/rtpTrs/Rtp.hpp\<close>: the field accessors on a raw header
  (a pointer, here the bytes from that address on), the class \<open>Rtp\<close> that owns a datagram and
  remembers whether it passed validation, and the validation itself. Accessors do not check the
  length of the buffer, so each returns a fault where the C++ reads out of bounds.
\<close>

subsection \<open>Accessors on a raw header\<close>

definition getVersion :: "bytes \<Rightarrow> u8 res" where
  "getVersion h = andThen (at h 0) (\<lambda>firstByte. Inr (drop_bit 6 firstByte AND 0x03))"

definition getPadding :: "bytes \<Rightarrow> bool res" where
  "getPadding h = andThen (at h 0) (\<lambda>firstByte. Inr (drop_bit 5 firstByte AND 0x01 \<noteq> 0))"

definition getMarker :: "bytes \<Rightarrow> bool res" where
  "getMarker h = andThen (at h 1) (\<lambda>secondByte. Inr (drop_bit 7 secondByte AND 0x01 \<noteq> 0))"

definition getPayloadType :: "bytes \<Rightarrow> u8 res" where
  "getPayloadType h = andThen (at h 1) (\<lambda>secondByte. Inr (drop_bit 0 secondByte AND 0x7F))"

definition getMark :: "bytes \<Rightarrow> bool res" where
  "getMark h = andThen (at h 1) (\<lambda>secondByte. Inr (drop_bit 7 secondByte AND 0x01 \<noteq> 0))"

definition getSeq :: "bytes \<Rightarrow> u16 res" where
  "getSeq h = readData (drop 2 h) False"

text \<open>\<open>writeData(rtpHeader + pos, num, false)\<close> as an update of the whole buffer.\<close>

definition writeAt :: "bytes \<Rightarrow> nat \<Rightarrow> 'a::len word \<Rightarrow> bytes res" where
  "writeAt h pos num = andThen (writeData (drop pos h) num False) (\<lambda>t. Inr (take pos h @ t))"

definition setSeq :: "bytes \<Rightarrow> u16 \<Rightarrow> bytes res" where
  "setSeq h seq = writeAt h 2 seq"

definition hasExtension :: "bytes \<Rightarrow> bool res" where
  "hasExtension h = andThen (at h 0) (\<lambda>firstByte. Inr (drop_bit 4 firstByte AND 0x01 \<noteq> 0))"

definition getExtensionLength :: "bytes \<Rightarrow> nat res" where
  "getExtensionLength h =
     andThen (at h 0) (\<lambda>firstByte.
       let csrcCount = unat (drop_bit 0 firstByte AND 0x0F);
           extension = drop_bit 4 firstByte AND 0x01
       in if extension \<noteq> 0
          then let pos = 12 + csrcCount * 4 + 2
               in andThen (readData (drop pos h) False) (\<lambda>ext32BitCount :: u16.
                    Inr ((unat ext32BitCount + 1) * 4))
          else Inr 0)"

definition getTimestamp :: "bytes \<Rightarrow> u32 res" where
  "getTimestamp h = readData (drop 4 h) False"

definition setTimestamp :: "bytes \<Rightarrow> u32 \<Rightarrow> bytes res" where
  "setTimestamp h ts = writeAt h 4 ts"

definition getSsrc :: "bytes \<Rightarrow> u32 res" where
  "getSsrc h = readData (drop 8 h) False"

definition setSsrc :: "bytes \<Rightarrow> u32 \<Rightarrow> bytes res" where
  "setSsrc h ssrc = writeAt h 8 ssrc"

subsection \<open>The class Rtp\<close>

record rtp =
  udpBuff :: bytes
  isValid :: bool

definition HEADER_FIXED_LENGTH :: nat where
  "HEADER_FIXED_LENGTH = 12"

definition isValidRtp :: "bytes \<Rightarrow> bool res" where
  "isValidRtp rtpData =
     (if length rtpData < HEADER_FIXED_LENGTH then Inr False
      else andThen (at_throw rtpData 0) (\<lambda>firstByte.
        let csrcCount = unat (drop_bit 0 firstByte AND 0x0F);
            version = drop_bit 6 firstByte AND 0x03;
            extension = drop_bit 4 firstByte AND 0x01
        in if version \<noteq> 2 then Inr False
           else if length rtpData < HEADER_FIXED_LENGTH + csrcCount * 4 then Inr False
           else if extension \<noteq> 0 then
             (if length rtpData < HEADER_FIXED_LENGTH + csrcCount * 4 + 4 then Inr False
              else andThen (getExtensionLength rtpData) (\<lambda>extensionLen.
                if length rtpData < HEADER_FIXED_LENGTH + csrcCount * 4 + extensionLen
                then Inr False else Inr True))
           else Inr True))"

definition Rtp_empty :: rtp where
  "Rtp_empty = \<lparr>udpBuff = [], isValid = False\<rparr>"

definition Rtp_of_udp :: "bytes \<Rightarrow> rtp res" where
  "Rtp_of_udp udp = andThen (isValidRtp udp) (\<lambda>v. Inr \<lparr>udpBuff = udp, isValid = v\<rparr>)"

definition Rtp_make :: "int \<Rightarrow> bool \<Rightarrow> u16 \<Rightarrow> u32 \<Rightarrow> u32 \<Rightarrow> bytes \<Rightarrow> rtp res" where
  "Rtp_make pt marker seq ts ssrc payload =
     (if pt > 127 \<or> pt < 0 then Inl (RuntimeError ''Rtp header error: pt = '')
      else
        let buf = replicate (HEADER_FIXED_LENGTH + length payload) 0;
            payloadType = (word_of_int pt :: u8);
            firstByte = (push_bit 6 2 OR push_bit 5 0 OR push_bit 4 0 OR 0 :: u8);
            secondByte = (push_bit 7 (of_bool marker) OR payloadType :: u8)
        in andThen (writeAt buf 0 firstByte) (\<lambda>buf.
           andThen (writeAt buf 1 secondByte) (\<lambda>buf.
           andThen (writeAt buf 2 seq) (\<lambda>buf.
           andThen (writeAt buf 4 ts) (\<lambda>buf.
           andThen (writeAt buf 8 ssrc) (\<lambda>buf.
           andThen (writeBytes (drop 12 buf) payload (length payload)) (\<lambda>t.
             Inr \<lparr>udpBuff = take 12 buf @ t, isValid = True\<rparr>)))))))"

definition Rtp_reset :: "rtp \<Rightarrow> bytes \<Rightarrow> rtp res" where
  "Rtp_reset r udp = andThen (isValidRtp udp) (\<lambda>v. Inr \<lparr>udpBuff = udp, isValid = v\<rparr>)"

text \<open>\<open>takeRawData()\<close> moves the vector out; a moved-from vector is empty.\<close>

definition takeRawData :: "rtp \<Rightarrow> bytes \<times> rtp" where
  "takeRawData r = (udpBuff r, \<lparr>udpBuff = [], isValid = False\<rparr>)"

definition ensureValid :: "rtp \<Rightarrow> unit res" where
  "ensureValid r = (if \<not> isValid r then Inl (LogicError ''This RTP is INVALID'') else Inr ())"

definition getHeaderLength :: "rtp \<Rightarrow> nat res" where
  "getHeaderLength r =
     (if udpBuff r = [] then Inl (RuntimeError ''udpBuff.empty()'')
      else andThen (at_throw (udpBuff r) 0) (\<lambda>firstByte.
        let csrcCount = unat (drop_bit 0 firstByte AND 0x0F);
            extension = drop_bit 4 firstByte AND 0x01
        in if length (udpBuff r) < HEADER_FIXED_LENGTH + csrcCount * 4
           then Inl (RuntimeError ''udpBuff.size() < (HEADER_FIXED_LENGTH + csrcCount * sizeof(uint32_t))'')
           else if extension \<noteq> 0 then
             (if length (udpBuff r) < HEADER_FIXED_LENGTH + csrcCount * 4 + 4
              then Inl (RuntimeError ''udpBuff.size() < (HEADER_FIXED_LENGTH + csrcCount * sizeof(uint32_t)) + 4'')
              else let pos = HEADER_FIXED_LENGTH + csrcCount * 4 + 2
                   in andThen (readData (drop pos (udpBuff r)) False) (\<lambda>ext32BitCount :: u16.
                        Inr (HEADER_FIXED_LENGTH + csrcCount * 4 + (unat ext32BitCount + 1) * 4)))
           else Inr (HEADER_FIXED_LENGTH + csrcCount * 4 + 0)))"

definition getHeaderExtension :: "rtp \<Rightarrow> bytes res" where
  "getHeaderExtension r =
     andThen (at (udpBuff r) 0) (\<lambda>firstByte.
       let csrcCount = unat (drop_bit 0 firstByte AND 0x0F);
           extension = drop_bit 4 firstByte AND 0x01
       in if extension \<noteq> 0
          then let begin = HEADER_FIXED_LENGTH + csrcCount * 4 + 4
               in andThen (getExtensionLength (udpBuff r)) (\<lambda>n.
                    range_of (udpBuff r) begin (begin + (n - 4)))
          else Inr [])"

definition paddingLength :: "rtp \<Rightarrow> nat res" where
  "paddingLength r =
     andThen (getPadding (udpBuff r)) (\<lambda>padding.
       if padding then andThen (at (udpBuff r) (length (udpBuff r) - 1)) (\<lambda>b. Inr (unat b))
       else Inr 0)"

text \<open>
  \<open>getPayload(buf)\<close> copies the range from the end of the header to \<open>size - paddingLength\<close>;
  \<open>getPayload(len)\<close> returns the begin offset and the length \<open>end - begin\<close>, which is a
  \<open>size_t\<close> and wraps around.
\<close>

definition getPayload :: "rtp \<Rightarrow> bytes res" where
  "getPayload r =
     andThen (ensureValid r) (\<lambda>_.
     andThen (getHeaderLength r) (\<lambda>begin.
     andThen (paddingLength r) (\<lambda>pad.
       if length (udpBuff r) < pad then Inl Undefined
       else range_of (udpBuff r) begin (length (udpBuff r) - pad))))"

definition getPayloadPtr :: "rtp \<Rightarrow> (nat \<times> u64) res" where
  "getPayloadPtr r =
     andThen (ensureValid r) (\<lambda>_.
     andThen (getHeaderLength r) (\<lambda>begin.
     andThen (paddingLength r) (\<lambda>pad.
       Inr (begin, (of_nat (length (udpBuff r)) - of_nat pad) - of_nat begin))))"

definition getHeader :: "rtp \<Rightarrow> bytes res" where
  "getHeader r =
     andThen (ensureValid r) (\<lambda>_.
     andThen (getHeaderLength r) (\<lambda>end'. range_of (udpBuff r) 0 end'))"

definition rtp_ssrc :: "rtp \<Rightarrow> u32 res" where "rtp_ssrc r = getSsrc (udpBuff r)"
definition rtp_timestamp :: "rtp \<Rightarrow> u32 res" where "rtp_timestamp r = getTimestamp (udpBuff r)"
definition rtp_payloadType :: "rtp \<Rightarrow> u8 res" where "rtp_payloadType r = getPayloadType (udpBuff r)"
definition rtp_marker :: "rtp \<Rightarrow> bool res" where "rtp_marker r = getMark (udpBuff r)"
definition rtp_seq :: "rtp \<Rightarrow> u16 res" where "rtp_seq r = getSeq (udpBuff r)"

definition updateSsrc :: "rtp \<Rightarrow> u32 \<Rightarrow> rtp res" where
  "updateSsrc r ssrc = andThen (setSsrc (udpBuff r) ssrc) (\<lambda>b. Inr (r\<lparr>udpBuff := b\<rparr>))"

definition updateTimestamp :: "rtp \<Rightarrow> u32 \<Rightarrow> rtp res" where
  "updateTimestamp r ts = andThen (setTimestamp (udpBuff r) ts) (\<lambda>b. Inr (r\<lparr>udpBuff := b\<rparr>))"

definition updateSeq :: "rtp \<Rightarrow> u16 \<Rightarrow> rtp res" where
  "updateSeq r seq = andThen (setSeq (udpBuff r) seq) (\<lambda>b. Inr (r\<lparr>udpBuff := b\<rparr>))"


subsection \<open>Writing a field\<close>

lemma writeAt_append:
  assumes "LENGTH('a) div 8 \<le> length ys"
  shows "writeAt (xs @ ys) (length xs) (num :: 'a::len word)
       = Inr (xs @ beBytes num @ drop (LENGTH('a) div 8) ys)"
  using assms by (simp add: writeAt_def writeData_be)

lemma writeAt_eq:
  assumes "pos + LENGTH('a) div 8 \<le> length h"
  shows "writeAt h pos (num :: 'a::len word)
       = Inr (take pos h @ beBytes num @ drop (pos + LENGTH('a) div 8) h)"
  using assms by (simp add: writeAt_def writeData_be add.commute)

lemma beBytes_byte [simp]: "beBytes (b :: u8) = [b]"
  by (simp add: beBytes_def)

lemma writeBytesFrom_append:
  "length ys = length zs \<Longrightarrow>
   writeBytesFrom (length ys) (length xs) (xs @ zs) (xs' @ ys) = Inr (xs @ ys)"
  if "length xs' = length xs" for xs xs'
  using that
proof (induction ys arbitrary: xs xs' zs)
  case Nil
  then show ?case by simp
next
  case (Cons y ys)
  then obtain z zs' where zs: "zs = z # zs'" by (cases zs) auto
  have "writeBytesFrom (length ys) (length (xs @ [y])) ((xs @ [y]) @ zs') ((xs' @ [y]) @ ys)
      = Inr ((xs @ [y]) @ ys)"
    by (rule Cons.IH) (use Cons.prems zs in auto)
  then show ?case using Cons.prems zs by (simp add: nth_append)
qed

lemma writeBytes_full: "length zs = length ys \<Longrightarrow> writeBytes zs ys (length ys) = Inr ys"
  using writeBytesFrom_append [of "[]" "[]" ys zs] by (simp add: writeBytes_def)

subsection \<open>The layout a constructed packet has\<close>

definition firstByteOf :: u8 where
  "firstByteOf = push_bit 6 2 OR push_bit 5 0 OR push_bit 4 0 OR 0"

definition secondByteOf :: "int \<Rightarrow> bool \<Rightarrow> u8" where
  "secondByteOf pt marker = push_bit 7 (of_bool marker) OR word_of_int pt"

lemma firstByteOf_eq: "firstByteOf = 0x80"
  by (simp add: firstByteOf_def)

lemma Rtp_make_layout:
  assumes "0 \<le> pt" "pt \<le> 127"
  shows "Rtp_make pt marker seq ts ssrc payload
       = Inr \<lparr>udpBuff = firstByteOf # secondByteOf pt marker # beBytes seq @ beBytes ts @ beBytes ssrc @ payload,
              isValid = True\<rparr>"
proof -
  let ?z = "\<lambda>n. replicate n (0 :: u8)"
  let ?f = firstByteOf and ?s = "secondByteOf pt marker" and ?n = "length payload"
  have 1: "writeAt (?z (12 + ?n)) 0 ?f = Inr ([?f] @ ?z (11 + ?n))"
    using writeAt_append [of "?z (12 + ?n)" "[]" ?f] by simp
  have 2: "writeAt ([?f] @ ?z (11 + ?n)) 1 ?s = Inr ([?f, ?s] @ ?z (10 + ?n))"
    using writeAt_append [of "?z (11 + ?n)" "[?f]" ?s] by simp
  have 3: "writeAt ([?f, ?s] @ ?z (10 + ?n)) 2 seq = Inr ((?f # ?s # beBytes seq) @ ?z (8 + ?n))"
    using writeAt_append [of "?z (10 + ?n)" "[?f, ?s]" seq] by (simp add: numeral_2_eq_2)
  have 4: "writeAt ((?f # ?s # beBytes seq) @ ?z (8 + ?n)) 4 ts
         = Inr ((?f # ?s # beBytes seq @ beBytes ts) @ ?z (4 + ?n))"
    using writeAt_append [of "?z (8 + ?n)" "?f # ?s # beBytes seq" ts] by simp
  have 5: "writeAt ((?f # ?s # beBytes seq @ beBytes ts) @ ?z (4 + ?n)) 8 ssrc
         = Inr ((?f # ?s # beBytes seq @ beBytes ts @ beBytes ssrc) @ ?z ?n)"
    using writeAt_append [of "?z (4 + ?n)" "?f # ?s # beBytes seq @ beBytes ts" ssrc] by simp
  have 6: "writeBytes (drop 12 ((?f # ?s # beBytes seq @ beBytes ts @ beBytes ssrc) @ ?z ?n)) payload ?n
         = Inr payload"
    by (simp add: writeBytes_full)
  show ?thesis
    unfolding Rtp_make_def Let_def firstByteOf_def [symmetric] secondByteOf_def [symmetric]
      HEADER_FIXED_LENGTH_def
    using assms by (simp only: 1 2 3 4 5 6 andThen_Inr if_False not_less) simp
qed

subsection \<open>Reading the fields back\<close>

lemma readData_field:
  fixes x :: "'a::len word"
  assumes "8 dvd LENGTH('a)" and "drop pos h = beBytes x @ rest"
  shows "readData (drop pos h) False = Inr x"
  by (simp add: assms readData_be)

lemma readLoop_cong:
  "(\<And>j. j \<in> set js \<Longrightarrow> at b j = at b' j) \<Longrightarrow> readLoop b js num = readLoop b' js num"
proof (induction js arbitrary: num)
  case Nil
  then show ?case by simp
next
  case (Cons j js)
  then have "at b j = at b' j" by simp
  with Cons show ?case by simp
qed

lemma readData_cong:
  "(\<And>j. j < LENGTH('a) div 8 \<Longrightarrow> at b j = at b' j) \<Longrightarrow>
   (readData b False :: 'a::len word res) = readData b' False"
  by (simp add: readData_def Let_def) (rule readLoop_cong, simp)

lemma secondByteOf_fields:
  assumes "0 \<le> pt" "pt \<le> 127"
  shows "secondByteOf pt marker AND 0x7F = word_of_int pt"
    and "drop_bit 7 (secondByteOf pt marker) AND 0x01 \<noteq> 0 \<longleftrightarrow> marker"
proof -
  let ?w = "word_of_int pt :: u8"
  have p: "take_bit 7 pt = pt"
    using assms by (simp add: take_bit_int_eq_self)
  have bp: "bit pt n \<Longrightarrow> n < 7" for n
    by (subst (asm) p [symmetric]) (simp add: bit_simps)
  then have b: "bit ?w n \<Longrightarrow> n < 7" for n
    by (simp add: bit_simps)
  have m: "(0x7F :: u8) = mask 7" by (simp add: mask_eq_exp_minus_1)
  show "secondByteOf pt marker AND 0x7F = ?w"
    unfolding m secondByteOf_def
    by (rule bit_word_eqI) (auto simp: bit_simps dest: bp)
  have "drop_bit 7 (secondByteOf pt marker) AND 0x01 \<noteq> 0 \<longleftrightarrow> bit (secondByteOf pt marker) 7"
    by (rule drop_bit_and_one_nonzero)
  also have "\<dots> \<longleftrightarrow> marker"
    using b [of 7] by (auto simp: secondByteOf_def bit_simps)
  finally show "drop_bit 7 (secondByteOf pt marker) AND 0x01 \<noteq> 0 \<longleftrightarrow> marker" .
qed

lemma drop_bit_0_id [simp]: "drop_bit 0 (b :: 'a::len word) = b"
  by simp

text \<open>The length of header and extension that the first byte and the extension header announce.\<close>

definition csrcCountOf :: "bytes \<Rightarrow> nat" where
  "csrcCountOf d = unat (d ! 0 AND 0x0F)"

definition extensionOf :: "bytes \<Rightarrow> bool" where
  "extensionOf d \<longleftrightarrow> drop_bit 4 (d ! 0) AND 0x01 \<noteq> 0"

definition extWordsOf :: "bytes \<Rightarrow> nat" where
  "extWordsOf d = unat (case readData (drop (14 + csrcCountOf d * 4) d) False of Inr (w :: u16) \<Rightarrow> w | Inl _ \<Rightarrow> 0)"

definition headerLengthOf :: "bytes \<Rightarrow> nat" where
  "headerLengthOf d = 12 + csrcCountOf d * 4 + (if extensionOf d then (extWordsOf d + 1) * 4 else 0)"

lemma extension_read:
  assumes "16 + csrcCountOf d * 4 \<le> length d"
  obtains w :: u16 where "readData (drop (14 + csrcCountOf d * 4) d) False = Inr w"
    and "extWordsOf d = unat w"
proof -
  have "isOk (readData (drop (14 + csrcCountOf d * 4) d) False :: u16 res)"
    using assms by (simp add: readData_isOk)
  then obtain w :: u16 where "readData (drop (14 + csrcCountOf d * 4) d) False = Inr w"
    by (auto simp: isOk_def)
  then show ?thesis using that by (simp add: extWordsOf_def)
qed

lemma getExtensionLength_eq:
  assumes "16 + csrcCountOf d * 4 \<le> length d" "extensionOf d"
  shows "getExtensionLength d = Inr ((extWordsOf d + 1) * 4)"
proof -
  obtain w :: u16 where w: "readData (drop (14 + csrcCountOf d * 4) d) False = Inr w"
    "extWordsOf d = unat w"
    using assms(1) by (rule extension_read)
  have "0 < length d" using assms(1) by auto
  then show ?thesis using assms(2) w
    by (simp add: getExtensionLength_def Let_def csrcCountOf_def extensionOf_def add.commute)
qed

lemma isValidRtp_eq:
  "isValidRtp d = Inr (12 \<le> length d \<and> drop_bit 6 (d ! 0) AND 0x03 = 2
      \<and> (extensionOf d \<longrightarrow> 16 + csrcCountOf d * 4 \<le> length d) \<and> headerLengthOf d \<le> length d)"
proof (cases "12 \<le> length d")
  case True
  then have 0: "at_throw d 0 = Inr (d ! 0)" by (intro at_throw_ok) auto
  show ?thesis
    using True getExtensionLength_eq [of d]
    by (auto simp: isValidRtp_def 0 HEADER_FIXED_LENGTH_def Let_def csrcCountOf_def [symmetric]
        extensionOf_def [symmetric] headerLengthOf_def not_less)
next
  case False
  then show ?thesis by (simp add: isValidRtp_def HEADER_FIXED_LENGTH_def)
qed

lemma getHeaderLength_eq:
  assumes "12 \<le> length (udpBuff r)" "headerLengthOf (udpBuff r) \<le> length (udpBuff r)"
    "extensionOf (udpBuff r) \<longrightarrow> 16 + csrcCountOf (udpBuff r) * 4 \<le> length (udpBuff r)"
  shows "getHeaderLength r = Inr (headerLengthOf (udpBuff r))"
proof -
  let ?d = "udpBuff r"
  have 0: "at_throw ?d 0 = Inr (?d ! 0)" "?d \<noteq> []" using assms(1) by (auto intro: at_throw_ok)
  show ?thesis
  proof (cases "extensionOf ?d")
    case True
    then obtain w :: u16 where w: "readData (drop (14 + csrcCountOf ?d * 4) ?d) False = Inr w"
      "extWordsOf ?d = unat w"
      using assms(3) by (blast elim: extension_read)
    show ?thesis using assms True w 0
      by (auto simp: getHeaderLength_def HEADER_FIXED_LENGTH_def Let_def csrcCountOf_def [symmetric]
          extensionOf_def [symmetric] headerLengthOf_def add.commute add.left_commute)
  next
    case False
    then show ?thesis using assms 0
      by (auto simp: getHeaderLength_def HEADER_FIXED_LENGTH_def Let_def csrcCountOf_def [symmetric]
          extensionOf_def [symmetric] headerLengthOf_def)
  qed
qed

lemma isValidRtp_validD:
  assumes "isValidRtp d = Inr True"
  shows "12 \<le> length d" "headerLengthOf d \<le> length d"
    "extensionOf d \<longrightarrow> 16 + csrcCountOf d * 4 \<le> length d"
  using assms by (simp_all add: isValidRtp_eq)

lemma paddingLength_eq:
  assumes "0 < length (udpBuff r)"
  shows "paddingLength r =
    Inr (if drop_bit 5 (udpBuff r ! 0) AND 0x01 \<noteq> 0 then unat (last (udpBuff r)) else 0)"
  using assms by (simp add: paddingLength_def getPadding_def last_conv_nth)

subsection \<open>Validation, construction, payload extraction\<close>

text \<open>C1: validation never faults, whatever bytes arrive; and for a datagram it accepts, the
  separate computation of the header length (which the payload accessors use) also succeeds and
  stays inside the buffer, CSRC list and header extension included.\<close>

theorem isValidRtp_safe:
  "\<exists>v. isValidRtp d = Inr v \<and>
     (v \<longrightarrow> (\<exists>n. getHeaderLength \<lparr>udpBuff = d, isValid = v\<rparr> = Inr n \<and> 12 \<le> n \<and> n \<le> length d))"
proof -
  have "isValidRtp d = Inr True \<Longrightarrow>
    getHeaderLength \<lparr>udpBuff = d, isValid = True\<rparr> = Inr (headerLengthOf d) \<and> 12 \<le> headerLengthOf d
      \<and> headerLengthOf d \<le> length d"
    using isValidRtp_validD [of d] getHeaderLength_eq [of "\<lparr>udpBuff = d, isValid = True\<rparr>"]
    by (simp add: headerLengthOf_def)
  moreover obtain v where "isValidRtp d = Inr v" using isValidRtp_eq [of d] by blast
  ultimately show ?thesis by (cases v) auto
qed

definition samplePacket :: bytes where
  "samplePacket = [0x90, 0x60, 0, 7, 0, 0, 0, 1, 0, 0, 0, 2, 0xBE, 0xDE, 0, 1, 1, 2, 3, 4, 9]"

lemma samplePacket_valid: "isValidRtp samplePacket = Inr True"
  by (simp add: isValidRtp_def samplePacket_def HEADER_FIXED_LENGTH_def getExtensionLength_def
      readData_def upt_rec)

theorem isValidRtp_safe_witness:
  "\<exists>n. getHeaderLength \<lparr>udpBuff = samplePacket, isValid = True\<rparr> = Inr n \<and> 12 \<le> n \<and> n \<le> 21"
proof -
  have "length samplePacket = 21" by (simp add: samplePacket_def)
  then show ?thesis using isValidRtp_safe [of samplePacket] samplePacket_valid by auto
qed

text \<open>C28: a packet built from its fields validates, and every accessor returns the field it was
  built from; the payload comes back unchanged.\<close>

theorem Rtp_make_roundtrip:
  assumes "0 \<le> pt" "pt \<le> 127"
  shows "\<exists>r. Rtp_make pt marker seq ts ssrc payload = Inr r \<and> isValidRtp (udpBuff r) = Inr True
    \<and> rtp_payloadType r = Inr (word_of_int pt) \<and> rtp_marker r = Inr marker \<and> rtp_seq r = Inr seq
    \<and> rtp_timestamp r = Inr ts \<and> rtp_ssrc r = Inr ssrc
    \<and> getHeaderLength r = Inr 12 \<and> getPayload r = Inr payload"
proof -
  let ?d = "firstByteOf # secondByteOf pt marker # beBytes seq @ beBytes ts @ beBytes ssrc @ payload"
  let ?r = "\<lparr>udpBuff = ?d, isValid = True\<rparr>"
  have hl: "headerLengthOf ?d = 12" "\<not> extensionOf ?d"
    by (simp_all add: headerLengthOf_def csrcCountOf_def extensionOf_def firstByteOf_eq)
  have valid: "isValidRtp ?d = Inr True"
    by (simp add: isValidRtp_eq hl) (simp add: firstByteOf_eq)
  have header: "getHeaderLength ?r = Inr 12"
    using getHeaderLength_eq [of ?r] hl by simp
  have pad: "paddingLength ?r = Inr 0"
    by (simp add: paddingLength_eq firstByteOf_eq)
  have fields: "rtp_seq ?r = Inr seq" "rtp_timestamp ?r = Inr ts" "rtp_ssrc ?r = Inr ssrc"
    unfolding rtp_seq_def getSeq_def rtp_timestamp_def getTimestamp_def rtp_ssrc_def getSsrc_def
    by (rule readData_field; simp)+
  have pt: "rtp_payloadType ?r = Inr (word_of_int pt)" and m: "rtp_marker ?r = Inr marker"
    using secondByteOf_fields [OF assms, of marker]
    by (simp_all add: rtp_payloadType_def getPayloadType_def rtp_marker_def getMark_def)
  have payload: "getPayload ?r = Inr payload"
    by (simp add: getPayload_def ensureValid_def header pad range_of_def)
  show ?thesis
    using Rtp_make_layout [OF assms] valid header fields pt m payload by simp
qed

theorem Rtp_make_roundtrip_witness:
  "\<exists>r. Rtp_make 96 True 65535 90000 0xDEADBEEF [1, 2, 3] = Inr r \<and> rtp_seq r = Inr 65535
     \<and> rtp_payloadType r = Inr 96 \<and> getPayload r = Inr [1, 2, 3]"
  using Rtp_make_roundtrip [where pt = 96 and marker = True and seq = 65535 and ts = 90000
      and ssrc = "0xDEADBEEF" and payload = "[1, 2, 3]"] by auto

text \<open>On a validated datagram the payload is exactly the bytes between the header and the
  padding, provided the padding count fits; validation does not check that count, and when the
  last byte claims more padding than there is payload the copy is undefined behaviour.\<close>

theorem getPayload_validated:
  assumes "isValidRtp d = Inr True"
  shows "getPayload \<lparr>udpBuff = d, isValid = True\<rparr> =
    (let pad = (if bit (d ! 0) 5 then unat (last d) else 0)
     in if headerLengthOf d + pad \<le> length d
        then Inr (take (length d - pad - headerLengthOf d) (drop (headerLengthOf d) d))
        else Inl Undefined)"
proof -
  let ?r = "\<lparr>udpBuff = d, isValid = True\<rparr>"
  have "getHeaderLength ?r = Inr (headerLengthOf d)"
    using getHeaderLength_eq [of ?r] isValidRtp_validD [OF assms] by simp
  moreover have "paddingLength ?r = Inr (if bit (d ! 0) 5 then unat (last d) else 0)"
  proof -
    have "d \<noteq> []" using isValidRtp_validD(1) [OF assms] by auto
    then show ?thesis using paddingLength_eq [of ?r] by (simp add: drop_bit_and_one_nonzero)
  qed
  ultimately show ?thesis
    by (auto simp: getPayload_def ensureValid_def range_of_def Let_def)
qed

definition overPaddedPacket :: bytes where
  "overPaddedPacket = [0xA0, 0x60, 0, 7, 0, 0, 0, 1, 0, 0, 0, 2, 9]"

lemma overPaddedPacket_valid: "isValidRtp overPaddedPacket = Inr True"
  by (simp add: isValidRtp_def overPaddedPacket_def HEADER_FIXED_LENGTH_def)

theorem getPayload_validated_witness:
  "getPayload \<lparr>udpBuff = overPaddedPacket, isValid = True\<rparr> = Inl Undefined"
  using getPayload_validated [OF overPaddedPacket_valid]
  by (simp add: overPaddedPacket_def headerLengthOf_def csrcCountOf_def extensionOf_def bit_numeral_rec)

text \<open>Rewriting one field of the fixed header.\<close>

lemma at_rewrite:
  "pos + k \<le> length h \<Longrightarrow> length ys = k \<Longrightarrow> j < pos \<or> pos + k \<le> j \<Longrightarrow>
   at (take pos h @ ys @ drop (pos + k) h) j = at h j"
  by (auto simp: at_def nth_append)

lemma readData_rewrite:
  assumes "pos + k \<le> length h" "length ys = k" "p + LENGTH('a) div 8 \<le> pos \<or> pos + k \<le> p"
    "p + LENGTH('a) div 8 \<le> length h"
  shows "(readData (drop p (take pos h @ ys @ drop (pos + k) h)) False :: 'a::len word res)
       = readData (drop p h) False"
proof (rule readData_cong)
  fix j assume j: "j < LENGTH('a) div 8"
  let ?h = "take pos h @ ys @ drop (pos + k) h"
  have "at ?h (p + j) = at h (p + j)" by (rule at_rewrite) (use assms j in auto)
  moreover have shift: "at (drop p b) j = at b (p + j)" if "length b = length h" for b :: bytes
    using that assms(4) j by (simp add: at_def)
  moreover have "length ?h = length h" using assms(1,2) by simp
  ultimately show "at (drop p ?h) j = at (drop p h) j" by metis
qed

text \<open>On a buffer that holds a fixed header, rewriting the SSRC of a packet succeeds, the new
  SSRC is read back, and neither the other fields, nor the length, nor the header length that the
  packet announces change.\<close>

theorem updateSsrc_frame:
  assumes "12 \<le> length (udpBuff r)"
  shows "\<exists>r'. updateSsrc r ssrc = Inr r' \<and> rtp_ssrc r' = Inr ssrc \<and> rtp_seq r' = rtp_seq r
    \<and> rtp_timestamp r' = rtp_timestamp r \<and> rtp_payloadType r' = rtp_payloadType r
    \<and> rtp_marker r' = rtp_marker r \<and> isValidRtp (udpBuff r') = isValidRtp (udpBuff r)"
proof -
  let ?h = "udpBuff r"
  let ?h' = "take 8 ?h @ beBytes ssrc @ drop (8 + 4) ?h"
  have upd: "updateSsrc r ssrc = Inr (r\<lparr>udpBuff := ?h'\<rparr>)"
    using assms by (simp add: updateSsrc_def setSsrc_def writeAt_eq)
  have len: "length ?h' = length ?h" using assms by simp
  have at: "at ?h' j = at ?h j" if "j < 8 \<or> 12 \<le> j" for j
    using that assms by (intro at_rewrite) auto
  have nth0: "?h' ! 0 = ?h ! 0" using assms by (simp add: nth_append)
  have tail: "drop p ?h' = drop p ?h" if "12 \<le> p" for p
    using that assms by (simp add: drop_append)
  have read: "(readData (drop 2 ?h') False :: u16 res) = readData (drop 2 ?h) False"
    "(readData (drop 4 ?h') False :: u32 res) = readData (drop 4 ?h) False"
    by (rule readData_rewrite; use assms in simp)+
  have "drop 8 ?h' = beBytes ssrc @ drop 12 ?h" using assms by (simp add: drop_append)
  then have ssrc: "(readData (drop 8 ?h') False) = Inr ssrc"
    by (intro readData_field) simp_all
  have valid: "isValidRtp ?h' = isValidRtp ?h"
    unfolding isValidRtp_eq headerLengthOf_def extWordsOf_def csrcCountOf_def extensionOf_def
      nth0 len
    by (subst tail) simp_all
  show ?thesis
    unfolding upd rtp_ssrc_def rtp_seq_def rtp_timestamp_def rtp_payloadType_def rtp_marker_def
      getSsrc_def getSeq_def getTimestamp_def getPayloadType_def getMark_def
    using ssrc read valid at [of 1] by simp
qed

theorem updateSsrc_frame_witness:
  "\<exists>r'. updateSsrc \<lparr>udpBuff = samplePacket, isValid = True\<rparr> 77 = Inr r' \<and> rtp_ssrc r' = Inr 77
     \<and> isValidRtp (udpBuff r') = Inr True"
  using updateSsrc_frame [of "\<lparr>udpBuff = samplePacket, isValid = True\<rparr>" 77] samplePacket_valid
  by (auto simp: samplePacket_def)

end
