(* ===== verification/RtpUtil.thy ===== *)
theory RtpUtil
  imports RtpHeader
begin

text \<open>
  \<open>mod/janitor/include/seeker/RtpUtil.hpp\<close>: a second reader of the fixed RTP header, into a structure. It reads through
  \<open>readData\<close> where \<open>Rtp.hpp\<close> indexes the buffer; the two agree, except that this one refuses header extensions.
\<close>

record rtpHeader =
  h_version :: u8
  h_padding :: u8
  h_extension :: u8
  h_csrcCount :: u8
  h_marker :: u8
  h_payloadType :: u8
  h_seqNum :: u16
  h_timestamp :: u32
  h_ssrc :: u32

definition util_getMark :: "bytes \<Rightarrow> bool res" where
  "util_getMark h = andThen (readData (drop 1 h) False) (\<lambda>secondByte :: u8. Inr (drop_bit 7 secondByte AND 0x01 \<noteq> 0))"

definition util_getPayloadType :: "bytes \<Rightarrow> int res" where
  "util_getPayloadType h =
     andThen (readData (drop 1 h) False) (\<lambda>secondByte :: u8. Inr (uint (drop_bit 0 secondByte AND 0x7F)))"

definition util_getSeq :: "bytes \<Rightarrow> u16 res" where
  "util_getSeq h = readData (drop 2 h) False"

definition util_getTimestamp :: "bytes \<Rightarrow> u32 res" where
  "util_getTimestamp h = readData (drop 4 h) False"

definition util_getSsrc :: "bytes \<Rightarrow> u32 res" where
  "util_getSsrc h = readData (drop 8 h) False"

definition getRtpHeader :: "bytes \<Rightarrow> rtpHeader res" where
  "getRtpHeader buf =
     andThen (readData (drop 0 buf) False) (\<lambda>firstByte :: u8.
     andThen (readData (drop 1 buf) False) (\<lambda>secondByte :: u8.
       if drop_bit 4 firstByte AND 0x01 \<noteq> 0 then Inl (RuntimeError ''do not supported header extension.'')
       else
         andThen (readData (drop 2 buf) False) (\<lambda>seqNum.
         andThen (readData (drop 4 buf) False) (\<lambda>timestamp.
         andThen (readData (drop 8 buf) False) (\<lambda>ssrc.
           Inr \<lparr>h_version = drop_bit 6 firstByte AND 0x03, h_padding = drop_bit 5 firstByte AND 0x01,
                h_extension = drop_bit 4 firstByte AND 0x01, h_csrcCount = drop_bit 0 firstByte AND 0x0F,
                h_marker = drop_bit 7 secondByte AND 0x01, h_payloadType = drop_bit 0 secondByte AND 0x7F,
                h_seqNum = seqNum, h_timestamp = timestamp, h_ssrc = ssrc\<rparr>)))))"

lemma readData_byte: "(readData (drop n h) False :: u8 res) = at h n" "(readData h False :: u8 res) = at h 0"
  by (cases "n < length h"; simp add: readData_def at_def) (simp add: readData_def at_def)

lemma util_accessors:
  "util_getMark h = getMark h" "util_getPayloadType h = andThen (getPayloadType h) (\<lambda>b. Inr (uint b))"
  "util_getSeq h = getSeq h" "util_getTimestamp h = getTimestamp h" "util_getSsrc h = getSsrc h"
  by (simp_all add: readData_byte(1) util_getMark_def getMark_def util_getPayloadType_def getPayloadType_def
      util_getSeq_def getSeq_def util_getTimestamp_def getTimestamp_def util_getSsrc_def getSsrc_def
      andThen_assoc)

text \<open>It succeeds on a whole fixed header without the extension bit, and only there.\<close>

lemma getRtpHeader_isOk: "isOk (getRtpHeader h) \<longleftrightarrow> 12 \<le> length h \<and> hasExtension h = Inr False"
proof (cases "12 \<le> length h")
  case True
  have "isOk (readData (drop 2 h) False :: u16 res)" "isOk (readData (drop 4 h) False :: u32 res)"
    "isOk (readData (drop 8 h) False :: u32 res)"
    using True by (simp_all add: readData_isOk)
  then show ?thesis
    using True by (auto simp: getRtpHeader_def hasExtension_def readData_byte at_def isOk_def)
next
  case False
  then have "\<not> isOk (readData (drop 8 h) False :: u32 res)" by (simp add: readData_isOk)
  then show ?thesis
    using False by (auto simp: getRtpHeader_def isOk_def andThen_eq_Inr split: if_splits)
qed

text \<open>
  On a fixed header without the extension bit the structure is read, it holds what the accessors of \<open>Rtp.hpp\<close> read,
  and where the datagram is long enough its count of sources gives the length of the header.
\<close>

theorem getRtpHeader_agrees:
  assumes "12 \<le> length h" "hasExtension h = Inr False"
  shows "\<exists>r. getRtpHeader h = Inr r \<and> h_extension r = 0 \<and> getVersion h = Inr (h_version r)
    \<and> getPadding h = Inr (h_padding r \<noteq> 0) \<and> getMarker h = Inr (h_marker r \<noteq> 0) \<and> getPayloadType h = Inr (h_payloadType r)
    \<and> getSeq h = Inr (h_seqNum r) \<and> getTimestamp h = Inr (h_timestamp r) \<and> getSsrc h = Inr (h_ssrc r)
    \<and> (12 + unat (h_csrcCount r) * 4 \<le> length h \<longrightarrow>
         getHeaderLength \<lparr>udpBuff = h, isValid = v\<rparr> = Inr (12 + unat (h_csrcCount r) * 4))"
proof -
  obtain r where r: "getRtpHeader h = Inr r" using assms getRtpHeader_isOk [of h] by (auto simp: isOk_def)
  have "h \<noteq> []" using assms(1) by auto
  then have "h_extension r = 0 \<and> getVersion h = Inr (h_version r)
    \<and> getPadding h = Inr (h_padding r \<noteq> 0) \<and> getMarker h = Inr (h_marker r \<noteq> 0) \<and> getPayloadType h = Inr (h_payloadType r)
    \<and> getSeq h = Inr (h_seqNum r) \<and> getTimestamp h = Inr (h_timestamp r) \<and> getSsrc h = Inr (h_ssrc r)
    \<and> (12 + unat (h_csrcCount r) * 4 \<le> length h \<longrightarrow>
         getHeaderLength \<lparr>udpBuff = h, isValid = v\<rparr> = Inr (12 + unat (h_csrcCount r) * 4))"
    using r assms
    by (auto simp: getRtpHeader_def readData_byte at_def at_throw_def getVersion_def getPadding_def hasExtension_def
        getMarker_def getPayloadType_def getSeq_def getTimestamp_def getSsrc_def getHeaderLength_def
        HEADER_FIXED_LENGTH_def andThen_eq_Inr split: if_splits)
  then show ?thesis using r by blast
qed

theorem getRtpHeader_agrees_witness:
  "\<exists>r. getRtpHeader [0x80, 0xE0, 0, 1, 0, 0, 0, 2, 0, 0, 0, 3] = Inr r
     \<and> getSeq [0x80, 0xE0, 0, 1, 0, 0, 0, 2, 0, 0, 0, 3] = Inr (h_seqNum r)"
proof -
  have "hasExtension [0x80, 0xE0, 0, 1, 0, 0, 0, 2, 0, 0, 0, 3] = Inr False" by (simp add: hasExtension_def at_def)
  then show ?thesis using getRtpHeader_agrees [of "[0x80, 0xE0, 0, 1, 0, 0, 0, 2, 0, 0, 0, 3]"] by auto
qed

end
