(* ===== verification/RtcpPacket.thy ===== *)
theory RtcpPacket
  imports RtpHeader
begin

text \<open>
  RTCP packets, after \<open>mod/janitor/include/rtpTrs/Rtcp.hpp\<close>: the accessors on a raw header, the
  classification of a datagram, and the class \<open>Rtcp\<close>, which builds and reads the two feedback
  messages the program sends: Picture Loss Indication (RFC 4585) and Full Intra Request
  (RFC 5104).
\<close>

subsection \<open>Accessors on a raw header\<close>

definition getRtcpVersion :: "bytes \<Rightarrow> u8 res" where
  "getRtcpVersion h = andThen (at h 0) (\<lambda>firstByte. Inr (drop_bit 6 firstByte AND 0x03))"

definition getRtcpPadding :: "bytes \<Rightarrow> bool res" where
  "getRtcpPadding h = andThen (at h 0) (\<lambda>firstByte. Inr (drop_bit 5 firstByte AND 0x01 \<noteq> 0))"

definition getRtcpPayloadType :: "bytes \<Rightarrow> u8 res" where
  "getRtcpPayloadType h = andThen (at h 1) (\<lambda>secondByte. Inr (drop_bit 0 secondByte AND 0xFF))"

definition getRtcpLength :: "bytes \<Rightarrow> u16 res" where
  "getRtcpLength h = readData (drop 2 h) False"

text \<open>
  The scoped enumeration has the underlying type \<open>uint8_t\<close>, and \<open>findRtcpType\<close> casts 192 and
  193, for which it names no enumerator, to it: \<open>Unnamed\<close> holds those two.
\<close>

datatype RtcpType = UNKNOWN | SR | RR | SDES | BYE | APP | RTPFB | PSFB | XR | Unnamed u8

fun RtcpType_value :: "RtcpType \<Rightarrow> u8" where
  "RtcpType_value UNKNOWN = 0"
| "RtcpType_value SR = 200"
| "RtcpType_value RR = 201"
| "RtcpType_value SDES = 202"
| "RtcpType_value BYE = 203"
| "RtcpType_value APP = 204"
| "RtcpType_value RTPFB = 205"
| "RtcpType_value PSFB = 206"
| "RtcpType_value XR = 207"
| "RtcpType_value (Unnamed v) = v"

definition RtcpType_of :: "u8 \<Rightarrow> RtcpType" where
  "RtcpType_of v =
     (if v = 0 then UNKNOWN else if v = 200 then SR else if v = 201 then RR
      else if v = 202 then SDES else if v = 203 then BYE else if v = 204 then APP
      else if v = 205 then RTPFB else if v = 206 then PSFB else if v = 207 then XR
      else Unnamed v)"

definition findRtcpType :: "bytes \<Rightarrow> RtcpType res" where
  "findRtcpType rtcpData =
     andThen (getRtcpVersion rtcpData) (\<lambda>v.
       if v \<noteq> 2 then Inr UNKNOWN
       else andThen (getRtcpPayloadType rtcpData) (\<lambda>pt.
         if pt = 192 \<or> pt = 193 \<or> (pt \<ge> 200 \<and> pt \<le> 207) then Inr (RtcpType_of pt)
         else Inr UNKNOWN))"

definition getFmtValue :: "bytes \<Rightarrow> u8 res" where
  "getFmtValue h = andThen (at h 0) (\<lambda>firstByte. Inr (drop_bit 0 firstByte AND 0x1F))"

text \<open>\<open>getFCI\<close> is a stub in the source: it ignores the header and returns an empty vector.\<close>

definition getFCI :: "bytes \<Rightarrow> bytes" where
  "getFCI rtcpHeader = []"

datatype FMT = FMT_UNKNOWN | NACK | PLI | FIR

subsection \<open>The class Rtcp\<close>

record rtcp =
  rtcpBuff :: bytes
  rtcpType :: RtcpType

definition Rtcp_empty :: rtcp where
  "Rtcp_empty = \<lparr>rtcpBuff = [], rtcpType = UNKNOWN\<rparr>"

definition Rtcp_of_udp :: "bytes \<Rightarrow> rtcp res" where
  "Rtcp_of_udp udp = andThen (findRtcpType udp) (\<lambda>t. Inr \<lparr>rtcpBuff = udp, rtcpType = t\<rparr>)"

text \<open>The copy and move constructors and assignments classify the buffer again.\<close>

definition Rtcp_copy :: "rtcp \<Rightarrow> rtcp res" where
  "Rtcp_copy o' = andThen (findRtcpType (rtcpBuff o')) (\<lambda>t.
     Inr \<lparr>rtcpBuff = rtcpBuff o', rtcpType = t\<rparr>)"

text \<open>The move leaves the source with an empty buffer and its old type: (moved-to, moved-from).\<close>

definition Rtcp_move :: "rtcp \<Rightarrow> (rtcp \<times> rtcp) res" where
  "Rtcp_move o' = andThen (findRtcpType (rtcpBuff o')) (\<lambda>t.
     Inr (\<lparr>rtcpBuff = rtcpBuff o', rtcpType = t\<rparr>, o'\<lparr>rtcpBuff := []\<rparr>))"

definition Rtcp_reset :: "rtcp \<Rightarrow> bytes \<Rightarrow> rtcp res" where
  "Rtcp_reset r udp = andThen (findRtcpType udp) (\<lambda>t. Inr \<lparr>rtcpBuff = udp, rtcpType = t\<rparr>)"

definition Rtcp_takeRawData :: "rtcp \<Rightarrow> bytes \<times> rtcp" where
  "Rtcp_takeRawData r = (rtcpBuff r, \<lparr>rtcpBuff = [], rtcpType = UNKNOWN\<rparr>)"

text \<open>The overload that swaps the buffer with the caller's.\<close>

definition Rtcp_swapRawData :: "rtcp \<Rightarrow> bytes \<Rightarrow> bytes \<times> rtcp" where
  "Rtcp_swapRawData r buf = (rtcpBuff r, \<lparr>rtcpBuff = buf, rtcpType = UNKNOWN\<rparr>)"

text \<open>\<open>vector::resize\<close>: cut off, or extend with zeros. The bytes kept are all overwritten below.\<close>

definition resize :: "nat \<Rightarrow> bytes \<Rightarrow> bytes" where
  "resize n buf = take n buf @ replicate (n - length buf) 0"

definition createPLI :: "rtcp \<Rightarrow> u32 \<Rightarrow> u32 \<Rightarrow> rtcp res" where
  "createPLI r senderSsrc mediaSsrc =
     (let buf = resize 12 (rtcpBuff r);
          firstByte = (push_bit 6 2 OR push_bit 5 0 OR push_bit 0 1 :: u8);
          secondByte = RtcpType_value PSFB;
          fmtLength = (2 :: u16)
      in andThen (writeAt buf 0 firstByte) (\<lambda>buf.
         andThen (writeAt buf 1 secondByte) (\<lambda>buf.
         andThen (writeAt buf 2 fmtLength) (\<lambda>buf.
         andThen (writeAt buf 4 senderSsrc) (\<lambda>buf.
         andThen (writeAt buf 8 mediaSsrc) (\<lambda>buf.
           Inr \<lparr>rtcpBuff = buf, rtcpType = PSFB\<rparr>))))))"

definition createFIR :: "rtcp \<Rightarrow> u32 \<Rightarrow> u32 \<Rightarrow> u8 \<Rightarrow> rtcp res" where
  "createFIR r senderSsrc mediaSsrc commandSeq =
     (let buf = resize (12 + 4 + 4) (rtcpBuff r);
          firstByte = (push_bit 6 2 OR push_bit 5 0 OR push_bit 0 4 :: u8);
          secondByte = RtcpType_value PSFB;
          fmtLength = (2 + (2 * 1) :: u16);
          emptyMediaSsrc = (0 :: u32);
          bytePadding = (0 :: u8)
      in andThen (writeAt buf 0 firstByte) (\<lambda>buf.
         andThen (writeAt buf 1 secondByte) (\<lambda>buf.
         andThen (writeAt buf 2 fmtLength) (\<lambda>buf.
         andThen (writeAt buf 4 senderSsrc) (\<lambda>buf.
         andThen (writeAt buf 8 emptyMediaSsrc) (\<lambda>buf.
         andThen (writeAt buf 12 mediaSsrc) (\<lambda>buf.
         andThen (writeAt buf 16 commandSeq) (\<lambda>buf.
         andThen (writeAt buf 17 bytePadding) (\<lambda>buf.
         andThen (writeAt buf 18 bytePadding) (\<lambda>buf.
         andThen (writeAt buf 19 bytePadding) (\<lambda>buf.
           Inr \<lparr>rtcpBuff = buf, rtcpType = PSFB\<rparr>)))))))))))"

definition Rtcp_fmt :: "rtcp \<Rightarrow> FMT res" where
  "Rtcp_fmt r =
     (if rtcpType r = RTPFB then
        andThen (getFmtValue (rtcpBuff r)) (\<lambda>fmtValue.
          if fmtValue = 1 then Inr NACK else Inr FMT_UNKNOWN)
      else if rtcpType r = PSFB then
        andThen (getFmtValue (rtcpBuff r)) (\<lambda>fmtValue.
          if fmtValue = 1 then Inr PLI else if fmtValue = 4 then Inr FIR else Inr FMT_UNKNOWN)
      else Inr FMT_UNKNOWN)"

definition PLI_sender_ssrc :: "rtcp \<Rightarrow> u32 res" where
  "PLI_sender_ssrc r =
     (if length (rtcpBuff r) \<noteq> 12 then Inl (LogicError ''PLI_sender_ssrc error: package length = '')
      else readData (drop 4 (rtcpBuff r)) False)"

definition PLI_media_ssrc :: "rtcp \<Rightarrow> u32 res" where
  "PLI_media_ssrc r =
     (if length (rtcpBuff r) \<noteq> 12 then Inl (LogicError ''PLI_media_ssrc error: package length = '')
      else readData (drop 8 (rtcpBuff r)) False)"

definition FIR_sender_ssrc :: "rtcp \<Rightarrow> u32 res" where
  "FIR_sender_ssrc r =
     (if length (rtcpBuff r) < 12 + 4 + 4
      then Inl (LogicError ''FIR_sender_ssrc error: package length = '')
      else readData (drop 4 (rtcpBuff r)) False)"

definition FIR_media_ssrc :: "rtcp \<Rightarrow> u32 res" where
  "FIR_media_ssrc r =
     (if length (rtcpBuff r) < 12 + 4 + 4
      then Inl (LogicError ''FIR_media_ssrc error: package length = '')
      else readData (drop 12 (rtcpBuff r)) False)"

text \<open>The sequence number is read as one byte and returned as a \<open>uint16_t\<close>.\<close>

definition FIR_seq :: "rtcp \<Rightarrow> u16 res" where
  "FIR_seq r =
     (if length (rtcpBuff r) < 12 + 4 + 4
      then Inl (LogicError ''FIR_seq error: package length = '')
      else andThen (readData (drop (12 + 4) (rtcpBuff r)) False) (\<lambda>seq :: u8. Inr (ucast seq)))"

subsection \<open>The layout of the messages built\<close>

lemma length_resize [simp]: "length (resize n buf) = n"
  by (simp add: resize_def)

text \<open>Writing the next field: what is before it stays, what is after it moves on.\<close>

lemma writeAt_next:
  assumes "length xs = pos" "pos + LENGTH('a) div 8 \<le> length buf"
  shows "writeAt (xs @ drop pos buf) pos (num :: 'a::len word)
       = Inr ((xs @ beBytes num) @ drop (pos + LENGTH('a) div 8) buf)"
  using assms writeAt_append [where num = num and xs = xs and ys = "drop pos buf"]
  by (simp add: add.commute)

lemma feedback_bytes:
  "(push_bit 6 2 OR push_bit 5 0 OR push_bit 0 1 :: u8) = 0x81"
  "(push_bit 6 2 OR push_bit 5 0 OR push_bit 0 4 :: u8) = 0x84"
  by simp_all

definition feedbackHeader :: "u8 \<Rightarrow> u16 \<Rightarrow> u32 \<Rightarrow> bytes" where
  "feedbackHeader first len sender = [first, 206] @ beBytes len @ beBytes sender"

lemma createPLI_layout:
  "createPLI r senderSsrc mediaSsrc = Inr \<lparr>rtcpBuff = feedbackHeader 0x81 2 senderSsrc @ beBytes mediaSsrc,
     rtcpType = PSFB\<rparr>"
proof -
  let ?b = "resize 12 (rtcpBuff r)"
  note w = writeAt_next [where buf = ?b]
  have "writeAt ?b 0 (0x81 :: u8) = Inr ([0x81] @ drop 1 ?b)"
    using w [of "[]" 0 "0x81 :: u8"] by simp
  moreover have "writeAt ([0x81] @ drop 1 ?b) 1 (206 :: u8) = Inr ([0x81, 206] @ drop 2 ?b)"
    using w [of "[0x81]" 1 "206 :: u8"] by (simp add: numeral_2_eq_2)
  moreover have "writeAt ([0x81, 206] @ drop 2 ?b) 2 (2 :: u16)
      = Inr (([0x81, 206] @ beBytes (2 :: u16)) @ drop 4 ?b)"
    using w [of "[0x81, 206]" 2 "2 :: u16"] by simp
  moreover have "writeAt (([0x81, 206] @ beBytes (2 :: u16)) @ drop 4 ?b) 4 senderSsrc
      = Inr (feedbackHeader 0x81 2 senderSsrc @ drop 8 ?b)"
    using w [of "[0x81, 206] @ beBytes (2 :: u16)" 4 senderSsrc] by (simp add: feedbackHeader_def)
  moreover have "writeAt (feedbackHeader 0x81 2 senderSsrc @ drop 8 ?b) 8 mediaSsrc
      = Inr (feedbackHeader 0x81 2 senderSsrc @ beBytes mediaSsrc)"
    using w [of "feedbackHeader 0x81 2 senderSsrc" 8 mediaSsrc] by (simp add: feedbackHeader_def)
  ultimately show ?thesis
    unfolding createPLI_def Let_def feedback_bytes RtcpType_value.simps by (simp only: andThen_Inr)
qed

definition firEntry :: "u32 \<Rightarrow> u8 \<Rightarrow> bytes" where
  "firEntry mediaSsrc seq = beBytes mediaSsrc @ [seq, 0, 0, 0]"

lemma createFIR_layout:
  "createFIR r senderSsrc mediaSsrc seq = Inr \<lparr>rtcpBuff =
     feedbackHeader 0x84 4 senderSsrc @ beBytes (0 :: u32) @ firEntry mediaSsrc seq, rtcpType = PSFB\<rparr>"
proof -
  let ?b = "resize 20 (rtcpBuff r)"
  let ?h = "feedbackHeader 0x84 4 senderSsrc" and ?z = "beBytes (0 :: u32)" and ?m = "beBytes mediaSsrc"
  note w = writeAt_next [where buf = ?b]
  have "writeAt ?b 0 (0x84 :: u8) = Inr ([0x84] @ drop 1 ?b)"
    using w [of "[]" 0 "0x84 :: u8"] by simp
  moreover have "writeAt ([0x84] @ drop 1 ?b) 1 (206 :: u8) = Inr ([0x84, 206] @ drop 2 ?b)"
    using w [of "[0x84]" 1 "206 :: u8"] by (simp add: numeral_2_eq_2)
  moreover have "writeAt ([0x84, 206] @ drop 2 ?b) 2 (4 :: u16)
      = Inr (([0x84, 206] @ beBytes (4 :: u16)) @ drop 4 ?b)"
    using w [of "[0x84, 206]" 2 "4 :: u16"] by simp
  moreover have "writeAt (([0x84, 206] @ beBytes (4 :: u16)) @ drop 4 ?b) 4 senderSsrc
      = Inr (?h @ drop 8 ?b)"
    using w [of "[0x84, 206] @ beBytes (4 :: u16)" 4 senderSsrc] by (simp add: feedbackHeader_def)
  moreover have "writeAt (?h @ drop 8 ?b) 8 (0 :: u32) = Inr ((?h @ ?z) @ drop 12 ?b)"
    using w [of ?h 8 "0 :: u32"] by (simp add: feedbackHeader_def)
  moreover have "writeAt ((?h @ ?z) @ drop 12 ?b) 12 mediaSsrc = Inr ((?h @ ?z @ ?m) @ drop 16 ?b)"
    using w [of "?h @ ?z" 12 mediaSsrc] by (simp add: feedbackHeader_def)
  moreover have "writeAt ((?h @ ?z @ ?m) @ drop 16 ?b) 16 seq
      = Inr ((?h @ ?z @ ?m @ [seq]) @ drop 17 ?b)"
    using w [of "?h @ ?z @ ?m" 16 seq] by (simp add: feedbackHeader_def)
  moreover have "writeAt ((?h @ ?z @ ?m @ [seq]) @ drop 17 ?b) 17 (0 :: u8)
      = Inr ((?h @ ?z @ ?m @ [seq, 0]) @ drop 18 ?b)"
    using w [of "?h @ ?z @ ?m @ [seq]" 17 "0 :: u8"] by (simp add: feedbackHeader_def)
  moreover have "writeAt ((?h @ ?z @ ?m @ [seq, 0]) @ drop 18 ?b) 18 (0 :: u8)
      = Inr ((?h @ ?z @ ?m @ [seq, 0, 0]) @ drop 19 ?b)"
    using w [of "?h @ ?z @ ?m @ [seq, 0]" 18 "0 :: u8"] by (simp add: feedbackHeader_def)
  moreover have "writeAt ((?h @ ?z @ ?m @ [seq, 0, 0]) @ drop 19 ?b) 19 (0 :: u8)
      = Inr (?h @ ?z @ firEntry mediaSsrc seq)"
    using w [of "?h @ ?z @ ?m @ [seq, 0, 0]" 19 "0 :: u8"] by (simp add: feedbackHeader_def firEntry_def)
  moreover have "(12 + 4 + 4 :: nat) = 20" "(2 + 2 * 1 :: u16) = 4" by simp_all
  ultimately show ?thesis
    unfolding createFIR_def Let_def feedback_bytes RtcpType_value.simps by (simp only: andThen_Inr)
qed

subsection \<open>Properties\<close>

lemma drop_feedbackHeader:
  "drop 2 (feedbackHeader f len s @ rest) = beBytes len @ beBytes s @ rest"
  "drop 4 (feedbackHeader f len s) = beBytes s"
  "drop 8 (feedbackHeader f len s @ rest) = rest"
  by (simp_all add: feedbackHeader_def numeral_2_eq_2)

lemma readData_fields:
  "readData (beBytes (a :: u8) @ rest) False = Inr a"
  "readData (beBytes (b :: u16) @ rest) False = Inr b"
  "readData (beBytes (c :: u32) @ rest) False = Inr c"
  "readData (beBytes (c :: u32)) False = Inr c"
  using readData_be [of a rest] readData_be [of b rest] readData_be [of c rest] readData_be [of c "[]"]
  by simp_all

lemma feedbackHeader_fields:
  "(feedbackHeader f len s @ rest) ! 0 = f"
  "(feedbackHeader f len s @ rest) ! Suc 0 = 206"
  "getRtcpLength (feedbackHeader f len s @ rest) = Inr len"
  "length (feedbackHeader f len s) = 8"
  by (simp_all add: feedbackHeader_def getRtcpLength_def readData_fields numeral_2_eq_2)

lemmas feedback_simps = getRtcpVersion_def getRtcpPadding_def getRtcpPayloadType_def
  findRtcpType_def RtcpType_of_def getFmtValue_def Rtcp_fmt_def feedbackHeader_fields

text \<open>The Picture Loss Indication built over any earlier contents is a well-formed RTCP packet:
  version 2, no padding, length field equal to its size in words minus one; it is classified as
  \<open>PSFB\<close> and \<open>PLI\<close>, and the two sources read back as given.\<close>

theorem createPLI_roundtrip:
  "\<exists>p. createPLI r senderSsrc mediaSsrc = Inr p \<and> length (rtcpBuff p) = 12
     \<and> getRtcpVersion (rtcpBuff p) = Inr 2 \<and> getRtcpPadding (rtcpBuff p) = Inr False
     \<and> getRtcpLength (rtcpBuff p) = Inr (of_nat (length (rtcpBuff p) div 4 - 1))
     \<and> findRtcpType (rtcpBuff p) = Inr (rtcpType p) \<and> Rtcp_fmt p = Inr PLI
     \<and> PLI_sender_ssrc p = Inr senderSsrc \<and> PLI_media_ssrc p = Inr mediaSsrc"
  unfolding createPLI_layout
  by (intro exI conjI, rule refl)
    (simp_all add: feedback_simps drop_feedbackHeader PLI_sender_ssrc_def PLI_media_ssrc_def readData_fields)

text \<open>The same for the Full Intra Request, whose length must be \<open>2 + 2 * N\<close> for its \<open>N = 1\<close>
  entry; its media source in the header is zero, and the entry holds the source and the command
  sequence number, which reads back zero-extended to 16 bits.\<close>

theorem createFIR_roundtrip:
  "\<exists>p. createFIR r senderSsrc mediaSsrc commandSeq = Inr p \<and> length (rtcpBuff p) = 20
     \<and> getRtcpVersion (rtcpBuff p) = Inr 2 \<and> getRtcpPadding (rtcpBuff p) = Inr False
     \<and> getRtcpLength (rtcpBuff p) = Inr (of_nat (length (rtcpBuff p) div 4 - 1))
     \<and> findRtcpType (rtcpBuff p) = Inr (rtcpType p) \<and> Rtcp_fmt p = Inr FIR
     \<and> FIR_sender_ssrc p = Inr senderSsrc \<and> FIR_media_ssrc p = Inr mediaSsrc
     \<and> readData (drop 8 (rtcpBuff p)) False = Inr (0 :: u32)
     \<and> FIR_seq p = Inr (ucast commandSeq)"
proof -
  have c: "readData [commandSeq, 0, 0, 0] False = Inr commandSeq"
    using readData_fields(1) [of commandSeq "[0, 0, 0]"] by simp
  show ?thesis
    unfolding createFIR_layout
    by (intro exI conjI, rule refl)
      (simp_all add: feedback_simps drop_feedbackHeader c FIR_sender_ssrc_def FIR_media_ssrc_def
        FIR_seq_def readData_fields firEntry_def)
qed

lemma findRtcpType_eq:
  "findRtcpType d =
     (if d = [] then Inl Undefined
      else if drop_bit 6 (hd d) AND 3 \<noteq> 2 then Inr UNKNOWN
      else if length d < 2 then Inl Undefined
      else if d ! 1 \<in> {192, 193} then Inr (Unnamed (d ! 1))
      else if 200 \<le> d ! 1 \<and> d ! 1 \<le> 207
           then Inr (RtcpType_of (d ! 1)) else Inr UNKNOWN)"
  by (cases d) (auto simp: findRtcpType_def getRtcpVersion_def getRtcpPayloadType_def
      RtcpType_of_def Suc_le_eq not_less)

text \<open>Classifying a datagram reads out of bounds exactly when it is empty, or when it is one
  byte long with version 2; in every other case it returns \<open>UNKNOWN\<close> or, for version 2, the
  type whose value is the second byte.\<close>

theorem findRtcpType_cases:
  "findRtcpType d =
     (if d = [] then Inl Undefined
      else if drop_bit 6 (hd d) AND 3 \<noteq> 2 then Inr UNKNOWN
      else if length d < 2 then Inl Undefined
      else if d ! 1 \<in> {192, 193} then Inr (Unnamed (d ! 1))
      else if 200 \<le> d ! 1 \<and> d ! 1 \<le> 207
           then Inr (RtcpType_of (d ! 1)) else Inr UNKNOWN)"
  by (rule findRtcpType_eq)

lemma RtcpType_value_of: "RtcpType_value (RtcpType_of v) = v"
  by (simp add: RtcpType_of_def)

text \<open>A packet whose type agrees with its buffer is copied to itself, and a packet whose
  buffer was taken (or that was default-constructed) cannot be copied or moved at all: the
  constructor reads the first byte of an empty vector.\<close>

theorem Rtcp_copy_move:
  "Rtcp_copy (snd (Rtcp_takeRawData r)) = Inl Undefined
   \<and> Rtcp_move (snd (Rtcp_takeRawData r)) = Inl Undefined
   \<and> Rtcp_copy Rtcp_empty = Inl Undefined
   \<and> (\<forall>p. Rtcp_of_udp (rtcpBuff r) = Inr p \<longrightarrow>
        Rtcp_copy p = Inr p \<and> Rtcp_move p = Inr (p, p\<lparr>rtcpBuff := []\<rparr>))"
  by (auto simp: Rtcp_copy_def Rtcp_move_def Rtcp_takeRawData_def Rtcp_empty_def Rtcp_of_udp_def
      findRtcpType_eq andThen_eq_Inr)

theorem Rtcp_copy_move_witness:
  "Rtcp_of_udp [0x81, 206] = Inr \<lparr>rtcpBuff = [0x81, 206], rtcpType = PSFB\<rparr>
   \<and> Rtcp_copy \<lparr>rtcpBuff = [0x81, 206], rtcpType = PSFB\<rparr> = Inr \<lparr>rtcpBuff = [0x81, 206], rtcpType = PSFB\<rparr>"
proof -
  have "Rtcp_of_udp [0x81, 206] = Inr \<lparr>rtcpBuff = [0x81, 206], rtcpType = PSFB\<rparr>"
    by (simp add: Rtcp_of_udp_def feedback_simps at_def)
  then show ?thesis using Rtcp_copy_move [of "\<lparr>rtcpBuff = [0x81, 206], rtcpType = UNKNOWN\<rparr>"] by simp
qed

end
