(* ===== verification/Fifo.thy ===== *)
theory Fifo
  imports Prelude
begin

text \<open>
  The contract of a first-in first-out queue, as the components that hand packets or messages
  to each other rely on it: what an enqueue and a dequeue do to the list of queued elements.
  \<open>SpscRing\<close> (class \<open>OneOnePipe\<close>) and \<open>SafeQueue\<close> (class \<open>ThreadSafeQueue\<close>) interpret it.
\<close>

datatype 'a queue_op = Enq 'a | Deq

text \<open>
  A run of operations: the elements the queue accepted, the elements it handed out, and the
  queue at the end.
\<close>

primrec run_queue ::
  "('a \<Rightarrow> 'q \<Rightarrow> bool \<times> 'q) \<Rightarrow> ('q \<Rightarrow> ('a option \<times> 'q) res) \<Rightarrow> 'a queue_op list \<Rightarrow> 'q
   \<Rightarrow> ('a list \<times> 'a list \<times> 'q) res" where
  "run_queue enq deq [] q = Inr ([], [], q)"
| "run_queue enq deq (op # ops) q =
     (case op of
        Enq x \<Rightarrow> (case enq x q of (ok, q') \<Rightarrow>
          andThen (run_queue enq deq ops q') (\<lambda>(acc, out, q'').
            Inr (if ok then x # acc else acc, out, q'')))
      | Deq \<Rightarrow> andThen (deq q) (\<lambda>(r, q').
          andThen (run_queue enq deq ops q') (\<lambda>(acc, out, q'').
            Inr (acc, (case r of None \<Rightarrow> out | Some x \<Rightarrow> x # out), q''))))"

locale fifo =
  fixes contents :: "'q \<Rightarrow> 'a list"
    and inv :: "'q \<Rightarrow> bool"
    and accepts :: "'q \<Rightarrow> bool"
    and enq :: "'a \<Rightarrow> 'q \<Rightarrow> bool \<times> 'q"
    and deq :: "'q \<Rightarrow> ('a option \<times> 'q) res"
  assumes enq_accept:
      "inv q \<Longrightarrow> accepts q \<Longrightarrow> \<exists>q'. enq x q = (True, q') \<and> inv q' \<and> contents q' = contents q @ [x]"
    and enq_reject: "inv q \<Longrightarrow> \<not> accepts q \<Longrightarrow> enq x q = (False, q)"
    and deq_empty: "inv q \<Longrightarrow> contents q = [] \<Longrightarrow> deq q = Inr (None, q)"
    and deq_cons:
      "inv q \<Longrightarrow> contents q = x # xs \<Longrightarrow> \<exists>q'. deq q = Inr (Some x, q') \<and> inv q' \<and> contents q' = xs"
begin

text \<open>
  Whatever the interleaving of enqueues and dequeues, no operation faults and what was queued
  before, followed by what was accepted, is what came out followed by what is still queued.
\<close>

lemma run_fifo:
  "inv q \<Longrightarrow> \<exists>acc out q'. run_queue enq deq ops q = Inr (acc, out, q') \<and> inv q'
     \<and> contents q @ acc = out @ contents q'"
proof (induction ops arbitrary: q)
  case Nil
  then show ?case by simp
next
  case (Cons op ops)
  show ?case
  proof (cases op)
    case (Enq x)
    show ?thesis
    proof (cases "accepts q")
      case True
      then obtain q' where q': "enq x q = (True, q')" "inv q'" "contents q' = contents q @ [x]"
        using enq_accept Cons.prems by blast
      then show ?thesis using Cons.IH [OF q'(2)] Enq by auto
    next
      case False
      then have "enq x q = (False, q)" using enq_reject Cons.prems by blast
      then show ?thesis using Cons.IH [OF Cons.prems] Enq by auto
    qed
  next
    case Deq
    show ?thesis
    proof (cases "contents q")
      case Nil
      then show ?thesis using Cons.IH [OF Cons.prems] Cons.prems deq_empty [of q] Deq by auto
    next
      case (Cons x xs)
      then obtain q' where q': "deq q = Inr (Some x, q')" "inv q'" "contents q' = xs"
        using deq_cons Cons.prems by blast
      then show ?thesis using Cons.IH [OF q'(2)] Deq Cons by auto
    qed
  qed
qed

lemma enq_inv: "inv q \<Longrightarrow> inv (snd (enq x q))"
  using enq_accept [of q x] enq_reject [of q x] by (cases "accepts q") auto

end

text \<open>A queue of bounded capacity accepts exactly while there is room.\<close>

locale bounded_fifo = fifo +
  fixes cap :: "'a \<Rightarrow> nat"
  assumes accepts_iff: "inv q \<Longrightarrow> accepts q \<longleftrightarrow> length (contents q) < cap q"
    and enq_cap: "inv q \<Longrightarrow> cap (snd (enq x q)) = cap q"
begin

lemma enq_bound:
  "inv q \<Longrightarrow> length (contents q) \<le> cap q \<Longrightarrow>
   length (contents (snd (enq x q))) \<le> cap (snd (enq x q))"
  using enq_accept [of q x] enq_reject [of q x] accepts_iff [of q] enq_cap [of q x]
  by (cases "accepts q") auto

lemma enq_iff: "inv q \<Longrightarrow> fst (enq x q) \<longleftrightarrow> length (contents q) < cap q"
  using enq_accept [of q x] enq_reject [of q x] accepts_iff [of q]
  by (cases "accepts q") auto

end

text \<open>An unbounded queue accepts always; nothing handed to it is lost.\<close>

locale unbounded_fifo = fifo +
  assumes accepts_always: "inv q \<Longrightarrow> accepts q"
begin

lemma enq_always: "inv q \<Longrightarrow> \<exists>q'. enq x q = (True, q') \<and> contents q' = contents q @ [x]"
  using enq_accept [of q x] accepts_always by blast

end

end
