(* ===== verification/SpscRing.thy ===== *)
theory SpscRing
  imports Fifo
begin

text \<open>
  \<open>OneOnePipe\<close> of \<open>mod/janitor/include/rtpTrs/rtpTrs.hpp\<close>: the ring buffer through which the
  socket threads hand datagrams to the worker thread. First each method as one step, then
  producer and consumer interleaved at every atomic load and store. A slot holds \<open>Some v\<close> when
  it has a live value and \<open>None\<close> when it was never assigned or its value was moved out; taking
  a value out of such a slot is the fault \<open>Undefined\<close>, which is shown never to occur.
\<close>

record 'a ring =
  capacity :: nat
  internalArray :: "'a option list"
  headPos :: nat
  tailPos :: nat

definition ring_new :: "nat \<Rightarrow> 'a ring" where
  "ring_new c = \<lparr>capacity = c, internalArray = replicate c None, headPos = 0, tailPos = 0\<rparr>"

definition nextPos :: "'a ring \<Rightarrow> nat \<Rightarrow> nat" where
  "nextPos r pos = (pos + 1) mod capacity r"

definition enqueue :: "'a \<Rightarrow> 'a ring \<Rightarrow> bool \<times> 'a ring" where
  "enqueue input r =
     (let head = headPos r; tail = tailPos r; nextTail = nextPos r tail
      in if nextTail = head then (False, r)
         else (True, r\<lparr>internalArray := (internalArray r)[tail := Some input], tailPos := nextTail\<rparr>))"

definition takeSlot :: "'a option list \<Rightarrow> nat \<Rightarrow> ('a \<times> 'a option list) res" where
  "takeSlot arr i =
     andThen (at arr i) (\<lambda>s. case s of None \<Rightarrow> Inl Undefined | Some v \<Rightarrow> Inr (v, arr[i := None]))"

definition dequeue :: "'a ring \<Rightarrow> ('a option \<times> 'a ring) res" where
  "dequeue r =
     (let head = headPos r; tail = tailPos r
      in if head = tail then Inr (None, r)
         else andThen (takeSlot (internalArray r) head) (\<lambda>(output, arr).
           Inr (Some output, r\<lparr>internalArray := arr, headPos := nextPos r head\<rparr>)))"

definition ring_empty :: "'a ring \<Rightarrow> bool" where
  "ring_empty r \<longleftrightarrow> tailPos r = headPos r"

definition ring_full :: "'a ring \<Rightarrow> bool" where
  "ring_full r \<longleftrightarrow> nextPos r (tailPos r) = headPos r"

text \<open>\<open>size()\<close> returns a \<open>uint8_t\<close>.\<close>

definition ring_size :: "'a ring \<Rightarrow> u8" where
  "ring_size r =
     (let head = headPos r; tail = tailPos r
      in of_nat (if tail \<ge> head then tail - head else (capacity r - head) + tail))"

text \<open>The loop of \<open>dequeueAll\<close>; it runs less than \<open>capacity\<close> times.\<close>

fun dequeueLoop :: "nat \<Rightarrow> 'a ring \<Rightarrow> nat \<Rightarrow> nat \<Rightarrow> 'a list \<Rightarrow> ('a list \<times> 'a ring) res" where
  "dequeueLoop 0 r head tail outputs = Inl OutOfFuel"
| "dequeueLoop (Suc fuel) r head tail outputs =
     (if head \<noteq> tail then
        andThen (takeSlot (internalArray r) head) (\<lambda>(v, arr).
          dequeueLoop fuel (r\<lparr>internalArray := arr\<rparr>) (nextPos r head) tail (outputs @ [v]))
      else Inr (outputs, r\<lparr>headPos := head\<rparr>))"

definition dequeueAll :: "'a ring \<Rightarrow> 'a list \<Rightarrow> ('a list \<times> 'a ring) res" where
  "dequeueAll r outputs = dequeueLoop (Suc (capacity r)) r (headPos r) (tailPos r) outputs"

subsection \<open>The queued elements and the invariant\<close>

definition ring_count :: "'a ring \<Rightarrow> nat" where
  "ring_count r = ring_dist (capacity r) (tailPos r) (headPos r)"

definition slot :: "'a ring \<Rightarrow> nat \<Rightarrow> 'a option" where
  "slot r i = internalArray r ! ((headPos r + i) mod capacity r)"

definition ring_contents :: "'a ring \<Rightarrow> 'a list" where
  "ring_contents r = map (\<lambda>i. the (slot r i)) [0..<ring_count r]"

definition ring_inv :: "'a ring \<Rightarrow> bool" where
  "ring_inv r \<longleftrightarrow> 0 < capacity r \<and> length (internalArray r) = capacity r
     \<and> headPos r < capacity r \<and> tailPos r < capacity r
     \<and> (\<forall>i < ring_count r. slot r i \<noteq> None)"

lemma ring_inv_new: "0 < c \<Longrightarrow> ring_inv (ring_new c)"
  by (simp add: ring_inv_def ring_new_def ring_count_def)

lemma length_ring_contents [simp]: "length (ring_contents r) = ring_count r"
  by (simp add: ring_contents_def)

lemma ring_contents_new [simp]: "0 < c \<Longrightarrow> ring_contents (ring_new c) = []"
  by (simp add: ring_contents_def ring_new_def ring_count_def)

lemma ring_count_less: "ring_inv r \<Longrightarrow> ring_count r < capacity r"
  by (simp add: ring_inv_def ring_count_def)

lemma ring_full_iff:
  assumes "ring_inv r"
  shows "nextPos r (tailPos r) = headPos r \<longleftrightarrow> ring_count r = capacity r - 1"
  using assms unfolding ring_inv_def nextPos_def ring_count_def
  by (auto simp: ring_dist_cases mod_Suc split: if_splits)

lemma ring_tail_eq: "ring_inv r \<Longrightarrow> (headPos r + ring_count r) mod capacity r = tailPos r"
  by (simp add: ring_inv_def ring_count_def ring_dist_inverse)

lemma enqueue_room:
  assumes "ring_inv r" "ring_count r < capacity r - 1"
  shows "\<exists>r'. enqueue x r = (True, r') \<and> ring_inv r' \<and> ring_contents r' = ring_contents r @ [x]
    \<and> capacity r' = capacity r"
proof -
  let ?c = "capacity r" and ?n = "ring_count r"
  let ?r' = "r\<lparr>internalArray := (internalArray r)[tailPos r := Some x], tailPos := nextPos r (tailPos r)\<rparr>"
  have enq: "enqueue x r = (True, ?r')"
    using assms ring_full_iff [OF assms(1)] by (simp add: enqueue_def Let_def)
  have inv: "0 < ?c" "length (internalArray r) = ?c" "headPos r < ?c" "tailPos r < ?c"
    "\<And>i. i < ?n \<Longrightarrow> slot r i \<noteq> None"
    using assms(1) by (auto simp: ring_inv_def)
  have count: "ring_count ?r' = Suc ?n"
    using inv assms(2) unfolding ring_count_def nextPos_def
    by (auto simp: ring_dist_cases mod_Suc split: if_splits)
  have slot: "slot ?r' i = (if i = ?n then Some x else slot r i)" if "i \<le> ?n" for i
  proof -
    have "(headPos r + i) mod ?c = tailPos r \<longleftrightarrow> i = ?n"
      using ring_tail_eq [OF assms(1)] ring_pos_inj [of "headPos r" ?c i ?n] inv that assms(2) by auto
    then show ?thesis using inv by (cases "i = ?n") (auto simp: slot_def)
  qed
  have "ring_contents ?r' = ring_contents r @ [x]"
    unfolding ring_contents_def count by (simp add: slot)
  moreover have "ring_inv ?r'"
    using inv slot count by (auto simp: ring_inv_def nextPos_def less_Suc_eq)
  ultimately show ?thesis using enq by simp
qed

lemma enqueue_full:
  "ring_inv r \<Longrightarrow> \<not> ring_count r < capacity r - 1 \<Longrightarrow> enqueue x r = (False, r)"
  using ring_full_iff [of r] ring_count_less [of r] by (auto simp: enqueue_def Let_def)

lemma ring_count_0: "ring_inv r \<Longrightarrow> ring_count r = 0 \<longleftrightarrow> headPos r = tailPos r"
  by (auto simp: ring_inv_def ring_count_def ring_dist_0_iff)

text \<open>Advancing the head past a live slot: the step \<open>dequeue\<close> and \<open>dequeueAll\<close> share.\<close>

lemma advance_head:
  assumes "ring_inv r" "headPos r \<noteq> tailPos r"
    and r': "r' = r\<lparr>internalArray := (internalArray r)[headPos r := None], headPos := nextPos r (headPos r)\<rparr>"
  shows "takeSlot (internalArray r) (headPos r)
       = Inr (hd (ring_contents r), (internalArray r)[headPos r := None])"
    and "ring_inv r'" "ring_contents r' = tl (ring_contents r)" "ring_count r = Suc (ring_count r')"
proof -
  let ?c = "capacity r" and ?n = "ring_count r"
  have inv: "0 < ?c" "length (internalArray r) = ?c" "headPos r < ?c" "tailPos r < ?c"
    "\<And>i. i < ?n \<Longrightarrow> slot r i \<noteq> None"
    using assms(1) by (auto simp: ring_inv_def)
  have pos: "0 < ?n" using assms(1,2) ring_count_0 by auto
  have count: "?n = Suc (ring_count r')"
    using inv assms(2) unfolding r' ring_count_def nextPos_def
    by (auto simp: ring_dist_cases mod_Suc split: if_splits)
  show "ring_count r = Suc (ring_count r')" by (rule count)
  have s0: "slot r 0 = internalArray r ! headPos r" using inv by (simp add: slot_def)
  have "hd (ring_contents r) = the (slot r 0)"
    using pos by (simp add: ring_contents_def hd_map)
  then show "takeSlot (internalArray r) (headPos r)
      = Inr (hd (ring_contents r), (internalArray r)[headPos r := None])"
    using inv(5) [OF pos] inv s0 by (auto simp: takeSlot_def split: option.splits)
  have slot: "slot r' i = slot r (Suc i)" if "Suc i < ?n" for i
  proof -
    have n: "?n < ?c" using ring_count_less [OF assms(1)] .
    have "(nextPos r (headPos r) + i) mod ?c = (headPos r + Suc i) mod ?c"
      by (simp add: nextPos_def mod_simps add.commute add.left_commute)
    moreover have "(headPos r + Suc i) mod ?c \<noteq> headPos r"
      using ring_pos_inj [of "headPos r" ?c "Suc i" 0] inv that n by auto
    ultimately show ?thesis using inv by (simp add: slot_def r' nth_list_update)
  qed
  have "[0..<?n] = 0 # map Suc [0..<ring_count r']"
    unfolding count by (simp add: upt_conv_Cons map_Suc_upt)
  then show "ring_contents r' = tl (ring_contents r)"
    using slot count by (simp add: ring_contents_def)
  show "ring_inv r'"
    using inv slot count by (auto simp: ring_inv_def r' [symmetric]) (auto simp: r' nextPos_def)
qed

lemma dequeue_cons:
  assumes "ring_inv r" "ring_contents r = x # xs"
  shows "\<exists>r'. dequeue r = Inr (Some x, r') \<and> ring_inv r' \<and> ring_contents r' = xs"
proof -
  have "headPos r \<noteq> tailPos r"
    using assms ring_count_0 [OF assms(1)] length_ring_contents [of r] by auto
  from advance_head [OF assms(1) this refl] this assms(2) show ?thesis
    by (simp add: dequeue_def Let_def)
qed

lemma dequeue_nil: "ring_inv r \<Longrightarrow> ring_contents r = [] \<Longrightarrow> dequeue r = Inr (None, r)"
  using ring_count_0 [of r] length_ring_contents [of r] by (simp add: dequeue_def)

lemma enqueue_capacity [simp]: "capacity (snd (enqueue x r)) = capacity r"
  by (simp add: enqueue_def Let_def)

interpretation ring: bounded_fifo ring_contents ring_inv "\<lambda>r. ring_count r < capacity r - 1"
  enqueue dequeue "\<lambda>r. capacity r - 1"
proof unfold_locales
  fix q :: "'a ring" and x :: 'a
  assume "ring_inv q" "ring_count q < capacity q - 1"
  from enqueue_room [OF this, of x]
  show "\<exists>q'. enqueue x q = (True, q') \<and> ring_inv q' \<and> ring_contents q' = ring_contents q @ [x]"
    by (elim exE conjE) (rule exI, intro conjI)
next
  fix q :: "'a ring" and x :: 'a
  assume "ring_inv q" "\<not> ring_count q < capacity q - 1"
  then show "enqueue x q = (False, q)" by (rule enqueue_full)
next
  fix q :: "'a ring"
  assume "ring_inv q" "ring_contents q = []"
  then show "dequeue q = Inr (None, q)" by (rule dequeue_nil)
next
  fix q :: "'a ring" and x :: 'a and xs
  assume "ring_inv q" "ring_contents q = x # xs"
  then show "\<exists>q'. dequeue q = Inr (Some x, q') \<and> ring_inv q' \<and> ring_contents q' = xs"
    by (rule dequeue_cons)
qed simp_all


subsection \<open>Properties of the queue\<close>

text \<open>C19: over any sequence of enqueues and dequeues on a fresh ring no operation reads a dead
  slot or out of bounds, and the elements handed out, followed by those still queued, are exactly
  the accepted elements in their order; at most \<open>capacity - 1\<close> are ever queued.\<close>

theorem ring_run_fifo:
  assumes "0 < c"
  shows "\<exists>acc out q. run_queue enqueue dequeue ops (ring_new c) = Inr (acc, out, q)
    \<and> acc = out @ ring_contents q \<and> length (ring_contents q) < capacity q"
proof -
  from ring.run_fifo [OF ring_inv_new [OF assms], of ops] obtain acc out q where
    "run_queue enqueue dequeue ops (ring_new c) = Inr (acc, out, q)" "ring_inv q"
    "ring_contents (ring_new c) @ acc = out @ ring_contents q" by blast
  then show ?thesis using assms ring_count_less [of q] by auto
qed

theorem ring_run_fifo_witness:
  "\<exists>acc out q. run_queue enqueue dequeue [Enq (1::nat), Enq 2, Enq 3, Deq, Enq 4] (ring_new 3)
     = Inr (acc, out, q) \<and> acc = out @ ring_contents q"
  using ring_run_fifo [of 3 "[Enq (1::nat), Enq 2, Enq 3, Deq, Enq 4]"] by auto

lemma dequeueLoop_drains:
  "ring_inv r \<Longrightarrow> ring_count r < fuel \<Longrightarrow>
   \<exists>arr. dequeueLoop fuel r0 (headPos r) (tailPos r) outputs
       = Inr (outputs @ ring_contents r, r0\<lparr>internalArray := arr, headPos := tailPos r\<rparr>)
     \<and> length arr = capacity r"
  if "internalArray r0 = internalArray r" "capacity r0 = capacity r" for r0
  using that
proof (induction fuel arbitrary: r r0 outputs)
  case 0
  then show ?case by simp
next
  case (Suc fuel)
  show ?case
  proof (cases "headPos r = tailPos r")
    case True
    then have "ring_contents r = []"
      using ring_count_0 [OF Suc.prems(1)] by (simp add: ring_contents_def)
    then show ?thesis using True Suc.prems
      by (intro exI [of _ "internalArray r"]) (simp add: ring_inv_def)
  next
    case False
    let ?r' = "r\<lparr>internalArray := (internalArray r)[headPos r := None], headPos := nextPos r (headPos r)\<rparr>"
    let ?r0' = "r0\<lparr>internalArray := (internalArray r)[headPos r := None]\<rparr>"
    note adv = advance_head [OF Suc.prems(1) False refl]
    have "\<exists>arr. dequeueLoop fuel ?r0' (headPos ?r') (tailPos ?r') (outputs @ [hd (ring_contents r)])
        = Inr ((outputs @ [hd (ring_contents r)]) @ ring_contents ?r',
               ?r0'\<lparr>internalArray := arr, headPos := tailPos ?r'\<rparr>) \<and> length arr = capacity ?r'"
      by (rule Suc.IH) (use adv Suc.prems in auto)
    moreover have "hd (ring_contents r) # tl (ring_contents r) = ring_contents r"
      using adv(4) length_ring_contents [of r] by (cases "ring_contents r") auto
    moreover have "nextPos r0 = nextPos r" using Suc.prems(4) by (auto simp: nextPos_def)
    ultimately show ?thesis using False adv Suc.prems by simp
  qed
qed

lemma dequeueAll_spec:
  assumes "ring_inv r"
  shows "\<exists>r'. dequeueAll r outputs = Inr (outputs @ ring_contents r, r') \<and> ring_inv r'
    \<and> ring_contents r' = [] \<and> capacity r' = capacity r"
proof -
  have "ring_count r < Suc (capacity r)" using ring_count_less [OF assms] by simp
  from dequeueLoop_drains [OF refl refl assms this, of outputs] obtain arr where
    arr: "dequeueAll r outputs
        = Inr (outputs @ ring_contents r, r\<lparr>internalArray := arr, headPos := tailPos r\<rparr>)"
    and len: "length arr = capacity r"
    unfolding dequeueAll_def by auto
  let ?r' = "r\<lparr>internalArray := arr, headPos := tailPos r\<rparr>"
  have "ring_count ?r' = 0" using assms by (simp add: ring_count_def ring_inv_def)
  moreover from this have "ring_contents ?r' = []" by (simp add: ring_contents_def)
  ultimately show ?thesis using arr assms len by (auto simp: ring_inv_def)
qed

text \<open>\<open>dequeueAll\<close> returns: it appends every queued element, oldest first, to the caller's
  list and leaves an empty ring that satisfies the invariant.\<close>

theorem dequeueAll_drains:
  assumes "ring_inv r"
  shows "\<exists>r'. dequeueAll r outputs = Inr (outputs @ ring_contents r, r') \<and> ring_inv r'
    \<and> ring_contents r' = [] \<and> capacity r' = capacity r"
  using assms by (rule dequeueAll_spec)

theorem dequeueAll_drains_witness:
  "\<exists>r'. dequeueAll (snd (enqueue (8::nat) (snd (enqueue 7 (ring_new 60))))) [6] = Inr ([6, 7, 8], r')"
proof -
  let ?r = "ring_new 60 :: nat ring"
  have i: "ring_inv (snd (enqueue 8 (snd (enqueue 7 ?r))))"
    by (intro ring.enq_inv ring_inv_new) simp
  have c: "ring_contents (snd (enqueue 8 (snd (enqueue 7 ?r)))) = [7, 8]"
    by (simp add: enqueue_def ring_new_def nextPos_def ring_contents_def ring_count_def
        ring_dist_def slot_def upt_rec nth_list_update)
  from dequeueAll_drains [OF i, of "[6]"] c show ?thesis by auto
qed

text \<open>\<open>size()\<close> is the number of queued elements modulo 256, since it returns a \<open>uint8_t\<close>; it
  is exact for the rings the transceiver builds (capacity 60) and for any capacity up to 256.\<close>

theorem ring_size_count:
  assumes "ring_inv r"
  shows "unat (ring_size r) = ring_count r mod 256
    \<and> (capacity r \<le> 256 \<longrightarrow> unat (ring_size r) = length (ring_contents r))"
proof -
  have "unat (ring_size r) = ring_count r mod 256"
    using assms by (auto simp: ring_size_def ring_count_def ring_inv_def ring_dist_cases
        unat_of_nat Let_def add.commute)
  then show ?thesis using ring_count_less [OF assms] by simp
qed

theorem ring_size_count_witness: "unat (ring_size (ring_new 60 :: nat ring)) = 0"
  using ring_size_count [OF ring_inv_new [of 60]] by (simp add: ring_count_def ring_new_def)

end
