(* ===== verification/SpscInterleaved.thy ===== *)
theory SpscInterleaved
  imports SpscRing
begin

text \<open>
  \<open>OneOnePipe\<close> as the program runs it: one producer thread inside \<open>enqueue\<close> (a socket thread in
  \<open>pushUdp\<close>) and one consumer thread inside \<open>dequeueAll\<close> (the worker), without a lock. A step is
  one atomic load, one atomic store or one access to a slot; the two threads interleave freely.
\<close>

text \<open>
  Where each thread is. \<open>PHead x h\<close>: \<open>headPos\<close> was loaded as \<open>h\<close>; \<open>PTail x h t\<close>: also \<open>tailPos\<close> as
  \<open>t\<close>; \<open>PStore x n\<close>: the slot is written, \<open>tailPos.store(n)\<close> is next. \<open>CHead h\<close> and \<open>CLoop h t\<close>
  (the loop of \<open>dequeueAll\<close> with its local \<open>head\<close> and \<open>tail\<close>) likewise.
\<close>

datatype 'a producer = PIdle | PHead 'a nat | PTail 'a nat nat | PStore 'a nat

datatype consumer = CIdle | CHead nat | CLoop nat nat

record 'a spsc =
  ring :: "'a ring"
  prod :: "'a producer"
  cons :: consumer
  pushed :: "'a list"
  popped :: "'a list"
  faulted :: bool

definition spsc_init :: "nat \<Rightarrow> 'a spsc" where
  "spsc_init c = \<lparr>ring = ring_new c, prod = PIdle, cons = CIdle, pushed = [], popped = [], faulted = False\<rparr>"

inductive spsc_step :: "'a spsc \<Rightarrow> 'a spsc \<Rightarrow> bool" where
  p_load_head: "prod s = PIdle \<Longrightarrow> spsc_step s (s\<lparr>prod := PHead x (headPos (ring s))\<rparr>)"
| p_load_tail: "prod s = PHead x h \<Longrightarrow> spsc_step s (s\<lparr>prod := PTail x h (tailPos (ring s))\<rparr>)"
| p_full: "prod s = PTail x h t \<Longrightarrow> nextPos (ring s) t = h \<Longrightarrow> spsc_step s (s\<lparr>prod := PIdle\<rparr>)"
| p_write: "prod s = PTail x h t \<Longrightarrow> nextPos (ring s) t \<noteq> h \<Longrightarrow>
     put (internalArray (ring s)) t (Some x) = Inr arr \<Longrightarrow>
     spsc_step s (s\<lparr>ring := (ring s)\<lparr>internalArray := arr\<rparr>, prod := PStore x (nextPos (ring s) t)\<rparr>)"
| p_write_fault: "prod s = PTail x h t \<Longrightarrow> nextPos (ring s) t \<noteq> h \<Longrightarrow>
     put (internalArray (ring s)) t (Some x) = Inl e \<Longrightarrow> spsc_step s (s\<lparr>faulted := True\<rparr>)"
| p_store: "prod s = PStore x n \<Longrightarrow>
     spsc_step s (s\<lparr>ring := (ring s)\<lparr>tailPos := n\<rparr>, prod := PIdle, pushed := pushed s @ [x]\<rparr>)"
| c_load_head: "cons s = CIdle \<Longrightarrow> spsc_step s (s\<lparr>cons := CHead (headPos (ring s))\<rparr>)"
| c_load_tail: "cons s = CHead h \<Longrightarrow> spsc_step s (s\<lparr>cons := CLoop h (tailPos (ring s))\<rparr>)"
| c_take: "cons s = CLoop h t \<Longrightarrow> h \<noteq> t \<Longrightarrow>
     takeSlot (internalArray (ring s)) h = Inr (v, arr) \<Longrightarrow>
     spsc_step s (s\<lparr>ring := (ring s)\<lparr>internalArray := arr\<rparr>, cons := CLoop (nextPos (ring s) h) t,
       popped := popped s @ [v]\<rparr>)"
| c_take_fault: "cons s = CLoop h t \<Longrightarrow> h \<noteq> t \<Longrightarrow>
     takeSlot (internalArray (ring s)) h = Inl e \<Longrightarrow> spsc_step s (s\<lparr>faulted := True\<rparr>)"
| c_store: "cons s = CLoop h t \<Longrightarrow> h = t \<Longrightarrow>
     spsc_step s (s\<lparr>ring := (ring s)\<lparr>headPos := h\<rparr>, cons := CIdle\<rparr>)"

inductive spsc_reachable :: "nat \<Rightarrow> 'a spsc \<Rightarrow> bool" for c where
  init: "spsc_reachable c (spsc_init c)"
| step: "spsc_reachable c s \<Longrightarrow> spsc_step s s' \<Longrightarrow> spsc_reachable c s'"

subsection \<open>The invariant\<close>

text \<open>How many slots the consumer has taken in the drain under way, not yet given back.\<close>

fun takenOf :: "'a ring \<Rightarrow> consumer \<Rightarrow> nat" where
  "takenOf r (CLoop h t) = ring_dist (capacity r) h (headPos r)"
| "takenOf r c = 0"

definition taken :: "'a spsc \<Rightarrow> nat" where
  "taken s = takenOf (ring s) (cons s)"

text \<open>What each thread's loaded values, possibly stale, say about the true positions.\<close>

fun producer_inv :: "'a ring \<Rightarrow> 'a producer \<Rightarrow> bool" where
  "producer_inv r PIdle = True"
| "producer_inv r (PHead x h) =
     (h < capacity r \<and> ring_count r \<le> ring_dist (capacity r) (tailPos r) h)"
| "producer_inv r (PTail x h t) =
     (t = tailPos r \<and> h < capacity r \<and> ring_count r \<le> ring_dist (capacity r) (tailPos r) h)"
| "producer_inv r (PStore x n) =
     (n = nextPos r (tailPos r) \<and> ring_count r < capacity r - 1 \<and> internalArray r ! tailPos r = Some x)"

fun consumer_inv :: "'a ring \<Rightarrow> consumer \<Rightarrow> bool" where
  "consumer_inv r CIdle = True"
| "consumer_inv r (CHead h) = (h = headPos r)"
| "consumer_inv r (CLoop h t) =
     (h < capacity r \<and> t < capacity r
      \<and> ring_dist (capacity r) h (headPos r) \<le> ring_dist (capacity r) t (headPos r)
      \<and> ring_dist (capacity r) t (headPos r) \<le> ring_count r)"

definition ring_shape :: "'a ring \<Rightarrow> bool" where
  "ring_shape r \<longleftrightarrow> 0 < capacity r \<and> length (internalArray r) = capacity r
     \<and> headPos r < capacity r \<and> tailPos r < capacity r"

definition spsc_inv :: "'a spsc \<Rightarrow> bool" where
  "spsc_inv s \<longleftrightarrow> ring_shape (ring s) \<and> \<not> faulted s
     \<and> producer_inv (ring s) (prod s) \<and> consumer_inv (ring s) (cons s)
     \<and> length (pushed s) + taken s = length (popped s) + ring_count (ring s)
     \<and> taken s \<le> ring_count (ring s) \<and> popped s = take (length (popped s)) (pushed s)
     \<and> (\<forall>i. taken s \<le> i \<and> i < ring_count (ring s) \<longrightarrow>
           slot (ring s) i = Some (pushed s ! (length (popped s) + i - taken s)))"

lemmas spsc_simps = spsc_inv_def ring_shape_def taken_def ring_count_def slot_def nextPos_def

lemma ring_count_array [simp]: "ring_count (r\<lparr>internalArray := a\<rparr>) = ring_count r"
  by (simp add: ring_count_def)

lemma spsc_inv_init: "0 < c \<Longrightarrow> spsc_inv (spsc_init c)"
  by (simp add: spsc_simps spsc_init_def ring_new_def)

lemma spsc_inv_loads:
  assumes "spsc_inv s"
  shows "prod s = PIdle \<Longrightarrow> spsc_inv (s\<lparr>prod := PHead x (headPos (ring s))\<rparr>)"
    and "prod s = PHead x h \<Longrightarrow> spsc_inv (s\<lparr>prod := PTail x h (tailPos (ring s))\<rparr>)"
    and "prod s = PTail x h t \<Longrightarrow> spsc_inv (s\<lparr>prod := PIdle\<rparr>)"
    and "cons s = CIdle \<Longrightarrow> spsc_inv (s\<lparr>cons := CHead (headPos (ring s))\<rparr>)"
    and "cons s = CHead h \<Longrightarrow> spsc_inv (s\<lparr>cons := CLoop h (tailPos (ring s))\<rparr>)"
  using assms by (simp_all add: spsc_simps)

lemma spsc_inv_write:
  assumes inv: "spsc_inv s" and p: "prod s = PTail x h t" and "nextPos (ring s) t \<noteq> h"
  shows "put (internalArray (ring s)) t (Some x) = Inr ((internalArray (ring s))[t := Some x])"
    and "spsc_inv (s\<lparr>ring := (ring s)\<lparr>internalArray := (internalArray (ring s))[t := Some x]\<rparr>,
           prod := PStore x (nextPos (ring s) t)\<rparr>)"
proof -
  let ?r = "ring s" and ?c = "capacity (ring s)"
  have shape: "ring_shape ?r" and t: "t = tailPos ?r" and h: "h < ?c"
    and le: "ring_count ?r \<le> ring_dist ?c (tailPos ?r) h"
    using inv p by (auto simp: spsc_inv_def)
  show "put (internalArray ?r) t (Some x) = Inr ((internalArray ?r)[t := Some x])"
    using shape t by (simp add: ring_shape_def)
  have "ring_dist ?c (tailPos ?r) h \<noteq> ?c - 1"
    using ring_dist_next_full [of "tailPos ?r" ?c h] assms(3) h shape t
    by (simp add: nextPos_def ring_shape_def)
  moreover have "ring_dist ?c (tailPos ?r) h < ?c" using shape by (simp add: ring_shape_def)
  ultimately have room: "ring_count ?r < ?c - 1" using le by linarith
  let ?r' = "?r\<lparr>internalArray := (internalArray ?r)[t := Some x]\<rparr>"
  have slot: "slot ?r' i = slot ?r i" if "i < ring_count ?r" for i
  proof -
    have "(headPos ?r + ring_count ?r) mod ?c = t"
      using shape t by (simp add: ring_count_def ring_dist_inverse ring_shape_def)
    moreover have "(headPos ?r + i) mod ?c \<noteq> (headPos ?r + ring_count ?r) mod ?c"
      using that room shape by (subst ring_pos_inj) (auto simp: ring_shape_def)
    ultimately show ?thesis by (simp add: slot_def)
  qed
  have "producer_inv ?r' (PStore x (nextPos ?r t))"
    using room shape t by (simp add: nextPos_def ring_shape_def)
  moreover have "consumer_inv ?r' (cons s)"
    using inv by (cases "cons s") (auto simp: spsc_inv_def)
  moreover have "takenOf ?r' (cons s) = takenOf ?r (cons s)" by (cases "cons s") auto
  ultimately show "spsc_inv (s\<lparr>ring := ?r', prod := PStore x (nextPos ?r t)\<rparr>)"
    using inv slot by (simp add: spsc_inv_def taken_def ring_shape_def)
qed

lemma spsc_inv_store:
  assumes inv: "spsc_inv s" and p: "prod s = PStore x n"
  shows "spsc_inv (s\<lparr>ring := (ring s)\<lparr>tailPos := n\<rparr>, prod := PIdle, pushed := pushed s @ [x]\<rparr>)"
proof -
  let ?r = "ring s" and ?c = "capacity (ring s)"
  let ?r' = "?r\<lparr>tailPos := n\<rparr>"
  have shape: "ring_shape ?r" and n: "n = nextPos ?r (tailPos ?r)"
    and room: "ring_count ?r < ?c - 1" and x: "internalArray ?r ! tailPos ?r = Some x"
    using inv p by (auto simp: spsc_inv_def)
  have count: "ring_count ?r' = Suc (ring_count ?r)"
    using ring_dist_next_front [of "tailPos ?r" ?c "headPos ?r"] shape room n
    by (simp add: ring_count_def ring_shape_def nextPos_def)
  have tail: "slot ?r' (ring_count ?r) = Some x"
    using shape x by (simp add: slot_def ring_count_def ring_dist_inverse ring_shape_def)
  have c: "consumer_inv ?r' (cons s)"
    using inv by (cases "cons s") (auto simp: spsc_inv_def count)
  have eqs: "length (pushed s) + taken s = length (popped s) + ring_count ?r"
    "taken s \<le> ring_count ?r" "popped s = take (length (popped s)) (pushed s)"
    and slots: "\<And>i. taken s \<le> i \<Longrightarrow> i < ring_count ?r \<Longrightarrow>
      slot ?r i = Some (pushed s ! (length (popped s) + i - taken s))"
    using inv by (auto simp: spsc_inv_def)
  have slot': "slot ?r' i = Some ((pushed s @ [x]) ! (length (popped s) + i - taken s))"
    if i: "taken s \<le> i" "i < Suc (ring_count ?r)" for i
  proof (cases "i = ring_count ?r")
    case True
    then have "length (popped s) + i - taken s = length (pushed s)" using eqs by linarith
    then show ?thesis using True tail by simp
  next
    case False
    then have "length (popped s) + i - taken s < length (pushed s)" using eqs i by linarith
    then show ?thesis using slots [of i] i False by (simp add: slot_def nth_append)
  qed
  have "length (popped s) \<le> length (pushed s)" using eqs by linarith
  then have "popped s = take (length (popped s)) (pushed s @ [x])" using eqs(3) by simp
  moreover have "takenOf ?r' (cons s) = takenOf ?r (cons s)" by (cases "cons s") auto
  moreover have "n < ?c" using n shape by (simp add: nextPos_def ring_shape_def)
  ultimately show ?thesis
    using inv shape eqs slot' c by (simp add: spsc_inv_def count taken_def ring_shape_def)
qed


lemma spsc_inv_take:
  assumes inv: "spsc_inv s" and c: "cons s = CLoop h t" and ht: "h \<noteq> t"
  shows "\<exists>v. takeSlot (internalArray (ring s)) h = Inr (v, (internalArray (ring s))[h := None])
    \<and> spsc_inv (s\<lparr>ring := (ring s)\<lparr>internalArray := (internalArray (ring s))[h := None]\<rparr>,
         cons := CLoop (nextPos (ring s) h) t, popped := popped s @ [v]\<rparr>)"
proof -
  let ?r = "ring s" and ?c = "capacity (ring s)" and ?k = "length (popped s)"
  let ?r' = "?r\<lparr>internalArray := (internalArray ?r)[h := None]\<rparr>" and ?m = "taken s"
  have shape: "ring_shape ?r" and h: "h < ?c" "t < ?c"
    and m: "?m = ring_dist ?c h (headPos ?r)" "?m \<le> ring_dist ?c t (headPos ?r)"
    and tn: "ring_dist ?c t (headPos ?r) \<le> ring_count ?r"
    and eqs: "length (pushed s) + ?m = ?k + ring_count ?r" "popped s = take ?k (pushed s)"
    and slots: "\<And>i. ?m \<le> i \<Longrightarrow> i < ring_count ?r \<Longrightarrow>
      slot ?r i = Some (pushed s ! (?k + i - ?m))"
    using inv c by (auto simp: spsc_inv_def taken_def)
  have "?m \<noteq> ring_dist ?c t (headPos ?r)"
    using ht h shape m(1) by (auto simp: ring_dist_inj ring_shape_def)
  then have mt: "?m < ring_dist ?c t (headPos ?r)" using m(2) by simp
  have nc: "ring_count ?r < ?c" using shape by (simp add: ring_count_def ring_shape_def)
  have pos: "(headPos ?r + ?m) mod ?c = h"
    using h shape m(1) by (simp add: ring_dist_inverse ring_shape_def)
  let ?v = "pushed s ! ?k"
  have "slot ?r ?m = Some ?v" using slots [of ?m] mt tn by simp
  then have take: "takeSlot (internalArray ?r) h = Inr (?v, (internalArray ?r)[h := None])"
    using h shape pos by (simp add: slot_def takeSlot_def ring_shape_def)
  have dist: "ring_dist ?c (nextPos ?r h) (headPos ?r) = Suc ?m"
    using ring_dist_next_front [of h ?c "headPos ?r"] h shape m(1) mt tn nc
    by (simp add: nextPos_def ring_shape_def)
  have slot': "slot ?r' i = slot ?r i" if "Suc ?m \<le> i" "i < ring_count ?r" for i
  proof -
    have "(headPos ?r + i) mod ?c \<noteq> (headPos ?r + ?m) mod ?c"
      using that nc shape by (subst ring_pos_inj) (auto simp: ring_shape_def)
    then show ?thesis by (simp add: slot_def pos)
  qed
  have "?k < length (pushed s)" using eqs mt tn by linarith
  then have pre: "popped s @ [?v] = take (Suc ?k) (pushed s)"
    using eqs(2) by (simp add: take_Suc_conv_app_nth)
  have p: "producer_inv ?r' (prod s)"
  proof (cases "prod s")
    case (PStore x n)
    have "h \<noteq> tailPos ?r"
    proof
      assume "h = tailPos ?r"
      then have "?m = ring_count ?r" using m(1) by (simp add: ring_count_def)
      then show False using mt tn by simp
    qed
    then show ?thesis using inv PStore by (simp add: spsc_inv_def nextPos_def)
  qed (use inv in \<open>auto simp: spsc_inv_def\<close>)
  have "nextPos ?r h < ?c" using shape by (simp add: nextPos_def ring_shape_def)
  then have "spsc_inv (s\<lparr>ring := ?r', cons := CLoop (nextPos ?r h) t, popped := popped s @ [?v]\<rparr>)"
    using inv shape p dist mt tn h eqs(1) slot' slots pre
    by (auto simp: spsc_inv_def taken_def ring_shape_def Suc_diff_le nth_append)
  then show ?thesis using take by blast
qed

lemma spsc_inv_release:
  assumes inv: "spsc_inv s" and c: "cons s = CLoop h h"
  shows "spsc_inv (s\<lparr>ring := (ring s)\<lparr>headPos := h\<rparr>, cons := CIdle\<rparr>)"
proof -
  let ?r = "ring s" and ?c = "capacity (ring s)" and ?k = "length (popped s)"
  let ?r' = "?r\<lparr>headPos := h\<rparr>" and ?m = "taken s"
  have shape: "ring_shape ?r" and h: "h < ?c"
    and m: "?m = ring_dist ?c h (headPos ?r)" "?m \<le> ring_count ?r"
    and eqs: "length (pushed s) + ?m = ?k + ring_count ?r"
    and slots: "\<And>i. ?m \<le> i \<Longrightarrow> i < ring_count ?r \<Longrightarrow>
      slot ?r i = Some (pushed s ! (?k + i - ?m))"
    using inv c by (auto simp: spsc_inv_def taken_def)
  have count: "ring_count ?r' = ring_count ?r - ?m"
    using ring_dist_sub [of h ?c "tailPos ?r" "headPos ?r"] h shape m
    by (simp add: ring_count_def ring_shape_def)
  have pos: "(headPos ?r + ?m) mod ?c = h"
    using h shape m(1) by (simp add: ring_dist_inverse ring_shape_def)
  have "slot ?r' i = slot ?r (i + ?m)" for i
  proof -
    have "(h + i) mod ?c = (headPos ?r + ?m + i) mod ?c" by (simp flip: pos add: mod_simps)
    then show ?thesis by (simp add: slot_def add.assoc add.commute add.left_commute)
  qed
  then have slot': "slot ?r' i = Some (pushed s ! (?k + i))" if "i < ring_count ?r - ?m" for i
    using slots [of "i + ?m"] that by simp
  have "producer_inv ?r' (prod s)"
    using inv count by (cases "prod s") (auto simp: spsc_inv_def nextPos_def)
  moreover have "length (pushed s) = ?k + ring_count ?r'" using eqs m count by linarith
  ultimately show ?thesis
    using inv shape h m slot' count by (simp add: spsc_inv_def taken_def ring_shape_def)
qed

lemma spsc_step_inv: "spsc_step s s' \<Longrightarrow> spsc_inv s \<Longrightarrow> spsc_inv s'"
proof (induction rule: spsc_step.induct)
  case (p_write s x h t arr)
  then show ?case using spsc_inv_write by fastforce
next
  case (p_write_fault s x h t e)
  then show ?case using spsc_inv_write(1) by fastforce
next
  case (c_take s h t v arr)
  then show ?case using spsc_inv_take by fastforce
next
  case (c_take_fault s h t e)
  then show ?case using spsc_inv_take by fastforce
qed (auto intro: spsc_inv_loads spsc_inv_store spsc_inv_release)

lemma spsc_reachable_inv: "spsc_reachable c s \<Longrightarrow> 0 < c \<Longrightarrow> spsc_inv s"
  by (induction rule: spsc_reachable.induct) (auto intro: spsc_inv_init spsc_step_inv)

text \<open>C20: however the loads and stores of one producer and one consumer interleave, no thread
  ever writes out of bounds or takes a value from a dead slot, and what the consumer has taken is
  a prefix of what the producer has published: nothing is lost, duplicated or reordered.\<close>

theorem spsc_linearizable:
  assumes "spsc_reachable c s" "0 < c"
  shows "\<not> faulted s \<and> (\<exists>rest. pushed s = popped s @ rest \<and> length rest < c)"
proof -
  have inv: "spsc_inv s" by (rule spsc_reachable_inv [OF assms])
  have "spsc_reachable c s \<Longrightarrow> capacity (ring s) = c"
    by (induction rule: spsc_reachable.induct) (auto simp: spsc_init_def ring_new_def elim!: spsc_step.cases)
  then have cap: "capacity (ring s) = c" using assms(1) by simp
  have "ring_count (ring s) < c"
    using inv cap by (simp add: spsc_inv_def ring_count_def ring_shape_def)
  moreover have "pushed s = popped s @ drop (length (popped s)) (pushed s)"
    using inv by (metis append_take_drop_id spsc_inv_def)
  moreover have "length (drop (length (popped s)) (pushed s)) \<le> ring_count (ring s)"
    using inv by (auto simp: spsc_inv_def)
  ultimately show ?thesis using inv by (metis order_le_less_trans spsc_inv_def)
qed

theorem spsc_linearizable_witness:
  "\<exists>s. spsc_reachable 2 (s :: nat spsc) \<and> pushed s = [7] \<and> \<not> faulted s
     \<and> (\<exists>rest. pushed s = popped s @ rest \<and> length rest < 2)"
proof -
  let ?st = "\<lambda>arr t p xs. \<lparr>ring = \<lparr>capacity = 2, internalArray = arr, headPos = 0, tailPos = t\<rparr>,
    prod = p, cons = CIdle, pushed = xs, popped = [], faulted = False\<rparr> :: nat spsc"
  have i: "spsc_reachable 2 (?st [None, None] 0 PIdle [])"
    using spsc_reachable.init [of 2] by (simp add: spsc_init_def ring_new_def numeral_2_eq_2)
  have a: "spsc_step (?st [None, None] 0 PIdle []) (?st [None, None] 0 (PHead 7 0) [])"
    using p_load_head [of "?st [None, None] 0 PIdle []" 7] by simp
  have b: "spsc_step (?st [None, None] 0 (PHead 7 0) []) (?st [None, None] 0 (PTail 7 0 0) [])"
    using p_load_tail [of "?st [None, None] 0 (PHead 7 0) []" 7 0] by simp
  have c: "spsc_step (?st [None, None] 0 (PTail 7 0 0) []) (?st [Some 7, None] 0 (PStore 7 1) [])"
    using p_write [of "?st [None, None] 0 (PTail 7 0 0) []" 7 0 0 "[Some 7, None]"]
    by (simp add: nextPos_def)
  have d: "spsc_step (?st [Some 7, None] 0 (PStore 7 1) []) (?st [Some 7, None] 1 PIdle [7])"
    using p_store [of "?st [Some 7, None] 0 (PStore 7 1) []" 7 1] by simp
  have r: "spsc_reachable 2 (?st [Some 7, None] 1 PIdle [7])"
    by (rule spsc_reachable.step [OF spsc_reachable.step [OF spsc_reachable.step
          [OF spsc_reachable.step [OF i a] b] c] d])
  from spsc_linearizable [OF r] r show ?thesis
    by (intro exI [of _ "?st [Some 7, None] 1 PIdle [7]"]) simp
qed

end
