(* ===== verification/ReorderPipe.thy ===== *)
theory ReorderPipe
  imports RtpHeader "HOL-Library.Multiset"
begin

text \<open>
  \<open>RtpPipe\<close> of \<open>mod/janitor/include/rtpTrs/RtpPipe.hpp\<close>: the reorder buffer that releases RTP
  packets in sequence order and keeps the loss statistics. The buffer is a ring of
  \<open>2 * reorderSize + 1\<close> slots with a received mark and the packet for each; positions are
  \<open>uint16_t\<close> below \<open>arraySize\<close> and are natural numbers here, with the arithmetic that could wrap
  written out. Log statements are omitted.
\<close>

subsection \<open>Sequence distance and counters\<close>

definition getSeqDistance :: "u16 \<Rightarrow> u16 \<Rightarrow> int" where
  "getSeqDistance a b =
     (let diff = uint a - uint b
      in if diff > 32767 then diff - 65536 else if diff < - 32767 then diff + 65536 else diff)"

datatype RtpState = OK | PACKAGE_LENGTH_ERROR | SSRC_ERROR | PAYLOAD_TYPE_ERROR | SEQ_ERROR

datatype SeqState = ok | jump | late | old | gap | duplicated | invalid

record SeqCounter =
  lastSeq :: int
  packetCount :: u32
  packetExpected :: u32
  seqOk :: u32
  seqLate :: u32
  seqOld :: u32
  seqJump :: u32
  seqGap :: u32
  seqDuplicated :: u32
  seqInvalid :: u32

definition lost :: "SeqCounter \<Rightarrow> u32" where
  "lost c = packetExpected c - seqOk c - seqLate c - seqGap c"

definition SeqCounter_reset :: SeqCounter where
  "SeqCounter_reset = \<lparr>lastSeq = -1, packetCount = 0, packetExpected = 0, seqOk = 0, seqLate = 0,
     seqOld = 0, seqJump = 0, seqGap = 0, seqDuplicated = 0, seqInvalid = 0\<rparr>"

record StreamStatus =
  status_ssrc :: u32
  status_payloadType :: u8
  startAt :: int
  lastRtpArrival :: int
  dataBytes :: u32
  validDataBytes :: u32
  udpCount :: u32
  validUdpCount :: u32
  markCount :: u32
  packageLengthError :: u32
  ssrcError :: u32
  payloadError :: u32

definition StreamStatus_reset :: StreamStatus where
  "StreamStatus_reset = \<lparr>status_ssrc = 0, status_payloadType = 0, startAt = -1, lastRtpArrival = -1,
     dataBytes = 0, validDataBytes = 0, udpCount = 0, validUdpCount = 0, markCount = 0,
     packageLengthError = 0, ssrcError = 0, payloadError = 0\<rparr>"

definition duration :: "StreamStatus \<Rightarrow> int" where
  "duration s = lastRtpArrival s - startAt s"

subsection \<open>The class RtpPipe\<close>

record pipe =
  reorderSize :: nat
  arraySize :: nat
  seqArray :: "u8 list"
  rtpDataArray :: "bytes list"
  headPos :: nat
  tailPos :: nat
  seqCounter :: SeqCounter
  streamStatus :: StreamStatus

definition RtpPipe_new :: "nat \<Rightarrow> pipe" where
  "RtpPipe_new reorderMaxSize =
     (let n = (2 * reorderMaxSize + 1) mod 65536
      in \<lparr>reorderSize = reorderMaxSize, arraySize = n, seqArray = replicate n 0,
          rtpDataArray = replicate n [], headPos = 0, tailPos = 0,
          seqCounter = SeqCounter_reset, streamStatus = StreamStatus_reset\<rparr>)"

definition forward :: "pipe \<Rightarrow> nat \<Rightarrow> nat \<Rightarrow> nat" where
  "forward p pos distance = (pos + distance) mod arraySize p"

definition backward :: "pipe \<Rightarrow> nat \<Rightarrow> nat \<Rightarrow> nat" where
  "backward p pos distance =
     (let padding = if distance > pos then 1 + distance div arraySize p else 0
      in nat ((int pos - int distance + int (padding * arraySize p)) mod int (arraySize p)))"

definition forwardDistance :: "pipe \<Rightarrow> nat \<Rightarrow> nat \<Rightarrow> nat" where
  "forwardDistance p pos1 pos2 =
     (if pos2 > pos1 then (pos1 + (arraySize p - pos2)) mod 65536 else pos1 - pos2)"

definition setSeqState :: "u8 \<Rightarrow> pipe \<Rightarrow> pipe res" where
  "setSeqState v p =
     andThen (put (seqArray p) (headPos p) v) (\<lambda>arr.
       Inr (p\<lparr>seqArray := arr, headPos := forward p (headPos p) 1,
              seqCounter := (seqCounter p)\<lparr>packetExpected := packetExpected (seqCounter p) + 1\<rparr>\<rparr>))"

definition resetPos :: "pipe \<Rightarrow> pipe" where
  "resetPos p = p\<lparr>seqCounter := (seqCounter p)\<lparr>lastSeq := -1\<rparr>, headPos := 0, tailPos := 0,
     seqArray := replicate (arraySize p) 0\<rparr>"

definition resetPipe :: "pipe \<Rightarrow> pipe" where
  "resetPipe p = resetPos (p\<lparr>seqCounter := SeqCounter_reset, streamStatus := StreamStatus_reset\<rparr>)"

definition getPos :: "int \<Rightarrow> pipe \<Rightarrow> nat res" where
  "getPos diff p =
     (if diff > int (reorderSize p) \<or> diff < - int (reorderSize p)
      then Inl (RuntimeError ''diff > reorderSize || diff < -reorderSize'')
      else if diff = 0 then Inr (nat ((int (headPos p) - 1) mod 65536))
      else if diff > 0 then
        let newPos = int (headPos p) + diff - 1;
            newPos = (if newPos \<ge> int (arraySize p) then newPos - int (arraySize p) else newPos)
        in Inr (nat (newPos mod 65536))
      else
        let newPos = int (headPos p) + diff - 1;
            newPos = (if newPos < 0 then newPos + int (arraySize p) else newPos)
        in Inr (nat (newPos mod 65536)))"

text \<open>\<open>outQueue.emplace(std::move(rtpDataArray[tailPos]))\<close>: the slot is left empty.\<close>

definition takeFront :: "pipe \<Rightarrow> bytes list \<Rightarrow> (pipe \<times> bytes list) res" where
  "takeFront p out =
     andThen (at (rtpDataArray p) (tailPos p)) (\<lambda>d.
       Inr (p\<lparr>rtpDataArray := (rtpDataArray p)[tailPos p := []]\<rparr>, out @ [d]))"

definition tailForward :: "pipe \<Rightarrow> pipe" where
  "tailForward p = p\<lparr>tailPos := forward p (tailPos p) 1\<rparr>"

text \<open>
  The two loops of \<open>takeRtps\<close>. The first result is the value returned, 0 when the loop ran to
  its end: the counted loop is a recursion on what is left of \<open>forceRange\<close>, the second loop has
  fuel for one round of the ring.
\<close>

primrec forceLoop :: "nat \<Rightarrow> pipe \<Rightarrow> bytes list \<Rightarrow> (int \<times> pipe \<times> bytes list) res" where
  "forceLoop 0 p out = Inr (0, p, out)"
| "forceLoop (Suc k) p out =
     (if headPos p = tailPos p then Inr (0, p, out)
      else andThen (at (seqArray p) (tailPos p)) (\<lambda>mark.
        if mark \<noteq> 0 then
          andThen (at (rtpDataArray p) (tailPos p)) (\<lambda>d.
            if length d = 0 then Inr (-1, p, out)
            else andThen (takeFront p out) (\<lambda>(p, out). forceLoop k (tailForward p) out))
        else forceLoop k (tailForward p) out))"

primrec drainLoop :: "nat \<Rightarrow> pipe \<Rightarrow> bytes list \<Rightarrow> (int \<times> pipe \<times> bytes list) res" where
  "drainLoop 0 p out = Inl OutOfFuel"
| "drainLoop (Suc fuel) p out =
     andThen (at (seqArray p) (tailPos p)) (\<lambda>mark.
       if mark \<noteq> 0 \<and> headPos p \<noteq> tailPos p then
         andThen (at (rtpDataArray p) (tailPos p)) (\<lambda>d.
           if length d = 0 then Inr (-2, p, out)
           else andThen (takeFront p out) (\<lambda>(p, out). drainLoop fuel (tailForward p) out))
       else Inr (0, p, out))"

definition takeRtps :: "nat \<Rightarrow> pipe \<Rightarrow> bytes list \<Rightarrow> (int \<times> pipe \<times> bytes list) res" where
  "takeRtps forceRange p out =
     (if headPos p = tailPos p then Inr (0, p, out)
      else andThen (forceLoop forceRange p out) (\<lambda>(rst, p, out).
        if rst \<noteq> 0 then Inr (rst, p, out)
        else drainLoop (Suc (arraySize p)) p out))"

text \<open>The check after \<open>takeRtps\<close> in \<open>updateData\<close>: a negative result leaves the process.\<close>

definition takeOrExit :: "nat \<Rightarrow> pipe \<Rightarrow> bytes list \<Rightarrow> (pipe \<times> bytes list) res" where
  "takeOrExit forceRange p out =
     andThen (takeRtps forceRange p out) (\<lambda>(rst, p, out).
       if rst < 0 then Inl ProcessExit else Inr (p, out))"

text \<open>Storing at the head, marking it, and forcing out what no longer fits the reorder window.\<close>

definition storeHead :: "bytes \<Rightarrow> pipe \<Rightarrow> bytes list \<Rightarrow> (pipe \<times> bytes list) res" where
  "storeHead rtpData p out =
     andThen (put (rtpDataArray p) (headPos p) rtpData) (\<lambda>arr.
     andThen (setSeqState 1 (p\<lparr>rtpDataArray := arr\<rparr>)) (\<lambda>p.
       let d1 = forwardDistance p (headPos p) (tailPos p);
           forceRange = int d1 - int (reorderSize p)
       in if forceRange > 0 then takeOrExit (nat forceRange mod 65536) p out else Inr (p, out)))"

primrec skipLoop :: "nat \<Rightarrow> pipe \<Rightarrow> pipe res" where
  "skipLoop 0 p = Inr p"
| "skipLoop (Suc k) p = andThen (setSeqState 0 p) (skipLoop k)"

definition emitHead :: "bytes \<Rightarrow> pipe \<Rightarrow> bytes list \<Rightarrow> (pipe \<times> bytes list) res" where
  "emitHead rtpData p out = andThen (setSeqState 1 p) (\<lambda>p. Inr (tailForward p, out @ [rtpData]))"

definition setLastSeq :: "u16 \<Rightarrow> SeqCounter \<Rightarrow> SeqCounter" where
  "setLastSeq seq c = c\<lparr>lastSeq := uint seq\<rparr>"

text \<open>The \<open>switch\<close> at the end of \<open>updateData\<close>.\<close>

fun countState :: "SeqState \<Rightarrow> u16 \<Rightarrow> SeqCounter \<Rightarrow> SeqCounter" where
  "countState ok seq c = setLastSeq seq (c\<lparr>seqOk := seqOk c + 1\<rparr>)"
| "countState jump seq c = setLastSeq seq (c\<lparr>seqJump := seqJump c + 1\<rparr>)"
| "countState late seq c = c\<lparr>seqLate := seqLate c + 1\<rparr>"
| "countState old seq c = c\<lparr>seqOld := seqOld c + 1\<rparr>"
| "countState gap seq c = (setLastSeq seq c)\<lparr>seqGap := seqGap c + 1\<rparr>"
| "countState duplicated seq c = c\<lparr>seqDuplicated := seqDuplicated c + 1\<rparr>"
| "countState invalid seq c = c\<lparr>seqInvalid := seqInvalid c + 1\<rparr>"

text \<open>The branch on \<open>diff\<close>: the state reached, the pipe and the output queue.\<close>

definition classify :: "int \<Rightarrow> bytes \<Rightarrow> pipe \<Rightarrow> bytes list \<Rightarrow> (SeqState \<times> pipe \<times> bytes list) res" where
  "classify diff rtpData p out =
     (if diff = 1 then
        if tailPos p = headPos p then
          if length rtpData = 0 then Inl ProcessExit
          else andThen (emitHead rtpData p out) (\<lambda>(p, out). Inr (ok, p, out))
        else andThen (storeHead rtpData p out) (\<lambda>(p, out). Inr (ok, p, out))
      else if diff > 1 \<and> diff \<le> int (reorderSize p) then
        andThen (skipLoop (nat (diff - 1)) p) (\<lambda>p.
        andThen (storeHead rtpData p out) (\<lambda>(p, out). Inr (jump, p, out)))
      else if diff > int (reorderSize p) \<and> diff < 5000 then
        andThen (takeOrExit (reorderSize p) p out) (\<lambda>(p, out).
          if length rtpData = 0 then Inl ProcessExit
          else andThen (emitHead rtpData (resetPos p) out) (\<lambda>(p, out).
            Inr (gap, p\<lparr>seqCounter := (seqCounter p)\<lparr>packetExpected :=
                   packetExpected (seqCounter p) + word_of_int (diff - 1)\<rparr>\<rparr>, out)))
      else if diff = 0 then Inr (duplicated, p, out)
      else if diff < 0 \<and> diff \<ge> - int (reorderSize p) then
        andThen (getPos diff p) (\<lambda>pos.
        andThen (at (seqArray p) pos) (\<lambda>mark.
          if mark \<noteq> 0 then Inr (duplicated, p, out)
          else
            let inRtpDistance = - diff;
                currentPos = backward p (headPos p) 1;
                tailDistance = (if headPos p = tailPos p then -1
                                else int (forwardDistance p currentPos (tailPos p)))
            in if inRtpDistance \<le> tailDistance then
                 andThen (put (rtpDataArray p) pos rtpData) (\<lambda>data.
                 andThen (put (seqArray p) pos 1) (\<lambda>arr.
                 andThen (takeRtps 0 (p\<lparr>rtpDataArray := data, seqArray := arr\<rparr>) out) (\<lambda>(rst, p, out).
                   Inr (late, p, out))))
               else Inr (old, p, out)))
      else if diff < - int (reorderSize p) \<and> diff > - 5000 then Inr (old, p, out)
      else Inr (invalid, resetPos p, out))"

definition updateData :: "u16 \<Rightarrow> bytes \<Rightarrow> pipe \<Rightarrow> bytes list \<Rightarrow> (SeqState \<times> pipe \<times> bytes list) res" where
  "updateData seq rtpData p out =
     (let p = p\<lparr>seqCounter := (seqCounter p)\<lparr>packetCount := packetCount (seqCounter p) + 1\<rparr>\<rparr>
      in if lastSeq (seqCounter p) < 0 then
           andThen (emitHead rtpData p out) (\<lambda>(p, out).
             Inr (ok, p\<lparr>seqCounter := countState ok seq (seqCounter p)\<rparr>, out))
         else
           andThen (classify (getSeqDistance seq (word_of_int (lastSeq (seqCounter p)))) rtpData p out)
             (\<lambda>(state, p, out).
               Inr (state, p\<lparr>seqCounter := countState state seq (seqCounter p)\<rparr>, out)))"

definition reorderRtp :: "bytes \<Rightarrow> int \<Rightarrow> pipe \<Rightarrow> bytes list \<Rightarrow> (RtpState \<times> pipe \<times> bytes list) res" where
  "reorderRtp rtpData arrivedTimestamp p out =
     (let len = length rtpData;
          st = streamStatus p;
          st = st\<lparr>dataBytes := dataBytes st + of_nat len, udpCount := udpCount st + 1\<rparr>
      in if len < 12 then Inr (PACKAGE_LENGTH_ERROR, p\<lparr>streamStatus := st\<rparr>, out)
         else andThen (getSsrc rtpData) (\<lambda>ssrc. andThen (getPayloadType rtpData) (\<lambda>pt.
           let st = (if startAt st \<le> 0
                     then st\<lparr>startAt := arrivedTimestamp, status_ssrc := ssrc, status_payloadType := pt\<rparr>
                     else st)
           in if pt \<noteq> status_payloadType st then
                Inr (PAYLOAD_TYPE_ERROR, p\<lparr>streamStatus := st\<lparr>payloadError := payloadError st + 1\<rparr>\<rparr>, out)
              else if ssrc \<noteq> status_ssrc st then
                Inr (SSRC_ERROR, p\<lparr>streamStatus := st\<lparr>ssrcError := ssrcError st + 1\<rparr>\<rparr>, out)
              else andThen (getMark rtpData) (\<lambda>mark. andThen (getSeq rtpData) (\<lambda>seq.
                let st = st\<lparr>lastRtpArrival := arrivedTimestamp\<rparr>;
                    st = (if mark then st\<lparr>markCount := markCount st + 1\<rparr> else st)
                in andThen (updateData seq rtpData (p\<lparr>streamStatus := st\<rparr>) out) (\<lambda>(rst, p, out).
                  if rst = invalid \<or> rst = duplicated then Inr (SEQ_ERROR, p, out)
                  else
                    let st = streamStatus p
                    in Inr (OK, p\<lparr>streamStatus := st\<lparr>validDataBytes := validDataBytes st + of_nat len,
                              validUdpCount := validUdpCount st + 1\<rparr>\<rparr>, out)))))))"

subsection \<open>Sequence numbers\<close>

lemma getSeqDistance_circle:
  "- 32768 \<le> getSeqDistance a b \<and> getSeqDistance a b \<le> 32768
   \<and> (uint b + getSeqDistance a b) mod 65536 = uint a"
proof -
  have *: "0 \<le> x \<Longrightarrow> x < 65536 \<Longrightarrow> 0 \<le> y \<Longrightarrow> y < 65536 \<Longrightarrow>
    d = (if x - y > 32767 then x - y - 65536 else if x - y < - 32767 then x - y + 65536 else x - y) \<Longrightarrow>
    - 32768 \<le> d \<and> d \<le> 32768 \<and> (y + d) mod 65536 = x" for x y d :: int
    by (auto simp: mod_pos_pos_trivial split: if_splits)
  show ?thesis
    by (rule *) (use uint_lt2p [of a] uint_lt2p [of b] in \<open>auto simp: getSeqDistance_def Let_def\<close>)
qed

text \<open>The distance is between -32768 and 32768 and leads from \<open>b\<close> to \<open>a\<close> modulo \<open>2^16\<close>, so it
  is the shortest way round the circle of sequence numbers.\<close>

theorem getSeqDistance_spec:
  "- 32768 \<le> getSeqDistance a b \<and> getSeqDistance a b \<le> 32768
   \<and> (uint b + getSeqDistance a b) mod 65536 = uint a"
  by (rule getSeqDistance_circle)

subsection \<open>The window of pending slots\<close>

text \<open>
  The slots from the tail up to the head: \<open>None\<close> for a packet not received, \<open>Some d\<close> for one that
  waits for its predecessors. This list is the abstract state the ring implements.
\<close>

definition pending :: "pipe \<Rightarrow> nat" where
  "pending p = ring_dist (arraySize p) (headPos p) (tailPos p)"

definition slot_at :: "pipe \<Rightarrow> nat \<Rightarrow> nat" where
  "slot_at p i = (tailPos p + i) mod arraySize p"

definition cell :: "pipe \<Rightarrow> nat \<Rightarrow> bytes option" where
  "cell p j = (if seqArray p ! j \<noteq> 0 then Some (rtpDataArray p ! j) else None)"

definition window :: "pipe \<Rightarrow> bytes option list" where
  "window p = map (\<lambda>i. cell p (slot_at p i)) [0..<pending p]"

definition pipe_shape :: "pipe \<Rightarrow> bool" where
  "pipe_shape p \<longleftrightarrow> reorderSize p \<le> 32767 \<and> arraySize p = 2 * reorderSize p + 1
     \<and> length (seqArray p) = arraySize p \<and> length (rtpDataArray p) = arraySize p
     \<and> headPos p < arraySize p \<and> tailPos p < arraySize p"

lemma length_window [simp]: "length (window p) = pending p"
  by (simp add: window_def)

lemma pending_less: "pipe_shape p \<Longrightarrow> pending p < arraySize p"
  by (simp add: pipe_shape_def pending_def)

lemma window_Nil_iff: "pipe_shape p \<Longrightarrow> window p = [] \<longleftrightarrow> headPos p = tailPos p"
  using ring_dist_0_iff [of "headPos p" "arraySize p" "tailPos p"]
  by (auto simp: window_def pending_def pipe_shape_def)

lemma slot_at_pending: "pipe_shape p \<Longrightarrow> slot_at p (pending p) = headPos p"
  by (simp add: slot_at_def pending_def ring_dist_inverse pipe_shape_def)

lemma slot_at_less [simp]: "pipe_shape p \<Longrightarrow> slot_at p i < arraySize p"
  by (simp add: slot_at_def pipe_shape_def)

lemma slot_at_inj:
  "pipe_shape p \<Longrightarrow> i < arraySize p \<Longrightarrow> j < arraySize p \<Longrightarrow> slot_at p i = slot_at p j \<longleftrightarrow> i = j"
  unfolding slot_at_def pipe_shape_def by (simp add: ring_pos_inj)

lemma window_nth: "i < pending p \<Longrightarrow> window p ! i = cell p (slot_at p i)"
  by (simp add: window_def)

lemma window_eqI:
  assumes "pending p = length w" "\<And>i. i < length w \<Longrightarrow> cell p (slot_at p i) = w ! i"
  shows "window p = w"
  using assms by (intro nth_equalityI) (simp_all add: window_nth)

text \<open>What the elementary steps do to the window.\<close>

lemma setSeqState_window:
  assumes "pipe_shape p" "pending p < arraySize p - 1"
  shows "\<exists>p'. setSeqState v p = Inr p' \<and> pipe_shape p'
    \<and> window p' = window p @ [if v \<noteq> 0 then Some (rtpDataArray p ! headPos p) else None]
    \<and> reorderSize p' = reorderSize p \<and> streamStatus p' = streamStatus p
    \<and> seqCounter p' = (seqCounter p)\<lparr>packetExpected := packetExpected (seqCounter p) + 1\<rparr>"
proof -
  let ?p' = "p\<lparr>seqArray := (seqArray p)[headPos p := v], headPos := forward p (headPos p) 1,
    seqCounter := (seqCounter p)\<lparr>packetExpected := packetExpected (seqCounter p) + 1\<rparr>\<rparr>"
  have sh: "pipe_shape ?p'"
    using assms(1) by (simp add: pipe_shape_def forward_def)
  have pend: "pending ?p' = Suc (pending p)"
    using assms ring_dist_next_front [of "headPos p" "arraySize p" "tailPos p"]
    by (simp add: pending_def forward_def pipe_shape_def)
  have "cell ?p' (slot_at ?p' i)
      = (window p @ [if v \<noteq> 0 then Some (rtpDataArray p ! headPos p) else None]) ! i"
    if "i < Suc (pending p)" for i
  proof (cases "i = pending p")
    case True
    then show ?thesis using slot_at_pending [OF assms(1)] assms(1)
      by (simp add: slot_at_def cell_def nth_append pipe_shape_def)
  next
    case False
    then have "slot_at p i \<noteq> headPos p"
      using slot_at_inj [OF assms(1), of i "pending p"] slot_at_pending [OF assms(1)] that assms(2) by simp
    then show ?thesis using False that
      by (simp add: slot_at_def cell_def nth_append window_nth)
  qed
  then have win: "window ?p' = window p @ [if v \<noteq> 0 then Some (rtpDataArray p ! headPos p) else None]"
    using pend by (intro window_eqI) simp_all
  have eq: "setSeqState v p = Inr ?p'"
    using assms(1) by (simp add: setSeqState_def pipe_shape_def)
  show ?thesis by (rule exI [of _ ?p'], intro conjI eq sh win) simp_all
qed

lemma tailForward_window:
  assumes "pipe_shape p" "headPos p \<noteq> tailPos p"
  shows "pipe_shape (tailForward p)" "window (tailForward p) = tl (window p)"
    "pending p = Suc (pending (tailForward p))"
proof -
  show "pipe_shape (tailForward p)"
    using assms by (simp add: tailForward_def pipe_shape_def forward_def)
  show pend: "pending p = Suc (pending (tailForward p))"
    using assms ring_dist_next_back [of "headPos p" "arraySize p" "tailPos p"]
    by (simp add: pending_def tailForward_def forward_def pipe_shape_def)
  show "window (tailForward p) = tl (window p)"
  proof (rule window_eqI)
    show "pending (tailForward p) = length (tl (window p))" using pend by simp
    fix i assume "i < length (tl (window p))"
    moreover have "slot_at (tailForward p) i = slot_at p (Suc i)"
      by (simp add: slot_at_def tailForward_def forward_def mod_simps)
    ultimately show "cell (tailForward p) (slot_at (tailForward p) i) = tl (window p) ! i"
      by (simp add: nth_tl window_nth cell_def) (simp add: tailForward_def)
  qed
qed

lemma window_cong:
  assumes "arraySize p' = arraySize p" "headPos p' = headPos p" "tailPos p' = tailPos p"
    and "\<And>i. i < pending p \<Longrightarrow> cell p' (slot_at p i) = cell p (slot_at p i)"
  shows "window p' = window p"
proof -
  have "pending p' = pending p" using assms by (simp add: pending_def)
  moreover have "slot_at p' i = slot_at p i" for i using assms by (simp add: slot_at_def)
  ultimately show ?thesis using assms(4) by (simp add: window_def)
qed

lemma window_unused_head:
  assumes "pipe_shape p"
  shows "window (p\<lparr>rtpDataArray := (rtpDataArray p)[headPos p := d]\<rparr>) = window p"
proof (rule window_cong)
  fix i assume i: "i < pending p"
  have "slot_at p i \<noteq> headPos p"
    using slot_at_inj [OF assms, of i "pending p"] slot_at_pending [OF assms] i pending_less [OF assms]
    by simp
  then show "cell (p\<lparr>rtpDataArray := (rtpDataArray p)[headPos p := d]\<rparr>) (slot_at p i) = cell p (slot_at p i)"
    by (simp add: cell_def)
qed simp_all

lemma fill_window:
  assumes "pipe_shape p" "i < pending p"
  shows "window (p\<lparr>rtpDataArray := (rtpDataArray p)[slot_at p i := d],
      seqArray := (seqArray p)[slot_at p i := 1]\<rparr>) = (window p)[i := Some d]"
    (is "window ?p' = _")
proof (rule window_eqI)
  show "pending ?p' = length ((window p)[i := Some d])" by (simp add: pending_def)
  fix j assume "j < length ((window p)[i := Some d])"
  then have j: "j < pending p" by simp
  have "slot_at p j = slot_at p i \<longleftrightarrow> j = i"
    using slot_at_inj [OF assms(1), of j i] j assms pending_less [OF assms(1)] by simp
  moreover have "slot_at ?p' j = slot_at p j" by (simp add: slot_at_def)
  ultimately show "cell ?p' (slot_at ?p' j) = (window p)[i := Some d] ! j"
    using assms slot_at_less [OF assms(1), of i] j
    by (auto simp: cell_def nth_list_update window_nth pipe_shape_def)
qed

subsection \<open>Taking packets out\<close>

fun somes :: "'a option list \<Rightarrow> 'a list" where
  "somes [] = []"
| "somes (None # w) = somes w"
| "somes (Some d # w) = d # somes w"

lemma somes_append [simp]: "somes (v @ w) = somes v @ somes w"
  by (induction v rule: somes.induct) simp_all

definition full :: "bytes option list \<Rightarrow> bool" where
  "full w \<longleftrightarrow> (\<forall>d. Some d \<in> set w \<longrightarrow> d \<noteq> [])"

lemma full_simps [simp]: "full []" "full (None # w) = full w" "full (Some d # w) = (d \<noteq> [] \<and> full w)"
  "full (v @ w) = (full v \<and> full w)"
  by (auto simp: full_def)

text \<open>What taking with \<open>forceRange = k\<close> releases, and what it leaves: first \<open>k\<close> slots whether
  received or not, then every slot up to the next missing one.\<close>

definition released :: "nat \<Rightarrow> 'a option list \<Rightarrow> 'a option list" where
  "released k w = take k w @ takeWhile (\<lambda>x. x \<noteq> None) (drop k w)"

definition remaining :: "nat \<Rightarrow> 'a option list \<Rightarrow> 'a option list" where
  "remaining k w = dropWhile (\<lambda>x. x \<noteq> None) (drop k w)"

lemma released_remaining: "released k w @ remaining k w = w"
  by (simp add: released_def remaining_def)

lemma full_parts: "full w \<Longrightarrow> full (released k w) \<and> full (remaining k w)"
  by (metis full_simps(4) released_remaining)

definition kept :: "pipe \<Rightarrow> pipe \<Rightarrow> bool" where
  "kept p p' \<longleftrightarrow> reorderSize p' = reorderSize p \<and> seqCounter p' = seqCounter p
     \<and> streamStatus p' = streamStatus p"

lemma kept_refl [simp]: "kept p p"
  and kept_trans: "kept p q \<Longrightarrow> kept q r \<Longrightarrow> kept p r"
  by (auto simp: kept_def)

lemma front_none:
  assumes "pipe_shape p" "window p = None # w"
  shows "headPos p \<noteq> tailPos p" "at (seqArray p) (tailPos p) = Inr 0"
    "pipe_shape (tailForward p)" "window (tailForward p) = w" "kept p (tailForward p)"
proof -
  show ne: "headPos p \<noteq> tailPos p" using window_Nil_iff [OF assms(1)] assms(2) by auto
  have "0 < pending p" using assms(2) length_window [of p] by (cases "pending p") auto
  then have "cell p (tailPos p) = None"
    using window_nth [of 0 p] assms by (simp add: slot_at_def pipe_shape_def)
  then show "at (seqArray p) (tailPos p) = Inr 0"
    using assms(1) by (simp add: cell_def pipe_shape_def split: if_splits)
  show "pipe_shape (tailForward p)" "window (tailForward p) = w"
    using tailForward_window [OF assms(1) ne] assms(2) by simp_all
  show "kept p (tailForward p)" by (simp add: kept_def tailForward_def)
qed

lemma front_some:
  assumes "pipe_shape p" "window p = Some d # w"
  shows "headPos p \<noteq> tailPos p" "\<exists>m. at (seqArray p) (tailPos p) = Inr m \<and> m \<noteq> 0"
    "at (rtpDataArray p) (tailPos p) = Inr d"
    "\<exists>p1. takeFront p out = Inr (p1, out @ [d]) \<and> pipe_shape (tailForward p1)
       \<and> window (tailForward p1) = w \<and> kept p (tailForward p1)"
proof -
  show ne: "headPos p \<noteq> tailPos p" using window_Nil_iff [OF assms(1)] assms(2) by auto
  have sh: "tailPos p < length (seqArray p)" "tailPos p < length (rtpDataArray p)" "tailPos p < arraySize p"
    using assms(1) by (simp_all add: pipe_shape_def)
  have pos: "0 < pending p" using assms(2) length_window [of p] by (cases "pending p") auto
  have t: "slot_at p 0 = tailPos p" using sh by (simp add: slot_at_def)
  have c: "cell p (tailPos p) = Some d" using window_nth [of 0 p] assms(2) pos t by simp
  then show "\<exists>m. at (seqArray p) (tailPos p) = Inr m \<and> m \<noteq> 0"
    and d: "at (rtpDataArray p) (tailPos p) = Inr d"
    using sh by (auto simp: cell_def split: if_splits)
  let ?p1 = "p\<lparr>rtpDataArray := (rtpDataArray p)[tailPos p := []]\<rparr>"
  have sh1: "pipe_shape ?p1" using assms(1) by (simp add: pipe_shape_def)
  have "tl (window ?p1) = w"
  proof (rule nth_equalityI)
    have "pending ?p1 = pending p" by (simp add: pending_def)
    moreover have "pending p = Suc (length w)" using assms(2) length_window [of p] by simp
    ultimately have pend: "pending ?p1 = Suc (length w)" by simp
    then show "length (tl (window ?p1)) = length w" by simp
    fix i assume "i < length (tl (window ?p1))"
    then have i: "Suc i < pending p" using pend \<open>pending ?p1 = pending p\<close> by simp
    have "slot_at p (Suc i) \<noteq> tailPos p"
      using slot_at_inj [OF assms(1), of "Suc i" 0] i pending_less [OF assms(1)] t by simp
    moreover have "slot_at ?p1 (Suc i) = slot_at p (Suc i)" by (simp add: slot_at_def)
    ultimately have "window ?p1 ! Suc i = window p ! Suc i"
      using i pend \<open>pending ?p1 = pending p\<close> by (simp add: window_nth cell_def)
    then show "tl (window ?p1) ! i = w ! i" using assms(2) i pend \<open>pending ?p1 = pending p\<close>
      by (simp add: nth_tl)
  qed
  moreover have "takeFront p out = Inr (?p1, out @ [d])" using d by (simp add: takeFront_def)
  moreover have "kept p (tailForward ?p1)" by (simp add: kept_def tailForward_def)
  ultimately show "\<exists>p1. takeFront p out = Inr (p1, out @ [d]) \<and> pipe_shape (tailForward p1)
       \<and> window (tailForward p1) = w \<and> kept p (tailForward p1)"
    using tailForward_window [OF sh1] ne by auto
qed

lemma forceLoop_spec:
  assumes "pipe_shape p" "full (window p)"
  shows "\<exists>p'. forceLoop k p out = Inr (0, p', out @ somes (take k (window p))) \<and> pipe_shape p'
    \<and> window p' = drop k (window p) \<and> kept p p'"
  using assms
proof (induction k arbitrary: p out)
  case 0
  then show ?case by simp
next
  case (Suc k)
  show ?case
  proof (cases "window p")
    case Nil
    then show ?thesis using Suc.prems window_Nil_iff [of p] by simp
  next
    case (Cons x w)
    show ?thesis
    proof (cases x)
      case None
      note f = front_none [OF Suc.prems(1) Cons [unfolded None]]
      have "full (window (tailForward p))" using Suc.prems(2) Cons None f by simp
      from Suc.IH [OF f(3) this, of out] f Cons None show ?thesis by (auto intro: kept_trans)
    next
      case (Some d)
      note f = front_some [OF Suc.prems(1) Cons [unfolded Some]]
      from f(4) [of out] obtain p1 where p1: "takeFront p out = Inr (p1, out @ [d])"
        "pipe_shape (tailForward p1)" "window (tailForward p1) = w" "kept p (tailForward p1)" by blast
      have d: "d \<noteq> []" "full (window (tailForward p1))" using Suc.prems(2) Cons Some p1 by simp_all
      from f(2) obtain m where m: "at (seqArray p) (tailPos p) = Inr m" "m \<noteq> 0" by blast
      from Suc.IH [OF p1(2) d(2), of "out @ [d]"] f(1,3) m p1 d(1) Cons Some show ?thesis
        by (auto intro: kept_trans)
    qed
  qed
qed

lemma drainLoop_spec:
  assumes "pipe_shape p" "full (window p)" "pending p < fuel"
  shows "\<exists>p'. drainLoop fuel p out = Inr (0, p', out @ somes (takeWhile (\<lambda>x. x \<noteq> None) (window p)))
    \<and> pipe_shape p' \<and> window p' = dropWhile (\<lambda>x. x \<noteq> None) (window p) \<and> kept p p'"
  using assms
proof (induction fuel arbitrary: p out)
  case 0
  then show ?case by simp
next
  case (Suc fuel)
  show ?case
  proof (cases "window p")
    case Nil
    then show ?thesis using Suc.prems window_Nil_iff [of p] by (simp add: pipe_shape_def)
  next
    case (Cons x w)
    show ?thesis
    proof (cases x)
      case None
      then show ?thesis using front_none(1,2) [OF Suc.prems(1) Cons [unfolded None]] Cons Suc.prems by simp
    next
      case (Some d)
      note f = front_some [OF Suc.prems(1) Cons [unfolded Some]]
      from f(4) [of out] obtain p1 where p1: "takeFront p out = Inr (p1, out @ [d])"
        "pipe_shape (tailForward p1)" "window (tailForward p1) = w" "kept p (tailForward p1)" by blast
      have d: "d \<noteq> []" "full (window (tailForward p1))" using Suc.prems(2) Cons Some p1 by simp_all
      have "pending (tailForward p1) < fuel"
        using p1(3) Cons Suc.prems(3) length_window [of p] length_window [of "tailForward p1"] by simp
      from f(2) obtain m where m: "at (seqArray p) (tailPos p) = Inr m" "m \<noteq> 0" by blast
      from Suc.IH [OF p1(2) d(2) \<open>pending (tailForward p1) < fuel\<close>, of "out @ [d]"]
        f(1,3) m p1 d(1) Cons Some show ?thesis
        by (auto intro: kept_trans)
    qed
  qed
qed

lemma takeRtps_spec:
  assumes "pipe_shape p" "full (window p)"
  shows "\<exists>p'. takeRtps k p out = Inr (0, p', out @ somes (released k (window p))) \<and> pipe_shape p'
    \<and> window p' = remaining k (window p) \<and> kept p p'"
proof (cases "headPos p = tailPos p")
  case True
  then show ?thesis using assms window_Nil_iff [of p]
    by (simp add: takeRtps_def released_def remaining_def)
next
  case False
  from forceLoop_spec [OF assms, of k out] obtain p1 where
    p1: "forceLoop k p out = Inr (0, p1, out @ somes (take k (window p)))" "pipe_shape p1"
    "window p1 = drop k (window p)" "kept p p1" by blast
  have full: "full (window p1)" using assms(2) p1(3) by (auto simp: full_def dest: in_set_dropD)
  have a: "arraySize p1 = arraySize p" using p1(2,4) assms(1) by (simp add: pipe_shape_def kept_def)
  have "pending p1 < Suc (arraySize p1)" using pending_less [OF p1(2)] by simp
  from drainLoop_spec [OF p1(2) full this, of "out @ somes (take k (window p))"] p1 False
  show ?thesis
    by (auto simp: takeRtps_def released_def remaining_def simp del: drainLoop.simps intro: kept_trans)
qed

lemma takeOrExit_spec:
  assumes "pipe_shape p" "full (window p)"
  shows "\<exists>p'. takeOrExit k p out = Inr (p', out @ somes (released k (window p))) \<and> pipe_shape p'
    \<and> window p' = remaining k (window p) \<and> kept p p'"
  using takeRtps_spec [OF assms, of k out] by (auto simp: takeOrExit_def)

subsection \<open>The operations on the window\<close>

text \<open>Only the position fields, the arrays and the expected-packet counter change.\<close>

definition moved :: "pipe \<Rightarrow> pipe \<Rightarrow> bool" where
  "moved p p' \<longleftrightarrow> reorderSize p' = reorderSize p \<and> streamStatus p' = streamStatus p
     \<and> (\<exists>e. seqCounter p' = (seqCounter p)\<lparr>packetExpected := e\<rparr>)"

lemma kept_moved: "kept p p' \<Longrightarrow> moved p p'"
  by (auto simp: kept_def moved_def intro: exI [of _ "packetExpected (seqCounter p)"])

lemma moved_refl [simp]: "moved p p"
  by (simp add: kept_moved)

lemma moved_trans: "moved p q \<Longrightarrow> moved q r \<Longrightarrow> moved p r"
  by (auto simp: moved_def)

lemma movedI:
  "reorderSize p' = reorderSize p \<Longrightarrow> streamStatus p' = streamStatus p \<Longrightarrow>
   seqCounter p' = (seqCounter p)\<lparr>packetExpected := e\<rparr> \<Longrightarrow> moved p p'"
  unfolding moved_def by blast

lemma moved_lastSeq: "moved p p' \<Longrightarrow> lastSeq (seqCounter p') = lastSeq (seqCounter p)"
  by (auto simp: moved_def)

lemma forwardDistance_pending:
  "pipe_shape p \<Longrightarrow> forwardDistance p (headPos p) (tailPos p) = pending p"
  by (auto simp: forwardDistance_def pending_def pipe_shape_def ring_dist_cases intro!: mod_less)

lemma remaining_hd: "remaining k w = x # v \<Longrightarrow> x = None"
  unfolding remaining_def using hd_dropWhile [of "\<lambda>x. x \<noteq> None" "drop k w"] by auto

lemma length_remaining: "length (remaining k w) \<le> length w - k"
  unfolding remaining_def using length_dropWhile_le [of _ "drop k w"] by simp

lemma released_none: "released 0 (None # w) = []" "remaining 0 (None # w) = None # w"
  by (simp_all add: released_def remaining_def)

lemma storeHead_spec:
  assumes p: "pipe_shape p" and room: "pending p < arraySize p - 1"
    and full: "full (window p)" "d \<noteq> []" and w: "w = window p @ [Some d]" and hd: "hd w = None"
  shows "\<exists>p'. storeHead d p out = Inr (p', out @ somes (released (length w - reorderSize p) w))
    \<and> pipe_shape p' \<and> window p' = remaining (length w - reorderSize p) w \<and> moved p p'"
proof -
  let ?p1 = "p\<lparr>rtpDataArray := (rtpDataArray p)[headPos p := d]\<rparr>"
  have sh1: "pipe_shape ?p1" using p by (simp add: pipe_shape_def)
  have pend1: "pending ?p1 = pending p" by (simp add: pending_def)
  have w1: "window ?p1 = window p" by (rule window_unused_head [OF p])
  from setSeqState_window [OF sh1, of 1] room obtain p2 where
    p2: "setSeqState 1 ?p1 = Inr p2" "pipe_shape p2" "window p2 = w"
    "reorderSize p2 = reorderSize p" "streamStatus p2 = streamStatus p"
    "seqCounter p2 = (seqCounter p)\<lparr>packetExpected := packetExpected (seqCounter p) + 1\<rparr>"
    using w1 w p pend1 by (auto simp: pipe_shape_def)
  have m: "moved p p2" using p2 by (auto simp: moved_def)
  have dist: "forwardDistance p2 (headPos p2) (tailPos p2) = length w"
    using forwardDistance_pending [OF p2(2)] p2(3) by (metis length_window)
  have put: "put (rtpDataArray p) (headPos p) d = Inr ((rtpDataArray p)[headPos p := d])"
    using p by (simp add: pipe_shape_def)
  have len: "length w < 65536"
    using pending_less [OF p2(2)] p2(2,3) length_window [of p2] by (simp add: pipe_shape_def)
  show ?thesis
  proof (cases "length w > reorderSize p")
    case True
    then have k: "nat (int (length w) - int (reorderSize p)) mod 65536 = length w - reorderSize p"
      using len by (simp add: nat_diff_distrib)
    have "full (window p2)" using p2(3) full w by simp
    from takeOrExit_spec [OF p2(2) this, of "length w - reorderSize p" out] obtain p3 where
      p3: "takeOrExit (length w - reorderSize p) p2 out
           = Inr (p3, out @ somes (released (length w - reorderSize p) w))" "pipe_shape p3"
         "window p3 = remaining (length w - reorderSize p) w" "kept p2 p3"
      using p2(3) by auto
    have "storeHead d p out = takeOrExit (length w - reorderSize p) p2 out"
      using True k p2(4) by (simp add: storeHead_def put p2(1) dist Let_def)
    then show ?thesis using p3 m kept_moved moved_trans by auto
  next
    case False
    then have "storeHead d p out = Inr (p2, out)"
      using p2(4) by (simp add: storeHead_def put p2(1) dist Let_def)
    moreover have "w \<noteq> []" using w by simp
    then obtain v where "w = None # v" using hd by (cases w) auto
    then have "released 0 w = []" "remaining 0 w = w" by (simp_all only: released_none)
    ultimately show ?thesis using False p2 m by simp
  qed
qed

lemma skipLoop_spec:
  assumes "pipe_shape p" "pending p + k < arraySize p"
  shows "\<exists>p'. skipLoop k p = Inr p' \<and> pipe_shape p' \<and> window p' = window p @ replicate k None \<and> moved p p'"
  using assms
proof (induction k arbitrary: p)
  case 0
  then show ?case by simp
next
  case (Suc k)
  have "pending p < arraySize p - 1" using Suc.prems(2) by simp
  from setSeqState_window [OF Suc.prems(1) this, of 0] obtain p1 where
    p1: "setSeqState 0 p = Inr p1" "pipe_shape p1" "window p1 = window p @ [None]"
      "reorderSize p1 = reorderSize p" "moved p p1"
    by (auto intro: movedI)
  have "pending p1 = Suc (pending p)" using p1(3) length_window [of p1] by simp
  moreover have "arraySize p1 = arraySize p" using p1(2,4) Suc.prems(1) by (simp add: pipe_shape_def)
  ultimately have "pending p1 + k < arraySize p1" using Suc.prems(2) by simp
  from Suc.IH [OF p1(2) this] p1 show ?case
    by (auto simp: replicate_append_same [symmetric] intro: moved_trans)
qed

lemma emitHead_spec:
  assumes "pipe_shape p" "window p = []"
  shows "\<exists>p'. emitHead d p out = Inr (p', out @ [d]) \<and> pipe_shape p' \<and> window p' = [] \<and> moved p p'"
proof (cases "reorderSize p = 0")
  case True
  let ?p' = "tailForward (p\<lparr>seqArray := (seqArray p)[headPos p := 1], headPos := forward p (headPos p) 1,
    seqCounter := (seqCounter p)\<lparr>packetExpected := packetExpected (seqCounter p) + 1\<rparr>\<rparr>)"
  have "emitHead d p out = Inr (?p', out @ [d])"
    using assms(1) by (simp add: emitHead_def setSeqState_def pipe_shape_def)
  moreover have "pipe_shape ?p'" using assms(1) by (simp add: pipe_shape_def tailForward_def forward_def)
  moreover have "moved p ?p'" by (rule movedI) (simp_all add: tailForward_def)
  moreover from calculation(2) have "window ?p' = []"
    using True by (subst window_Nil_iff) (simp_all add: tailForward_def pipe_shape_def)
  ultimately show ?thesis by blast
next
  case False
  have "pending p = 0" using assms(2) length_window [of p] by simp
  then have "pending p < arraySize p - 1" using False assms(1) by (simp add: pipe_shape_def)
  from setSeqState_window [OF assms(1) this, of 1] assms(2) obtain p1 where
    p1: "setSeqState 1 p = Inr p1" "pipe_shape p1" "window p1 \<noteq> []" "tl (window p1) = []"
      "reorderSize p1 = reorderSize p" "streamStatus p1 = streamStatus p"
      "seqCounter p1 = (seqCounter p)\<lparr>packetExpected := packetExpected (seqCounter p) + 1\<rparr>"
    by auto
  have m1: "moved p p1" by (rule movedI) (fact p1)+
  have ne: "headPos p1 \<noteq> tailPos p1" using window_Nil_iff [OF p1(2)] p1(3) by auto
  have "window (tailForward p1) = []"
    using tailForward_window(2) [OF p1(2) ne] p1(4) by simp
  moreover have "moved p1 (tailForward p1)" by (auto simp: moved_def tailForward_def intro: exI [of _ "packetExpected (seqCounter p1)"])
  ultimately show ?thesis
    using tailForward_window(1) [OF p1(2) ne] p1 m1 by (auto simp: emitHead_def intro: moved_trans)
qed

lemma resetPos_spec:
  assumes "pipe_shape p"
  shows "pipe_shape (resetPos p)" "window (resetPos p) = []"
    "seqCounter (resetPos p) = (seqCounter p)\<lparr>lastSeq := -1\<rparr>"
    "reorderSize (resetPos p) = reorderSize p" "streamStatus (resetPos p) = streamStatus p"
proof -
  show sh: "pipe_shape (resetPos p)" using assms by (simp add: pipe_shape_def resetPos_def)
  show "window (resetPos p) = []" using window_Nil_iff [OF sh] by (simp add: resetPos_def)
qed (simp_all add: resetPos_def)

subsection \<open>Refinement: the buffer without a ring\<close>

text \<open>
  The specification keeps the last sequence number and the pending slots as a list. Each packet
  appends, fills or discards, and what no longer fits \<open>R\<close> slots, or is complete at the front, is
  released in order (with the missing packets shown as \<open>None\<close>). A packet behind the window is
  \<open>old\<close> here; the ring may also call it \<open>duplicated\<close>, when a stale mark shows that it was received.
\<close>

definition spec_append :: "nat \<Rightarrow> bytes option list \<Rightarrow> bytes option list \<times> bytes option list" where
  "spec_append R w = (remaining (length w - R) w, released (length w - R) w)"

definition spec_update :: "nat \<Rightarrow> u16 \<Rightarrow> bytes \<Rightarrow> int \<Rightarrow> bytes option list \<Rightarrow>
    SeqState \<times> int \<times> bytes option list \<times> bytes option list" where
  "spec_update R seq d lst w =
     (if lst < 0 then (ok, uint seq, [], [Some d])
      else
        let diff = getSeqDistance seq (word_of_int lst); k = nat (- diff)
        in if diff = 1 then (ok, uint seq, spec_append R (w @ [Some d]))
           else if 1 < diff \<and> diff \<le> int R
             then (jump, uint seq, spec_append R (w @ replicate (nat (diff - 1)) None @ [Some d]))
           else if int R < diff \<and> diff < 5000
             then (gap, uint seq, [], w @ replicate (nat (diff - 1)) None @ [Some d])
           else if diff = 0 then (duplicated, lst, w, [])
           else if diff < 0 \<and> - int R \<le> diff then
             if k < length w then
               if w ! (length w - 1 - k) = None then
                 let v = w[length w - 1 - k := Some d] in (late, lst, remaining 0 v, released 0 v)
               else (duplicated, lst, w, [])
             else (old, lst, w, [])
           else if diff < - int R \<and> - 5000 < diff then (old, lst, w, [])
           else (invalid, -1, [], []))"

definition pipe_inv :: "pipe \<Rightarrow> bool" where
  "pipe_inv p \<longleftrightarrow> pipe_shape p \<and> full (window p) \<and> pending p \<le> reorderSize p
     \<and> (window p \<noteq> [] \<longrightarrow> hd (window p) = None)
     \<and> -1 \<le> lastSeq (seqCounter p) \<and> lastSeq (seqCounter p) < 65536
     \<and> (lastSeq (seqCounter p) < 0 \<longrightarrow> window p = [])"

lemma pipe_inv_new: "R \<le> 32767 \<Longrightarrow> pipe_inv (RtpPipe_new R)"
  by (simp add: pipe_inv_def pipe_shape_def RtpPipe_new_def Let_def window_def pending_def
      SeqCounter_reset_def)

text \<open>Positions behind the head, for a late packet.\<close>

lemma getPos_slot:
  assumes "pipe_shape p" "0 < k" "k \<le> reorderSize p"
  shows "\<exists>pos. getPos (- int k) p = Inr pos \<and> pos < arraySize p
    \<and> (k < pending p \<longrightarrow> pos = slot_at p (pending p - 1 - k))"
proof -
  let ?n = "arraySize p" and ?h = "headPos p"
  have n: "?n = 2 * reorderSize p + 1" "reorderSize p \<le> 32767" "?h < ?n"
    using assms(1) by (auto simp: pipe_shape_def)
  define pos where "pos = (if ?h < k + 1 then ?h + ?n - 1 - k else ?h - 1 - k)"
  have pos: "pos < ?n" using n assms(2,3) by (auto simp: pos_def)
  have "getPos (- int k) p = Inr pos"
    using n assms(2,3) by (auto simp: getPos_def Let_def pos_def nat_eq_iff mod_pos_pos_trivial)
  moreover have "pos = slot_at p (pending p - 1 - k)" if "k < pending p"
  proof -
    have "(slot_at p (pending p - 1 - k) + (k + 1)) mod ?n
        = (tailPos p + (pending p - 1 - k) + (k + 1)) mod ?n"
      unfolding slot_at_def by (rule mod_add_left_eq)
    also have "tailPos p + (pending p - 1 - k) + (k + 1) = tailPos p + pending p" using that by simp
    also have "(tailPos p + pending p) mod ?n = ?h"
      using slot_at_pending [OF assms(1)] by (simp add: slot_at_def)
    finally have "(slot_at p (pending p - 1 - k) + (k + 1)) mod ?n = ?h" .
    moreover have "pos + (k + 1) = ?h + ?n \<or> pos + (k + 1) = ?h"
      using n assms(3) by (auto simp: pos_def)
    then have "(pos + (k + 1)) mod ?n = ?h" using n(3) by (elim disjE) simp_all
    ultimately have "((k + 1) + pos) mod ?n = ((k + 1) + slot_at p (pending p - 1 - k)) mod ?n"
      by (simp add: add.commute)
    moreover have "k + 1 < ?n" using n assms(2,3) by simp
    ultimately show ?thesis
      using ring_pos_inj [of "k + 1" ?n pos "slot_at p (pending p - 1 - k)"] pos assms(1) by simp
  qed
  ultimately show ?thesis using pos by blast
qed

lemma tailDistance_pending:
  assumes "pipe_shape p" "headPos p \<noteq> tailPos p"
  shows "forwardDistance p (backward p (headPos p) 1) (tailPos p) = pending p - 1"
proof -
  have n: "arraySize p \<le> 65535" "headPos p < arraySize p" "tailPos p < arraySize p"
    using assms(1) by (auto simp: pipe_shape_def)
  have b: "backward p (headPos p) 1 = (if headPos p = 0 then arraySize p - 1 else headPos p - 1)"
  proof (cases "headPos p = 0")
    case True
    have "1 div arraySize p * arraySize p = (if arraySize p = 1 then 1 else 0)"
      using n by (auto simp: div_eq_0_iff)
    then show ?thesis using True n
      by (cases "arraySize p = 1") (auto simp: backward_def nat_eq_iff zmod_minus1)
  next
    case False
    then have "(int (headPos p) - 1) mod int (arraySize p) = int (headPos p) - 1"
      using n by (intro mod_pos_pos_trivial) auto
    then show ?thesis using False by (simp add: backward_def nat_diff_distrib)
  qed
  show ?thesis using n assms(2)
    by (auto simp: b [unfolded One_nat_def] forwardDistance_def pending_def ring_dist_cases)
qed

lemma late_step:
  assumes p: "pipe_inv p" and k: "0 < k" "k \<le> reorderSize p" and d: "d \<noteq> []"
  shows "\<exists>st p' rel. classify (- int k) d p out = Inr (st, p', out @ somes rel) \<and> moved p p'
    \<and> pipe_shape p' \<and>
    (if k < pending p then
       if window p ! (pending p - 1 - k) = None then
         let v = (window p)[pending p - 1 - k := Some d]
         in st = late \<and> window p' = remaining 0 v \<and> rel = released 0 v
       else st = duplicated \<and> window p' = window p \<and> rel = []
     else (st = old \<or> st = duplicated) \<and> window p' = window p \<and> rel = [])"
proof -
  have sh: "pipe_shape p" and full: "full (window p)" using p by (auto simp: pipe_inv_def)
  from getPos_slot [OF sh k] obtain pos where pos: "getPos (- int k) p = Inr pos" "pos < arraySize p"
    and slot: "k < pending p \<Longrightarrow> pos = slot_at p (pending p - 1 - k)" by blast
  have mark: "at (seqArray p) pos = Inr (seqArray p ! pos)" using pos sh by (simp add: pipe_shape_def)
  let ?td = "if headPos p = tailPos p then -1
    else int (forwardDistance p (backward p (headPos p) 1) (tailPos p))"
  have td: "?td = int (pending p) - 1"
    using window_Nil_iff [OF sh] length_window [of p] tailDistance_pending [OF sh]
    by (cases "window p") (auto simp: of_nat_diff)
  have cl: "classify (- int k) d p out =
      (if seqArray p ! pos \<noteq> 0 then Inr (duplicated, p, out)
       else if k < pending p then
         andThen (takeRtps 0 (p\<lparr>rtpDataArray := (rtpDataArray p)[pos := d], seqArray := (seqArray p)[pos := 1]\<rparr>) out)
           (\<lambda>(rst, p, out). Inr (late, p, out))
       else Inr (old, p, out))"
  proof -
    have "int k \<le> ?td \<longleftrightarrow> k < pending p" unfolding td by linarith
    moreover have "pos < length (rtpDataArray p)" "pos < length (seqArray p)"
      using pos sh by (simp_all add: pipe_shape_def)
    ultimately show ?thesis using k pos(1) mark
      by (simp add: classify_def Let_def del: One_nat_def)
  qed
  show ?thesis
  proof (cases "k < pending p")
    case True
    let ?i = "pending p - 1 - k"
    have c: "window p ! ?i = cell p pos" using True slot by (simp add: window_nth)
    show ?thesis
    proof (cases "seqArray p ! pos = 0")
      case z: True
      let ?p1 = "p\<lparr>rtpDataArray := (rtpDataArray p)[pos := d], seqArray := (seqArray p)[pos := 1]\<rparr>"
      let ?v = "(window p)[?i := Some d]"
      have i: "?i < pending p" using True by simp
      have w1: "window ?p1 = ?v" using fill_window [OF sh i] slot [OF True] by simp
      have sh1: "pipe_shape ?p1" using sh by (simp add: pipe_shape_def)
      have "full ?v" using full d by (auto simp: full_def dest: set_update_subset_insert [THEN subsetD])
      then have "full (window ?p1)" using w1 by simp
      from takeRtps_spec [OF sh1 this, of 0 out] obtain p2 where
        p2: "takeRtps 0 ?p1 out = Inr (0, p2, out @ somes (released 0 ?v))" "pipe_shape p2"
          "window p2 = remaining 0 ?v" "kept ?p1 p2" using w1 by auto
      have "moved p p2" using p2(4) by (auto simp: kept_def moved_def intro: exI [of _ "packetExpected (seqCounter p)"])
      then show ?thesis using True z c p2 by (auto simp: cl cell_def Let_def)
    next
      case False
      then show ?thesis using True c sh
        by (intro exI [of _ duplicated] exI [of _ p] exI [of _ "[]"]) (simp add: cl cell_def)
    qed
  next
    case False
    then show ?thesis using sh
      by (intro exI [of _ "if seqArray p ! pos \<noteq> 0 then duplicated else old"] exI [of _ p] exI [of _ "[]"])
        (simp add: cl)
  qed
qed

text \<open>The window keeps its invariant in the specification.\<close>

definition window_inv :: "nat \<Rightarrow> bytes option list \<Rightarrow> bool" where
  "window_inv R w \<longleftrightarrow> full w \<and> length w \<le> R \<and> (w \<noteq> [] \<longrightarrow> hd w = None)"

lemma window_inv_Nil [simp]: "window_inv R []"
  by (simp add: window_inv_def)

lemma window_inv_remaining:
  "full w \<Longrightarrow> length w - k \<le> R \<Longrightarrow> window_inv R (remaining k w)"
  using full_parts [of w k] length_remaining [of k w] remaining_hd [of k w]
  by (cases "remaining k w") (auto simp: window_inv_def)

lemma full_replicate_None [simp]: "full (replicate n None)"
  by (auto simp: full_def)

lemma spec_update_inv:
  assumes "window_inv R w" "d \<noteq> []" "-1 \<le> lst" "lst < 65536" "lst < 0 \<longrightarrow> w = []"
    and "spec_update R seq d lst w = (st, lst', w', rel)"
  shows "window_inv R w' \<and> -1 \<le> lst' \<and> lst' < 65536 \<and> (lst' < 0 \<longrightarrow> w' = [])"
proof -
  have "-1 \<le> uint seq" by (rule order_trans [of _ 0]) simp_all
  moreover have "uint seq < 65536" using uint_lt2p [of seq] by simp
  ultimately have u: "-1 \<le> uint seq \<and> uint seq < 65536" by blast
  have "full w" "length w \<le> R" using assms(1) by (simp_all add: window_inv_def)
  moreover have "full (w[i := Some d])" for i
    using \<open>full w\<close> assms(2) by (auto simp: full_def dest: set_update_subset_insert [THEN subsetD])
  moreover have "lst < 0 \<Longrightarrow> lst = -1" using assms(3) by simp
  ultimately show ?thesis
    using assms u
    by (auto simp: spec_update_def spec_append_def Let_def intro!: window_inv_remaining split: if_splits)
qed

definition framed :: "SeqState \<Rightarrow> pipe \<Rightarrow> pipe \<Rightarrow> bool" where
  "framed st p p1 \<longleftrightarrow> pipe_shape p1 \<and> reorderSize p1 = reorderSize p \<and> streamStatus p1 = streamStatus p
     \<and> (\<exists>e l. seqCounter p1 = (seqCounter p)\<lparr>packetExpected := e, lastSeq := l\<rparr>
          \<and> (st \<noteq> gap \<and> st \<noteq> invalid \<longrightarrow> l = lastSeq (seqCounter p)) \<and> (st = invalid \<longrightarrow> l = -1))"

lemma framed_moved: "moved p p1 \<Longrightarrow> pipe_shape p1 \<Longrightarrow> st \<noteq> gap \<Longrightarrow> st \<noteq> invalid \<Longrightarrow> framed st p p1"
  by (auto simp: framed_def moved_def intro: exI [of _ "lastSeq (seqCounter p)"])

lemma classify_refines:
  assumes p: "pipe_inv p" "0 \<le> lastSeq (seqCounter p)" "d \<noteq> []"
    and diff: "diff = getSeqDistance seq (word_of_int (lastSeq (seqCounter p)))"
  shows "\<exists>st p1 sst rel. classify diff d p out = Inr (st, p1, out @ somes rel) \<and> framed st p p1
    \<and> spec_update (reorderSize p) seq d (lastSeq (seqCounter p)) (window p)
        = (sst, lastSeq (countState st seq (seqCounter p1)), window p1, rel)
    \<and> (st = sst \<or> sst = old \<and> st = duplicated)"
proof -
  let ?R = "reorderSize p" and ?w = "window p" and ?l = "lastSeq (seqCounter p)"
  note sd = spec_update_def [of ?R seq d ?l ?w, folded diff] spec_append_def
  have sh: "pipe_shape p" and full: "full ?w" and len: "length ?w \<le> ?R"
    and hd: "?w \<noteq> [] \<Longrightarrow> hd ?w = None" using p(1) by (auto simp: pipe_inv_def)
  have n: "arraySize p = 2 * ?R + 1" using sh by (simp add: pipe_shape_def)
  have l0: "\<not> ?l < 0" using p(2) by simp
  consider (next_empty) "diff = 1" "?w = []" | (nexts) "diff = 1" "?w \<noteq> []"
    | (jmp) "1 < diff" "diff \<le> int ?R" | (gp) "int ?R < diff" "diff \<noteq> 1" "diff < 5000"
    | (dup) "diff = 0" | (lte) "diff < 0" "- int ?R \<le> diff"
    | (od) "diff < - int ?R" "- 5000 < diff"
    | (inv) "\<not> (diff = 1)" "\<not> (1 < diff \<and> diff \<le> int ?R)" "\<not> (int ?R < diff \<and> diff < 5000)"
        "\<not> (diff = 0)" "\<not> (diff < 0 \<and> - int ?R \<le> diff)" "\<not> (diff < - int ?R \<and> - 5000 < diff)"
    by linarith
  then show ?thesis
  proof cases
    case next_empty
    from emitHead_spec [OF sh next_empty(2), of d out] obtain p1 where
      p1: "emitHead d p out = Inr (p1, out @ [d])" "pipe_shape p1" "window p1 = []" "moved p p1" by blast
    have c: "classify diff d p out = Inr (ok, p1, out @ [d])"
      using next_empty window_Nil_iff [OF sh] p(3) p1 by (simp add: classify_def)
    have "spec_update ?R seq d ?l ?w = (ok, uint seq, [], [Some d])"
      unfolding sd using next_empty l0 by (cases "1 - ?R") (simp_all add: Let_def released_def remaining_def)
    then show ?thesis using c p1 framed_moved [OF p1(4,2), of ok]
      by (intro exI [of _ ok] exI [of _ p1] exI [of _ "[Some d]"]) (simp add: setLastSeq_def)
  next
    case nexts
    have "0 < length ?w" using nexts(2) by (simp del: length_window)
    then have room: "pending p < arraySize p - 1" using n len by simp
    have "hd (?w @ [Some d]) = None" using hd nexts(2) by simp
    from storeHead_spec [OF sh room full p(3) refl this, of out] obtain p1 where
      p1: "storeHead d p out = Inr (p1, out @ somes (released (length (?w @ [Some d]) - ?R) (?w @ [Some d])))"
      "pipe_shape p1" "window p1 = remaining (length (?w @ [Some d]) - ?R) (?w @ [Some d])" "moved p p1" by blast
    have "tailPos p \<noteq> headPos p" using window_Nil_iff [OF sh] nexts(2) by auto
    then have "classify diff d p out
        = Inr (ok, p1, out @ somes (released (length (?w @ [Some d]) - ?R) (?w @ [Some d])))"
      using nexts p1 by (simp add: classify_def)
    then show ?thesis using p1 framed_moved [OF p1(4,2), of ok] nexts l0
      by (intro exI [of _ ok] exI [of _ p1]) (simp add: setLastSeq_def sd Let_def)
  next
    case jmp
    let ?k = "nat (diff - 1)" let ?v = "?w @ replicate ?k None @ [Some d]"
    have room: "pending p + ?k < arraySize p" using n len jmp by simp
    from skipLoop_spec [OF sh room] obtain p1 where
      p1: "skipLoop ?k p = Inr p1" "pipe_shape p1" "window p1 = ?w @ replicate ?k None" "moved p p1" by blast
    have R1: "reorderSize p1 = ?R" using p1(4) by (simp add: moved_def)
    have a1: "arraySize p1 = arraySize p" using p1(2) sh R1 by (simp add: pipe_shape_def)
    have "pending p1 = pending p + ?k" using p1(3) length_window [of p1] by simp
    then have room1: "pending p1 < arraySize p1 - 1" using n len jmp a1 by simp
    have v: "?v = window p1 @ [Some d]" using p1(3) by simp
    have "0 < ?k" using jmp by simp
    then have "hd ?v = None" using hd by (cases ?w; cases ?k) auto
    moreover have "full (window p1)" using p1(3) full by simp
    ultimately obtain p2 where
      p2: "storeHead d p1 out = Inr (p2, out @ somes (released (length ?v - ?R) ?v))"
      "pipe_shape p2" "window p2 = remaining (length ?v - ?R) ?v" "moved p1 p2"
      using storeHead_spec [OF p1(2) room1 _ p(3) v, of out] R1 by auto
    have "classify diff d p out = Inr (jump, p2, out @ somes (released (length ?v - ?R) ?v))"
      using jmp p1(1) p2(1) by (simp add: classify_def)
    then show ?thesis using p2 framed_moved [OF moved_trans [OF p1(4) p2(4)] p2(2), of jump] jmp l0
      by (intro exI [of _ jump] exI [of _ p2]) (simp add: setLastSeq_def sd Let_def)
  next
    case gp
    from takeOrExit_spec [OF sh full, of ?R out] obtain p1 where
      p1: "takeOrExit ?R p out = Inr (p1, out @ somes (released ?R ?w))" "pipe_shape p1" "kept p p1" by blast
    have rel: "released ?R ?w = ?w" using len by (simp add: released_def)
    note r = resetPos_spec [OF p1(2)]
    from emitHead_spec [OF r(1,2), of d "out @ somes ?w"] obtain p2 where
      p2: "emitHead d (resetPos p1) (out @ somes ?w) = Inr (p2, (out @ somes ?w) @ [d])"
        "pipe_shape p2" "window p2 = []" "moved (resetPos p1) p2" by blast
    let ?p3 = "p2\<lparr>seqCounter := (seqCounter p2)\<lparr>packetExpected :=
      packetExpected (seqCounter p2) + word_of_int (diff - 1)\<rparr>\<rparr>"
    have c: "classify diff d p out = Inr (gap, ?p3, (out @ somes ?w) @ [d])"
      using gp p1(1) p2(1) p(3) rel by (simp add: classify_def)
    have "pipe_shape ?p3" "window ?p3 = []"
      using p2(2,3) by (simp_all add: pipe_shape_def window_def pending_def)
    moreover obtain e where e: "seqCounter p2 = (seqCounter (resetPos p1))\<lparr>packetExpected := e\<rparr>"
      using p2(4) by (auto simp: moved_def)
    then have "seqCounter ?p3 = (seqCounter p)\<lparr>packetExpected := e + word_of_int (diff - 1), lastSeq := -1\<rparr>"
      using r(3) p1(3) by (simp add: kept_def)
    then have "framed gap p ?p3"
      using calculation(1) p2(4) r(4,5) p1(3) unfolding framed_def moved_def kept_def
      by (intro conjI exI) (assumption | simp)+
    moreover have "somes (replicate m None) = ([] :: bytes list)" for m by (induction m) simp_all
    moreover have "spec_update ?R seq d ?l ?w = (gap, uint seq, [], ?w @ replicate (nat (diff - 1)) None @ [Some d])"
      using gp l0 by (simp add: sd Let_def)
    ultimately show ?thesis using c
      by (intro exI [of _ gap] exI [of _ ?p3]) (simp add: setLastSeq_def)
  next
    case dup
    then show ?thesis using framed_moved [OF moved_refl sh, of duplicated] l0
      by (intro exI [of _ duplicated] exI [of _ p] exI [of _ "[]"]) (simp add: classify_def sd Let_def)
  next
    case lte
    define k where "k = nat (- diff)"
    have k: "0 < k" "k \<le> ?R" "diff = - int k" using lte by (simp_all add: k_def)
    from late_step [OF p(1) k(1,2) p(3), of out] obtain st p1 rel where
      c: "classify diff d p out = Inr (st, p1, out @ somes rel)" "moved p p1" "pipe_shape p1"
      and res: "if k < pending p then
         if ?w ! (pending p - 1 - k) = None then
           let v = ?w[pending p - 1 - k := Some d]
           in st = late \<and> window p1 = remaining 0 v \<and> rel = released 0 v
         else st = duplicated \<and> window p1 = ?w \<and> rel = []
       else (st = old \<or> st = duplicated) \<and> window p1 = ?w \<and> rel = []"
      unfolding k(3) by blast
    have s: "spec_update ?R seq d ?l ?w =
      (if k < pending p then
         if ?w ! (pending p - 1 - k) = None then
           let v = ?w[pending p - 1 - k := Some d] in (late, ?l, remaining 0 v, released 0 v)
         else (duplicated, ?l, ?w, [])
       else (old, ?l, ?w, []))"
      using lte l0 by (simp add: sd Let_def k_def)
    have "st \<noteq> gap \<and> st \<noteq> invalid \<and> st \<noteq> ok \<and> st \<noteq> jump" using res by (auto simp: Let_def split: if_splits)
    moreover from this have "framed st p p1" using framed_moved [OF c(2,3)] by blast
    moreover from calculation(1) have "lastSeq (countState st seq (seqCounter p1)) = ?l"
      using moved_lastSeq [OF c(2)] by (cases st) simp_all
    ultimately show ?thesis using c(1) res
      unfolding s
      by (intro exI [of _ st] exI [of _ p1] exI [of _ "if k < pending p then st else old"] exI [of _ rel])
        (auto simp: Let_def split: if_splits)
  next
    case od
    then show ?thesis using framed_moved [OF moved_refl sh, of old] l0
      by (intro exI [of _ old] exI [of _ p] exI [of _ "[]"]) (simp add: classify_def sd Let_def)
  next
    case inv
    have c: "classify diff d p out = Inr (invalid, resetPos p, out)"
      unfolding classify_def using inv by (simp only: if_False simp_thms)
    have "spec_update ?R seq d ?l ?w = (invalid, -1, [], [])"
      unfolding sd Let_def using inv l0 by (simp only: if_False simp_thms)
    moreover have "framed invalid p (resetPos p)"
      using resetPos_spec [OF sh]
      by (auto simp: framed_def intro: exI [of _ "packetExpected (seqCounter p)"])
    ultimately show ?thesis using c resetPos_spec [OF sh]
      by (intro exI [of _ invalid] exI [of _ "resetPos p"] exI [of _ "[]"]) simp
  qed
qed

lemma updateData_step:
  assumes "pipe_inv p" "d \<noteq> []"
  shows "\<exists>st p' sst rel. updateData seq d p out = Inr (st, p', out @ somes rel) \<and> pipe_inv p'
    \<and> spec_update (reorderSize p) seq d (lastSeq (seqCounter p)) (window p)
        = (sst, lastSeq (seqCounter p'), window p', rel)
    \<and> (st = sst \<or> sst = old \<and> st = duplicated)
    \<and> reorderSize p' = reorderSize p \<and> streamStatus p' = streamStatus p
    \<and> (\<exists>e l. seqCounter p' = countState st seq ((seqCounter p)
          \<lparr>packetCount := packetCount (seqCounter p) + 1, packetExpected := e, lastSeq := l\<rparr>))"
proof -
  let ?p1 = "p\<lparr>seqCounter := (seqCounter p)\<lparr>packetCount := packetCount (seqCounter p) + 1\<rparr>\<rparr>"
  have w1: "window ?p1 = window p" by (rule window_cong) (simp_all add: cell_def)
  have pend1: "pending ?p1 = pending p" using length_window [of ?p1] w1 by simp
  have inv1: "pipe_inv ?p1"
    using assms(1) w1 pend1 by (simp add: pipe_inv_def pipe_shape_def)
  have core: "\<exists>st q sst rel. updateData seq d p out
        = Inr (st, q\<lparr>seqCounter := countState st seq (seqCounter q)\<rparr>, out @ somes rel)
      \<and> framed st ?p1 q
      \<and> spec_update (reorderSize p) seq d (lastSeq (seqCounter p)) (window p)
        = (sst, lastSeq (countState st seq (seqCounter q)), window q, rel)
      \<and> (st = sst \<or> sst = old \<and> st = duplicated)"
  proof (cases "lastSeq (seqCounter p) < 0")
    case True
    then have "window ?p1 = []" using assms(1) w1 by (simp add: pipe_inv_def)
    moreover have sh1: "pipe_shape ?p1" using inv1 by (simp add: pipe_inv_def)
    ultimately obtain q where
      q: "emitHead d ?p1 out = Inr (q, out @ [d])" "pipe_shape q" "window q = []" "moved ?p1 q"
      using emitHead_spec [of ?p1 d out] by blast
    then show ?thesis using True framed_moved [OF q(4,2), of ok]
      by (intro exI [of _ ok] exI [of _ q] exI [of _ ok] exI [of _ "[Some d]"])
        (simp add: updateData_def spec_update_def setLastSeq_def)
  next
    case False
    then have "0 \<le> lastSeq (seqCounter ?p1)" by simp
    from classify_refines [OF inv1 this assms(2) refl, of seq out] obtain st q sst rel where
      q: "classify (getSeqDistance seq (word_of_int (lastSeq (seqCounter ?p1)))) d ?p1 out
          = Inr (st, q, out @ somes rel)" "framed st ?p1 q"
        "spec_update (reorderSize p) seq d (lastSeq (seqCounter p)) (window p)
          = (sst, lastSeq (countState st seq (seqCounter q)), window q, rel)"
        "st = sst \<or> sst = old \<and> st = duplicated"
      unfolding w1 by auto
    have "updateData seq d p out
        = Inr (st, q\<lparr>seqCounter := countState st seq (seqCounter q)\<rparr>, out @ somes rel)"
      using False q(1) by (simp add: updateData_def Let_def)
    then show ?thesis using q by blast
  qed
  then obtain st q sst rel where
    u: "updateData seq d p out
        = Inr (st, q\<lparr>seqCounter := countState st seq (seqCounter q)\<rparr>, out @ somes rel)"
    and f: "framed st ?p1 q"
    and sp: "spec_update (reorderSize p) seq d (lastSeq (seqCounter p)) (window p)
        = (sst, lastSeq (countState st seq (seqCounter q)), window q, rel)"
    and st: "st = sst \<or> sst = old \<and> st = duplicated"
    by blast
  let ?p' = "q\<lparr>seqCounter := countState st seq (seqCounter q)\<rparr>"
  have w': "window ?p' = window q" by (rule window_cong) (simp_all add: cell_def)
  have pend': "pending ?p' = length (window q)" using length_window [of ?p'] w' by simp
  have sh': "pipe_shape ?p'" using f by (simp add: framed_def pipe_shape_def)
  have R: "reorderSize q = reorderSize p" "streamStatus q = streamStatus p"
    using f by (simp_all add: framed_def)
  have "window_inv (reorderSize p) (window p)" "-1 \<le> lastSeq (seqCounter p)"
    "lastSeq (seqCounter p) < 65536" "lastSeq (seqCounter p) < 0 \<longrightarrow> window p = []"
    using assms(1) by (auto simp: pipe_inv_def window_inv_def)
  from spec_update_inv [OF this(1) assms(2) this(2,3,4) sp]
  have "pipe_inv ?p'" using sh' w' pend' R unfolding pipe_inv_def window_inv_def by simp
  moreover from f obtain e l where "seqCounter q = (seqCounter p)
      \<lparr>packetCount := packetCount (seqCounter p) + 1, packetExpected := e, lastSeq := l\<rparr>"
    unfolding framed_def by auto
  then have "\<exists>e l. seqCounter ?p' = countState st seq ((seqCounter p)
      \<lparr>packetCount := packetCount (seqCounter p) + 1, packetExpected := e, lastSeq := l\<rparr>)" by auto
  ultimately show ?thesis using u sp st R w'
    by (intro exI [of _ st] exI [of _ ?p'] exI [of _ sst] exI [of _ rel]) simp
qed

text \<open>C2: one packet through the ring has exactly the effect of the list specification: the same
  slots stay pending, the same packets are released in the same order, and the last sequence
  number is the same. No access is out of bounds, the process does not exit, and the invariant
  holds again. The state reported agrees too, except that behind the window the ring may tell a
  duplicate from an old packet.\<close>

theorem updateData_refines:
  assumes "pipe_inv p" "d \<noteq> []"
  shows "\<exists>st p' sst rel. updateData seq d p out = Inr (st, p', out @ somes rel) \<and> pipe_inv p'
    \<and> spec_update (reorderSize p) seq d (lastSeq (seqCounter p)) (window p)
        = (sst, lastSeq (seqCounter p'), window p', rel)
    \<and> (st = sst \<or> sst = old \<and> st = duplicated)
    \<and> reorderSize p' = reorderSize p \<and> streamStatus p' = streamStatus p
    \<and> (\<exists>e l. seqCounter p' = countState st seq ((seqCounter p)
          \<lparr>packetCount := packetCount (seqCounter p) + 1, packetExpected := e, lastSeq := l\<rparr>))"
  using assms by (rule updateData_step)

theorem updateData_refines_witness:
  "\<exists>p'. updateData 7 [1] (RtpPipe_new 2) [] = Inr (ok, p', [[1]]) \<and> pipe_inv p' \<and> window p' = []"
proof -
  have "lastSeq (seqCounter (RtpPipe_new 2)) = -1" by (simp add: RtpPipe_new_def SeqCounter_reset_def)
  then show ?thesis
    using updateData_refines [OF pipe_inv_new [of 2], of "[1]" 7 "[]"] by (auto simp: spec_update_def)
qed

subsection \<open>Runs\<close>

fun run_pipe :: "(u16 \<times> bytes) list \<Rightarrow> pipe \<Rightarrow> bytes list \<Rightarrow> (SeqState list \<times> pipe \<times> bytes list) res" where
  "run_pipe [] p out = Inr ([], p, out)"
| "run_pipe (x # xs) p out =
     andThen (updateData (fst x) (snd x) p out) (\<lambda>(st, p, out).
     andThen (run_pipe xs p out) (\<lambda>(sts, p, out). Inr (st # sts, p, out)))"

text \<open>The packets of a list of slots, each with its position modulo \<open>2^16\<close>.\<close>

fun tagged :: "nat \<Rightarrow> 'a option list \<Rightarrow> (u16 \<times> 'a) list" where
  "tagged n [] = []"
| "tagged n (None # w) = tagged (Suc n) w"
| "tagged n (Some d # w) = (of_nat n, d) # tagged (Suc n) w"

lemma tagged_append: "tagged n (v @ w) = tagged n v @ tagged (n + length v) w"
  by (induction n v rule: tagged.induct) simp_all

lemma tagged_nones [simp]: "tagged n (replicate k None) = []"
  by (induction k arbitrary: n) simp_all

lemma somes_nones [simp]: "somes (replicate k None) = []"
  by (induction k) simp_all

lemma somes_tagged: "map snd (tagged n w) = somes w"
  by (induction n w rule: tagged.induct) simp_all

lemma tagged_snoc: "tagged n (w @ replicate k None @ [Some d]) = tagged n w @ [(of_nat (n + length w + k), d)]"
  by (simp add: tagged_append)

lemma tagged_update:
  "i < length w \<Longrightarrow> w ! i = None \<Longrightarrow>
   mset (tagged n (w[i := Some d])) = add_mset (of_nat (n + i), d) (mset (tagged n w))"
proof (induction n w arbitrary: i rule: tagged.induct)
  case (2 n w)
  then show ?case by (cases i) simp_all
next
  case (3 n e w)
  then show ?case by (cases i) (simp_all add: add_mset_commute)
qed simp

lemma getSeqDistance_word: "b + word_of_int (getSeqDistance a b) = a"
proof -
  have "b + word_of_int (getSeqDistance a b) = word_of_int (uint b + getSeqDistance a b)"
    by simp
  also have "\<dots> = (word_of_int ((uint b + getSeqDistance a b) mod 65536) :: u16)"
    by (simp only: word_of_int_eq_iff) (simp add: take_bit_eq_mod)
  also have "\<dots> = a"
    using getSeqDistance_circle [of a b] by simp
  finally show ?thesis .
qed

definition accepting :: "SeqState \<Rightarrow> bool" where
  "accepting st \<longleftrightarrow> st \<in> {ok, jump, late, gap}"

text \<open>One step of the specification seen as positions in one growing stream of slots.\<close>

lemma spec_update_stream:
  assumes sp: "spec_update R seq d lst w = (st, lst', w', rel)"
    and pos: "0 \<le> lst \<longrightarrow> word_of_int lst + 1 = (of_nat (n + length w) :: u16)" "lst < 0 \<longrightarrow> w = []"
  shows "\<exists>s. somes s = somes rel \<and> (0 \<le> lst' \<longrightarrow> word_of_int lst' + 1 = (of_nat (n + length s + length w') :: u16))
    \<and> mset (tagged n (s @ w')) \<subseteq># add_mset (seq, d) (mset (tagged n w))
    \<and> (st \<noteq> invalid \<longrightarrow> mset (tagged n (s @ w'))
         = (if accepting st then add_mset (seq, d) (mset (tagged n w)) else mset (tagged n w)))"
proof (cases "lst < 0")
  case True
  let ?s = "replicate (unat (seq - of_nat n)) None @ [Some d]"
  have "(of_nat (n + unat (seq - of_nat n)) :: u16) = seq" by simp
  then have "tagged n ?s = [(seq, d)]" by (simp only: tagged_append tagged_nones) simp
  moreover have "st = ok" "lst' = uint seq" "w' = []" "rel = [Some d]" "w = []"
    using sp True pos(2) by (simp_all add: spec_update_def)
  ultimately show ?thesis by (intro exI [of _ ?s]) (simp add: accepting_def)
next
  case False
  let ?diff = "getSeqDistance seq (word_of_int lst)"
  have base: "(of_nat (n + length w) :: u16) = word_of_int lst + 1" using pos(1) False by simp
  have diff: "word_of_int lst + word_of_int ?diff = seq" by (rule getSeqDistance_word)
  show ?thesis
  proof (cases "0 < ?diff \<and> (?diff = 1 \<or> ?diff \<le> int R \<or> ?diff < 5000)")
    case True
    let ?k = "nat (?diff - 1)" let ?v = "w @ replicate ?k None @ [Some d]"
    have "(of_nat (n + length w + ?k) :: u16) = word_of_int lst + 1 + of_nat ?k" using base by simp
    also have "(of_nat ?k :: u16) = word_of_int ?diff - 1"
      using True by (simp add: of_nat_nat)
    finally have tag: "(of_nat (n + length w + ?k) :: u16) = seq" using diff by simp
    have v: "tagged n ?v = tagged n w @ [(seq, d)]" unfolding tagged_snoc tag ..
    have r: "rel @ w' = ?v \<and> lst' = uint seq \<and> accepting st \<and> st \<noteq> invalid"
      using sp False True
      by (auto simp: spec_update_def spec_append_def Let_def released_remaining accepting_def split: if_splits)
    have "length (rel @ w') = length ?v" by (simp only: r)
    then have "n + length rel + length w' = Suc (n + length w + ?k)" by simp
    then have "(of_nat (n + length rel + length w') :: u16) = of_nat (Suc (n + length w + ?k))"
      by (simp only:)
    also have "\<dots> = seq + 1" unfolding of_nat_Suc tag by (rule add.commute)
    finally have "(of_nat (n + length rel + length w') :: u16) = seq + 1" .
    then show ?thesis using r v by (intro exI [of _ rel]) simp
  next
    case nf: False
    show ?thesis
    proof (cases "st = late")
      case True
      let ?k = "nat (- ?diff)" let ?i = "length w - 1 - ?k" let ?v = "w[?i := Some d]"
      have l: "?diff < 0" "?k < length w" "w ! ?i = None" "w' = remaining 0 ?v" "rel = released 0 ?v" "lst' = lst"
        using sp False nf True
        by (auto simp: spec_update_def spec_append_def Let_def split: if_splits)
      have cancel: "a = e - b" if "a + (1 + b) = e + 1" for a b e :: u16
      proof -
        have "(a + b) + 1 = a + (1 + b)" by (simp only: add.assoc add.commute [of b 1])
        then have "(a + b) + 1 = e + 1" using that by (simp only:)
        then have "a + b = e" by (rule add_right_imp_eq)
        then show ?thesis by (simp only: eq_diff_eq)
      qed
      have "n + ?i + (1 + ?k) = n + length w" using l(2) by simp
      then have "(of_nat (n + ?i + (1 + ?k)) :: u16) = word_of_int lst + 1" using base by (simp only:)
      then have "(of_nat (n + ?i) :: u16) + (1 + of_nat ?k) = word_of_int lst + 1"
        by (simp only: of_nat_add of_nat_1)
      then have "(of_nat (n + ?i) :: u16) = word_of_int lst - of_nat ?k" by (rule cancel)
      also have "(of_nat ?k :: u16) = - word_of_int ?diff"
        using l(1) by (simp add: of_nat_nat)
      finally have tag: "(of_nat (n + ?i) :: u16) = seq" using diff by simp
      have "?i < length w" using l(2) by simp
      from tagged_update [OF this l(3), of n d]
      have v: "mset (tagged n ?v) = add_mset (seq, d) (mset (tagged n w))" unfolding tag .
      have r: "rel @ w' = ?v" unfolding l by (rule released_remaining)
      have "length (rel @ w') = length ?v" by (simp only: r)
      then have "n + length rel + length w' = n + length w" by simp
      then have "(of_nat (n + length rel + length w') :: u16) = of_nat (n + length w)" by (simp only:)
      then have "(of_nat (n + length rel + length w') :: u16) = word_of_int lst + 1" using base by (simp only:)
      then show ?thesis using r v True l(6) by (intro exI [of _ rel]) (simp add: accepting_def)
    next
      case nl: False
      have "st \<noteq> late" "rel = []" "\<not> accepting st" "(w' = w \<and> lst' = lst) \<or> (w' = [] \<and> lst' = -1 \<and> st = invalid)"
        using sp False nf nl
        by (auto simp: spec_update_def spec_append_def Let_def accepting_def split: if_splits)
      then show ?thesis using base by (intro exI [of _ "[]"]) auto
    qed
  qed
qed

definition acceptedOf :: "(u16 \<times> bytes) list \<Rightarrow> SeqState list \<Rightarrow> (u16 \<times> bytes) list" where
  "acceptedOf ins sts = map fst (filter (\<lambda>(x, st). accepting st) (zip ins sts))"

lemma run_pipe_stream:
  assumes "pipe_inv p" "\<forall>x \<in> set ins. snd x \<noteq> []"
    and "0 \<le> lastSeq (seqCounter p) \<longrightarrow>
      word_of_int (lastSeq (seqCounter p)) + 1 = (of_nat (n + length (window p)) :: u16)"
  shows "\<exists>sts p' s. run_pipe ins p out = Inr (sts, p', out @ somes s) \<and> pipe_inv p'
    \<and> reorderSize p' = reorderSize p \<and> length sts = length ins
    \<and> mset (tagged n (s @ window p')) \<subseteq># mset ins + mset (tagged n (window p))
    \<and> (invalid \<notin> set sts \<longrightarrow>
         mset (tagged n (s @ window p')) = mset (acceptedOf ins sts) + mset (tagged n (window p)))"
  using assms
proof (induction ins arbitrary: p out n)
  case Nil
  then show ?case by (intro exI [of _ "[]"] exI [of _ p]) (simp add: acceptedOf_def)
next
  case (Cons x ins)
  obtain seq d where x: "x = (seq, d)" by (cases x)
  have d: "d \<noteq> []" using Cons.prems(2) x by simp
  from updateData_step [OF Cons.prems(1) d, of seq out] obtain st p1 sst rel where
    u: "updateData seq d p out = Inr (st, p1, out @ somes rel)" "pipe_inv p1"
      "spec_update (reorderSize p) seq d (lastSeq (seqCounter p)) (window p)
        = (sst, lastSeq (seqCounter p1), window p1, rel)"
      "st = sst \<or> sst = old \<and> st = duplicated" "reorderSize p1 = reorderSize p" by blast
  have "lastSeq (seqCounter p) < 0 \<longrightarrow> window p = []" using Cons.prems(1) by (simp add: pipe_inv_def)
  from spec_update_stream [OF u(3) Cons.prems(3) this] obtain s where
    s: "somes s = somes rel" "0 \<le> lastSeq (seqCounter p1) \<longrightarrow>
        word_of_int (lastSeq (seqCounter p1)) + 1 = (of_nat ((n + length s) + length (window p1)) :: u16)"
      "mset (tagged n (s @ window p1)) \<subseteq># add_mset (seq, d) (mset (tagged n (window p)))"
      "sst \<noteq> invalid \<longrightarrow> mset (tagged n (s @ window p1))
         = (if accepting sst then add_mset (seq, d) (mset (tagged n (window p))) else mset (tagged n (window p)))"
    by blast
  have "\<forall>x \<in> set ins. snd x \<noteq> []" using Cons.prems(2) by simp
  from Cons.IH [OF u(2) this s(2), of "out @ somes rel"] obtain sts p2 s2 where
    r: "run_pipe ins p1 (out @ somes rel) = Inr (sts, p2, (out @ somes rel) @ somes s2)" "pipe_inv p2"
      "reorderSize p2 = reorderSize p1" "length sts = length ins"
      "mset (tagged (n + length s) (s2 @ window p2))
         \<subseteq># mset ins + mset (tagged (n + length s) (window p1))"
      "invalid \<notin> set sts \<longrightarrow> mset (tagged (n + length s) (s2 @ window p2))
         = mset (acceptedOf ins sts) + mset (tagged (n + length s) (window p1))" by blast
  have run: "run_pipe (x # ins) p out = Inr (st # sts, p2, out @ somes (s @ s2))"
    using u(1) r(1) s(1) x by simp
  have split: "mset (tagged n ((s @ s2) @ window p2))
      = mset (tagged n s) + mset (tagged (n + length s) (s2 @ window p2))"
    by (simp add: tagged_append add.assoc)
  have split1: "mset (tagged n (s @ window p1)) = mset (tagged n s) + mset (tagged (n + length s) (window p1))"
    by (simp add: tagged_append)
  have "mset (tagged n ((s @ s2) @ window p2))
      \<subseteq># mset (tagged n s) + (mset ins + mset (tagged (n + length s) (window p1)))"
    unfolding split using r(5) by (rule subset_mset.add_left_mono)
  also have "\<dots> = mset ins + mset (tagged n (s @ window p1))" unfolding split1 by simp
  also have "\<dots> \<subseteq># mset ins + add_mset (seq, d) (mset (tagged n (window p)))"
    using s(3) by (rule subset_mset.add_left_mono)
  finally have sub: "mset (tagged n ((s @ s2) @ window p2)) \<subseteq># mset (x # ins) + mset (tagged n (window p))"
    using x by simp
  have eq: "mset (tagged n ((s @ s2) @ window p2)) = mset (acceptedOf (x # ins) (st # sts)) + mset (tagged n (window p))"
    if "invalid \<notin> set (st # sts)"
  proof -
    have "sst \<noteq> invalid" "accepting st = accepting sst" using that u(4) by (auto simp: accepting_def)
    then show ?thesis unfolding split using r(6) s(4) that x split1
      by (auto simp: acceptedOf_def)
  qed
  show ?case using run r(2,3,4) u(5) sub eq
    by (intro exI [of _ "st # sts"] exI [of _ p2] exI [of _ "s @ s2"]) simp
qed

subsection \<open>Properties of runs\<close>

lemma run_pipe_new:
  assumes "R \<le> 32767" "\<forall>x \<in> set ins. snd x \<noteq> []"
  shows "\<exists>sts p s. run_pipe ins (RtpPipe_new R) [] = Inr (sts, p, somes s) \<and> pipe_inv p
    \<and> reorderSize p = R \<and> length sts = length ins \<and> mset (tagged 0 (s @ window p)) \<subseteq># mset ins
    \<and> (invalid \<notin> set sts \<longrightarrow> mset (tagged 0 (s @ window p)) = mset (acceptedOf ins sts))"
proof -
  have "lastSeq (seqCounter (RtpPipe_new R)) = -1" "window (RtpPipe_new R) = []" "reorderSize (RtpPipe_new R) = R"
    by (simp_all add: RtpPipe_new_def Let_def SeqCounter_reset_def window_def pending_def ring_dist_def)
  then show ?thesis
    using run_pipe_stream [OF pipe_inv_new [OF assms(1)] assms(2), of 0 "[]"] by simp
qed




text \<open>Evaluation on concrete packets.\<close>

lemmas drainLoop_numeral = drainLoop.simps(2) [of "pred_numeral k" for k, folded numeral_eq_Suc]
lemmas forceLoop_numeral = forceLoop.simps(2) [of "pred_numeral k" for k, folded numeral_eq_Suc]

lemmas pipe_eval = updateData_def classify_def storeHead_def emitHead_def setSeqState_def
  tailForward_def takeFront_def takeRtps_def takeOrExit_def forward_def backward_def
  forwardDistance_def getPos_def resetPos_def RtpPipe_new_def SeqCounter_reset_def
  StreamStatus_reset_def setLastSeq_def getSeqDistance_def Let_def drainLoop_numeral forceLoop_numeral
  window_def pending_def ring_dist_def cell_def slot_at_def lost_def


lemma run_pipe_counters:
  assumes "pipe_inv p" "\<forall>x \<in> set ins. snd x \<noteq> []" "run_pipe ins p out = Inr (sts, p', out')"
  shows "packetCount (seqCounter p') = packetCount (seqCounter p) + of_nat (length sts)
    \<and> seqOk (seqCounter p') = seqOk (seqCounter p) + of_nat (count_list sts ok)
    \<and> seqLate (seqCounter p') = seqLate (seqCounter p) + of_nat (count_list sts late)
    \<and> seqOld (seqCounter p') = seqOld (seqCounter p) + of_nat (count_list sts old)
    \<and> seqJump (seqCounter p') = seqJump (seqCounter p) + of_nat (count_list sts jump)
    \<and> seqGap (seqCounter p') = seqGap (seqCounter p) + of_nat (count_list sts gap)
    \<and> seqDuplicated (seqCounter p') = seqDuplicated (seqCounter p) + of_nat (count_list sts duplicated)
    \<and> seqInvalid (seqCounter p') = seqInvalid (seqCounter p) + of_nat (count_list sts invalid)"
  using assms
proof (induction ins arbitrary: p out sts)
  case Nil
  then show ?case by simp
next
  case (Cons x ins)
  have d: "snd x \<noteq> []" using Cons.prems(2) by simp
  from updateData_step [OF Cons.prems(1) d, of "fst x" out] obtain st p1 rel e l where
    u: "updateData (fst x) (snd x) p out = Inr (st, p1, out @ somes rel)" "pipe_inv p1"
      "seqCounter p1 = countState st (fst x) ((seqCounter p)
          \<lparr>packetCount := packetCount (seqCounter p) + 1, packetExpected := e, lastSeq := l\<rparr>)" by blast
  obtain sts1 where r: "run_pipe ins p1 (out @ somes rel) = Inr (sts1, p', out')" "sts = st # sts1"
    using Cons.prems(3) u(1) by (auto simp: andThen_eq_Inr split: prod.splits)
  have "\<forall>x \<in> set ins. snd x \<noteq> []" using Cons.prems(2) by simp
  from Cons.IH [OF u(2) this r(1)] show ?case
    unfolding r(2) u(3) by (cases st) (simp_all add: setLastSeq_def)
qed

text \<open>C5: the statistics count every packet exactly once: after any run \<open>packetCount\<close> is the number
  of packets and each of the seven state counters the number of packets that got that state
  (modulo \<open>2^32\<close>, the width of the counters).\<close>

theorem reorder_counters:
  assumes "R \<le> 32767" "\<forall>x \<in> set ins. snd x \<noteq> []"
    and "run_pipe ins (RtpPipe_new R) [] = Inr (sts, p, out)"
  shows "packetCount (seqCounter p) = of_nat (length ins)
    \<and> (\<forall>st. (case st of ok \<Rightarrow> seqOk | late \<Rightarrow> seqLate | old \<Rightarrow> seqOld | jump \<Rightarrow> seqJump | gap \<Rightarrow> seqGap
               | duplicated \<Rightarrow> seqDuplicated | invalid \<Rightarrow> seqInvalid) (seqCounter p)
            = of_nat (count_list sts st))"
proof -
  have "length sts = length ins" using run_pipe_new [OF assms(1,2)] assms(3) by auto
  moreover have "seqCounter (RtpPipe_new R) = SeqCounter_reset" by (simp add: RtpPipe_new_def Let_def)
  ultimately show ?thesis
    using run_pipe_counters [OF pipe_inv_new [OF assms(1)] assms(2,3)]
    by (auto simp: SeqCounter_reset_def split: SeqState.split)
qed

definition lossExample :: "(u16 \<times> bytes) list" where
  "lossExample = [(10, [1]), (12, [3]), (11, [2])]"

theorem reorder_counters_witness:
  "\<exists>sts p out. run_pipe lossExample (RtpPipe_new 2) [] = Inr (sts, p, out)
     \<and> packetCount (seqCounter p) = 3"
proof -
  have "\<forall>x \<in> set lossExample. snd x \<noteq> []" by (simp add: lossExample_def)
  from run_pipe_new [OF _ this, of 2] obtain sts p out where
    r: "run_pipe lossExample (RtpPipe_new 2) [] = Inr (sts, p, out)" by auto
  have "packetCount (seqCounter p) = of_nat (length lossExample)"
    using reorder_counters [OF _ \<open>\<forall>x \<in> set lossExample. snd x \<noteq> []\<close> r] by simp
  then show ?thesis using r by (simp add: lossExample_def)
qed

text \<open>\<open>lost()\<close> counts a packet that came early as lost: packets 10, 12 and 11 are all put out, in
  order and with nothing pending, yet \<open>lost()\<close> returns 1, because packets classified \<open>jump\<close> are
  not subtracted from the expected number.\<close>

theorem lost_counts_jump:
  "case run_pipe lossExample (RtpPipe_new 2) [] of
     Inr (sts, p, out) \<Rightarrow> sts = [ok, jump, late] \<and> out = [[1], [2], [3]] \<and> window p = []
       \<and> packetExpected (seqCounter p) = 3 \<and> lost (seqCounter p) = 1
   | Inl e \<Rightarrow> False"
  by (simp add: pipe_eval lossExample_def split del: if_split)

text \<open>A packet whose sequence number is too far away resets the pipe: the packets that were
  waiting for a missing one are dropped, although they were accepted, and so is the packet itself.\<close>

theorem invalid_drops_pending:
  "case run_pipe [(10, [1]), (12, [3]), (30000, [7]), (30001, [8])] (RtpPipe_new 2) [] of
     Inr (sts, p, out) \<Rightarrow> sts = [ok, jump, invalid, ok] \<and> out = [[1], [8]] \<and> window p = []
   | Inl e \<Rightarrow> False"
  by (simp add: pipe_eval lossExample_def split del: if_split)

lemma fields_ok:
  assumes "12 \<le> length d"
  shows "\<exists>x. getSsrc d = Inr x" "\<exists>x. getPayloadType d = Inr x" "\<exists>x. getMark d = Inr x" "\<exists>x. getSeq d = Inr x"
proof -
  have "isOk (readData (drop 8 d) False :: u32 res)" "isOk (readData (drop 2 d) False :: u16 res)"
    using assms by (simp_all add: readData_isOk)
  then show "\<exists>x. getSsrc d = Inr x" "\<exists>x. getSeq d = Inr x"
    by (simp_all add: isOk_def getSsrc_def getSeq_def)
  have "1 < length d" using assms by simp
  then show "\<exists>x. getPayloadType d = Inr x" "\<exists>x. getMark d = Inr x"
    by (simp_all add: getPayloadType_def getMark_def)
qed

lemma window_status [simp]: "window (p\<lparr>streamStatus := st\<rparr>) = window p"
  by (rule window_cong) (simp_all add: cell_def)

lemma pipe_inv_status [simp]: "pipe_inv (p\<lparr>streamStatus := st\<rparr>) = pipe_inv p"
  by (simp add: pipe_inv_def pipe_shape_def pending_def)

lemma spec_update_full:
  assumes "full w" "d \<noteq> []" "spec_update R seq d lst w = (st, lst', w', rel)"
  shows "full rel"
proof -
  have "full (w[i := Some d])" for i
    using assms(1,2) by (auto simp: full_def dest: set_update_subset_insert [THEN subsetD])
  then show ?thesis using assms full_parts
    by (auto simp: spec_update_def spec_append_def Let_def split: if_splits)
qed

lemma full_somes: "full w \<longleftrightarrow> [] \<notin> set (somes w)"
  by (induction w rule: somes.induct) auto

lemma reorderRtp_step:
  assumes "pipe_inv p"
  shows "\<exists>r p' rel. reorderRtp d ts p out = Inr (r, p', out @ rel) \<and> pipe_inv p'
    \<and> [] \<notin> set rel \<and> reorderSize p' = reorderSize p
    \<and> (r = PACKAGE_LENGTH_ERROR \<longleftrightarrow> length d < 12)
    \<and> (r \<notin> {OK, SEQ_ERROR} \<longrightarrow> rel = [] \<and> window p' = window p \<and> seqCounter p' = seqCounter p)
    \<and> udpCount (streamStatus p') = udpCount (streamStatus p) + 1
    \<and> packageLengthError (streamStatus p') = packageLengthError (streamStatus p)"
proof (cases "length d < 12")
  case True
  then show ?thesis using assms
    by (intro exI [of _ PACKAGE_LENGTH_ERROR] exI [of _ "p\<lparr>streamStatus := (streamStatus p)
      \<lparr>dataBytes := dataBytes (streamStatus p) + of_nat (length d),
       udpCount := udpCount (streamStatus p) + 1\<rparr>\<rparr>"] exI [of _ "[]"]) (simp add: reorderRtp_def Let_def)
next
  case False
  then have "12 \<le> length d" "d \<noteq> []" by auto
  from fields_ok [OF this(1)] obtain ssrc pt mark seq where
    f: "getSsrc d = Inr ssrc" "getPayloadType d = Inr pt" "getMark d = Inr mark" "getSeq d = Inr seq" by blast
  have u: "\<exists>st p' rel. updateData seq d (p\<lparr>streamStatus := s\<rparr>) out = Inr (st, p', out @ rel)
    \<and> pipe_inv p' \<and> streamStatus p' = s \<and> [] \<notin> set rel \<and> reorderSize p' = reorderSize p" for s
  proof -
    have "pipe_inv (p\<lparr>streamStatus := s\<rparr>)" using assms by simp
    from updateData_step [OF this \<open>d \<noteq> []\<close>, of seq out] obtain st p' sst rel where
      r: "updateData seq d (p\<lparr>streamStatus := s\<rparr>) out = Inr (st, p', out @ somes rel)" "pipe_inv p'"
      "spec_update (reorderSize p) seq d (lastSeq (seqCounter p)) (window p)
        = (sst, lastSeq (seqCounter p'), window p', rel)" "streamStatus p' = s" "reorderSize p' = reorderSize p"
      by auto
    have "full (window p)" using assms by (simp add: pipe_inv_def)
    from spec_update_full [OF this \<open>d \<noteq> []\<close> r(3)] show ?thesis
      using r by (intro exI [of _ st] exI [of _ p'] exI [of _ "somes rel"]) (simp add: full_somes)
  qed
  define st0 where "st0 = (streamStatus p)\<lparr>dataBytes := dataBytes (streamStatus p) + of_nat (length d),
    udpCount := udpCount (streamStatus p) + 1\<rparr>"
  define st1 where "st1 = (if startAt st0 \<le> 0
    then st0\<lparr>startAt := ts, status_ssrc := ssrc, status_payloadType := pt\<rparr> else st0)"
  define st2 where "st2 = (if mark then (st1\<lparr>lastRtpArrival := ts\<rparr>)
      \<lparr>markCount := markCount (st1\<lparr>lastRtpArrival := ts\<rparr>) + 1\<rparr>
    else st1\<lparr>lastRtpArrival := ts\<rparr>)"
  have k: "udpCount st1 = udpCount (streamStatus p) + 1"
    "packageLengthError st1 = packageLengthError (streamStatus p)"
    "udpCount st2 = udpCount st1" "packageLengthError st2 = packageLengthError st1"
    by (simp_all add: st0_def st1_def st2_def)
  have eq: "reorderRtp d ts p out =
      (if pt \<noteq> status_payloadType st1 then
         Inr (PAYLOAD_TYPE_ERROR, p\<lparr>streamStatus := st1\<lparr>payloadError := payloadError st1 + 1\<rparr>\<rparr>, out)
       else if ssrc \<noteq> status_ssrc st1 then
         Inr (SSRC_ERROR, p\<lparr>streamStatus := st1\<lparr>ssrcError := ssrcError st1 + 1\<rparr>\<rparr>, out)
       else andThen (updateData seq d (p\<lparr>streamStatus := st2\<rparr>) out) (\<lambda>(rst, p, out).
         if rst = invalid \<or> rst = duplicated then Inr (SEQ_ERROR, p, out)
         else Inr (OK, p\<lparr>streamStatus := (streamStatus p)\<lparr>validDataBytes := validDataBytes (streamStatus p)
                + of_nat (length d), validUdpCount := validUdpCount (streamStatus p) + 1\<rparr>\<rparr>, out)))"
    using False unfolding reorderRtp_def f st2_def st1_def st0_def Let_def
    by (simp only: andThen_Inr if_False)
  show ?thesis
  proof (cases "pt \<noteq> status_payloadType st1 \<or> ssrc \<noteq> status_ssrc st1")
    case True
    then show ?thesis using False assms k by (auto simp: eq intro: exI [of _ "[]"])
  next
    case acc: False
    from u [of st2] obtain st p' rel where
      "updateData seq d (p\<lparr>streamStatus := st2\<rparr>) out = Inr (st, p', out @ rel)" "pipe_inv p'"
      "streamStatus p' = st2" "[] \<notin> set rel" "reorderSize p' = reorderSize p" by blast
    then show ?thesis using False acc k by (auto simp: eq)
  qed
qed



end
