(* ===== verification/ByteMeter.thy ===== *)
theory ByteMeter
  imports Prelude
begin

text \<open>
  \<open>BytesCounter\<close> of \<open>mod/janitor/include/rtpTrs/UdpSender.hpp\<close>: bytes sent per time unit, kept in a
  ring of 1024 cells, and their sum over the last \<open>countRange\<close> units. Time stamps are \<open>int64_t\<close>
  and taken as integers; indexes are \<open>uint16_t\<close> and stay below 2048; the cells and sums are
  \<open>uint32_t\<close> words. Log statements are omitted.
\<close>

definition MAX_RANGE :: nat where
  "MAX_RANGE = 1024"

definition idx_add :: "nat \<Rightarrow> nat \<Rightarrow> nat" where
  "idx_add a b = (a + b) mod MAX_RANGE"

definition idx_sub :: "nat \<Rightarrow> nat \<Rightarrow> nat" where
  "idx_sub a b = (if a \<ge> b then a - b else a + MAX_RANGE - b)"

record meter =
  countRange :: nat
  baseTimestamp :: int
  counterVector :: "u32 list"
  currIndex :: nat

definition meter_reset :: "nat \<Rightarrow> meter \<Rightarrow> meter res" where
  "meter_reset rng m =
     (if rng > MAX_RANGE then Inl (LogicError ''BytesCounter::reset: countRange_ > MAX_RANGE.'')
      else Inr (m\<lparr>countRange := rng, counterVector := replicate MAX_RANGE 0\<rparr>))"

definition BytesCounter_new :: "nat \<Rightarrow> meter res" where
  "BytesCounter_new rng = meter_reset rng
     \<lparr>countRange = 0, baseTimestamp = 0, counterVector = replicate MAX_RANGE 0, currIndex = 0\<rparr>"

text \<open>Clearing the cells at the given indexes, one after the other.\<close>

primrec clearCells :: "nat list \<Rightarrow> u32 list \<Rightarrow> u32 list res" where
  "clearCells [] v = Inr v"
| "clearCells (i # is) v = andThen (put v i 0) (clearCells is)"

definition addCell :: "nat \<Rightarrow> u32 \<Rightarrow> u32 list \<Rightarrow> u32 list res" where
  "addCell i n v = andThen (at v i) (\<lambda>c. put v i (c + n))"

definition updateCounter :: "nat \<Rightarrow> u32 \<Rightarrow> meter \<Rightarrow> meter res" where
  "updateCounter newIndex byteSize m =
     (if newIndex < currIndex m
      then Inl (LogicError ''BytesCounter::count: newIndex < currIndex, it should never happen.'')
      else if newIndex = currIndex m then
        andThen (addCell (currIndex m) byteSize (counterVector m)) (\<lambda>v. Inr (m\<lparr>counterVector := v\<rparr>))
      else
        andThen (clearCells (map (\<lambda>i. i mod MAX_RANGE) [currIndex m + 1..<newIndex + 1]) (counterVector m))
          (\<lambda>v. let m = (if newIndex \<ge> MAX_RANGE
                        then m\<lparr>baseTimestamp := baseTimestamp m + int MAX_RANGE, currIndex := newIndex mod MAX_RANGE\<rparr>
                        else m\<lparr>currIndex := newIndex\<rparr>)
               in andThen (addCell (currIndex m) byteSize v) (\<lambda>v. Inr (m\<lparr>counterVector := v\<rparr>))))"

definition update :: "int \<Rightarrow> u32 \<Rightarrow> meter \<Rightarrow> meter res" where
  "update ts byteSize m =
     (let idx = ts - baseTimestamp m
      in if idx < 0 then Inl (LogicError ''BytesCounter::count: idx < 0, it should never happen.'')
         else if idx < int (currIndex m)
         then Inl (LogicError ''BytesCounter::count: idx < currIndex, it should never happen.'')
         else if idx - int (currIndex m) \<ge> int MAX_RANGE then
           andThen (clearCells [idx_sub 0 (countRange m)..<MAX_RANGE] (counterVector m)) (\<lambda>v.
           andThen (put v 0 byteSize) (\<lambda>v.
             Inr (m\<lparr>counterVector := v, baseTimestamp := ts, currIndex := 0\<rparr>)))
         else updateCounter (nat idx mod 65536) byteSize m)"

text \<open>The loop \<open>for (i = begin; i != end; i = add(i, 1))\<close>; it makes less than 1024 rounds.\<close>

primrec sumLoop :: "nat \<Rightarrow> nat \<Rightarrow> nat \<Rightarrow> u32 list \<Rightarrow> u32 \<Rightarrow> u32 res" where
  "sumLoop 0 i end' v acc = Inl OutOfFuel"
| "sumLoop (Suc fuel) i end' v acc =
     (if i = end' then Inr acc
      else andThen (at_throw v i) (\<lambda>c. sumLoop fuel (idx_add i 1) end' v (acc + c)))"

definition meter_count :: "int \<Rightarrow> meter \<Rightarrow> int res" where
  "meter_count ts m =
     (let maxCountedTime = baseTimestamp m + int (currIndex m);
          diff = ts - maxCountedTime
      in if diff \<ge> int (countRange m) then Inr 0
         else if diff \<ge> 0 then
           let begin' = idx_sub (currIndex m) (nat (int (countRange m) - diff - 1));
               end' = idx_add (currIndex m) 1
           in andThen (sumLoop (Suc MAX_RANGE) begin' end' (counterVector m) 0) (\<lambda>s. Inr (uint s))
         else if - diff < int MAX_RANGE - int (countRange m) then
           let end' = idx_add (idx_sub (currIndex m) (nat (- diff))) 1;
               begin' = idx_sub end' (countRange m)
           in andThen (sumLoop (Suc MAX_RANGE) begin' end' (counterVector m) 0) (\<lambda>s. Inr (uint s))
         else Inr (-1))"

subsection \<open>Cells by age\<close>

text \<open>
  The specification is the log of all updates. The cell \<open>k\<close> units before the current one holds
  the bytes logged at that time, for every \<open>k\<close> inside the counting range.
\<close>

type_synonym log = "(int \<times> u32) list"

definition bytes_at :: "log \<Rightarrow> int \<Rightarrow> u32" where
  "bytes_at l t = sum_list (map snd (filter (\<lambda>e. fst e = t) l))"

definition bytes_in :: "log \<Rightarrow> int \<Rightarrow> int \<Rightarrow> u32" where
  "bytes_in l t0 t1 = sum_list (map snd (filter (\<lambda>e. t0 < fst e \<and> fst e \<le> t1) l))"

definition now :: "meter \<Rightarrow> int" where
  "now m = baseTimestamp m + int (currIndex m)"

definition age_cell :: "meter \<Rightarrow> nat \<Rightarrow> nat" where
  "age_cell m k = (currIndex m + MAX_RANGE - k) mod MAX_RANGE"

definition meter_inv :: "log \<Rightarrow> meter \<Rightarrow> bool" where
  "meter_inv l m \<longleftrightarrow> length (counterVector m) = MAX_RANGE \<and> currIndex m < MAX_RANGE
     \<and> countRange m \<le> MAX_RANGE \<and> 0 \<le> baseTimestamp m \<and> (\<forall>e \<in> set l. fst e \<le> now m)
     \<and> counterVector m ! currIndex m = bytes_at l (now m)
     \<and> (\<forall>k < countRange m. counterVector m ! age_cell m k = bytes_at l (now m - int k))"

lemma bytes_at_simps [simp]:
  "bytes_at [] t = 0" "bytes_at (l @ [(t', n)]) t = bytes_at l t + (if t' = t then n else 0)"
  by (simp_all add: bytes_at_def)

lemma bytes_at_none: "(\<And>e. e \<in> set l \<Longrightarrow> fst e \<noteq> t) \<Longrightarrow> bytes_at l t = 0"
  by (induction l) (auto simp: bytes_at_def)

lemma clearCells_spec:
  "\<forall>i \<in> set is. i < length v \<Longrightarrow>
   \<exists>v'. clearCells is v = Inr v' \<and> length v' = length v
     \<and> (\<forall>j < length v. v' ! j = (if j \<in> set is then 0 else v ! j))"
proof (induction "is" arbitrary: v)
  case (Cons i "is")
  then have "i < length v" "\<forall>j \<in> set is. j < length (v[i := 0])" by simp_all
  from Cons.IH [OF this(2)] this(1) show ?case by (auto simp: nth_list_update)
qed simp

lemma meter_new_inv:
  assumes "R \<le> 1024"
  shows "\<exists>m. BytesCounter_new R = Inr m \<and> meter_inv [] m \<and> countRange m = R \<and> now m = 0"
  using assms by (simp add: BytesCounter_new_def meter_reset_def meter_inv_def MAX_RANGE_def now_def age_cell_def)

lemma age_cell_less [simp]: "age_cell m k < MAX_RANGE"
  by (simp add: age_cell_def MAX_RANGE_def)

lemma age_cell_cases:
  "currIndex m < MAX_RANGE \<Longrightarrow> k < MAX_RANGE \<Longrightarrow>
   age_cell m k = (if k \<le> currIndex m then currIndex m - k else currIndex m + MAX_RANGE - k)"
  unfolding age_cell_def by (auto simp: mod_if)

subsection \<open>Updating refines appending to the log\<close>

lemma update_same:
  assumes inv: "meter_inv l m" and ts: "ts = now m"
  shows "\<exists>m'. update ts n m = Inr m' \<and> meter_inv (l @ [(ts, n)]) m' \<and> now m' = ts
    \<and> countRange m' = countRange m"
proof -
  let ?v = "(counterVector m)[currIndex m := counterVector m ! currIndex m + n]"
  let ?m' = "m\<lparr>counterVector := ?v\<rparr>"
  have c: "currIndex m < 1024" "length (counterVector m) = 1024" using inv by (simp_all add: meter_inv_def MAX_RANGE_def)
  have "update ts n m = Inr ?m'"
    using c ts by (simp add: update_def now_def MAX_RANGE_def updateCounter_def addCell_def Let_def)
  moreover have "meter_inv (l @ [(ts, n)]) ?m'"
    unfolding meter_inv_def
  proof (intro conjI allI impI)
    fix k assume k: "k < countRange ?m'"
    have m: "k < MAX_RANGE" using k inv by (simp add: meter_inv_def)
    have "age_cell m k = currIndex m \<longleftrightarrow> k = 0"
      using age_cell_cases [of m k] inv m by (auto simp: meter_inv_def)
    moreover have "age_cell ?m' k = age_cell m k" by (simp add: age_cell_def)
    ultimately show "counterVector ?m' ! age_cell ?m' k = bytes_at (l @ [(ts, n)]) (now ?m' - int k)"
      using inv k ts c by (cases "k = 0") (auto simp: meter_inv_def now_def)
  qed (use inv ts c in \<open>auto simp: meter_inv_def now_def\<close>)
  ultimately show ?thesis using ts by (simp add: now_def)
qed

lemma update_near:
  assumes inv: "meter_inv l m" and ts: "now m < ts" "ts - now m < 1024"
  shows "\<exists>m'. update ts n m = Inr m' \<and> meter_inv (l @ [(ts, n)]) m' \<and> now m' = ts
    \<and> countRange m' = countRange m"
proof -
  define g where "g = nat (ts - now m)"
  have g: "0 < g" "g < 1024" "ts = now m + int g" using ts by (simp_all add: g_def)
  let ?c = "currIndex m" and ?new = "currIndex m + g"
  have c: "?c < 1024" "length (counterVector m) = 1024" using inv by (simp_all add: meter_inv_def MAX_RANGE_def)
  let ?is = "map (\<lambda>i. i mod MAX_RANGE) [?c + 1..<?new + 1]"
  have "\<forall>i \<in> set ?is. i < length (counterVector m)" using c by (auto simp: MAX_RANGE_def)
  from clearCells_spec [OF this] obtain v where
    v: "clearCells ?is (counterVector m) = Inr v" "length v = 1024"
      "\<And>j. j < 1024 \<Longrightarrow> v ! j = (if j \<in> set ?is then 0 else counterVector m ! j)" using c by auto
  let ?j = "?new mod 1024"
  define base' where "base' = (if ?new \<ge> 1024 then baseTimestamp m + 1024 else baseTimestamp m)"
  let ?m' = "m\<lparr>baseTimestamp := base', currIndex := ?j, counterVector := v[?j := v ! ?j + n]\<rparr>"
  have j: "?j = (if ?new \<ge> 1024 then ?new - 1024 else ?new)" "?j < 1024" using c g by (auto simp: mod_if)
  have "?new \<in> set [?c + 1..<?new + 1]" using g by simp
  then have "?j \<in> set ?is" unfolding MAX_RANGE_def set_map by (rule imageI)
  then have vj: "v ! ?j = 0" using v(3) j(2) by simp
  have idx: "nat (ts - baseTimestamp m) mod 65536 = ?new"
    using g c by (simp add: now_def nat_add_distrib nat_diff_distrib)
  have rng: "\<not> ts - baseTimestamp m < 0" "\<not> ts - baseTimestamp m < int ?c"
    "\<not> ts - baseTimestamp m - int ?c \<ge> int MAX_RANGE"
    using g by (simp_all add: now_def MAX_RANGE_def)
  have upd: "updateCounter ?new n m = Inr ?m'"
    unfolding updateCounter_def v(1) using g j v(2)
    by (cases "?new \<ge> 1024") (simp_all add: Let_def addCell_def MAX_RANGE_def base'_def)
  have "update ts n m = Inr ?m'" unfolding update_def Let_def using rng idx upd by (simp only: if_False)
  moreover have now': "now ?m' = ts" using g j by (simp add: now_def base'_def)
  moreover have "meter_inv (l @ [(ts, n)]) ?m'"
    unfolding meter_inv_def
  proof (intro conjI allI impI)
    have none: "bytes_at l ts = 0" using inv ts by (intro bytes_at_none) (auto simp: meter_inv_def)
    show "counterVector ?m' ! currIndex ?m' = bytes_at (l @ [(ts, n)]) (now ?m')"
      unfolding now' using none vj v(2) j by simp
    fix k assume k: "k < countRange ?m'"
    then have m: "k < 1024" using inv by (simp add: meter_inv_def MAX_RANGE_def)
    have a: "age_cell ?m' k = (if k \<le> ?j then ?j - k else ?j + 1024 - k)"
      using age_cell_cases [of ?m' k] m j by (simp add: MAX_RANGE_def)
    show "counterVector ?m' ! age_cell ?m' k = bytes_at (l @ [(ts, n)]) (now ?m' - int k)"
    proof (cases "k = 0")
      case True
      then show ?thesis unfolding now' a using none vj v(2) j by simp
    next
      case False
      then have ne: "age_cell ?m' k \<noteq> ?j" "age_cell ?m' k < 1024" unfolding a using m j by auto
      have cv: "counterVector ?m' ! age_cell ?m' k = v ! age_cell ?m' k" using ne by simp
      show ?thesis
      proof (cases "k < g")
        case True
        have "age_cell ?m' k = (?new - k) mod 1024" unfolding a using True g c j by (auto simp: mod_if)
        moreover have "?new - k \<in> set [?c + 1..<?new + 1]" using True False by auto
        then have "(?new - k) mod 1024 \<in> set ?is" unfolding set_map MAX_RANGE_def by (rule imageI)
        ultimately have "age_cell ?m' k \<in> set ?is" by (simp only:)
        then have "v ! age_cell ?m' k = 0" using v(3) ne(2) by simp
        moreover have "bytes_at l (ts - int k) = 0"
          using inv g True by (intro bytes_at_none) (auto simp: meter_inv_def)
        ultimately show ?thesis unfolding now' cv using False by simp
      next
        case old: False
        then have kg: "k - g < countRange m" "k - g < 1024" using k m by auto
        have ac: "age_cell m (k - g) = age_cell ?m' k"
          unfolding a using age_cell_cases [of m "k - g"] kg c j old g m by (auto simp: MAX_RANGE_def)
        have "age_cell ?m' k \<notin> set ?is"
        proof
          assume "age_cell ?m' k \<in> set ?is"
          then obtain i where "age_cell ?m' k = i mod 1024" "i \<in> set [?c + 1..<?new + 1]"
            unfolding set_map MAX_RANGE_def by (rule imageE)
          then have i: "?c < i" "i \<le> ?new" "age_cell ?m' k = i mod 1024" unfolding set_upt by auto
          then show False using a j c g m old False by (auto simp: mod_if split: if_splits)
        qed
        then have "v ! age_cell ?m' k = counterVector m ! age_cell m (k - g)" using v(3) ne(2) ac by simp
        also have "\<dots> = bytes_at l (now m - int (k - g))" using inv kg by (simp add: meter_inv_def)
        also have "now m - int (k - g) = ts - int k" using g old by (simp add: of_nat_diff)
        finally show ?thesis unfolding now' cv using False by simp
      qed
    qed
  next
    show "0 \<le> baseTimestamp ?m'" using inv by (simp add: meter_inv_def base'_def)
    show "\<forall>e \<in> set (l @ [(ts, n)]). fst e \<le> now ?m'"
      unfolding now' using inv ts by (auto simp: meter_inv_def)
  qed (use inv v j in \<open>simp_all add: meter_inv_def MAX_RANGE_def\<close>)
  ultimately show ?thesis by (intro exI [of _ ?m']) simp
qed

lemma update_far:
  assumes inv: "meter_inv l m" and ts: "1024 \<le> ts - now m"
  shows "\<exists>m'. update ts n m = Inr m' \<and> meter_inv (l @ [(ts, n)]) m' \<and> now m' = ts
    \<and> countRange m' = countRange m"
proof -
  let ?is = "[idx_sub 0 (countRange m)..<MAX_RANGE]"
  have c: "currIndex m < 1024" "length (counterVector m) = 1024" "countRange m \<le> 1024"
    using inv by (simp_all add: meter_inv_def MAX_RANGE_def)
  have "\<forall>i \<in> set ?is. i < length (counterVector m)" using c by (auto simp: MAX_RANGE_def)
  from clearCells_spec [OF this] obtain v where
    v: "clearCells ?is (counterVector m) = Inr v" "length v = 1024"
      "\<And>j. j < 1024 \<Longrightarrow> v ! j = (if j \<in> set ?is then 0 else counterVector m ! j)" using c by auto
  let ?m' = "m\<lparr>counterVector := v[0 := n], baseTimestamp := ts, currIndex := 0\<rparr>"
  have rng: "\<not> ts - baseTimestamp m < 0" "\<not> ts - baseTimestamp m < int (currIndex m)"
    "ts - baseTimestamp m - int (currIndex m) \<ge> int MAX_RANGE"
    using ts by (simp_all add: now_def MAX_RANGE_def)
  have "update ts n m = Inr ?m'" unfolding update_def Let_def v(1) using rng v(2) by simp
  moreover have now': "now ?m' = ts" by (simp add: now_def)
  moreover have "meter_inv (l @ [(ts, n)]) ?m'"
    unfolding meter_inv_def
  proof (intro conjI allI impI)
    have none: "bytes_at l (ts - int k) = 0" if "k < 1024" for k
      using inv ts that by (intro bytes_at_none) (auto simp: meter_inv_def)
    then show "counterVector ?m' ! currIndex ?m' = bytes_at (l @ [(ts, n)]) (now ?m')"
      unfolding now' using none [of 0] v(2) by simp
    fix k assume k: "k < countRange ?m'"
    then have m: "k < 1024" using c by simp
    show "counterVector ?m' ! age_cell ?m' k = bytes_at (l @ [(ts, n)]) (now ?m' - int k)"
    proof (cases "k = 0")
      case True
      then show ?thesis unfolding now' using none [of 0] v(2) by (simp add: age_cell_def MAX_RANGE_def)
    next
      case False
      then have a: "age_cell ?m' k = 1024 - k" using m by (simp add: age_cell_def MAX_RANGE_def)
      then have "1024 - k \<in> set ?is" using k m False c by (auto simp: idx_sub_def MAX_RANGE_def)
      then have "v ! (1024 - k) = 0" using v(3) m False by simp
      then show ?thesis unfolding now' a using none [OF m] False m by simp
    qed
  next
    show "0 \<le> baseTimestamp ?m'" using inv ts c by (simp add: meter_inv_def now_def)
    show "\<forall>e \<in> set (l @ [(ts, n)]). fst e \<le> now ?m'"
      unfolding now' using inv ts by (auto simp: meter_inv_def)
  qed (use inv v in \<open>simp_all add: meter_inv_def MAX_RANGE_def\<close>)
  ultimately show ?thesis by (intro exI [of _ ?m']) simp
qed

lemma update_spec:
  assumes "meter_inv l m" "now m \<le> ts"
  shows "\<exists>m'. update ts n m = Inr m' \<and> meter_inv (l @ [(ts, n)]) m' \<and> now m' = ts
    \<and> countRange m' = countRange m"
proof -
  consider "ts = now m" | "now m < ts" "ts - now m < 1024" | "1024 \<le> ts - now m"
    using assms(2) by linarith
  then show ?thesis
    using update_same [OF assms(1)] update_near [OF assms(1)] update_far [OF assms(1)] by cases
qed

subsection \<open>Counting refines summing the log\<close>

lemma age_cell_next:
  assumes "currIndex m < 1024" "k < 1023"
  shows "idx_add (age_cell m (Suc k)) 1 = age_cell m k" "idx_add (age_cell m 0) 1 = idx_add (currIndex m) 1"
    "age_cell m k \<noteq> idx_add (currIndex m) 1"
  using assms by (auto simp: age_cell_def idx_add_def MAX_RANGE_def mod_if split: if_splits)

lemma sumLoop_spec:
  assumes "currIndex m < 1024" "length v = 1024"
  shows "k < 1023 \<Longrightarrow> Suc k < fuel \<Longrightarrow>
    sumLoop fuel (age_cell m k) (idx_add (currIndex m) 1) v acc
      = Inr (acc + (\<Sum>j<Suc k. v ! age_cell m j))"
proof (induction k arbitrary: fuel acc)
  case 0
  then obtain f where f: "fuel = Suc (Suc f)" by (metis Suc_less_eq2 less_eq_Suc_le not0_implies_Suc not_less_zero less_imp_Suc_add)
  have "age_cell m 0 < length v" using assms(2) age_cell_less [of m 0] by (simp add: MAX_RANGE_def)
  then show ?case using age_cell_next [OF assms(1), of 0] f by simp
next
  case (Suc k)
  then obtain f where f: "fuel = Suc f" "Suc k < f" by (cases fuel) auto
  have "age_cell m (Suc k) < length v" using assms(2) age_cell_less [of m "Suc k"] by (simp add: MAX_RANGE_def)
  then have "sumLoop fuel (age_cell m (Suc k)) (idx_add (currIndex m) 1) v acc
      = sumLoop f (age_cell m k) (idx_add (currIndex m) 1) v (acc + v ! age_cell m (Suc k))"
    using age_cell_next(3) [OF assms(1), of "Suc k"] age_cell_next(1) [OF assms(1), of k] Suc.prems f
    by simp
  also have "\<dots> = Inr (acc + v ! age_cell m (Suc k) + (\<Sum>j<Suc k. v ! age_cell m j))"
    using Suc.IH [of f] Suc.prems f by simp
  finally show ?case by (simp add: add.commute add.left_commute)
qed

lemma bytes_in_step: "bytes_in l (t0 - 1) t1 = bytes_at l t0 + bytes_in l t0 t1" if "t0 \<le> t1"
  using that by (induction l) (auto simp: bytes_in_def bytes_at_def)

lemma bytes_in_sum: "(\<Sum>j<q. bytes_at l (t - int j)) = bytes_in l (t - int q) t"
proof (induction q)
  case 0
  have "filter (\<lambda>e. t < fst e \<and> fst e \<le> t) l = []" by (auto simp: filter_empty_conv)
  then show ?case by (simp add: bytes_in_def)
next
  case (Suc q)
  have "bytes_in l (t - int (Suc q)) t = bytes_in l ((t - int q) - 1) t" by (simp add: algebra_simps)
  also have "\<dots> = bytes_at l (t - int q) + bytes_in l (t - int q) t" by (rule bytes_in_step) simp
  finally show ?case using Suc by simp
qed

lemma bytes_in_later:
  "\<forall>e \<in> set l. fst e \<le> t \<Longrightarrow> t \<le> t1 \<Longrightarrow> bytes_in l t0 t1 = bytes_in l t0 t"
  by (induction l) (auto simp: bytes_in_def)

lemma bytes_in_none: "\<forall>e \<in> set l. fst e \<le> t0 \<Longrightarrow> bytes_in l t0 t1 = 0"
  by (induction l) (auto simp: bytes_in_def)

lemma count_spec:
  assumes inv: "meter_inv l m" and R: "countRange m < 1024" and ts: "now m \<le> ts"
  shows "meter_count ts m = Inr (uint (bytes_in l (ts - int (countRange m)) ts))"
proof (cases "ts - now m \<ge> int (countRange m)")
  case True
  then have "\<forall>e \<in> set l. fst e \<le> ts - int (countRange m)" using inv by (auto simp: meter_inv_def)
  then show ?thesis using True bytes_in_none by (simp add: meter_count_def now_def)
next
  case False
  define k where "k = nat (int (countRange m) - (ts - now m) - 1)"
  have k: "int (Suc k) = int (countRange m) - (ts - now m)" "Suc k \<le> countRange m" "k < 1023"
    using False R ts by (auto simp: k_def)
  have c: "currIndex m < 1024" "length (counterVector m) = 1024" using inv by (simp_all add: meter_inv_def MAX_RANGE_def)
  have b: "idx_sub (currIndex m) k = age_cell m k"
    using c k by (auto simp: idx_sub_def age_cell_def MAX_RANGE_def mod_if)
  have kf: "k = nat (int (countRange m) - (ts - (baseTimestamp m + int (currIndex m))) - 1)"
    by (simp add: k_def now_def)
  have "(\<Sum>j<Suc k. counterVector m ! age_cell m j) = (\<Sum>j<Suc k. bytes_at l (now m - int j))"
    using inv k by (intro sum.cong) (auto simp: meter_inv_def)
  also have "\<dots> = bytes_in l (now m - int (Suc k)) (now m)" by (rule bytes_in_sum)
  also have "\<dots> = bytes_in l (ts - int (countRange m)) ts"
  proof -
    have "now m - int (Suc k) = ts - int (countRange m)" using k(1) by linarith
    then show ?thesis using bytes_in_later [of l "now m" ts] inv ts by (simp add: meter_inv_def)
  qed
  finally have s: "(\<Sum>j<Suc k. counterVector m ! age_cell m j) = bytes_in l (ts - int (countRange m)) ts" .
  have "sumLoop (Suc MAX_RANGE) (idx_sub (currIndex m) k) (idx_add (currIndex m) 1) (counterVector m) 0
      = Inr (bytes_in l (ts - int (countRange m)) ts)"
    unfolding b using sumLoop_spec [OF c, of k "Suc MAX_RANGE" 0] k(3) s by (simp add: MAX_RANGE_def)
  then show ?thesis using False ts unfolding meter_count_def Let_def now_def kf by simp
qed

subsection \<open>Properties\<close>

fun run_meter :: "log \<Rightarrow> meter \<Rightarrow> meter res" where
  "run_meter [] m = Inr m"
| "run_meter (e # l) m = andThen (update (fst e) (snd e) m) (run_meter l)"

lemma run_meter_inv:
  assumes "meter_inv l0 m" "sorted (map fst l)" "\<forall>e \<in> set l. now m \<le> fst e"
  shows "\<exists>m'. run_meter l m = Inr m' \<and> meter_inv (l0 @ l) m' \<and> countRange m' = countRange m
    \<and> now m' = (if l = [] then now m else fst (List.last l))"
  using assms
proof (induction l arbitrary: m l0)
  case Nil
  then show ?case by simp
next
  case (Cons e l)
  from update_spec [OF Cons.prems(1), of "fst e" "snd e"] Cons.prems(3) obtain m1 where
    m1: "update (fst e) (snd e) m = Inr m1" "meter_inv (l0 @ [e]) m1" "now m1 = fst e"
      "countRange m1 = countRange m" by auto
  have "sorted (map fst l)" "\<forall>x \<in> set l. now m1 \<le> fst x" using Cons.prems(2) m1(3) by auto
  from Cons.IH [OF m1(2) this] m1 show ?case by auto
qed

text \<open>C21: for a counting range below 1024 units, updates with non-decreasing time stamps always
  succeed, and at any later time \<open>count\<close> returns exactly the number of bytes logged in the last
  \<open>countRange\<close> units (modulo \<open>2^32\<close>): the ring of 1024 cells, with its lazy clearing and its
  jumps, implements a sum over the whole log.\<close>

theorem meter_refines_log:
  assumes "R < 1024" "sorted (map fst l)" "\<forall>e \<in> set l. 0 \<le> fst e"
    and "\<forall>e \<in> set l. fst e \<le> ts" "0 \<le> ts"
  shows "\<exists>m0 m. BytesCounter_new R = Inr m0 \<and> run_meter l m0 = Inr m
    \<and> meter_count ts m = Inr (uint (bytes_in l (ts - int R) ts))"
proof -
  from meter_new_inv [of R] assms(1) obtain m0 where
    m0: "BytesCounter_new R = Inr m0" "meter_inv [] m0" "countRange m0 = R" "now m0 = 0" by auto
  from run_meter_inv [OF m0(2) assms(2)] m0(4) assms(3) obtain m where
    m: "run_meter l m0 = Inr m" "meter_inv l m" "countRange m = R"
      "now m = (if l = [] then 0 else fst (List.last l))" using m0(3) by auto
  have "now m \<le> ts" using m(4) assms(4,5) by auto
  from count_spec [OF m(2) _ this] m(1,3) m0(1) assms(1) show ?thesis by auto
qed

theorem meter_refines_log_witness:
  "\<exists>m0 m. BytesCounter_new 5 = Inr m0 \<and> run_meter [(3, 100), (2000, 7), (2003, 8)] m0 = Inr m
    \<and> meter_count 2006 m = Inr 8"
proof -
  have "bytes_in [(3, 100), (2000, 7), (2003, 8)] (2006 - int 5) 2006 = 8" by (simp add: bytes_in_def)
  then show ?thesis using meter_refines_log [of 5 "[(3, 100), (2000, 7), (2003, 8)]" 2006] by auto
qed

lemma update_back_throws:
  assumes "ts < now m"
  shows "\<exists>msg. update ts n m = Inl (LogicError msg)"
  using assms by (auto simp: update_def now_def Let_def)

text \<open>An update whose time stamp is before the last one throws, so a clock that is set back
  ends in an exception instead of a wrong count.\<close>

theorem update_backwards:
  assumes "ts < now m"
  shows "\<exists>msg. update ts n m = Inl (LogicError msg)"
  using assms by (rule update_back_throws)

theorem update_backwards_witness:
  "\<exists>m. BytesCounter_new 5 = Inr m \<and> (\<exists>msg. update (-1) 10 m = Inl (LogicError msg))"
proof -
  from meter_new_inv [of 5] obtain m where m: "BytesCounter_new 5 = Inr m" "now m = 0" by auto
  then show ?thesis using update_backwards [of "-1" m 10] by auto
qed

text \<open>With the largest range that \<open>reset\<close> admits, 1024, the count at the current time is zero
  whatever was logged: begin and end of the summation coincide.\<close>

theorem full_range_counts_zero:
  assumes "countRange m = 1024" "currIndex m < 1024"
  shows "meter_count (now m) m = Inr 0"
proof -
  have "idx_sub (currIndex m) 1023 = idx_add (currIndex m) 1"
    using assms(2) by (auto simp: idx_sub_def idx_add_def MAX_RANGE_def mod_if)
  then show ?thesis using assms(1) by (simp add: meter_count_def now_def Let_def)
qed

theorem full_range_counts_zero_witness:
  "\<exists>m m'. BytesCounter_new 1024 = Inr m \<and> update 0 500 m = Inr m' \<and> meter_count 0 m' = Inr 0"
proof -
  from meter_new_inv [of 1024] obtain m where
    m: "BytesCounter_new 1024 = Inr m" "meter_inv [] m" "countRange m = 1024" "now m = 0" by auto
  from update_spec [OF m(2), of 0 500] m(4) obtain m' where
    m': "update 0 500 m = Inr m'" "meter_inv [(0, 500)] m'" "now m' = 0" "countRange m' = countRange m" by auto
  have "currIndex m' < 1024" using m'(2) by (simp add: meter_inv_def MAX_RANGE_def)
  from full_range_counts_zero [OF _ this] m m' show ?thesis by auto
qed

lemmas sumLoop_numeral = sumLoop.simps(2) [of "pred_numeral k" for k, folded numeral_eq_Suc]

text \<open>After a pause of 1024 units or more only the cells inside the counting range are cleared,
  so a count at a past time can include bytes from before the pause: 100 bytes logged at time 10
  are counted at time 986, although the range is 2 units.\<close>

theorem stale_cells_counted:
  "andThen (BytesCounter_new 2) (\<lambda>m. andThen (run_meter [(10, 100), (2000, 7)] m) (meter_count 986)) = Inr 100"
proof -
  have u: "[1022..<1024] = [1022, 1023 :: nat]" by (simp add: upt_rec)
  have v: "map (\<lambda>i. i mod 1024) [Suc 0..<11] = [1, 2, 3, 4, 5, 6, 7, 8, 9, 10]" by (simp add: upt_rec)
  show ?thesis
    by (simp add: BytesCounter_new_def meter_reset_def update_def updateCounter_def addCell_def
        MAX_RANGE_def idx_sub_def idx_add_def meter_count_def Let_def u v sumLoop_numeral)
qed

end
