(* ===== verification/Sender.thy ===== *)
theory Sender
  imports ByteMeter "HOL-Library.Sublist"
begin

text \<open>
  \<open>UdpSender\<close> of \<open>mod/janitor/include/rtpTrs/UdpSender.hpp\<close>: the queue of datagrams waiting to be
  sent, the asynchronous send in flight, and the bandwidth limit. The asio socket and timer are
  the environment: an operation started with \<open>async_send_to\<close> or \<open>async_wait\<close> is put in \<open>pendingOps\<close>,
  and its completion handler runs as a later event. Each public call and each handler runs as
  one step. The clock is an argument.
\<close>

datatype 'e op = TimerWait nat | SendTo bytes 'e

record 'e sender =
  isSending :: bool
  closed :: bool
  sendTasks :: int
  waitingQueue :: "(bytes list \<times> 'e) list"
  sendBuff :: bytes
  sendTarget :: "'e option"
  sendCount :: nat
  bandwidthCalcUnitInMs :: nat
  bandwidthCalcIntervalInNumberOfUnit :: nat
  maxBytesPerInterval :: nat
  bytesCounter :: meter
  pendingOps :: "'e op list"
  wire :: "(bytes \<times> 'e) list"

text \<open>\<open>wire\<close> is what was handed to \<open>async_send_to\<close> so far, the observable output.\<close>

definition UdpSender_new :: "'e sender res" where
  "UdpSender_new = andThen (BytesCounter_new 20) (\<lambda>m.
     Inr \<lparr>isSending = False, closed = False, sendTasks = 0, waitingQueue = [], sendBuff = [],
       sendTarget = None, sendCount = 0, bandwidthCalcUnitInMs = 50,
       bandwidthCalcIntervalInNumberOfUnit = 20, maxBytesPerInterval = 0, bytesCounter = m,
       pendingOps = [], wire = []\<rparr>)"

definition taskDone :: "'e sender \<Rightarrow> 'e sender" where
  "taskDone s = s\<lparr>sendTasks := sendTasks s - 1\<rparr>"

text \<open>\<open>byteSentInInterval\<close>: the \<open>int64_t\<close> count is converted to \<open>size_t\<close> and added there.\<close>

definition sentInInterval :: "int \<Rightarrow> nat \<Rightarrow> 'e sender \<Rightarrow> nat res" where
  "sentInInterval bandwidthTime nextPacketSize s =
     (if maxBytesPerInterval s \<noteq> 0 then
        andThen (meter_count bandwidthTime (bytesCounter s)) (\<lambda>c.
          Inr (unat (word_of_int c + of_nat nextPacketSize :: u64)))
      else Inr 0)"

definition doSend :: "int \<Rightarrow> 'e sender \<Rightarrow> 'e sender res" where
  "doSend currentTime s =
     (if closed s then Inr (taskDone s)
      else case waitingQueue s of
        [] \<Rightarrow> Inr (taskDone s)
      | (dataQueue, currentTarget) # rest \<Rightarrow>
          if isSending s then Inr (taskDone s)
          else
            let s = s\<lparr>isSending := True\<rparr>
            in (case dataQueue of
              [] \<Rightarrow> Inr (taskDone (s\<lparr>waitingQueue := rest\<rparr>))
            | data # dataRest \<Rightarrow>
                if bandwidthCalcUnitInMs s = 0 then Inl Undefined
                else
                  let bandwidthTime = currentTime div int (bandwidthCalcUnitInMs s);
                      waitingSize = length (waitingQueue s)
                  in andThen (sentInInterval bandwidthTime (length data) s) (\<lambda>byteSentInInterval.
                    if waitingSize > 3000 then
                      Inr ((taskDone (s\<lparr>waitingQueue := []\<rparr>))\<lparr>isSending := False\<rparr>)
                    else if byteSentInInterval > maxBytesPerInterval s then
                      if sendTasks s > 3 then Inr ((taskDone s)\<lparr>isSending := False\<rparr>)
                      else Inr (s\<lparr>pendingOps := pendingOps s @ [TimerWait (bandwidthCalcUnitInMs s div 2)]\<rparr>)
                    else
                      andThen (if maxBytesPerInterval s \<noteq> 0
                               then update bandwidthTime (of_nat (length data)) (bytesCounter s)
                               else Inr (bytesCounter s)) (\<lambda>m.
                        Inr (s\<lparr>sendBuff := data, sendTarget := Some currentTarget, bytesCounter := m,
                          waitingQueue := (if dataRest = [] then rest else (dataRest, currentTarget) # rest),
                          pendingOps := pendingOps s @ [SendTo data currentTarget],
                          wire := wire s @ [(data, currentTarget)]\<rparr>)))))"

definition startOrSkip :: "int \<Rightarrow> 'e sender \<Rightarrow> 'e sender res" where
  "startOrSkip currentTime s =
     (if \<not> isSending s then doSend currentTime s else Inr (taskDone s))"

definition send :: "int \<Rightarrow> bytes list \<Rightarrow> 'e \<Rightarrow> 'e sender \<Rightarrow> 'e sender res" where
  "send currentTime sendQueue target s =
     (let s = s\<lparr>sendTasks := sendTasks s + 1\<rparr>
      in if closed s then Inr (taskDone s)
         else startOrSkip currentTime
           (if sendQueue \<noteq> [] then s\<lparr>waitingQueue := waitingQueue s @ [(sendQueue, target)]\<rparr> else s))"

definition sendAll :: "int \<Rightarrow> bytes list \<Rightarrow> 'e list \<Rightarrow> 'e sender \<Rightarrow> 'e sender res" where
  "sendAll currentTime sendQueue targets s =
     (let s = s\<lparr>sendTasks := sendTasks s + 1\<rparr>
      in if closed s then Inr (taskDone s)
         else startOrSkip currentTime
           (if sendQueue \<noteq> [] \<and> targets \<noteq> []
            then s\<lparr>waitingQueue := waitingQueue s @ map (\<lambda>t. (sendQueue, t)) targets\<rparr> else s))"

definition close_sender :: "'e sender \<Rightarrow> 'e sender" where
  "close_sender s = s\<lparr>closed := True\<rparr>"

definition isStopped :: "'e sender \<Rightarrow> bool" where
  "isStopped s \<longleftrightarrow> closed s \<and> \<not> isSending s \<and> sendTasks s = 0"

text \<open>
  \<open>ceil(1000 * 1.0f / unit)\<close>. A zero unit makes the quotient infinite, and its conversion to
  \<open>uint16_t\<close> undefined; for every other unit the float quotient rounds up to the integer one.
\<close>

definition setBandwidth :: "nat \<Rightarrow> nat \<Rightarrow> 'e sender \<Rightarrow> 'e sender res" where
  "setBandwidth maxBytesPerSecond unit s =
     (if unit = 0 then Inl Undefined
      else
        let n = (1000 + unit - 1) div unit
        in andThen (meter_reset n (bytesCounter s)) (\<lambda>m.
          Inr (s\<lparr>maxBytesPerInterval := maxBytesPerSecond, bandwidthCalcUnitInMs := unit,
                 bandwidthCalcIntervalInNumberOfUnit := n, bytesCounter := m\<rparr>)))"

definition setCongestionControl :: "bool \<Rightarrow> 'e sender \<Rightarrow> 'e sender res" where
  "setCongestionControl value s = setBandwidth (if value then 5 * 1024 * 1024 else 0) 50 s"

definition doSendFinish :: "int \<Rightarrow> bool \<Rightarrow> nat \<Rightarrow> 'e sender \<Rightarrow> 'e sender res" where
  "doSendFinish currentTime ex len s =
     (let s = s\<lparr>sendTasks := sendTasks s + 1, isSending := False\<rparr>
      in if ex then Inr (taskDone s)
         else
           let s = (if len > 0 then s\<lparr>sendCount := sendCount s + 1\<rparr> else s)
           in if closed s then Inr (taskDone s) else doSend currentTime s)"

text \<open>The completion handler of the oldest pending operation.\<close>

definition complete :: "int \<Rightarrow> bool \<Rightarrow> nat \<Rightarrow> 'e sender \<Rightarrow> 'e sender res" where
  "complete currentTime ex len s =
     (case pendingOps s of
        [] \<Rightarrow> Inr s
      | TimerWait ms # ops \<Rightarrow>
          andThen (doSendFinish currentTime ex 0 (s\<lparr>pendingOps := ops\<rparr>)) (\<lambda>s. Inr (taskDone s))
      | SendTo d t # ops \<Rightarrow>
          andThen (doSendFinish currentTime ex len (s\<lparr>pendingOps := ops\<rparr>)) (\<lambda>s. Inr (taskDone s)))"

datatype 'e event =
    Send "bytes list" 'e
  | SendAll "bytes list" "'e list"
  | SetCongestion bool
  | Close
  | Complete bool nat

fun step :: "int \<Rightarrow> 'e event \<Rightarrow> 'e sender \<Rightarrow> 'e sender res" where
  "step t (Send q tgt) s = send t q tgt s"
| "step t (SendAll q ts) s = sendAll t q ts s"
| "step t (SetCongestion v) s = setCongestionControl v s"
| "step t Close s = Inr (close_sender s)"
| "step t (Complete ex len) s = complete t ex len s"

fun run_sender :: "(int \<times> 'e event) list \<Rightarrow> 'e sender \<Rightarrow> 'e sender res" where
  "run_sender [] s = Inr s"
| "run_sender (e # es) s = andThen (step (fst e) (snd e) s) (run_sender es)"

subsection \<open>The invariant\<close>

text \<open>Everything that waits, datagram by datagram.\<close>

definition flat :: "(bytes list \<times> 'e) list \<Rightarrow> (bytes \<times> 'e) list" where
  "flat ws = concat (map (\<lambda>(q, t). map (\<lambda>d. (d, t)) q) ws)"

lemma flat_simps [simp]: "flat [] = []" "flat ((q, t) # ws) = map (\<lambda>d. (d, t)) q @ flat ws"
  "flat (v @ w) = flat v @ flat w"
  by (simp_all add: flat_def)

definition meter_ok :: "int \<Rightarrow> meter \<Rightarrow> bool" where
  "meter_ok t m \<longleftrightarrow> countRange m = 20 \<and> now m \<le> t div 50 \<and> (\<exists>l. meter_inv l m)"

definition sender_ok :: "int \<Rightarrow> 'e sender \<Rightarrow> bool" where
  "sender_ok t s \<longleftrightarrow> (\<forall>w \<in> set (waitingQueue s). fst w \<noteq> [])
     \<and> bandwidthCalcUnitInMs s = 50 \<and> maxBytesPerInterval s \<in> {0, 5242880} \<and> meter_ok t (bytesCounter s)"

definition sender_inv :: "int \<Rightarrow> 'e sender \<Rightarrow> bool" where
  "sender_inv t s \<longleftrightarrow> sender_ok t s \<and> length (pendingOps s) = (if isSending s then 1 else 0)
     \<and> sendTasks s = int (length (pendingOps s))"

lemma meter_ok_later: "meter_ok t m \<Longrightarrow> t \<le> t' \<Longrightarrow> meter_ok t' m"
  using zdiv_mono1 [of t t' 50] by (auto simp: meter_ok_def)

lemma meter_ok_count:
  assumes "meter_ok t m" "t \<le> t'"
  shows "\<exists>c. meter_count (t' div 50) m = Inr c \<and> 0 \<le> c \<and> c < 2 ^ 32"
proof -
  obtain l where l: "meter_inv l m" "countRange m = 20" "now m \<le> t' div 50"
    using meter_ok_later [OF assms] by (auto simp: meter_ok_def)
  then show ?thesis
    using count_spec [OF l(1) _ l(3)] uint_lt2p [of "bytes_in l (t' div 50 - 20) (t' div 50)"] by simp
qed

lemma meter_ok_update:
  assumes "meter_ok t m" "t \<le> t'"
  shows "\<exists>m'. update (t' div 50) n m = Inr m' \<and> meter_ok t' m'"
proof -
  obtain l where l: "meter_inv l m" "countRange m = 20" "now m \<le> t' div 50"
    using meter_ok_later [OF assms] by (auto simp: meter_ok_def)
  then show ?thesis using update_spec [OF l(1) l(3), of n] by (auto simp: meter_ok_def)
qed

lemma meter_ok_reset: "meter_ok t m \<Longrightarrow> \<exists>m'. meter_reset 20 m = Inr m' \<and> meter_ok t m'"
  by (auto simp: meter_ok_def meter_reset_def MAX_RANGE_def meter_inv_def now_def age_cell_def
      intro!: exI [of _ "[]"])

text \<open>What \<open>doSend\<close> does to the queue: nothing is lost or reordered, except that a queue of more
  than 3000 entries is thrown away whole.\<close>

definition flow :: "'e sender \<Rightarrow> 'e sender \<Rightarrow> bool" where
  "flow s s' \<longleftrightarrow> (wire s' @ flat (waitingQueue s') = wire s @ flat (waitingQueue s)
     \<or> 3000 < length (waitingQueue s) \<and> waitingQueue s' = [] \<and> wire s' = wire s)
     \<and> length (waitingQueue s') \<le> length (waitingQueue s)"

lemma sentInInterval_ok:
  assumes "meter_ok t0 (bytesCounter s)" "t0 \<le> t"
  shows "\<exists>n. sentInInterval (t div 50) k s = Inr n"
  using meter_ok_count [OF assms] by (auto simp: sentInInterval_def)

lemma doSend_spec:
  assumes ok: "sender_ok t0 s" "t0 \<le> t" and idle: "pendingOps s = []" "\<not> isSending s"
    and tasks: "sendTasks s \<le> 3"
  shows "\<exists>s'. doSend t s = Inr s' \<and> sender_ok t s' \<and> flow s s' \<and> closed s' = closed s
    \<and> length (pendingOps s') = (if isSending s' then 1 else 0)
    \<and> sendTasks s' = sendTasks s - 1 + int (length (pendingOps s'))"
proof -
  have unit: "bandwidthCalcUnitInMs s = 50" using ok by (simp add: sender_ok_def)
  have m: "meter_ok t0 (bytesCounter s)" using ok by (simp add: sender_ok_def)
  have mt: "meter_ok t (bytesCounter s)" using meter_ok_later [OF m ok(2)] .
  have skip: "sender_ok t (taskDone s)" using ok mt by (simp add: sender_ok_def taskDone_def)
  show ?thesis
  proof (cases "closed s \<or> waitingQueue s = []")
    case True
    then have "doSend t s = Inr (taskDone s)" by (auto simp: doSend_def split: list.splits)
    then show ?thesis using skip idle by (simp add: flow_def taskDone_def)
  next
    case False
    then obtain q tgt rest where w: "waitingQueue s = (q, tgt) # rest" by (cases "waitingQueue s") auto
    have "q \<noteq> []" using ok w by (simp add: sender_ok_def)
    then obtain d ds where q: "q = d # ds" by (cases q) auto
    let ?s = "s\<lparr>isSending := True\<rparr>"
    from sentInInterval_ok [of t0 ?s t "length d"] m ok(2) obtain n where
      n: "sentInInterval (t div 50) (length d) ?s = Inr n" by auto
    from meter_ok_update [OF m ok(2), of "of_nat (length d)"] obtain m' where
      m': "update (t div 50) (of_nat (length d)) (bytesCounter s) = Inr m'" "meter_ok t m'" by blast
    let ?m = "if maxBytesPerInterval s \<noteq> 0 then m' else bytesCounter s"
    let ?full = "(taskDone (?s\<lparr>waitingQueue := []\<rparr>))\<lparr>isSending := False\<rparr>"
    let ?wait = "?s\<lparr>pendingOps := [TimerWait 25]\<rparr>"
    let ?sent = "?s\<lparr>sendBuff := d, sendTarget := Some tgt, bytesCounter := ?m,
      waitingQueue := (if ds = [] then rest else (ds, tgt) # rest), pendingOps := [SendTo d tgt],
      wire := wire s @ [(d, tgt)]\<rparr>"
    have "doSend t s = Inr (if 3000 < length (waitingQueue s) then ?full
        else if n > maxBytesPerInterval s then ?wait else ?sent)"
      using False idle tasks unfolding doSend_def
      by (simp add: w q unit n m'(1) Let_def)
    moreover have "sender_ok t ?full" "sender_ok t ?wait" "sender_ok t ?sent"
      using ok mt m'(2) w q by (simp_all add: sender_ok_def taskDone_def)
    moreover have "flow s ?full" if "3000 < length (waitingQueue s)"
      using that by (simp add: flow_def taskDone_def)
    moreover have "flow s ?wait" "flow s ?sent" using w q by (simp_all add: flow_def)
    ultimately show ?thesis using idle by (auto simp: taskDone_def)
  qed
qed

lemma startOrSkip_spec:
  assumes ok: "sender_ok t0 s" "t0 \<le> t" and pend: "length (pendingOps s) = (if isSending s then 1 else 0)"
    and tasks: "sendTasks s = int (length (pendingOps s)) + 1"
  shows "\<exists>s'. startOrSkip t s = Inr s' \<and> sender_inv t s' \<and> flow s s' \<and> closed s' = closed s"
proof (cases "isSending s")
  case True
  then show ?thesis using assms meter_ok_later [of t0 "bytesCounter s" t]
    by (auto simp: startOrSkip_def sender_inv_def sender_ok_def taskDone_def flow_def)
next
  case False
  then have "pendingOps s = []" "sendTasks s \<le> 3" using pend tasks by simp_all
  from doSend_spec [OF ok this(1) False this(2)] obtain s' where
    s': "doSend t s = Inr s'" "sender_ok t s'" "flow s s'" "closed s' = closed s"
      "length (pendingOps s') = (if isSending s' then 1 else 0)"
      "sendTasks s' = sendTasks s - 1 + int (length (pendingOps s'))" by blast
  have "startOrSkip t s = Inr s'" using False s'(1) by (simp add: startOrSkip_def)
  moreover have "sender_inv t s'" using s' False tasks pend by (simp add: sender_inv_def)
  ultimately show ?thesis using s'(3,4) by blast
qed

lemma complete_spec:
  assumes inv: "sender_inv t0 s" and t: "t0 \<le> t"
  shows "\<exists>s'. complete t ex len s = Inr s' \<and> sender_inv t s' \<and> flow s s' \<and> closed s' = closed s"
proof (cases "pendingOps s")
  case Nil
  then show ?thesis using inv t meter_ok_later [of t0 "bytesCounter s" t]
    by (auto simp: complete_def sender_inv_def sender_ok_def flow_def)
next
  case (Cons op ops)
  then have s: "ops = []" "isSending s" "sendTasks s = 1" using inv by (auto simp: sender_inv_def split: if_splits)
  have fin: "\<exists>s'. doSendFinish t ex k (s\<lparr>pendingOps := []\<rparr>) = Inr s' \<and> sender_inv t (taskDone s')
      \<and> flow s s' \<and> closed s' = closed s" for k
  proof -
    let ?s1 = "s\<lparr>pendingOps := [], sendTasks := sendTasks s + 1, isSending := False,
      sendCount := (if k > 0 \<and> \<not> ex then sendCount s + 1 else sendCount s)\<rparr>"
    have ok1: "sender_ok t0 ?s1" using inv by (simp add: sender_inv_def sender_ok_def)
    have fl: "flow s s' = flow ?s1 s'" for s' by (simp add: flow_def)
    show ?thesis
    proof (cases "ex \<or> closed s")
      case True
      then have "doSendFinish t ex k (s\<lparr>pendingOps := []\<rparr>) = Inr (taskDone ?s1)"
        by (auto simp: doSendFinish_def Let_def)
      moreover have "sender_ok t ?s1" using ok1 t meter_ok_later [of t0 "bytesCounter s" t]
        by (simp add: sender_ok_def)
      ultimately show ?thesis using s(3)
        by (simp add: taskDone_def sender_inv_def sender_ok_def flow_def)
    next
      case False
      then have "doSendFinish t ex k (s\<lparr>pendingOps := []\<rparr>) = doSend t ?s1"
        by (auto simp: doSendFinish_def Let_def)
      moreover have "\<exists>s'. doSend t ?s1 = Inr s' \<and> sender_ok t s' \<and> flow ?s1 s' \<and> closed s' = closed ?s1
          \<and> length (pendingOps s') = (if isSending s' then 1 else 0)
          \<and> sendTasks s' = sendTasks ?s1 - 1 + int (length (pendingOps s'))"
        by (rule doSend_spec [OF ok1 t]) (simp_all add: s)
      ultimately show ?thesis using s(3)
        by (auto simp: fl sender_inv_def sender_ok_def taskDone_def)
    qed
  qed
  have fl': "flow s (taskDone s') = flow s s'" "closed (taskDone s') = closed s'" for s'
    by (simp_all add: flow_def taskDone_def)
  show ?thesis
  proof (cases op)
    case (TimerWait ms)
    then show ?thesis using fin [of 0] Cons s(1) fl' by (auto simp: complete_def)
  next
    case (SendTo d tgt)
    then show ?thesis using fin [of len] Cons s(1) fl' by (auto simp: complete_def)
  qed
qed

text \<open>What an event hands to the queue.\<close>

fun submitted :: "'e event \<Rightarrow> (bytes list \<times> 'e) list" where
  "submitted (Send q tgt) = (if q \<noteq> [] then [(q, tgt)] else [])"
| "submitted (SendAll q tgts) = (if q \<noteq> [] then map (\<lambda>t. (q, t)) tgts else [])"
| "submitted e = []"

lemma step_spec:
  assumes inv: "sender_inv t0 s" and t: "t0 \<le> t"
  shows "\<exists>s'. step t e s = Inr s' \<and> sender_inv t s' \<and> closed s' = (closed s \<or> e = Close)
    \<and> flow (s\<lparr>waitingQueue := waitingQueue s @ (if closed s then [] else submitted e)\<rparr>) s'"
proof -
  have later: "sender_inv t s" using inv t meter_ok_later [of t0 "bytesCounter s" t]
    by (auto simp: sender_inv_def sender_ok_def)
  have go: "\<exists>s'. startOrSkip t (s\<lparr>sendTasks := sendTasks s + 1, waitingQueue := waitingQueue s @ ws\<rparr>) = Inr s'
      \<and> sender_inv t s' \<and> closed s' = closed s \<and> flow (s\<lparr>waitingQueue := waitingQueue s @ ws\<rparr>) s'"
    if "\<forall>w \<in> set ws. fst w \<noteq> []" for ws
  proof -
    let ?s1 = "s\<lparr>sendTasks := sendTasks s + 1, waitingQueue := waitingQueue s @ ws\<rparr>"
    have fl: "flow (s\<lparr>waitingQueue := waitingQueue s @ ws\<rparr>) s' = flow ?s1 s'" for s' by (simp add: flow_def)
    have "sender_ok t0 ?s1" using inv that by (auto simp: sender_inv_def sender_ok_def)
    moreover have "length (pendingOps ?s1) = (if isSending ?s1 then 1 else 0)"
      "sendTasks ?s1 = int (length (pendingOps ?s1)) + 1"
      using inv by (simp_all add: sender_inv_def)
    ultimately obtain s' where "startOrSkip t ?s1 = Inr s'" "sender_inv t s'" "flow ?s1 s'" "closed s' = closed ?s1"
      using startOrSkip_spec [OF _ t, of ?s1] by blast
    then show ?thesis unfolding fl by (intro exI [of _ s']) simp
  qed
  have shut: "sender_inv t (taskDone (s\<lparr>sendTasks := sendTasks s + 1\<rparr>))
      \<and> flow s (taskDone (s\<lparr>sendTasks := sendTasks s + 1\<rparr>))"
    using later by (simp add: taskDone_def flow_def sender_inv_def sender_ok_def)
  have request: "\<exists>s'. (if closed s then Inr (taskDone (s\<lparr>sendTasks := sendTasks s + 1\<rparr>))
        else startOrSkip t (s\<lparr>sendTasks := sendTasks s + 1, waitingQueue := waitingQueue s @ ws\<rparr>)) = Inr s'
      \<and> sender_inv t s' \<and> closed s' = closed s
      \<and> flow (s\<lparr>waitingQueue := waitingQueue s @ (if closed s then [] else ws)\<rparr>) s'"
    if "\<forall>w \<in> set ws. fst w \<noteq> []" for ws
  proof (cases "closed s")
    case True
    then show ?thesis using shut by (simp add: taskDone_def)
  next
    case False
    then show ?thesis using go [OF that] by (simp only: if_False)
  qed
  have sub: "\<forall>w \<in> set (submitted e). fst w \<noteq> []" by (cases e) auto
  show ?thesis
  proof (cases e)
    case (Send q tgt)
    have "step t e s = (if closed s then Inr (taskDone (s\<lparr>sendTasks := sendTasks s + 1\<rparr>))
        else startOrSkip t (s\<lparr>sendTasks := sendTasks s + 1, waitingQueue := waitingQueue s @ submitted e\<rparr>))"
      using Send by (simp add: send_def Let_def)
    moreover have "closed s = (closed s \<or> e = Close)" using Send by simp
    ultimately show ?thesis using request [OF sub] by (simp only:)
  next
    case (SendAll q tgts)
    have "step t e s = (if closed s then Inr (taskDone (s\<lparr>sendTasks := sendTasks s + 1\<rparr>))
        else startOrSkip t (s\<lparr>sendTasks := sendTasks s + 1, waitingQueue := waitingQueue s @ submitted e\<rparr>))"
      using SendAll by (simp add: sendAll_def Let_def)
    moreover have "closed s = (closed s \<or> e = Close)" using SendAll by simp
    ultimately show ?thesis using request [OF sub] by (simp only:)
  next
    case (SetCongestion v)
    from later have "meter_ok t (bytesCounter s)" by (simp add: sender_inv_def sender_ok_def)
    from meter_ok_reset [OF this] obtain m' where
      m': "meter_reset 20 (bytesCounter s) = Inr m'" "meter_ok t m'" by blast
    let ?s' = "s\<lparr>maxBytesPerInterval := (if v then 5242880 else 0), bandwidthCalcUnitInMs := 50,
      bandwidthCalcIntervalInNumberOfUnit := 20, bytesCounter := m'\<rparr>"
    have "step t e s = Inr ?s'" using SetCongestion m'(1) by (simp add: setCongestionControl_def setBandwidth_def)
    moreover have "sender_inv t ?s'" using later m'(2) by (simp add: sender_inv_def sender_ok_def)
    ultimately show ?thesis using SetCongestion by (simp add: flow_def)
  next
    case Close
    then show ?thesis using later
      by (simp add: close_sender_def sender_inv_def sender_ok_def flow_def)
  next
    case (Complete ex len)
    then show ?thesis using complete_spec [OF inv t, of ex len] by (cases "closed s") auto
  qed
qed

subsection \<open>Properties of runs\<close>

fun submittedRun :: "bool \<Rightarrow> (int \<times> 'e event) list \<Rightarrow> (bytes list \<times> 'e) list" where
  "submittedRun c [] = []"
| "submittedRun c (e # es) = (if c then [] else submitted (snd e)) @ submittedRun (c \<or> snd e = Close) es"

lemma run_sender_spec:
  assumes "sender_inv t0 s" "sorted (map fst es)" "\<forall>e \<in> set es. t0 \<le> fst e"
  shows "\<exists>s' t'. run_sender es s = Inr s' \<and> sender_inv t' s'
    \<and> subseq (wire s' @ flat (waitingQueue s')) (wire s @ flat (waitingQueue s @ submittedRun (closed s) es))
    \<and> (length (waitingQueue s) + length (submittedRun (closed s) es) \<le> 3000 \<longrightarrow>
         wire s' @ flat (waitingQueue s') = wire s @ flat (waitingQueue s @ submittedRun (closed s) es))"
  using assms
proof (induction es arbitrary: s t0)
  case Nil
  then show ?case by auto
next
  case (Cons e es)
  let ?ws = "if closed s then [] else submitted (snd e)"
  let ?rest = "submittedRun (closed s \<or> snd e = Close) es"
  have "t0 \<le> fst e" using Cons.prems(3) by simp
  from step_spec [OF Cons.prems(1) this, of "snd e"] obtain s1 where
    s1: "step (fst e) (snd e) s = Inr s1" "sender_inv (fst e) s1" "closed s1 = (closed s \<or> snd e = Close)"
      "flow (s\<lparr>waitingQueue := waitingQueue s @ ?ws\<rparr>) s1" by blast
  have "sorted (map fst es)" "\<forall>x \<in> set es. fst e \<le> fst x" using Cons.prems(2) by auto
  from Cons.IH [OF s1(2) this] obtain s' t' where
    s': "run_sender es s1 = Inr s'" "sender_inv t' s'"
      "subseq (wire s' @ flat (waitingQueue s')) (wire s1 @ flat (waitingQueue s1 @ ?rest))"
      "length (waitingQueue s1) + length ?rest \<le> 3000 \<longrightarrow>
         wire s' @ flat (waitingQueue s') = wire s1 @ flat (waitingQueue s1 @ ?rest)"
    unfolding s1(3) by blast
  have fl: "wire s1 @ flat (waitingQueue s1) = wire s @ flat (waitingQueue s @ ?ws)
      \<or> 3000 < length (waitingQueue s @ ?ws) \<and> waitingQueue s1 = [] \<and> wire s1 = wire s"
    "length (waitingQueue s1) \<le> length (waitingQueue s @ ?ws)"
    using s1(4) by (simp_all add: flow_def)
  have "subseq (wire s1 @ flat (waitingQueue s1)) (wire s @ flat (waitingQueue s @ ?ws))"
    using fl(1)
  proof
    assume "3000 < length (waitingQueue s @ ?ws) \<and> waitingQueue s1 = [] \<and> wire s1 = wire s"
    then show ?thesis by (simp add: list_emb_prefix [OF subseq_order.refl])
  qed simp
  then have "subseq ((wire s1 @ flat (waitingQueue s1)) @ flat ?rest)
      ((wire s @ flat (waitingQueue s @ ?ws)) @ flat ?rest)"
    by (rule list_emb_append_mono) simp
  moreover have all: "(wire s @ flat (waitingQueue s @ ?ws)) @ flat ?rest
      = wire s @ flat (waitingQueue s @ submittedRun (closed s) (e # es))" by simp
  moreover have mid: "wire s1 @ flat (waitingQueue s1 @ ?rest) = (wire s1 @ flat (waitingQueue s1)) @ flat ?rest"
    by simp
  ultimately have "subseq (wire s' @ flat (waitingQueue s'))
      (wire s @ flat (waitingQueue s @ submittedRun (closed s) (e # es)))"
    using subseq_order.order_trans [OF s'(3)] by (simp only:)
  moreover have "wire s' @ flat (waitingQueue s') = wire s @ flat (waitingQueue s @ submittedRun (closed s) (e # es))"
    if "length (waitingQueue s) + length (submittedRun (closed s) (e # es)) \<le> 3000"
  proof -
    have le: "length (waitingQueue s @ ?ws) + length ?rest \<le> 3000" using that by simp
    then have "wire s1 @ flat (waitingQueue s1) = wire s @ flat (waitingQueue s @ ?ws)" using fl(1) by linarith
    moreover have "length (waitingQueue s1) + length ?rest \<le> 3000" using le fl(2) by linarith
    ultimately show ?thesis using s'(4) all mid by (simp only:)
  qed
  ultimately show ?case using s1(1) s'(1,2) by auto
qed

lemma sender_new:
  "\<exists>s. UdpSender_new = Inr (s :: 'e sender) \<and> sender_inv 0 s \<and> wire s = [] \<and> waitingQueue s = [] \<and> \<not> closed s
    \<and> pendingOps s = [] \<and> \<not> isSending s"
proof -
  from meter_new_inv [of 20] obtain m where
    "BytesCounter_new 20 = Inr m" "meter_inv [] m" "countRange m = 20" "now m = 0" by auto
  then show ?thesis
    by (auto simp: UdpSender_new_def sender_inv_def sender_ok_def meter_ok_def)
qed

lemma run_new:
  fixes es :: "(int \<times> 'e event) list"
  assumes "sorted (map fst es)" "\<forall>e \<in> set es. 0 \<le> fst e"
  shows "\<exists>s t. andThen UdpSender_new (run_sender es) = Inr s \<and> sender_inv t s
    \<and> subseq (wire s @ flat (waitingQueue s)) (flat (submittedRun False es))
    \<and> (length (submittedRun False es) \<le> 3000 \<longrightarrow> wire s @ flat (waitingQueue s) = flat (submittedRun False es))"
proof -
  obtain s0 :: "'e sender" where s0: "UdpSender_new = Inr s0" "sender_inv 0 s0" "wire s0 = []" "waitingQueue s0 = []" "\<not> closed s0"
    using sender_new by blast
  from run_sender_spec [OF s0(2) assms] obtain s t where s: "run_sender es s0 = Inr s" "sender_inv t s"
    "subseq (wire s @ flat (waitingQueue s)) (flat (submittedRun False es))"
    "length (submittedRun False es) \<le> 3000 \<longrightarrow> wire s @ flat (waitingQueue s) = flat (submittedRun False es)"
    using s0(3,4,5) by auto
  have "andThen UdpSender_new (run_sender es) = Inr s" unfolding s0(1) by (simp add: s(1))
  then show ?thesis using s by blast
qed





subsection \<open>The bandwidth limit\<close>

lemma bytes_in_snoc: "0 < r \<Longrightarrow> bytes_in (l @ [(t, n)]) (t - int r) t = bytes_in l (t - int r) t + n"
  by (simp add: bytes_in_def)

lemma sentInInterval_exact:
  assumes inv: "meter_inv l (bytesCounter s)" "countRange (bytesCounter s) = R" "R < 1024"
    and "now (bytesCounter s) \<le> T" "maxBytesPerInterval s \<noteq> 0" "k < 2 ^ 62"
  shows "sentInInterval T k s = Inr (unat (bytes_in l (T - int R) T) + k)"
proof -
  let ?b = "bytes_in l (T - int R) T"
  have "unat (word_of_int (uint ?b) + of_nat k :: u64) = unat ?b + k"
  proof -
    have "unat ?b < 2 ^ LENGTH(32)" by (rule unsigned_less)
    then have b: "unat ?b < 2 ^ 32" by simp
    have "(word_of_int (uint ?b) + of_nat k :: u64) = of_nat (unat ?b + k)"
      by (simp flip: uint_nat)
    moreover have "unat ?b + k < 2 ^ 64" using b assms(6) by simp
    ultimately show ?thesis by (simp only: unat_of_nat) simp
  qed
  then show ?thesis using count_spec [OF inv(1)] assms by (simp add: sentInInterval_def)
qed

text \<open>C22: the limit holds: when a call hands a datagram to the socket while a limit is set, the
  bytes handed over in the last counting interval, this datagram included, do not exceed it.\<close>

theorem doSend_rate:
  assumes inv: "meter_inv l (bytesCounter s)" "countRange (bytesCounter s) = R" "0 < R" "R < 1024"
    and unit: "bandwidthCalcUnitInMs s \<noteq> 0" "now (bytesCounter s) \<le> t div int (bandwidthCalcUnitInMs s)"
    and max: "maxBytesPerInterval s \<noteq> 0" "maxBytesPerInterval s < 2 ^ 32"
    and sizes: "\<forall>w \<in> set (waitingQueue s). \<forall>d \<in> set (fst w). length d < 2 ^ 62"
    and sent: "doSend t s = Inr s'" "wire s' \<noteq> wire s"
  shows "\<exists>d tgt. wire s' = wire s @ [(d, tgt)]
    \<and> (let T = t div int (bandwidthCalcUnitInMs s); l' = l @ [(T, of_nat (length d))]
       in meter_inv l' (bytesCounter s') \<and> unat (bytes_in l' (T - int R) T) \<le> maxBytesPerInterval s')"
proof -
  define T where "T = t div int (bandwidthCalcUnitInMs s)"
  have "\<not> closed s" "waitingQueue s \<noteq> []" "\<not> isSending s"
    using sent by (auto simp: doSend_def taskDone_def split: list.splits if_splits prod.splits)
  then obtain q tgt rest where w: "waitingQueue s = (q, tgt) # rest" by (cases "waitingQueue s") auto
  have "q \<noteq> []" using sent w by (auto simp: doSend_def taskDone_def split: if_splits)
  then obtain d ds where q: "q = d # ds" by (cases q) auto
  let ?s = "s\<lparr>isSending := True\<rparr>" and ?b = "bytes_in l (T - int R) T"
  have size: "length d < 2 ^ 62" using sizes w q by simp
  have n: "sentInInterval T (length d) ?s = Inr (unat ?b + length d)"
    using sentInInterval_exact [of l ?s R T "length d"] inv unit(2) max(1) size by (simp add: T_def)
  obtain m' where m': "update T (of_nat (length d)) (bytesCounter s) = Inr m'"
    "meter_inv (l @ [(T, of_nat (length d))]) m'"
    using update_spec [OF inv(1), of T "of_nat (length d)"] unit(2) by (auto simp: T_def)
  have eq: "doSend t s = (if 3000 < length (waitingQueue s)
      then Inr ((taskDone (?s\<lparr>waitingQueue := []\<rparr>))\<lparr>isSending := False\<rparr>)
      else if unat ?b + length d > maxBytesPerInterval s
      then if sendTasks s > 3 then Inr ((taskDone ?s)\<lparr>isSending := False\<rparr>)
           else Inr (?s\<lparr>pendingOps := pendingOps s @ [TimerWait (bandwidthCalcUnitInMs s div 2)]\<rparr>)
      else Inr (?s\<lparr>sendBuff := d, sendTarget := Some tgt, bytesCounter := m',
             waitingQueue := (if ds = [] then rest else (ds, tgt) # rest),
             pendingOps := pendingOps s @ [SendTo d tgt], wire := wire s @ [(d, tgt)]\<rparr>))"
    using \<open>\<not> closed s\<close> \<open>\<not> isSending s\<close> unit(1) max(1) n m'(1)
    unfolding doSend_def T_def by (simp add: w q Let_def)
  have fits: "unat ?b + length d \<le> maxBytesPerInterval s"
    using sent eq by (auto simp: taskDone_def split: if_splits)
  have s': "wire s' = wire s @ [(d, tgt)]" "bytesCounter s' = m'"
    "maxBytesPerInterval s' = maxBytesPerInterval s"
    using sent eq by (auto simp: taskDone_def split: if_splits)
  have "unat (bytes_in (l @ [(T, of_nat (length d))]) (T - int R) T) \<le> maxBytesPerInterval s"
    unfolding bytes_in_snoc [OF inv(3)] using fits max(2) by (simp add: unat_word_ariths unat_of_nat)
  then show ?thesis using s' m'(2) unfolding T_def [symmetric] Let_def
    by (intro exI [of _ d] exI [of _ tgt]) simp
qed

text \<open>C4: a datagram larger than the limit is never sent, and blocks the queue behind it: every
  completion of the retry timer only starts the timer again.\<close>

definition blocked :: "int \<Rightarrow> 'e sender \<Rightarrow> bool" where
  "blocked t s \<longleftrightarrow> sender_inv t s \<and> pendingOps s = [TimerWait 25] \<and> \<not> closed s
     \<and> maxBytesPerInterval s \<noteq> 0 \<and> length (waitingQueue s) \<le> 3000
     \<and> (\<exists>d ds tgt rest. waitingQueue s = (d # ds, tgt) # rest \<and> maxBytesPerInterval s < length d
          \<and> length d < 2 ^ 62)"

lemma blocked_step:
  assumes "blocked t0 s" "t0 \<le> t"
  shows "\<exists>s'. complete t False 0 s = Inr s' \<and> blocked t s' \<and> wire s' = wire s
    \<and> waitingQueue s' = waitingQueue s"
proof -
  obtain d ds tgt rest where w: "waitingQueue s = (d # ds, tgt) # rest"
    "maxBytesPerInterval s < length d" "length d < 2 ^ 62"
    and b: "sender_inv t0 s" "pendingOps s = [TimerWait 25]" "\<not> closed s" "maxBytesPerInterval s \<noteq> 0"
      "length (waitingQueue s) \<le> 3000" using assms(1) by (auto simp: blocked_def)
  have unit: "bandwidthCalcUnitInMs s = 50" and tasks: "sendTasks s = 1"
    and m: "meter_ok t0 (bytesCounter s)"
    using b(1,2) by (auto simp: sender_inv_def sender_ok_def)
  have mt: "meter_ok t (bytesCounter s)" using meter_ok_later [OF m assms(2)] .
  then obtain l where l: "meter_inv l (bytesCounter s)" "countRange (bytesCounter s) = 20"
    "now (bytesCounter s) \<le> t div 50" by (auto simp: meter_ok_def)
  let ?s1 = "s\<lparr>pendingOps := [], sendTasks := 2, isSending := True\<rparr>"
  have n: "sentInInterval (t div 50) (length d) ?s1
      = Inr (unat (bytes_in l (t div 50 - int 20) (t div 50)) + length d)"
    using sentInInterval_exact [of l ?s1 20 "t div 50" "length d"] l b(4) w(3) by simp
  let ?s' = "s\<lparr>pendingOps := [TimerWait 25], sendTasks := 1, isSending := True\<rparr>"
  have "complete t False 0 s = Inr ?s'"
    using b w unit tasks n
    by (simp add: complete_def doSendFinish_def doSend_def taskDone_def Let_def)
  moreover have "blocked t ?s'"
    using b w mt unfolding blocked_def sender_inv_def sender_ok_def by simp
  ultimately show ?thesis by (intro exI [of _ ?s']) simp
qed

theorem oversized_never_sent:
  assumes "blocked t0 s" "sorted ts" "\<forall>t \<in> set ts. t0 \<le> t"
  shows "\<exists>s'. run_sender (map (\<lambda>t. (t, Complete False 0)) ts) s = Inr s'
    \<and> wire s' = wire s \<and> waitingQueue s' = waitingQueue s"
  using assms
proof (induction ts arbitrary: s t0)
  case (Cons t ts)
  have "t0 \<le> t" using Cons.prems(3) by simp
  from blocked_step [OF Cons.prems(1) this] obtain s1 where
    s1: "complete t False 0 s = Inr s1" "blocked t s1" "wire s1 = wire s"
      "waitingQueue s1 = waitingQueue s" by blast
  have "sorted ts" "\<forall>t' \<in> set ts. t \<le> t'" using Cons.prems(2) by auto
  from Cons.IH [OF s1(2) this] s1 show ?case by auto
qed simp

text \<open>The blocked state is reached by one send of an oversized datagram.\<close>

lemma send_blocks:
  "\<exists>s. andThen UdpSender_new (run_sender [(100, SetCongestion True), (100, Send [replicate 6000000 0] ())]) = Inr s
    \<and> blocked 100 s \<and> wire s = []"
proof -
  obtain s0 :: "unit sender" where s0: "UdpSender_new = Inr s0" "sender_inv 0 s0" "wire s0 = []"
    "waitingQueue s0 = []" "\<not> closed s0" "pendingOps s0 = []" "\<not> isSending s0" using sender_new by blast
  have m: "meter_ok 100 (bytesCounter s0)" using s0(2) meter_ok_later [of 0 "bytesCounter s0" 100]
    by (simp add: sender_inv_def sender_ok_def)
  from meter_ok_reset [OF this] obtain m1 where
    m1: "meter_reset 20 (bytesCounter s0) = Inr m1" "meter_ok 100 m1" by blast
  let ?s1 = "s0\<lparr>maxBytesPerInterval := 5242880, bandwidthCalcUnitInMs := 50,
    bandwidthCalcIntervalInNumberOfUnit := 20, bytesCounter := m1\<rparr>"
  let ?big = "replicate 6000000 (0 :: u8)"
  obtain l where l: "meter_inv l m1" "countRange m1 = 20" "now m1 \<le> 100 div 50"
    using m1(2) by (auto simp: meter_ok_def)
  have tasks: "sendTasks s0 = 0" using s0(2,6) by (simp add: sender_inv_def)
  let ?s2 = "?s1\<lparr>sendTasks := 1, waitingQueue := [([?big], ())], isSending := True\<rparr>"
  have n: "sentInInterval (100 div 50) (length ?big) ?s2
      = Inr (unat (bytes_in l (100 div 50 - int 20) (100 div 50)) + length ?big)"
    using sentInInterval_exact [of l ?s2 20 "100 div 50" "length ?big"] l by simp
  let ?s' = "?s2\<lparr>pendingOps := [TimerWait 25]\<rparr>"
  have "setCongestionControl True s0 = Inr ?s1"
    using m1(1) by (simp add: setCongestionControl_def setBandwidth_def)
  moreover have "send 100 [?big] () ?s1 = Inr ?s'"
    using s0 tasks n by (simp add: send_def startOrSkip_def doSend_def Let_def)
  moreover have "blocked 100 ?s'"
    using s0 m1(2) by (simp add: blocked_def sender_inv_def sender_ok_def)
  ultimately show ?thesis unfolding s0(1) using s0(3) by (intro exI [of _ ?s']) simp
qed

theorem oversized_never_sent_witness:
  "\<exists>s s'. andThen UdpSender_new (run_sender [(100, SetCongestion True), (100, Send [replicate 6000000 0] ())]) = Inr s
    \<and> run_sender (map (\<lambda>t. (t, Complete False 0)) [125, 150, 175]) s = Inr s' \<and> wire s' = []"
proof -
  obtain s where s: "andThen UdpSender_new (run_sender [(100, SetCongestion True), (100, Send [replicate 6000000 0] ())]) = Inr s"
    "blocked 100 s" "wire s = []" using send_blocks by blast
  from oversized_never_sent [OF s(2), of "[125, 150, 175]"] s(1,3) show ?thesis by auto
qed

text \<open>\<open>setBandwidth\<close> clears the cells but keeps the counter's time base, which is in the old unit.
  After a change to a longer unit, the next datagram that is within the limit is not sent:
  \<open>send\<close> throws, because time seems to have gone back.\<close>

theorem unit_change_throws:
  assumes "setBandwidth lim unit s = Inr s1" "lim \<noteq> 0"
    and "\<not> closed s" "\<not> isSending s" "waitingQueue s = []"
    and "t div int unit + 1024 \<le> now (bytesCounter s)"
    and "d \<noteq> []" "length d \<le> lim" "length d < 2 ^ 62"
  shows "\<exists>msg. send t [d] tgt s1 = Inl (LogicError msg)"
proof -
  let ?T = "t div int unit"
  have u: "unit \<noteq> 0" using assms(1) by (cases "unit = 0") (simp_all add: setBandwidth_def)
  define m where "m = (bytesCounter s)\<lparr>countRange := (1000 + unit - 1) div unit, counterVector := replicate MAX_RANGE 0\<rparr>"
  have m: "now m = now (bytesCounter s)" by (simp add: m_def now_def)
  have s1: "s1 = s\<lparr>maxBytesPerInterval := lim, bandwidthCalcUnitInMs := unit,
      bandwidthCalcIntervalInNumberOfUnit := (1000 + unit - 1) div unit, bytesCounter := m\<rparr>"
    using assms(1) u by (auto simp: setBandwidth_def meter_reset_def Let_def m_def split: if_splits)
  have c: "meter_count ?T m = Inr (-1)"
    using assms(6) m by (auto simp: meter_count_def now_def Let_def MAX_RANGE_def)
  obtain msg where msg: "update ?T (of_nat (length d)) m = Inl (LogicError msg)"
    using update_back_throws [of ?T m "of_nat (length d)"] assms(6) m by auto
  have "(word_of_int (-1) + of_nat (length d) :: u64) = of_nat (length d - 1)"
    using assms(7) by (cases d) simp_all
  moreover have "unat (of_nat (length d - 1) :: u64) = length d - 1"
    using assms(9) by (simp add: unat_of_nat)
  ultimately have n: "unat (word_of_int (-1) + of_nat (length d) :: u64) \<le> lim" using assms(8) by simp
  have "send t [d] tgt s1 = Inl (LogicError msg)"
    using assms(2-5) u n unfolding s1 send_def startOrSkip_def doSend_def
    by (simp add: Let_def sentInInterval_def c msg)
  then show ?thesis by blast
qed

theorem unit_change_throws_witness:
  "\<exists>s s1 msg. setBandwidth 1000 100 (s :: nat sender) = Inr s1 \<and> send 1000000 [[1, 2]] 7 s1 = Inl (LogicError msg)"
proof -
  let ?m = "\<lparr>countRange = 20, baseTimestamp = 20000, counterVector = replicate 1024 0, currIndex = 0\<rparr>"
  let ?s = "\<lparr>isSending = False, closed = False, sendTasks = 0, waitingQueue = [], sendBuff = [],
       sendTarget = None, sendCount = 0, bandwidthCalcUnitInMs = 50,
       bandwidthCalcIntervalInNumberOfUnit = 20, maxBytesPerInterval = 5242880, bytesCounter = ?m,
       pendingOps = [], wire = []\<rparr> :: nat sender"
  have "\<exists>s1. setBandwidth 1000 100 ?s = Inr s1" by (simp add: setBandwidth_def meter_reset_def MAX_RANGE_def)
  then obtain s1 where s1: "setBandwidth 1000 100 ?s = Inr s1" by blast
  have "\<exists>msg. send 1000000 [[1, 2]] 7 s1 = Inl (LogicError msg)"
    by (rule unit_change_throws [OF s1]) (simp_all add: now_def)
  then show ?thesis using s1 by blast
qed

theorem doSend_rate_witness:
  "\<exists>s s' d tgt. doSend 1000000 (s :: nat sender) = Inr s' \<and> wire s' = wire s @ [(d, tgt)]
    \<and> unat (bytes_in [(20000, of_nat (length d))] (20000 - int 20) 20000) \<le> maxBytesPerInterval s'"
proof -
  obtain m where m: "meter_inv [] m" "countRange m = 20" "now m = 0" using meter_new_inv [of 20] by auto
  let ?s = "\<lparr>isSending = False, closed = False, sendTasks = 1, waitingQueue = [([[1, 2]], 7)], sendBuff = [],
       sendTarget = None, sendCount = 0, bandwidthCalcUnitInMs = 50,
       bandwidthCalcIntervalInNumberOfUnit = 20, maxBytesPerInterval = 100, bytesCounter = m,
       pendingOps = [], wire = []\<rparr> :: nat sender"
  have n: "sentInInterval 20000 (Suc (Suc 0)) (?s\<lparr>isSending := True\<rparr>) = Inr (Suc (Suc 0))"
    using sentInInterval_exact [of "[]" "?s\<lparr>isSending := True\<rparr>" 20 20000 "Suc (Suc 0)"] m by (simp add: bytes_in_def)
  obtain m' where m': "update 20000 2 m = Inr m'" using update_spec [OF m(1), of 20000 2] m(3) by auto
  have "\<exists>s'. doSend 1000000 ?s = Inr s' \<and> wire s' \<noteq> wire ?s"
    using n m' by (simp add: doSend_def Let_def)
  then obtain s' where s': "doSend 1000000 ?s = Inr s'" "wire s' \<noteq> wire ?s" by blast
  have "\<exists>d tgt. wire s' = wire ?s @ [(d, tgt)]
    \<and> (let T = 1000000 div int (bandwidthCalcUnitInMs ?s); l' = [] @ [(T, of_nat (length d))]
       in meter_inv l' (bytesCounter s') \<and> unat (bytes_in l' (T - int 20) T) \<le> maxBytesPerInterval s')"
    by (rule doSend_rate [OF _ _ _ _ _ _ _ _ _ s']) (use m in simp_all)
  then show ?thesis using s'(1) by (intro exI [of _ ?s] exI [of _ s']) (auto simp: Let_def)
qed

end
