(* ===== verification/Receiver.thy ===== *)
theory Receiver
  imports Prelude
begin

text \<open>
  \<open>UdpReceiver\<close> of \<open>mod/janitor/include/rtpTrs/UdpReceiver.hpp\<close>: one asynchronous receive at a time,
  re-armed by its own completion handler. The asio socket is the environment: \<open>pendingRecv\<close> counts
  the receives in flight, and a completion is an event with an error code, the datagram and its
  sender. \<open>pushed\<close> is the sequence of calls of the processor's \<open>pushUdp\<close>.
\<close>

datatype platform = Windows | Posix

record 'e receiver =
  started :: bool
  closed :: bool
  recvTasks :: int
  udpFrom :: "'e option"
  recvBuf :: bytes
  recvCount :: nat
  pendingRecv :: nat
  pushed :: "(bytes \<times> 'e) list"

definition UdpReceiver_new :: "'e receiver" where
  "UdpReceiver_new = \<lparr>started = False, closed = False, recvTasks = 0, udpFrom = None,
     recvBuf = replicate 2048 0, recvCount = 0, pendingRecv = 0, pushed = []\<rparr>"

definition startReceive :: "'e receiver \<Rightarrow> 'e receiver" where
  "startReceive r =
     (let r = r\<lparr>recvTasks := recvTasks r + 1\<rparr>
      in if closed r then r\<lparr>recvTasks := recvTasks r - 1\<rparr>
         else r\<lparr>pendingRecv := pendingRecv r + 1\<rparr>)"

definition start :: "'e receiver \<Rightarrow> 'e receiver" where
  "start r = (if \<not> started r then startReceive (r\<lparr>started := True\<rparr>) else r)"

definition close_receiver :: "'e receiver \<Rightarrow> 'e receiver" where
  "close_receiver r = r\<lparr>closed := True\<rparr>"

definition receiver_stopped :: "'e receiver \<Rightarrow> bool" where
  "receiver_stopped r \<longleftrightarrow> closed r \<and> recvTasks r = 0"

text \<open>The error codes for which a receive is started again, by platform.\<close>

definition restartCode :: "platform \<Rightarrow> int \<Rightarrow> bool" where
  "restartCode pf ec \<longleftrightarrow> pf = Windows \<and> (ec = 10061 \<or> ec = 10054)"

definition abortCode :: "platform \<Rightarrow> int \<Rightarrow> bool" where
  "abortCode pf ec \<longleftrightarrow> (case pf of Windows \<Rightarrow> ec = 995 \<or> ec = 10058 | Posix \<Rightarrow> ec = 125)"

definition finishReceive :: "platform \<Rightarrow> int \<Rightarrow> nat \<Rightarrow> 'e \<Rightarrow> 'e receiver \<Rightarrow> 'e receiver" where
  "finishReceive pf ec len src r =
     (if abortCode pf ec then r\<lparr>closed := True\<rparr>
      else if restartCode pf ec then startReceive r
      else if ec \<noteq> 0 then r\<lparr>closed := True\<rparr>
      else if closed r then r
      else startReceive (r\<lparr>recvCount := recvCount r + 1, pushed := pushed r @ [(take len (recvBuf r), src)]\<rparr>))"

text \<open>
  The completion of the receive in flight: the socket writes what fits of the datagram into
  \<open>recvBuf\<close>, sets \<open>udpFrom\<close>, and runs the handler.
\<close>

definition onDatagram :: "platform \<Rightarrow> int \<Rightarrow> bytes \<Rightarrow> 'e \<Rightarrow> 'e receiver \<Rightarrow> 'e receiver" where
  "onDatagram pf ec datagram src r =
     (if pendingRecv r = 0 then r
      else
        let len = min (length datagram) (length (recvBuf r));
            r = r\<lparr>pendingRecv := pendingRecv r - 1, udpFrom := Some src,
                  recvBuf := take len datagram @ drop len (recvBuf r)\<rparr>;
            r = finishReceive pf ec len src r
        in r\<lparr>recvTasks := recvTasks r - 1\<rparr>)"

datatype 'e recv_event = Start | Datagram int bytes 'e | CloseReceiver

fun recv_step :: "platform \<Rightarrow> 'e recv_event \<Rightarrow> 'e receiver \<Rightarrow> 'e receiver" where
  "recv_step pf Start r = start r"
| "recv_step pf (Datagram ec d src) r = onDatagram pf ec d src r"
| "recv_step pf CloseReceiver r = close_receiver r"

definition receiver_inv :: "'e receiver \<Rightarrow> bool" where
  "receiver_inv r \<longleftrightarrow> recvTasks r = int (pendingRecv r) \<and> length (recvBuf r) = 2048
     \<and> (if started r then pendingRecv r \<le> 1 \<and> (closed r \<or> pendingRecv r = 1) else pendingRecv r = 0)"

lemma receiver_inv_new: "receiver_inv UdpReceiver_new"
  by (simp add: receiver_inv_def UdpReceiver_new_def)

lemma receiver_step_inv: "receiver_inv r \<Longrightarrow> receiver_inv (recv_step pf e r)"
  by (cases e) (auto simp: receiver_inv_def start_def startReceive_def onDatagram_def finishReceive_def
      close_receiver_def Let_def split: if_splits)

text \<open>After any sequence of starts, completions and closing, the number of tasks is the number of
  receives in flight, at most one; a started receiver that is not closed always has one, so it
  never goes deaf; and \<open>isStopped()\<close> means closed with nothing in flight.\<close>

theorem receiver_safe:
  "let r = fold (recv_step pf) es UdpReceiver_new
   in recvTasks r = int (pendingRecv r) \<and> pendingRecv r \<le> 1
      \<and> pendingRecv r \<ge> of_bool (started r \<and> \<not> closed r)
      \<and> receiver_stopped r = (closed r \<and> pendingRecv r = 0)"
proof -
  have "receiver_inv (fold (recv_step pf) es r)" if "receiver_inv r" for r :: "'a receiver"
    using that by (induction es arbitrary: r) (simp_all add: receiver_step_inv)
  from this [OF receiver_inv_new] show ?thesis
    by (auto simp: receiver_inv_def receiver_stopped_def Let_def split: if_splits)
qed

fun delivered :: "platform \<Rightarrow> 'e recv_event list \<Rightarrow> (bytes \<times> 'e) list" where
  "delivered pf [] = []"
| "delivered pf (Datagram ec d src # es) =
     (if ec = 0 then (take 2048 d, src) # delivered pf es
      else if restartCode pf ec then delivered pf es else [])"
| "delivered pf (CloseReceiver # es) = []"
| "delivered pf (Start # es) = delivered pf es"

lemma closed_silent:
  "closed r \<Longrightarrow> receiver_inv r \<Longrightarrow> closed (fold (recv_step pf) es r) \<and> pushed (fold (recv_step pf) es r) = pushed r"
proof (induction es arbitrary: r)
  case (Cons e es)
  have "closed (recv_step pf e r) \<and> pushed (recv_step pf e r) = pushed r"
    using Cons.prems by (cases e) (auto simp: start_def startReceive_def onDatagram_def
        finishReceive_def close_receiver_def Let_def)
  then show ?case using Cons.IH [of "recv_step pf e r"] receiver_step_inv [OF Cons.prems(2), of pf e] by simp
qed simp

lemma open_delivers:
  assumes "receiver_inv r" "started r" "\<not> closed r"
  shows "pushed (fold (recv_step pf) es r) = pushed r @ delivered pf es"
  using assms
proof (induction es arbitrary: r)
  case Nil
  then show ?case by simp
next
  case (Cons e es)
  have inv: "receiver_inv (recv_step pf e r)" by (rule receiver_step_inv [OF Cons.prems(1)])
  show ?case
  proof (cases e)
    case Start
    then show ?thesis using Cons by (simp add: start_def)
  next
    case CloseReceiver
    then show ?thesis using closed_silent [OF _ inv, of pf es] by (simp add: close_receiver_def)
  next
    case (Datagram ec d src)
    have p: "pendingRecv r = 1" "length (recvBuf r) = 2048" "recvTasks r = 1"
      using Cons.prems by (auto simp: receiver_inv_def)
    have t: "take (min (length d) 2048) (take (min (length d) 2048) d @ drop (min (length d) 2048) (recvBuf r)) = take 2048 d"
      by (simp add: min_def)
    show ?thesis
    proof (cases "ec = 0 \<or> restartCode pf ec")
      case True
      then have "\<not> abortCode pf ec" by (auto simp: abortCode_def restartCode_def split: platform.splits)
      then have "started (recv_step pf e r)" "\<not> closed (recv_step pf e r)"
        "pushed (recv_step pf e r) = pushed r @ (if ec = 0 then [(take 2048 d, src)] else [])"
        using True p Cons.prems Datagram t
        by (auto simp: onDatagram_def finishReceive_def startReceive_def restartCode_def Let_def)
      with Cons.IH [OF inv] show ?thesis using True Datagram by auto
    next
      case False
      then have "closed (recv_step pf e r)" "pushed (recv_step pf e r) = pushed r"
        using p Datagram by (auto simp: onDatagram_def finishReceive_def Let_def)
      with closed_silent [OF _ inv, of pf es] show ?thesis using False Datagram by auto
    qed
  qed
qed

text \<open>Once started, the processor gets every datagram that completes without error, in order and
  with its sender, up to the first fatal error or the closing; each is cut to the 2048 bytes of
  the receive buffer, so a longer datagram arrives truncated.\<close>

theorem receiver_delivers:
  "pushed (fold (recv_step pf) (Start # es) UdpReceiver_new) = delivered pf es"
proof -
  have i: "receiver_inv (recv_step pf Start UdpReceiver_new)" by (rule receiver_step_inv [OF receiver_inv_new])
  have s: "started (recv_step pf Start (UdpReceiver_new :: 'a receiver))"
    "\<not> closed (recv_step pf Start (UdpReceiver_new :: 'a receiver))"
    "pushed (recv_step pf Start (UdpReceiver_new :: 'a receiver)) = []"
    by (simp_all add: start_def startReceive_def UdpReceiver_new_def)
  then show ?thesis using open_delivers [OF i s(1,2), of pf es] by simp
qed

end
