(* ===== verification/Worker.thy ===== *)
theory Worker
  imports RtcpPacket SpscRing ReorderPipe Sender Receiver "HOL-Library.AList"
begin

text \<open>
  The receive path of \<open>RtpTransceiver\<close> (\<open>mod/janitor/include/rtpTrs/rtpTrs.hpp\<close>): the processors that
  the socket threads call, the worker thread that sorts datagrams into the RTP, RTCP and UDP
  queues, and the calls that hand these queues to the user. The record holds the members of the
  class; endpoints are a type parameter. Log statements are omitted.
\<close>

subsection \<open>The members of the class\<close>

text \<open>A raw pointer: null, to an object, or to one that was deleted.\<close>

datatype 'a ptr = Null | Live 'a | Freed

datatype sock = SockClosed | SockOpen | SockBound

record StreamKey =
  key_ssrc :: u32
  key_pt :: u8

text \<open>
  Notifiers are identified by a number (\<open>shared_ptr::get()\<close>); \<open>notified\<close> lists the calls of
  \<open>notify()\<close>. \<open>rtpWorkingQueue\<close> is the worker's local queue, which lives across its rounds.
\<close>

record 'e trs =
  sendOnly :: bool
  enableRtcp :: bool
  rtpNotifier :: "nat option"
  rtcpNotifier :: "nat option"
  udpNotifier :: "nat option"
  rtpSocket :: sock
  rtcpSocket :: sock
  reorderLimit :: nat
  recvUdpOnly :: bool
  rtpPipeMap :: "(StreamKey \<times> pipe) list"
  workerJoinable :: bool
  stopRecvWorker :: bool
  rtpRecvBuffQueue :: "(bytes \<times> 'e) ring"
  rtcpRecvBuffQueue :: "(bytes \<times> 'e) ring"
  recvRtpQueueEmpty :: bool
  recvRtpQueue :: "(rtp \<times> 'e) list"
  recvRtcpQueueEmpty :: bool
  recvRtcpQueue :: "(rtcp \<times> 'e) list"
  recvUdpQueueEmpty :: bool
  recvUdpQueue :: "(bytes \<times> 'e) list"
  dstAddrs :: "'e list"
  isBinded :: bool
  rtpReceiver :: "'e receiver ptr"
  rtcpReceiver :: "'e receiver ptr"
  rtpSender :: "'e sender ptr"
  rtcpSender :: "'e sender ptr"
  rtpWorkingQueue :: "(bytes \<times> 'e) list"
  notified :: "nat list"

text \<open>The members as the constructor leaves them; the two rings hold 59 datagrams each.\<close>

definition RtpTransceiver_members :: "nat \<Rightarrow> 'e trs" where
  "RtpTransceiver_members n =
     \<lparr>sendOnly = False, enableRtcp = False, rtpNotifier = None, rtcpNotifier = None, udpNotifier = None,
      rtpSocket = SockClosed, rtcpSocket = SockClosed, reorderLimit = n, recvUdpOnly = False,
      rtpPipeMap = [], workerJoinable = False, stopRecvWorker = True, rtpRecvBuffQueue = ring_new 60,
      rtcpRecvBuffQueue = ring_new 60, recvRtpQueueEmpty = True, recvRtpQueue = [],
      recvRtcpQueueEmpty = True, recvRtcpQueue = [], recvUdpQueueEmpty = True, recvUdpQueue = [],
      dstAddrs = [], isBinded = False, rtpReceiver = Null, rtcpReceiver = Null, rtpSender = Null,
      rtcpSender = Null, rtpWorkingQueue = [], notified = []\<rparr>"

subsection \<open>From the socket threads to the worker\<close>

text \<open>A full ring drops the datagram with an error log.\<close>

definition RtpProcessor_pushUdp :: "bytes \<Rightarrow> 'e \<Rightarrow> 'e trs \<Rightarrow> 'e trs res" where
  "RtpProcessor_pushUdp udp src t =
     (if sendOnly t then Inl (LogicError ''pushUdp: sendOnly.'')
      else Inr (t\<lparr>rtpRecvBuffQueue := snd (enqueue (udp, src) (rtpRecvBuffQueue t))\<rparr>))"

text \<open>
  The loop that splits a compound RTCP datagram. \<open>pos\<close>, \<open>udpLen\<close>, \<open>rtcpLength\<close> and
  \<open>rtcpLengthInBytes\<close> are \<open>uint16_t\<close>, the sums in the conditions are \<open>int\<close>. The loop can run for
  ever, so it has fuel.
\<close>

primrec rtcpSplit :: "nat \<Rightarrow> bytes \<Rightarrow> 'e \<Rightarrow> u16 \<Rightarrow> (bytes \<times> 'e) ring \<Rightarrow> (bytes \<times> 'e) ring res" where
  "rtcpSplit 0 udp src pos q = Inl OutOfFuel"
| "rtcpSplit (Suc fuel) udp src pos q =
     (let udpLen = (of_nat (length udp) :: u16)
      in if unat pos + 4 \<le> unat udpLen then
           andThen (getRtcpLength (drop (unat pos) udp)) (\<lambda>rtcpLength.
             let rtcpLengthInBytes = (rtcpLength + 1) * 4
             in rtcpSplit fuel udp src (pos + rtcpLengthInBytes)
                  (if unat pos + unat rtcpLengthInBytes \<le> unat udpLen
                   then snd (enqueue (take (unat rtcpLengthInBytes) (drop (unat pos) udp), src) q)
                   else q))
         else Inr q)"

definition RtcpProcessor_pushUdp :: "nat \<Rightarrow> bytes \<Rightarrow> 'e \<Rightarrow> 'e trs \<Rightarrow> 'e trs res" where
  "RtcpProcessor_pushUdp fuel udp src t =
     (if sendOnly t then Inl (LogicError ''pushUdp: sendOnly.'')
      else andThen (rtcpSplit fuel udp src 0 (rtcpRecvBuffQueue t)) (\<lambda>q.
        Inr (t\<lparr>rtcpRecvBuffQueue := q\<rparr>)))"

subsection \<open>One round of the worker\<close>

definition pushUdpQueue :: "bytes \<times> 'e \<Rightarrow> 'e trs \<Rightarrow> 'e trs" where
  "pushUdpQueue x t = t\<lparr>recvUdpQueue := recvUdpQueue t @ [x], recvUdpQueueEmpty := False\<rparr>"

text \<open>\<open>find\<close> and \<open>try_emplace\<close> on the pipe map; the pointer the source caches from one datagram to
  the next refers to the same pipe, since elements of an \<open>unordered_map\<close> do not move.\<close>

definition pipeOf :: "StreamKey \<Rightarrow> 'e trs \<Rightarrow> pipe" where
  "pipeOf k t = (case map_of (rtpPipeMap t) k of Some p \<Rightarrow> p | None \<Rightarrow> RtpPipe_new (reorderLimit t))"

definition setPipe :: "StreamKey \<Rightarrow> pipe \<Rightarrow> 'e trs \<Rightarrow> 'e trs" where
  "setPipe k p t = t\<lparr>rtpPipeMap := AList.update k p (rtpPipeMap t)\<rparr>"

primrec pushRtps :: "bytes list \<Rightarrow> 'e \<Rightarrow> 'e trs \<Rightarrow> 'e trs res" where
  "pushRtps [] src t = Inr (t\<lparr>recvRtpQueueEmpty := (recvRtpQueue t = [])\<rparr>)"
| "pushRtps (d # ds) src t =
     (if length d = 0 then Inl (LogicError ''pushUdp data.size() == 0, it should never happen.'')
      else andThen (Rtp_of_udp d) (\<lambda>r. pushRtps ds src (t\<lparr>recvRtpQueue := recvRtpQueue t @ [(r, src)]\<rparr>)))"

text \<open>One datagram in the reordering branch: the flags are \<open>gotRtp\<close> and \<open>gotUdp\<close>.\<close>

definition routeRtp :: "int \<Rightarrow> bytes \<times> 'e \<Rightarrow> bool \<times> bool \<times> 'e trs \<Rightarrow> (bool \<times> bool \<times> 'e trs) res" where
  "routeRtp currentTime x st =
     (case (x, st) of ((udp, src), (gotRtp, gotUdp, t)) \<Rightarrow>
        andThen (isValidRtp udp) (\<lambda>valid.
          if \<not> valid then
            (if udpNotifier t \<noteq> None then Inr (gotRtp, True, pushUdpQueue (udp, src) t)
             else Inr (gotRtp, gotUdp, t))
          else
            andThen (getSsrc udp) (\<lambda>ssrc. andThen (getPayloadType udp) (\<lambda>pt.
              let k = \<lparr>key_ssrc = ssrc, key_pt = pt\<rparr>
              in andThen (reorderRtp udp currentTime (pipeOf k t) []) (\<lambda>(rst, p, tmp).
                 andThen (pushRtps tmp src (setPipe k p t)) (\<lambda>t.
                   Inr (gotRtp \<or> tmp \<noteq> [], gotUdp, t)))))))"

primrec routeAll :: "int \<Rightarrow> (bytes \<times> 'e) list \<Rightarrow> bool \<times> bool \<times> 'e trs \<Rightarrow> (bool \<times> bool \<times> 'e trs) res" where
  "routeAll currentTime [] st = Inr st"
| "routeAll currentTime (x # xs) st = andThen (routeRtp currentTime x st) (routeAll currentTime xs)"

text \<open>Without reordering every datagram becomes an \<open>Rtp\<close>, valid or not.\<close>

primrec plainAll :: "(bytes \<times> 'e) list \<Rightarrow> 'e trs \<Rightarrow> 'e trs res" where
  "plainAll [] t = Inr t"
| "plainAll (x # xs) t =
     andThen (Rtp_of_udp (fst x)) (\<lambda>r.
       plainAll xs (t\<lparr>recvRtpQueue := recvRtpQueue t @ [(r, snd x)], recvRtpQueueEmpty := False\<rparr>))"

definition processRtp :: "int \<Rightarrow> 'e trs \<Rightarrow> (bool \<times> bool \<times> 'e trs) res" where
  "processRtp currentTime t =
     (if recvUdpOnly t then
        (if udpNotifier t \<noteq> None \<and> rtpWorkingQueue t \<noteq> []
         then Inr (False, True, t\<lparr>recvUdpQueue := recvUdpQueue t @ rtpWorkingQueue t,
                rtpWorkingQueue := [], recvUdpQueueEmpty := False\<rparr>)
         else Inr (False, False, t))
      else if reorderLimit t = 0 then
        andThen (plainAll (rtpWorkingQueue t) t) (\<lambda>t'. Inr (rtpWorkingQueue t \<noteq> [], False, t'\<lparr>rtpWorkingQueue := []\<rparr>))
      else andThen (routeAll currentTime (rtpWorkingQueue t) (False, False, t))
        (\<lambda>(gotRtp, gotUdp, t). Inr (gotRtp, gotUdp, t\<lparr>rtpWorkingQueue := []\<rparr>)))"

primrec processRtcp :: "(bytes \<times> 'e) list \<Rightarrow> bool \<times> 'e trs \<Rightarrow> (bool \<times> 'e trs) res" where
  "processRtcp [] st = Inr st"
| "processRtcp (x # xs) st =
     (if rtcpNotifier (snd st) \<noteq> None then
        andThen (Rtcp_of_udp (fst x)) (\<lambda>r. andThen (Rtcp_move r) (\<lambda>(r, _).
          processRtcp xs (True, (snd st)\<lparr>recvRtcpQueue := recvRtcpQueue (snd st) @ [(r, snd x)],
            recvRtcpQueueEmpty := False\<rparr>)))
      else processRtcp xs st)"

definition notify :: "bool \<Rightarrow> nat option \<Rightarrow> 'e trs \<Rightarrow> 'e trs" where
  "notify b n t = (if b then case n of Some i \<Rightarrow> t\<lparr>notified := notified t @ [i]\<rparr> | None \<Rightarrow> t else t)"

definition notifyAll :: "bool \<Rightarrow> bool \<Rightarrow> bool \<Rightarrow> 'e trs \<Rightarrow> 'e trs" where
  "notifyAll gotRtp gotRtcp gotUdp t =
     (let stop = stopRecvWorker t;
          t = notify (gotRtp \<or> stop) (rtpNotifier t) t;
          t = notify ((gotRtcp \<or> stop) \<and> rtcpNotifier t \<noteq> rtpNotifier t) (rtcpNotifier t) t
      in notify ((gotUdp \<or> stop) \<and> udpNotifier t \<noteq> rtpNotifier t \<and> udpNotifier t \<noteq> rtcpNotifier t)
           (udpNotifier t) t)"

datatype verdict = Continue | WaitThenContinue | WaitThenStop

text \<open>
  One pass of the worker's loop. The verdict says what follows: it goes on at once, or, when
  nothing was received in this pass, waits and then stops if \<open>stopRecvWorker\<close> is set.
\<close>

definition workerRound :: "int \<Rightarrow> 'e trs \<Rightarrow> (verdict \<times> 'e trs) res" where
  "workerRound currentTime t =
     andThen (dequeueAll (rtpRecvBuffQueue t) (rtpWorkingQueue t)) (\<lambda>(w, q).
       let t = t\<lparr>rtpRecvBuffQueue := q, rtpWorkingQueue := w\<rparr>; recvRtpSize = length w
       in andThen (processRtp currentTime t) (\<lambda>(gotRtp, gotUdp, t).
          andThen (dequeueAll (rtcpRecvBuffQueue t) []) (\<lambda>(rw, rq).
          andThen (processRtcp rw (False, t\<lparr>rtcpRecvBuffQueue := rq\<rparr>)) (\<lambda>(gotRtcp, t).
            let t = notifyAll gotRtp gotRtcp gotUdp t
            in Inr (if recvRtpSize = 0 \<and> length rw = 0
                    then (if stopRecvWorker t then WaitThenStop else WaitThenContinue) else Continue, t)))))"

subsection \<open>From the worker to the user\<close>

definition receiveRtp :: "(rtp \<times> 'e) list \<Rightarrow> 'e trs \<Rightarrow> ((rtp \<times> 'e) list \<times> 'e trs) res" where
  "receiveRtp q t =
     (if q \<noteq> [] then Inl (LogicError ''receiveRtp: queue must be empty!'')
      else if sendOnly t then Inl (LogicError ''receiveRtp: sendOnly.'')
      else if recvRtpQueueEmpty t then Inr (q, t)
      else if recvRtpQueue t \<noteq> [] then Inr (recvRtpQueue t, t\<lparr>recvRtpQueue := q, recvRtpQueueEmpty := True\<rparr>)
      else Inr (q, t))"

definition receiveRtcp :: "(rtcp \<times> 'e) list \<Rightarrow> 'e trs \<Rightarrow> ((rtcp \<times> 'e) list \<times> 'e trs) res" where
  "receiveRtcp q t =
     (if q \<noteq> [] then Inl (LogicError ''receiveRtcp: queue must be empty!'')
      else if sendOnly t then Inl (LogicError ''receiveRtcp: sendOnly.'')
      else if recvRtcpQueueEmpty t then Inr (q, t)
      else if recvRtcpQueue t \<noteq> [] then Inr (recvRtcpQueue t, t\<lparr>recvRtcpQueue := q, recvRtcpQueueEmpty := True\<rparr>)
      else Inr (q, t))"

definition receiveUdp :: "(bytes \<times> 'e) list \<Rightarrow> 'e trs \<Rightarrow> ((bytes \<times> 'e) list \<times> 'e trs) res" where
  "receiveUdp q t =
     (if q \<noteq> [] then Inl (LogicError ''receiveUdp: queue must be empty!'')
      else if sendOnly t then Inl (LogicError ''receiveUdp: sendOnly.'')
      else if recvUdpQueueEmpty t then Inr (q, t)
      else if recvUdpQueue t \<noteq> [] then Inr (recvUdpQueue t, t\<lparr>recvUdpQueue := q, recvUdpQueueEmpty := True\<rparr>)
      else Inr (q, t))"

definition udpQueueSize :: "'e trs \<Rightarrow> nat" where
  "udpQueueSize t = length (recvUdpQueue t)"

definition rtpQueueSize :: "'e trs \<Rightarrow> nat" where
  "rtpQueueSize t = length (recvRtpQueue t)"

text \<open>The order of the keys of an \<open>unordered_map\<close> is unspecified; here it is that of insertion.\<close>

definition getStreams :: "'e trs \<Rightarrow> StreamKey list" where
  "getStreams t = map fst (rtpPipeMap t)"

definition getSeqCounter :: "StreamKey \<Rightarrow> 'e trs \<Rightarrow> SeqCounter" where
  "getSeqCounter k t = (case map_of (rtpPipeMap t) k of
     None \<Rightarrow> SeqCounter_reset | Some p \<Rightarrow> seqCounter p)"

definition getStreamStatus :: "StreamKey \<Rightarrow> 'e trs \<Rightarrow> StreamStatus" where
  "getStreamStatus k t = (case map_of (rtpPipeMap t) k of
     None \<Rightarrow> StreamStatus_reset | Some p \<Rightarrow> streamStatus p)"

definition setRecvUdpOnly :: "bool \<Rightarrow> 'e trs \<Rightarrow> 'e trs res" where
  "setRecvUdpOnly enable t =
     (if enableRtcp t \<and> enable
      then Inl (LogicError ''rtpTransceiver setRecvUdpOnly error: rtpTrs is enableRtcp.'')
      else Inr (t\<lparr>recvUdpOnly := enable\<rparr>))"

subsection \<open>The invariant of the receive side\<close>

definition rtcp_ready :: "(bytes \<times> 'e) ring \<Rightarrow> bool" where
  "rtcp_ready q \<longleftrightarrow> ring_inv q \<and> (\<forall>x \<in> set (ring_contents q). 2 \<le> length (fst x))"

definition trs_inv :: "'e trs \<Rightarrow> bool" where
  "trs_inv t \<longleftrightarrow> ring_inv (rtpRecvBuffQueue t) \<and> rtcp_ready (rtcpRecvBuffQueue t)
     \<and> reorderLimit t \<le> 32767 \<and> (\<forall>x \<in> set (rtpPipeMap t). pipe_inv (snd x))
     \<and> recvRtpQueueEmpty t = (recvRtpQueue t = []) \<and> recvRtcpQueueEmpty t = (recvRtcpQueue t = [])
     \<and> recvUdpQueueEmpty t = (recvUdpQueue t = [])"

text \<open>What no step of the worker changes.\<close>

definition life :: "'e trs \<Rightarrow> bool \<times> sock \<times> sock \<times> bool \<times> 'e receiver ptr \<times> bool \<times> bool" where
  "life t = (isBinded t, rtpSocket t, rtcpSocket t, workerJoinable t, rtpReceiver t,
     recvUdpOnly t, udpNotifier t = None)"

definition same_mode :: "'e trs \<Rightarrow> 'e trs \<Rightarrow> bool" where
  "same_mode t t' \<longleftrightarrow> sendOnly t' = sendOnly t \<and> recvUdpOnly t' = recvUdpOnly t
     \<and> rtpNotifier t' = rtpNotifier t \<and> rtcpNotifier t' = rtcpNotifier t \<and> udpNotifier t' = udpNotifier t
     \<and> stopRecvWorker t' = stopRecvWorker t \<and> rtpRecvBuffQueue t' = rtpRecvBuffQueue t
     \<and> rtcpRecvBuffQueue t' = rtcpRecvBuffQueue t \<and> notified t' = notified t \<and> life t' = life t"

lemmas same_defs = same_mode_def life_def

lemma same_mode_refl [simp]: "same_mode t t"
  and same_mode_trans: "same_mode t u \<Longrightarrow> same_mode u v \<Longrightarrow> same_mode t v"
  by (auto simp: same_defs)

lemma trs_id [simp]:
  "t\<lparr>recvRtpQueue := recvRtpQueue t, recvRtpQueueEmpty := recvRtpQueueEmpty t\<rparr> = t"
  "t\<lparr>recvRtcpQueue := recvRtcpQueue t, recvRtcpQueueEmpty := recvRtcpQueueEmpty t\<rparr> = t"
  "t\<lparr>recvRtpQueue := recvRtpQueue t\<rparr> = t"
  "t\<lparr>recvRtcpQueueEmpty := recvRtcpQueueEmpty t\<rparr> = t"
  by (cases t, simp)+

lemma Rtp_of_udp_ok: "\<exists>r. Rtp_of_udp d = Inr r \<and> udpBuff r = d"
  by (simp add: Rtp_of_udp_def isValidRtp_eq)

lemma pushRtps_eq:
  "[] \<notin> set ds \<Longrightarrow> \<exists>rs. map udpBuff rs = ds
     \<and> pushRtps ds src t = Inr (t\<lparr>recvRtpQueue := recvRtpQueue t @ map (\<lambda>r. (r, src)) rs,
              recvRtpQueueEmpty := (recvRtpQueue t @ map (\<lambda>r. (r, src)) rs = [])\<rparr>)"
proof (induction ds arbitrary: t)
  case Nil
  show ?case by (rule exI [of _ "[]"]) (simp only: pushRtps.simps list.map append_Nil2 trs_id simp_thms)
next
  case (Cons d ds)
  obtain r where r: "Rtp_of_udp d = Inr r" "udpBuff r = d" using Rtp_of_udp_ok by blast
  have "[] \<notin> set ds" "d \<noteq> []" using Cons.prems by auto
  from Cons.IH [OF this(1), of "t\<lparr>recvRtpQueue := recvRtpQueue t @ [(r, src)]\<rparr>"] obtain rs where
    rs: "map udpBuff rs = ds" "pushRtps ds src (t\<lparr>recvRtpQueue := recvRtpQueue t @ [(r, src)]\<rparr>)
      = Inr (t\<lparr>recvRtpQueue := recvRtpQueue t @ [(r, src)]\<rparr>\<lparr>
          recvRtpQueue := recvRtpQueue (t\<lparr>recvRtpQueue := recvRtpQueue t @ [(r, src)]\<rparr>) @ map (\<lambda>r. (r, src)) rs,
          recvRtpQueueEmpty := (recvRtpQueue (t\<lparr>recvRtpQueue := recvRtpQueue t @ [(r, src)]\<rparr>)
             @ map (\<lambda>r. (r, src)) rs = [])\<rparr>)" by blast
  show ?case
    by (intro exI [of _ "r # rs"] conjI) (use rs \<open>d \<noteq> []\<close> r in \<open>simp_all\<close>)
qed

text \<open>The state the routing of RTP datagrams keeps.\<close>

definition routed :: "'e trs \<Rightarrow> bool" where
  "routed t \<longleftrightarrow> reorderLimit t \<le> 32767 \<and> (\<forall>x \<in> set (rtpPipeMap t). pipe_inv (snd x))
     \<and> recvRtpQueueEmpty t = (recvRtpQueue t = []) \<and> recvUdpQueueEmpty t = (recvUdpQueue t = [])"

lemma pipeOf_inv: "routed t \<Longrightarrow> pipe_inv (pipeOf k t)"
proof (cases "map_of (rtpPipeMap t) k")
  case (Some p)
  assume "routed t"
  then have "pipe_inv (snd (k, p))" using map_of_SomeD [OF Some] unfolding routed_def by blast
  then show ?thesis using Some by (simp add: pipeOf_def)
qed (simp add: pipeOf_def routed_def pipe_inv_new)

lemma set_AList_update: "set (AList.update k v xs) \<subseteq> insert (k, v) (set xs)"
  by (induction xs) auto

lemma routeRtp_ok:
  assumes "routed t"
  shows "\<exists>g1 g2 t'. routeRtp ct (udp, src) (gotRtp, gotUdp, t) = Inr (g1, g2, t') \<and> routed t'
    \<and> same_mode t t' \<and> recvRtcpQueue t' = recvRtcpQueue t \<and> recvRtcpQueueEmpty t' = recvRtcpQueueEmpty t"
proof -
  obtain v where v: "isValidRtp udp = Inr v" using isValidRtp_eq [of udp] by blast
  show ?thesis
  proof (cases v)
    case False
    show ?thesis
    proof (cases "udpNotifier t = None")
      case True
      then have "routeRtp ct (udp, src) (gotRtp, gotUdp, t) = Inr (gotRtp, gotUdp, t)"
        using v False by (simp add: routeRtp_def)
      then show ?thesis using assms same_mode_refl by blast
    next
      case N: False
      then have "routeRtp ct (udp, src) (gotRtp, gotUdp, t) = Inr (gotRtp, True, pushUdpQueue (udp, src) t)"
        using v False by (simp add: routeRtp_def)
      moreover have "routed (pushUdpQueue (udp, src) t)" "same_mode t (pushUdpQueue (udp, src) t)"
        "recvRtcpQueue (pushUdpQueue (udp, src) t) = recvRtcpQueue t"
        "recvRtcpQueueEmpty (pushUdpQueue (udp, src) t) = recvRtcpQueueEmpty t"
        using assms by (simp_all add: pushUdpQueue_def routed_def same_defs)
      ultimately show ?thesis by blast
    qed
  next
    case True
    then have len: "12 \<le> length udp" using v isValidRtp_validD by simp
    from fields_ok [OF len] obtain ssrc pt where f: "getSsrc udp = Inr ssrc" "getPayloadType udp = Inr pt" by blast
    let ?k = "\<lparr>key_ssrc = ssrc, key_pt = pt\<rparr>"
    from reorderRtp_step [OF pipeOf_inv [OF assms, of ?k], of udp ct "[]"] obtain r p rel where
      r: "reorderRtp udp ct (pipeOf ?k t) [] = Inr (r, p, rel)" "pipe_inv p" "[] \<notin> set rel" by auto
    let ?t1 = "setPipe ?k p t"
    from pushRtps_eq [OF r(3), of src ?t1] obtain rs where
      rs: "pushRtps rel src ?t1 = Inr (?t1\<lparr>recvRtpQueue := recvRtpQueue ?t1 @ map (\<lambda>r. (r, src)) rs,
              recvRtpQueueEmpty := (recvRtpQueue ?t1 @ map (\<lambda>r. (r, src)) rs = [])\<rparr>)" by (elim exE conjE)
    define t' where t': "t' = ?t1\<lparr>recvRtpQueue := recvRtpQueue ?t1 @ map (\<lambda>r. (r, src)) rs,
              recvRtpQueueEmpty := (recvRtpQueue ?t1 @ map (\<lambda>r. (r, src)) rs = [])\<rparr>"
    have "\<forall>x \<in> set (rtpPipeMap ?t1). pipe_inv (snd x)"
      using assms r(2) set_AList_update [of ?k p "rtpPipeMap t"] by (auto simp: routed_def setPipe_def)
    then have "routed t'" using assms unfolding t' by (simp add: routed_def setPipe_def)
    moreover have "same_mode t t'" unfolding t' by (simp add: same_defs setPipe_def)
    moreover have "routeRtp ct (udp, src) (gotRtp, gotUdp, t) = Inr (gotRtp \<or> rel \<noteq> [], gotUdp, t')"
      using v True f r(1) rs t' by (simp add: routeRtp_def Let_def)
    moreover have "recvRtcpQueue t' = recvRtcpQueue t" "recvRtcpQueueEmpty t' = recvRtcpQueueEmpty t"
      unfolding t' by (simp_all add: setPipe_def)
    ultimately show ?thesis by blast
  qed
qed

lemma routeAll_ok:
  "routed t \<Longrightarrow> \<exists>g1 g2 t'. routeAll ct xs (gotRtp, gotUdp, t) = Inr (g1, g2, t') \<and> routed t'
    \<and> same_mode t t' \<and> recvRtcpQueue t' = recvRtcpQueue t \<and> recvRtcpQueueEmpty t' = recvRtcpQueueEmpty t"
proof (induction xs arbitrary: gotRtp gotUdp t)
  case (Cons x xs)
  obtain udp src where x: "x = (udp, src)" by (cases x)
  from routeRtp_ok [OF Cons.prems, of ct udp src gotRtp gotUdp] obtain g1 g2 t1 where
    t1: "routeRtp ct x (gotRtp, gotUdp, t) = Inr (g1, g2, t1)" "routed t1" "same_mode t t1"
      "recvRtcpQueue t1 = recvRtcpQueue t" "recvRtcpQueueEmpty t1 = recvRtcpQueueEmpty t" unfolding x by blast
  from Cons.IH [OF t1(2), of g1 g2] t1 show ?case by (auto intro: same_mode_trans)
qed auto

lemma plainAll_ok:
  "\<exists>rs. plainAll xs t = Inr (t\<lparr>recvRtpQueue := recvRtpQueue t @ rs,
       recvRtpQueueEmpty := (if xs = [] then recvRtpQueueEmpty t else False)\<rparr>)
     \<and> map (\<lambda>x. (udpBuff (fst x), snd x)) rs = xs"
proof (induction xs arbitrary: t)
  case (Cons x xs)
  obtain r where r: "Rtp_of_udp (fst x) = Inr r" "udpBuff r = fst x" using Rtp_of_udp_ok by blast
  from Cons.IH [of "t\<lparr>recvRtpQueue := recvRtpQueue t @ [(r, snd x)], recvRtpQueueEmpty := False\<rparr>"]
  obtain rs where rs: "map (\<lambda>x. (udpBuff (fst x), snd x)) rs = xs"
    "plainAll xs (t\<lparr>recvRtpQueue := recvRtpQueue t @ [(r, snd x)], recvRtpQueueEmpty := False\<rparr>)
      = Inr (t\<lparr>recvRtpQueue := recvRtpQueue t @ (r, snd x) # rs, recvRtpQueueEmpty := False\<rparr>)" by auto
  then show ?case using r by (intro exI [of _ "(r, snd x) # rs"]) simp
qed simp

lemma processRtp_ok:
  assumes "routed t"
  shows "\<exists>g1 g2 t'. processRtp ct t = Inr (g1, g2, t') \<and> routed t' \<and> same_mode t t'
    \<and> recvRtcpQueue t' = recvRtcpQueue t \<and> recvRtcpQueueEmpty t' = recvRtcpQueueEmpty t
    \<and> rtpWorkingQueue t' = (if recvUdpOnly t \<and> udpNotifier t = None then rtpWorkingQueue t else [])"
proof -
  consider "recvUdpOnly t" | "\<not> recvUdpOnly t" "reorderLimit t = 0" | "\<not> recvUdpOnly t" "reorderLimit t \<noteq> 0" by blast
  then show ?thesis
  proof cases
    case 1
    then show ?thesis using assms by (auto simp: processRtp_def routed_def same_defs)
  next
    case 2
    from plainAll_ok [of "rtpWorkingQueue t" t] obtain rs where
      "plainAll (rtpWorkingQueue t) t = Inr (t\<lparr>recvRtpQueue := recvRtpQueue t @ rs,
         recvRtpQueueEmpty := (if rtpWorkingQueue t = [] then recvRtpQueueEmpty t else False)\<rparr>)"
      "map (\<lambda>x. (udpBuff (fst x), snd x)) rs = rtpWorkingQueue t" by blast
    then show ?thesis using 2 assms by (auto simp: processRtp_def routed_def same_defs)
  next
    case 3
    from routeAll_ok [OF assms, of ct "rtpWorkingQueue t" False False] obtain g1 g2 t' where
      t': "routeAll ct (rtpWorkingQueue t) (False, False, t) = Inr (g1, g2, t')" "routed t'" "same_mode t t'"
        "recvRtcpQueue t' = recvRtcpQueue t" "recvRtcpQueueEmpty t' = recvRtcpQueueEmpty t" by blast
    have "processRtp ct t = Inr (g1, g2, t'\<lparr>rtpWorkingQueue := []\<rparr>)"
      using 3 t'(1) by (simp add: processRtp_def)
    then show ?thesis using t' 3 by (simp add: routed_def same_defs)
  qed
qed

lemma Rtcp_of_udp_ok:
  assumes "2 \<le> length d"
  shows "\<exists>r o'. Rtcp_of_udp d = Inr r \<and> Rtcp_move r = Inr (r, o') \<and> rtcpBuff r = d"
proof -
  have "d \<noteq> []" "\<not> length d < 2" using assms by auto
  then obtain ty where "findRtcpType d = Inr ty" using findRtcpType_eq [of d] by (simp split: if_splits)
  then show ?thesis by (simp add: Rtcp_of_udp_def Rtcp_move_def)
qed

lemma processRtcp_ok:
  assumes "\<forall>x \<in> set xs. 2 \<le> length (fst x)" "recvRtcpQueueEmpty t = (recvRtcpQueue t = [])"
  shows "\<exists>g rs e. processRtcp xs (got, t) = Inr (g, t\<lparr>recvRtcpQueue := recvRtcpQueue t @ rs, recvRtcpQueueEmpty := e\<rparr>)
    \<and> e = (recvRtcpQueue t @ rs = [])
    \<and> map (\<lambda>x. (rtcpBuff (fst x), snd x)) rs = (if rtcpNotifier t = None then [] else xs)"
  using assms
proof (induction xs arbitrary: got t)
  case Nil
  have "processRtcp [] (got, t) = Inr (got, t\<lparr>recvRtcpQueue := recvRtcpQueue t @ [],
      recvRtcpQueueEmpty := recvRtcpQueueEmpty t\<rparr>)" by (simp only: processRtcp.simps append_Nil2 trs_id)
  moreover have "recvRtcpQueueEmpty t = (recvRtcpQueue t @ [] = [])" using Nil.prems(2) by simp
  moreover have "map (\<lambda>x. (rtcpBuff (fst x), snd x)) [] = (if rtcpNotifier t = None then [] else [])" by simp
  ultimately show ?case by blast
next
  case (Cons x xs)
  have xs: "\<forall>x \<in> set xs. 2 \<le> length (fst x)" "2 \<le> length (fst x)" using Cons.prems(1) by simp_all
  show ?case
  proof (cases "rtcpNotifier t")
    case None
    from Cons.IH [OF xs(1) Cons.prems(2), of got] obtain g rs e where
      rs: "processRtcp xs (got, t) = Inr (g, t\<lparr>recvRtcpQueue := recvRtcpQueue t @ rs, recvRtcpQueueEmpty := e\<rparr>)"
        "e = (recvRtcpQueue t @ rs = [])"
        "map (\<lambda>x. (rtcpBuff (fst x), snd x)) rs = (if rtcpNotifier t = None then [] else xs)" by blast
    show ?thesis
      by (rule exI [of _ g], rule exI [of _ rs], rule exI [of _ e]) (use None rs in simp)
  next
    case (Some n)
    obtain r o' where r: "Rtcp_of_udp (fst x) = Inr r" "Rtcp_move r = Inr (r, o')" "rtcpBuff r = fst x"
      using Rtcp_of_udp_ok [OF xs(2)] by blast
    let ?t1 = "t\<lparr>recvRtcpQueue := recvRtcpQueue t @ [(r, snd x)], recvRtcpQueueEmpty := False\<rparr>"
    have "recvRtcpQueueEmpty ?t1 = (recvRtcpQueue ?t1 = [])" by simp
    from Cons.IH [OF xs(1) this, of True] obtain g rs e where
      rs0: "processRtcp xs (True, ?t1) = Inr (g, ?t1\<lparr>recvRtcpQueue := recvRtcpQueue ?t1 @ rs, recvRtcpQueueEmpty := e\<rparr>)"
      "e = (recvRtcpQueue ?t1 @ rs = [])"
      "map (\<lambda>x. (rtcpBuff (fst x), snd x)) rs = (if rtcpNotifier ?t1 = None then [] else xs)" by blast
    then have rs: "processRtcp xs (True, ?t1) = Inr (g, ?t1\<lparr>recvRtcpQueue := recvRtcpQueue ?t1 @ rs, recvRtcpQueueEmpty := False\<rparr>)"
      "map (\<lambda>x. (rtcpBuff (fst x), snd x)) rs = xs" using Some by simp_all
    have "processRtcp (x # xs) (got, t) = Inr (g, t\<lparr>recvRtcpQueue := recvRtcpQueue t @ (r, snd x) # rs, recvRtcpQueueEmpty := False\<rparr>)"
      using Some r rs(1) by simp
    then show ?thesis using Some r(3) rs(2)
      by (intro exI [of _ g] exI [of _ "(r, snd x) # rs"] exI [of _ False]) simp
  qed
qed

subsection \<open>The round\<close>

lemma notify_frame:
  "rtpRecvBuffQueue (notify b n t) = rtpRecvBuffQueue t" "rtcpRecvBuffQueue (notify b n t) = rtcpRecvBuffQueue t"
  "trs_inv (notify b n t) = trs_inv t" "recvRtcpQueue (notify b n t) = recvRtcpQueue t"
  "recvRtpQueue (notify b n t) = recvRtpQueue t" "recvUdpQueue (notify b n t) = recvUdpQueue t"
  "rtpWorkingQueue (notify b n t) = rtpWorkingQueue t" "stopRecvWorker (notify b n t) = stopRecvWorker t"
  "recvUdpOnly (notify b n t) = recvUdpOnly t" "udpNotifier (notify b n t) = udpNotifier t"
  "life (notify b n t) = life t"
  "rtcpNotifier (notify b n t) = rtcpNotifier t" "rtpNotifier (notify b n t) = rtpNotifier t"
  by (simp_all add: notify_def trs_inv_def life_def split: option.splits)

lemma notifyAll_frame:
  "rtpRecvBuffQueue (notifyAll a b c t) = rtpRecvBuffQueue t" "rtcpRecvBuffQueue (notifyAll a b c t) = rtcpRecvBuffQueue t"
  "trs_inv (notifyAll a b c t) = trs_inv t" "recvRtcpQueue (notifyAll a b c t) = recvRtcpQueue t"
  "recvRtpQueue (notifyAll a b c t) = recvRtpQueue t" "recvUdpQueue (notifyAll a b c t) = recvUdpQueue t"
  "rtpWorkingQueue (notifyAll a b c t) = rtpWorkingQueue t" "stopRecvWorker (notifyAll a b c t) = stopRecvWorker t"
  "life (notifyAll a b c t) = life t"
  "recvUdpOnly (notifyAll a b c t) = recvUdpOnly t" "udpNotifier (notifyAll a b c t) = udpNotifier t"
  by (simp_all add: notifyAll_def notify_frame Let_def)

lemma workerRound_spec:
  assumes "trs_inv t"
  shows "\<exists>v t' rs. workerRound ct t = Inr (v, t') \<and> trs_inv t'
     \<and> ring_contents (rtpRecvBuffQueue t') = [] \<and> ring_contents (rtcpRecvBuffQueue t') = []
     \<and> recvRtcpQueue t' = recvRtcpQueue t @ rs
     \<and> map (\<lambda>x. (rtcpBuff (fst x), snd x)) rs
         = (if rtcpNotifier t = None then [] else ring_contents (rtcpRecvBuffQueue t))
     \<and> stopRecvWorker t' = stopRecvWorker t \<and> life t' = life t
     \<and> rtpWorkingQueue t' = (if recvUdpOnly t \<and> udpNotifier t = None
         then rtpWorkingQueue t @ ring_contents (rtpRecvBuffQueue t) else [])
     \<and> v = (if rtpWorkingQueue t @ ring_contents (rtpRecvBuffQueue t) = []
               \<and> ring_contents (rtcpRecvBuffQueue t) = []
             then if stopRecvWorker t then WaitThenStop else WaitThenContinue else Continue)"
proof -
  have inv: "ring_inv (rtpRecvBuffQueue t)" "ring_inv (rtcpRecvBuffQueue t)"
    using assms by (simp_all add: trs_inv_def rtcp_ready_def)
  define w where "w = rtpWorkingQueue t @ ring_contents (rtpRecvBuffQueue t)"
  from dequeueAll_spec [OF inv(1), of "rtpWorkingQueue t"] obtain q where
    q: "dequeueAll (rtpRecvBuffQueue t) (rtpWorkingQueue t) = Inr (w, q)" "ring_inv q" "ring_contents q = []"
    unfolding w_def by blast
  define t1 where "t1 = t\<lparr>rtpRecvBuffQueue := q, rtpWorkingQueue := w\<rparr>"
  have "routed t1" using assms by (simp add: t1_def trs_inv_def routed_def)
  from processRtp_ok [OF this, of ct] obtain g1 g2 t2 where
    t2: "processRtp ct t1 = Inr (g1, g2, t2)" "routed t2" "same_mode t1 t2"
      "recvRtcpQueue t2 = recvRtcpQueue t1" "recvRtcpQueueEmpty t2 = recvRtcpQueueEmpty t1"
      "rtpWorkingQueue t2 = (if recvUdpOnly t1 \<and> udpNotifier t1 = None then rtpWorkingQueue t1 else [])" by blast
  have same: "rtcpRecvBuffQueue t2 = rtcpRecvBuffQueue t" "rtpRecvBuffQueue t2 = q"
    "rtcpNotifier t2 = rtcpNotifier t" "recvRtcpQueue t2 = recvRtcpQueue t"
    "recvRtcpQueueEmpty t2 = (recvRtcpQueue t2 = [])"
    using t2(3-5) assms by (simp_all add: same_defs t1_def trs_inv_def)
  from dequeueAll_spec [OF inv(2), of "[]"] obtain rq where
    rq: "dequeueAll (rtcpRecvBuffQueue t2) [] = Inr (ring_contents (rtcpRecvBuffQueue t), rq)"
      "ring_inv rq" "ring_contents rq = []" using same(1) by auto
  define t3 where "t3 = t2\<lparr>rtcpRecvBuffQueue := rq\<rparr>"
  have "\<forall>x \<in> set (ring_contents (rtcpRecvBuffQueue t)). 2 \<le> length (fst x)"
    using assms by (simp add: trs_inv_def rtcp_ready_def)
  moreover have e3: "recvRtcpQueueEmpty t3 = (recvRtcpQueue t3 = [])" using same(5) by (simp add: t3_def)
  ultimately obtain g rs e where
    rs: "processRtcp (ring_contents (rtcpRecvBuffQueue t)) (False, t3)
      = Inr (g, t3\<lparr>recvRtcpQueue := recvRtcpQueue t3 @ rs, recvRtcpQueueEmpty := e\<rparr>)"
      "e = (recvRtcpQueue t3 @ rs = [])"
      "map (\<lambda>x. (rtcpBuff (fst x), snd x)) rs
        = (if rtcpNotifier t3 = None then [] else ring_contents (rtcpRecvBuffQueue t))"
    using processRtcp_ok by blast
  define t4 where "t4 = t3\<lparr>recvRtcpQueue := recvRtcpQueue t3 @ rs, recvRtcpQueueEmpty := e\<rparr>"
  have inv4: "trs_inv t4" using t2(2) q(2) rq(2,3) rs(2) same(2)
    by (simp add: t4_def t3_def trs_inv_def routed_def rtcp_ready_def)
  have stop: "stopRecvWorker t4 = stopRecvWorker t" "life t4 = life t"
    using t2(3) by (simp_all add: t4_def t3_def same_defs t1_def)
  define v where "v = (if w = [] \<and> ring_contents (rtcpRecvBuffQueue t) = []
     then if stopRecvWorker t then WaitThenStop else WaitThenContinue else Continue)"
  have "workerRound ct t = Inr (v, notifyAll g1 g g2 t4)"
    using q(1) t2(1) rq(1) rs(1) by (simp add: workerRound_def t1_def [symmetric] t3_def [symmetric] t4_def [symmetric] Let_def
        v_def notifyAll_frame stop)
  moreover have "ring_contents (rtpRecvBuffQueue t4) = []" "ring_contents (rtcpRecvBuffQueue t4) = []"
    using q(3) rq(3) same(2) by (simp_all add: t4_def t3_def)
  moreover have "recvRtcpQueue t4 = recvRtcpQueue t @ rs" using same(4) by (simp add: t4_def t3_def)
  moreover have "rtcpNotifier t3 = rtcpNotifier t" using same(3) by (simp add: t3_def)
  moreover have "rtpWorkingQueue t4 = (if recvUdpOnly t \<and> udpNotifier t = None then w else [])"
    using t2(6) by (simp add: t4_def t3_def t1_def)
  ultimately show ?thesis using inv4 rs(3) stop v_def unfolding w_def [symmetric]
    by (intro exI [of _ v] exI [of _ "notifyAll g1 g g2 t4"] exI [of _ rs]) (simp add: notifyAll_frame)
qed

subsection \<open>The split of compound RTCP datagrams\<close>

lemma ring_put_ready:
  assumes "rtcp_ready q" "2 \<le> length d"
  shows "rtcp_ready (snd (enqueue (d, src) q))"
proof (cases "ring_count q < capacity q - 1")
  case True
  have "ring_inv q" using assms(1) by (simp add: rtcp_ready_def)
  from enqueue_room [OF this True, of "(d, src)"] obtain r' where
    "enqueue (d, src) q = (True, r')" "ring_inv r'" "ring_contents r' = ring_contents q @ [(d, src)]" by blast
  then show ?thesis using assms by (simp add: rtcp_ready_def ball_Un)
next
  case False
  then have "enqueue (d, src) q = (False, q)" using assms enqueue_full [of q "(d, src)"] by (auto simp: rtcp_ready_def)
  then show ?thesis using assms by simp
qed

lemma zero_step_diverges:
  "unat pos + 4 \<le> unat (of_nat (length udp) :: u16) \<Longrightarrow> getRtcpLength (drop (unat pos) udp) = Inr l \<Longrightarrow>
   (l + 1) * 4 = 0 \<Longrightarrow> rtcpSplit fuel udp src pos q = Inl OutOfFuel"
  by (induction fuel arbitrary: q) (simp_all add: Let_def)

lemma readLoop_append:
  "(\<forall>j \<in> set js. j < length buf) \<Longrightarrow> readLoop (buf @ rest) js n = readLoop buf js n"
  by (induction js arbitrary: n) (simp_all add: at_def nth_append)

lemma getRtcpLength_append: "4 \<le> length p \<Longrightarrow> getRtcpLength (p @ rest) = getRtcpLength p"
  by (simp add: getRtcpLength_def readData_def) (rule readLoop_append, auto)

text \<open>A packet whose length field agrees with its size.\<close>

definition rtcp_framed :: "bytes \<Rightarrow> bool" where
  "rtcp_framed p = (case getRtcpLength p of Inl _ \<Rightarrow> False | Inr l \<Rightarrow> length p = (unat l + 1) * 4)"

definition putAll :: "'e \<Rightarrow> bytes list \<Rightarrow> (bytes \<times> 'e) ring \<Rightarrow> (bytes \<times> 'e) ring" where
  "putAll src ps q = fold (\<lambda>p q. snd (enqueue (p, src) q)) ps q"

lemma rtcpSplit_fold:
  assumes "\<forall>p \<in> set ps. rtcp_framed p" "length pre + length (concat ps) + length tail < 65536"
    "length tail < 4" "length ps < fuel"
  shows "rtcpSplit fuel (pre @ concat ps @ tail) src (of_nat (length pre)) q = Inr (putAll src ps q)"
  using assms
proof (induction ps arbitrary: pre q fuel)
  case Nil
  then obtain f where "fuel = Suc f" by (cases fuel) auto
  moreover have "unat (of_nat (length (pre @ tail)) :: u16) = length (pre @ tail)"
    using Nil.prems by (simp add: unat_of_nat del: of_nat_add)
  moreover have "unat (of_nat (length pre) :: u16) = length pre" using Nil.prems by (simp add: unat_of_nat)
  moreover have "(length pre + 4 \<le> length (pre @ tail)) = False" using Nil.prems by simp
  ultimately show ?case by (simp add: putAll_def Let_def del: length_append)
next
  case (Cons p ps)
  then obtain f where f: "fuel = Suc f" by (cases fuel) auto
  let ?udp = "pre @ concat (p # ps) @ tail"
  from Cons.prems(1) have "rtcp_framed p" by simp
  then obtain l where l: "getRtcpLength p = Inr l" "length p = (unat l + 1) * 4"
    by (auto simp: rtcp_framed_def split: sum.splits)
  have pos: "unat (of_nat (length pre) :: u16) = length pre"
    and len: "unat (of_nat (length ?udp) :: u16) = length ?udp"
    using Cons.prems(2) by (simp_all add: unat_of_nat del: of_nat_add)
  have w: "(l + 1) * 4 = (of_nat (length p) :: u16)" unfolding l(2) by simp
  have wu: "unat ((l + 1) * 4) = length p" using Cons.prems(2) unfolding w by (simp add: unat_of_nat)
  have np: "of_nat (length pre) + (l + 1) * 4 = (of_nat (length (pre @ p)) :: u16)" unfolding w by simp
  have "rtcpSplit fuel ?udp src (of_nat (length pre)) q
      = rtcpSplit f ?udp src (of_nat (length (pre @ p))) (snd (enqueue (p, src) q))"
    unfolding f rtcpSplit.simps Let_def pos len
    using l getRtcpLength_append [of p "concat ps @ tail"] wu np
    by (simp add: ac_simps)
  moreover have "rtcpSplit f ((pre @ p) @ concat ps @ tail) src (of_nat (length (pre @ p))) (snd (enqueue (p, src) q))
      = Inr (putAll src ps (snd (enqueue (p, src) q)))"
    by (rule Cons.IH) (use Cons.prems f in auto)
  ultimately show ?case by (simp add: putAll_def)
qed

lemma putAll_contents:
  "ring_inv q \<Longrightarrow> ring_count q + length ps < capacity q \<Longrightarrow>
   ring_inv (putAll src ps q) \<and> ring_contents (putAll src ps q) = ring_contents q @ map (\<lambda>p. (p, src)) ps"
proof (induction ps arbitrary: q)
  case (Cons p ps)
  from Cons.prems have "ring_count q < capacity q - 1" by simp
  from enqueue_room [OF Cons.prems(1) this, of "(p, src)"] obtain r where
    r: "enqueue (p, src) q = (True, r)" "ring_inv r" "ring_contents r = ring_contents q @ [(p, src)]"
      "capacity r = capacity q" by blast
  have "ring_count r = Suc (ring_count q)"
    using arg_cong [OF r(3), of length] by simp
  then show ?case using Cons.IH [OF r(2)] Cons.prems r by (simp add: putAll_def)
qed (simp add: putAll_def)

lemma times4:
  fixes y :: u16
  assumes "y * 4 \<noteq> 0"
  shows "4 \<le> unat (y * 4)"
proof -
  have "unat (y * 4) = unat y * 4 mod 65536" by (simp add: unat_word_ariths(2))
  then have "4 dvd unat (y * 4)" by (simp add: dvd_mod)
  moreover have "unat (y * 4) \<noteq> 0" using assms by (simp add: unat_eq_zero)
  ultimately show ?thesis by (auto dest: dvd_imp_le)
qed

lemma rtcpSplit_ready:
  "rtcpSplit fuel udp src pos q = Inr q' \<Longrightarrow> rtcp_ready q \<Longrightarrow> rtcp_ready q'"
proof (induction fuel arbitrary: pos q)
  case (Suc fuel)
  let ?n = "unat (of_nat (length udp) :: u16)"
  show ?case
  proof (cases "unat pos + 4 \<le> ?n")
    case True
    with Suc.prems(1) obtain l where l: "getRtcpLength (drop (unat pos) udp) = Inr l"
      "rtcpSplit fuel udp src (pos + (l + 1) * 4)
        (if unat pos + unat ((l + 1) * 4) \<le> ?n then snd (enqueue (take (unat ((l + 1) * 4)) (drop (unat pos) udp), src) q)
         else q) = Inr q'"
      unfolding rtcpSplit.simps Let_def if_P [OF True] andThen_eq_Inr by blast
    have nz: "(l + 1) * 4 \<noteq> 0"
      using zero_step_diverges [OF True l(1), of "Suc fuel" src q] Suc.prems(1) by auto
    have "4 \<le> unat ((l + 1) * 4)" by (rule times4 [OF nz])
    moreover have "?n \<le> length udp" by (simp add: unat_of_nat)
    ultimately have "rtcp_ready (if unat pos + unat ((l + 1) * 4) \<le> ?n
        then snd (enqueue (take (unat ((l + 1) * 4)) (drop (unat pos) udp), src) q) else q)"
      using Suc.prems(2) by (auto intro!: ring_put_ready)
    then show ?thesis using Suc.IH [OF l(2)] by blast
  next
    case False
    then show ?thesis using Suc.prems by (simp add: Let_def)
  qed
qed simp

lemma rtcpSplit_fault: "rtcpSplit fuel udp src pos q = Inl e \<Longrightarrow> e = OutOfFuel"
proof (induction fuel arbitrary: pos q)
  case (Suc fuel)
  let ?n = "unat (of_nat (length udp) :: u16)"
  show ?case
  proof (cases "unat pos + 4 \<le> ?n")
    case True
    have "?n \<le> length udp" by (simp add: unat_of_nat)
    then have "isOk (getRtcpLength (drop (unat pos) udp))"
      unfolding getRtcpLength_def readData_isOk using True by simp
    then obtain l where l: "getRtcpLength (drop (unat pos) udp) = Inr l"
      by (auto simp: isOk_def split: sum.splits)
    show ?thesis using Suc.prems l True by (auto simp: Let_def dest: Suc.IH)
  next
    case False
    then show ?thesis using Suc.prems by (simp add: Let_def)
  qed
qed simp

subsection \<open>Properties\<close>

lemma trs_inv_members: "n \<le> 32767 \<Longrightarrow> trs_inv (RtpTransceiver_members n)"
  by (simp add: trs_inv_def RtpTransceiver_members_def rtcp_ready_def ring_inv_new)

lemma members_simps [simp]:
  "sendOnly (RtpTransceiver_members n) = False" "recvUdpOnly (RtpTransceiver_members n) = False"
  "reorderLimit (RtpTransceiver_members n) = n" "rtpWorkingQueue (RtpTransceiver_members n) = []"
  "ring_contents (rtpRecvBuffQueue (RtpTransceiver_members n)) = []"
  "ring_contents (rtcpRecvBuffQueue (RtpTransceiver_members n)) = []"
  "recvRtcpQueue (RtpTransceiver_members n) = []" "recvRtpQueue (RtpTransceiver_members n) = []"
  by (simp_all add: RtpTransceiver_members_def)

text \<open>C7: a round of the worker never throws and reads nothing out of bounds, whatever datagrams
  arrived: it keeps the invariant, empties both rings, and hands every RTCP packet that was
  queued to the user in order when an RTCP notifier is set.\<close>

theorem workerRound_safe:
  assumes "trs_inv t"
  shows "\<exists>v t' rs. workerRound ct t = Inr (v, t') \<and> trs_inv t'
     \<and> ring_contents (rtpRecvBuffQueue t') = [] \<and> ring_contents (rtcpRecvBuffQueue t') = []
     \<and> recvRtcpQueue t' = recvRtcpQueue t @ rs
     \<and> map (\<lambda>x. (rtcpBuff (fst x), snd x)) rs
         = (if rtcpNotifier t = None then [] else ring_contents (rtcpRecvBuffQueue t))"
  using workerRound_spec [OF assms, of ct] by blast

theorem workerRound_safe_witness:
  "\<exists>v t'. workerRound 1000 (RtpTransceiver_members 16 :: nat trs) = Inr (v, t') \<and> trs_inv t'"
  using workerRound_safe [OF trs_inv_members [of 16], of 1000] by auto

text \<open>C8: what the socket threads push keeps the worker's invariant: in particular, whenever the split
  of an RTCP datagram returns, every packet it queued has at least the two bytes that the
  classification of the worker reads, and the split itself reads nothing out of bounds: the only
  way it can fail to return is to run for ever.\<close>

theorem processors_keep_inv:
  assumes "trs_inv t" "\<not> sendOnly t"
  shows "(\<exists>t1. RtpProcessor_pushUdp udp src t = Inr t1 \<and> trs_inv t1)
    \<and> (case RtcpProcessor_pushUdp fuel udp src t of Inr t2 \<Rightarrow> trs_inv t2 | Inl e \<Rightarrow> e = OutOfFuel)"
proof
  have r: "ring_inv (rtpRecvBuffQueue t)" "rtcp_ready (rtcpRecvBuffQueue t)" using assms by (simp_all add: trs_inv_def)
  then have "ring_inv (snd (enqueue (udp, src) (rtpRecvBuffQueue t)))" by (intro ring.enq_inv)
  then show "\<exists>t1. RtpProcessor_pushUdp udp src t = Inr t1 \<and> trs_inv t1"
    using assms by (simp add: RtpProcessor_pushUdp_def trs_inv_def)
  show "case RtcpProcessor_pushUdp fuel udp src t of Inr t2 \<Rightarrow> trs_inv t2 | Inl e \<Rightarrow> e = OutOfFuel"
  proof (cases "rtcpSplit fuel udp src 0 (rtcpRecvBuffQueue t)")
    case (Inl e)
    then show ?thesis using assms(2) rtcpSplit_fault [OF Inl] by (simp add: RtcpProcessor_pushUdp_def)
  next
    case (Inr q)
    then show ?thesis using assms rtcpSplit_ready [OF Inr r(2)] by (simp add: RtcpProcessor_pushUdp_def trs_inv_def)
  qed
qed

theorem processors_keep_inv_witness:
  "\<exists>t1. RtpProcessor_pushUdp [128, 1] (9::nat) (RtpTransceiver_members 16) = Inr t1 \<and> trs_inv t1"
  using processors_keep_inv [OF trs_inv_members [of 16], of "[128, 1]" "9::nat" 1] by simp

text \<open>C9: a compound RTCP datagram whose packets are framed by their length fields, with at most three
  bytes after the last one, is split into exactly its packets: with room in the ring they are
  queued in order, and the loop needs one pass for each packet and one more.\<close>

theorem rtcp_compound_split:
  assumes "\<forall>p \<in> set ps. rtcp_framed p" "length (concat ps) + length tail < 65536" "length tail < 4"
    and "length ps < fuel" "ring_inv (rtcpRecvBuffQueue t)" "\<not> sendOnly t"
    and "ring_count (rtcpRecvBuffQueue t) + length ps < capacity (rtcpRecvBuffQueue t)"
  shows "\<exists>t'. RtcpProcessor_pushUdp fuel (concat ps @ tail) src t = Inr t'
    \<and> ring_contents (rtcpRecvBuffQueue t') = ring_contents (rtcpRecvBuffQueue t) @ map (\<lambda>p. (p, src)) ps"
proof -
  have "rtcpSplit fuel (concat ps @ tail) src 0 (rtcpRecvBuffQueue t) = Inr (putAll src ps (rtcpRecvBuffQueue t))"
    using rtcpSplit_fold [OF assms(1), of "[]" tail fuel src] assms(2-4) by simp
  then show ?thesis using assms(6) putAll_contents [OF assms(5,7), of src] by (simp add: RtcpProcessor_pushUdp_def)
qed

theorem rtcp_compound_split_witness:
  "\<exists>t'. RtcpProcessor_pushUdp 3 [128, 203, 0, 0, 128, 203, 0, 1, 0, 0, 0, 7, 5] (9::nat) (RtpTransceiver_members 16) = Inr t'
    \<and> ring_contents (rtcpRecvBuffQueue t') = [([128, 203, 0, 0], 9), ([128, 203, 0, 1, 0, 0, 0, 7], 9)]"
proof -
  have f: "rtcp_framed [128, 203, 0, 0]" "rtcp_framed [128, 203, 0, 1, 0, 0, 0, 7]"
    by (simp_all add: rtcp_framed_def getRtcpLength_def readData_def upt_rec at_def)
  have q: "rtcpRecvBuffQueue (RtpTransceiver_members 16 :: nat trs) = ring_new 60"
    by (simp add: RtpTransceiver_members_def)
  have i: "ring_inv (rtcpRecvBuffQueue (RtpTransceiver_members 16 :: nat trs))"
    unfolding q by (rule ring_inv_new) simp
  have c: "ring_count (rtcpRecvBuffQueue (RtpTransceiver_members 16 :: nat trs)) = 0"
      "capacity (rtcpRecvBuffQueue (RtpTransceiver_members 16 :: nat trs)) = 60"
    unfolding q by (simp_all add: ring_new_def ring_count_def ring_dist_def)
  show ?thesis
    using rtcp_compound_split [of "[[128, 203, 0, 0], [128, 203, 0, 1, 0, 0, 0, 7]]" "[5]" 3
      "RtpTransceiver_members 16" "9::nat"] f i c by simp
qed

text \<open>A datagram of four bytes whose length field is \<open>0x3FFF\<close> stops the RTCP socket thread for
  good: \<open>(0x3FFF + 1) * 4\<close> is zero in 16 bits, so \<open>pos\<close> never moves, however long the loop
  runs. The sender of the datagram needs no other access.\<close>

theorem rtcp_zero_length_hangs:
  "RtcpProcessor_pushUdp fuel [a, b, 0x3F, 0xFF] src t =
     Inl (if sendOnly t then LogicError ''pushUdp: sendOnly.'' else OutOfFuel)"
proof -
  have "getRtcpLength [a, b, 0x3F, 0xFF] = Inr 0x3FFF"
    by (simp add: getRtcpLength_def readData_def upt_rec at_def)
  then have "rtcpSplit fuel [a, b, 0x3F, 0xFF] src 0 q = Inl OutOfFuel" for q
    by (intro zero_step_diverges [of _ _ "0x3FFF"]) simp_all
  then show ?thesis by (simp add: RtcpProcessor_pushUdp_def)
qed

text \<open>Without reordering (\<open>reorderSize\<close> 0) a round hands every datagram the socket pushed to the
  user as an \<open>Rtp\<close>, in order of arrival and with its sender, whether or not it is an RTP packet:
  nothing goes to the UDP queue, so a datagram that is not RTP is indistinguishable from one.\<close>

theorem plain_round_delivers:
  assumes "trs_inv t" "\<not> recvUdpOnly t" "reorderLimit t = 0"
  shows "\<exists>v t' rs. workerRound ct t = Inr (v, t') \<and> recvRtpQueue t' = recvRtpQueue t @ rs
    \<and> map (\<lambda>x. (udpBuff (fst x), snd x)) rs = rtpWorkingQueue t @ ring_contents (rtpRecvBuffQueue t)
    \<and> recvUdpQueue t' = recvUdpQueue t"
proof -
  have inv: "ring_inv (rtpRecvBuffQueue t)" "ring_inv (rtcpRecvBuffQueue t)"
    using assms by (simp_all add: trs_inv_def rtcp_ready_def)
  define w where "w = rtpWorkingQueue t @ ring_contents (rtpRecvBuffQueue t)"
  from dequeueAll_spec [OF inv(1), of "rtpWorkingQueue t"] obtain q where
    q: "dequeueAll (rtpRecvBuffQueue t) (rtpWorkingQueue t) = Inr (w, q)" by (auto simp: w_def)
  define t1 where "t1 = t\<lparr>rtpRecvBuffQueue := q, rtpWorkingQueue := w\<rparr>"
  have t1: "\<not> recvUdpOnly t1" "reorderLimit t1 = 0" "rtpWorkingQueue t1 = w" "recvRtpQueue t1 = recvRtpQueue t"
    "recvUdpQueue t1 = recvUdpQueue t" "rtcpRecvBuffQueue t1 = rtcpRecvBuffQueue t"
    "recvRtcpQueueEmpty t1 = (recvRtcpQueue t1 = [])"
    using assms by (simp_all add: t1_def trs_inv_def)
  from plainAll_ok [of w t1] obtain rs where
    rs: "plainAll w t1 = Inr (t1\<lparr>recvRtpQueue := recvRtpQueue t1 @ rs,
       recvRtpQueueEmpty := (if w = [] then recvRtpQueueEmpty t1 else False)\<rparr>)"
      "map (\<lambda>x. (udpBuff (fst x), snd x)) rs = w" by blast
  define t2 where "t2 = t1\<lparr>recvRtpQueue := recvRtpQueue t1 @ rs,
       recvRtpQueueEmpty := (if w = [] then recvRtpQueueEmpty t1 else False), rtpWorkingQueue := []\<rparr>"
  have p: "processRtp ct t1 = Inr (w \<noteq> [], False, t2)"
    using t1 rs(1) by (simp add: processRtp_def t2_def)
  have t2: "recvRtpQueue t2 = recvRtpQueue t @ rs" "recvUdpQueue t2 = recvUdpQueue t"
    "rtcpRecvBuffQueue t2 = rtcpRecvBuffQueue t" "recvRtcpQueueEmpty t2 = (recvRtcpQueue t2 = [])"
    using t1 by (simp_all add: t2_def)
  from dequeueAll_spec [OF inv(2), of "[]"] obtain rq where
    rq: "dequeueAll (rtcpRecvBuffQueue t2) [] = Inr (ring_contents (rtcpRecvBuffQueue t), rq)" using t2(3) by auto
  define t3 where "t3 = t2\<lparr>rtcpRecvBuffQueue := rq\<rparr>"
  have "\<forall>x \<in> set (ring_contents (rtcpRecvBuffQueue t)). 2 \<le> length (fst x)"
    using assms(1) by (simp add: trs_inv_def rtcp_ready_def)
  moreover have "recvRtcpQueueEmpty t3 = (recvRtcpQueue t3 = [])" using t2(4) by (simp add: t3_def)
  ultimately obtain g rs' e where
    c: "processRtcp (ring_contents (rtcpRecvBuffQueue t)) (False, t3)
      = Inr (g, t3\<lparr>recvRtcpQueue := recvRtcpQueue t3 @ rs', recvRtcpQueueEmpty := e\<rparr>)"
    using processRtcp_ok by blast
  define t4 where "t4 = t3\<lparr>recvRtcpQueue := recvRtcpQueue t3 @ rs', recvRtcpQueueEmpty := e\<rparr>"
  have "\<exists>v. workerRound ct t = Inr (v, notifyAll (w \<noteq> []) g False t4)"
    using q p rq c by (simp add: workerRound_def t1_def [symmetric] t3_def [symmetric] t4_def [symmetric] Let_def)
  then obtain v where "workerRound ct t = Inr (v, notifyAll (w \<noteq> []) g False t4)" by blast
  moreover have "recvRtpQueue t4 = recvRtpQueue t @ rs" "recvUdpQueue t4 = recvUdpQueue t"
    using t2 by (simp_all add: t4_def t3_def)
  ultimately show ?thesis using rs(2) unfolding w_def [symmetric]
    by (intro exI [of _ v] exI [of _ "notifyAll (w \<noteq> []) g False t4"] exI [of _ rs]) (simp add: notifyAll_frame)
qed

theorem plain_round_delivers_witness:
  "\<exists>v t' rs. workerRound 5 (RtpTransceiver_members 0 \<lparr>rtpWorkingQueue := [([1], 7)]\<rparr> :: nat trs) = Inr (v, t')
    \<and> recvRtpQueue t' = rs \<and> map (\<lambda>x. (udpBuff (fst x), snd x)) rs = [([1], 7)]"
proof -
  let ?t = "RtpTransceiver_members 0 \<lparr>rtpWorkingQueue := [([1], 7)]\<rparr> :: nat trs"
  have "trs_inv ?t" using trs_inv_members [of 0] by (simp add: trs_inv_def)
  from plain_round_delivers [OF this, of 5] show ?thesis by auto
qed

lemma udp_only_round:
  assumes "trs_inv t" "recvUdpOnly t" "udpNotifier t = None"
    and "rtpWorkingQueue t @ ring_contents (rtpRecvBuffQueue t) \<noteq> []"
  shows "\<exists>t'. workerRound ct t = Inr (Continue, t') \<and> trs_inv t' \<and> recvUdpOnly t' \<and> udpNotifier t' = None
    \<and> rtpWorkingQueue t' = rtpWorkingQueue t @ ring_contents (rtpRecvBuffQueue t)"
proof -
  from workerRound_spec [OF assms(1), of ct] obtain v t' where
    t': "workerRound ct t = Inr (v, t')" "trs_inv t'" by blast
  have inv: "ring_inv (rtpRecvBuffQueue t)" "ring_inv (rtcpRecvBuffQueue t)"
    using assms(1) by (simp_all add: trs_inv_def rtcp_ready_def)
  define w where "w = rtpWorkingQueue t @ ring_contents (rtpRecvBuffQueue t)"
  have w: "w \<noteq> []" using assms(4) by (simp add: w_def)
  from dequeueAll_spec [OF inv(1), of "rtpWorkingQueue t"] obtain q where
    q: "dequeueAll (rtpRecvBuffQueue t) (rtpWorkingQueue t) = Inr (w, q)" by (auto simp: w_def)
  define t1 where "t1 = t\<lparr>rtpRecvBuffQueue := q, rtpWorkingQueue := w\<rparr>"
  have p: "processRtp ct t1 = Inr (False, False, t1)" using assms(2,3) by (simp add: processRtp_def t1_def)
  from dequeueAll_spec [OF inv(2), of "[]"] obtain rq where
    rq: "dequeueAll (rtcpRecvBuffQueue t1) [] = Inr (ring_contents (rtcpRecvBuffQueue t), rq)"
    by (auto simp: t1_def)
  define t3 where "t3 = t1\<lparr>rtcpRecvBuffQueue := rq\<rparr>"
  have "\<forall>x \<in> set (ring_contents (rtcpRecvBuffQueue t)). 2 \<le> length (fst x)"
    using assms(1) by (simp add: trs_inv_def rtcp_ready_def)
  moreover have "recvRtcpQueueEmpty t3 = (recvRtcpQueue t3 = [])"
    using assms(1) by (simp add: t3_def t1_def trs_inv_def)
  ultimately obtain g rs e where
    c: "processRtcp (ring_contents (rtcpRecvBuffQueue t)) (False, t3)
      = Inr (g, t3\<lparr>recvRtcpQueue := recvRtcpQueue t3 @ rs, recvRtcpQueueEmpty := e\<rparr>)"
    using processRtcp_ok by blast
  define t4 where "t4 = t3\<lparr>recvRtcpQueue := recvRtcpQueue t3 @ rs, recvRtcpQueueEmpty := e\<rparr>"
  have "workerRound ct t = Inr (Continue, notifyAll False g False t4)"
    using q p rq c w by (simp add: workerRound_def t1_def [symmetric] t3_def [symmetric] t4_def [symmetric] Let_def)
  then show ?thesis using t' assms(2,3) unfolding w_def [symmetric]
    by (simp add: notifyAll_frame) (simp add: t4_def t3_def t1_def)
qed

primrec worker_rounds :: "int list \<Rightarrow> 'e trs \<Rightarrow> (verdict list \<times> 'e trs) res" where
  "worker_rounds [] t = Inr ([], t)"
| "worker_rounds (ct # cts) t = andThen (workerRound ct t) (\<lambda>(v, t).
     andThen (worker_rounds cts t) (\<lambda>(vs, t). Inr (v # vs, t)))"

text \<open>With \<open>recvUdpOnly\<close> set and no UDP notifier, a datagram left in the worker's queue is never
  removed: no round faults, but after any number of further rounds the worker still has not
  reached the wait in which it looks at \<open>stopRecvWorker\<close>, even when that is set from the start, so
  the \<open>join\<close> in \<open>close()\<close> waits for ever.\<close>

theorem udp_only_never_stops:
  assumes "trs_inv t" "recvUdpOnly t" "udpNotifier t = None"
    and "rtpWorkingQueue t @ ring_contents (rtpRecvBuffQueue t) \<noteq> []"
  shows "\<exists>t'. worker_rounds cts t = Inr (replicate (length cts) Continue, t')"
  using assms
proof (induction cts arbitrary: t)
  case (Cons ct cts)
  from udp_only_round [OF Cons.prems, of ct] obtain t1 where
    t1: "workerRound ct t = Inr (Continue, t1)" "trs_inv t1" "recvUdpOnly t1" "udpNotifier t1 = None"
      "rtpWorkingQueue t1 = rtpWorkingQueue t @ ring_contents (rtpRecvBuffQueue t)" by blast
  have "rtpWorkingQueue t1 @ ring_contents (rtpRecvBuffQueue t1) \<noteq> []" using t1(5) Cons.prems(4) by auto
  from Cons.IH [OF t1(2-4) this] t1(1) show ?case by auto
qed simp

theorem udp_only_never_stops_witness:
  "\<exists>t'. worker_rounds [1, 2, 3] (RtpTransceiver_members 16
     \<lparr>recvUdpOnly := True, stopRecvWorker := True, rtpWorkingQueue := [([1], 7)]\<rparr> :: nat trs)
     = Inr ([Continue, Continue, Continue], t')"
proof -
  let ?t = "RtpTransceiver_members 16 \<lparr>recvUdpOnly := True, stopRecvWorker := True, rtpWorkingQueue := [([1], 7)]\<rparr> :: nat trs"
  have "trs_inv ?t" using trs_inv_members [of 16] by (simp add: trs_inv_def)
  moreover have "udpNotifier ?t = None" by (simp add: RtpTransceiver_members_def)
  ultimately show ?thesis using udp_only_never_stops [of ?t "[1, 2, 3]"] by (simp add: numeral_3_eq_3)
qed

end
