(* ===== verification/Transceiver.thy ===== *)
theory Transceiver
  imports Worker
begin

text \<open>
  The life of a \<open>RtpTransceiver\<close> (\<open>mod/janitor/include/rtpTrs/rtpTrs.hpp\<close>): the process-wide I/O
  threads, opening and closing the sockets, the list of destinations and the calls that send.
  What the operating system and asio decide is an argument: whether a socket call fails, whether
  a text is an address and how an address is written, and what the I/O threads do to the sender
  and receiver objects while \<open>close()\<close> waits for them.
\<close>

subsection \<open>The process-wide state\<close>

text \<open>\<open>keepAlive\<close> lists the intervals for which the keep-alive timer was armed. After \<open>stop()\<close> an
  \<open>io_context\<close> runs no handler until it is restarted, so threads started later end at once.\<close>

record master =
  isInited :: bool
  socketThreads :: nat
  keepAlive :: "int list"
  ioStopped :: bool

definition master_initial :: master where
  "master_initial = \<lparr>isInited = False, socketThreads = 0, keepAlive = [], ioStopped = False\<rparr>"

definition keepSocketIo :: "bool \<Rightarrow> int \<Rightarrow> master \<Rightarrow> master" where
  "keepSocketIo err intervalInMs m = (if err then m else m\<lparr>keepAlive := keepAlive m @ [intervalInMs]\<rparr>)"

text \<open>\<open>held\<close>: the calling thread already owns \<open>masterMx\<close>, which is not recursive: it blocks for ever.\<close>

definition init :: "bool \<Rightarrow> nat \<Rightarrow> master \<Rightarrow> master res" where
  "init held threadCount m =
     (if socketThreads m \<noteq> 0 \<or> isInited m
      then Inl (LogicError ''RtpTransceiver init: !socketThreads.empty() || isInited'')
      else if held then Inl Hang
      else Inr ((keepSocketIo False (1000 * 30) m)\<lparr>socketThreads := threadCount, isInited := True\<rparr>))"

definition shutdown :: "master \<Rightarrow> master res" where
  "shutdown m =
     (if \<not> isInited m then Inl (LogicError ''RtpTransceiver shutdown: isInited is false'')
      else Inr (m\<lparr>socketThreads := 0, isInited := False, ioStopped := True\<rparr>))"

definition RtpTransceiver_new :: "nat \<Rightarrow> master \<Rightarrow> ('e trs \<times> master) res" where
  "RtpTransceiver_new n m =
     (if \<not> isInited m then
        if socketThreads m \<noteq> 0 \<or> isInited m then Inr (RtpTransceiver_members n, m)
        else andThen (init True 4 m) (\<lambda>m. Inr (RtpTransceiver_members n, m))
      else Inr (RtpTransceiver_members n, m))"

subsection \<open>Opening\<close>

text \<open>The calls the system may refuse.\<close>

datatype sockcall = OpenRtp | ReuseRtp | BindRtp | OpenRtcp | BindRtcp

text \<open>
  \<open>open2\<close>: \<open>isAddress\<close> says which texts \<open>make_address\<close> accepts (it throws otherwise), \<open>fails\<close> which
  calls fail. Opening a socket that is open fails (\<open>asio::error::already_open\<close>), \<open>set_option\<close>
  throws when it fails, and assigning to a joinable \<open>std::thread\<close> terminates the process.
\<close>

definition open2 ::
  "(string \<Rightarrow> bool) \<Rightarrow> (sockcall \<Rightarrow> bool) \<Rightarrow> string \<Rightarrow> u16 \<Rightarrow> u16 \<Rightarrow> bool \<Rightarrow> 'e trs \<Rightarrow> (int \<times> 'e trs) res" where
  "open2 isAddress fails localIp localRtpPort localRtcpPort sendOnly' t =
     (if isBinded t then Inl (LogicError ''rtpTransceiver open: already binded.'')
      else if localRtpPort = localRtcpPort
      then Inl (LogicError ''rtpTransceiver open: localRtpPort == localRtcpPort is not supported.'')
      else if \<not> isAddress localIp then Inl (RuntimeError ''make_address'')
      else if fails OpenRtp \<or> rtpSocket t \<noteq> SockClosed then Inr (-1, t)
      else if fails ReuseRtp then Inl (RuntimeError ''set_option'')
      else if fails BindRtp then Inr (-2, t\<lparr>rtpSocket := SockClosed\<rparr>)
      else andThen UdpSender_new (\<lambda>snd.
        let t = t\<lparr>rtpSocket := SockBound, rtpSender := Live snd, sendOnly := sendOnly', enableRtcp := localRtcpPort > 0\<rparr>
        in andThen
          (if enableRtcp t then
             if fails OpenRtcp \<or> rtcpSocket t \<noteq> SockClosed then Inr (-1, t)
             else if fails BindRtcp then Inr (-3, t\<lparr>rtcpSocket := SockClosed, rtpSocket := SockClosed\<rparr>)
             else andThen UdpSender_new (\<lambda>snd. Inr (0, t\<lparr>rtcpSocket := SockBound, rtcpSender := Live snd\<rparr>))
           else Inr (0, t)) (\<lambda>(rst, t).
          if rst \<noteq> 0 then Inr (rst, t)
          else if sendOnly t then Inr (0, t\<lparr>isBinded := True\<rparr>)
          else if workerJoinable t then Inl ProcessExit
          else
            let t = t\<lparr>rtpReceiver := Live (start UdpReceiver_new)\<rparr>;
                t = (if enableRtcp t then t\<lparr>rtcpReceiver := Live (start UdpReceiver_new)\<rparr> else t)
            in Inr (0, t\<lparr>stopRecvWorker := False, workerJoinable := True, rtpWorkingQueue := [],
                 isBinded := True\<rparr>))))"

definition open_trs ::
  "(string \<Rightarrow> bool) \<Rightarrow> (sockcall \<Rightarrow> bool) \<Rightarrow> string \<Rightarrow> u16 \<Rightarrow> bool \<Rightarrow> 'e trs \<Rightarrow> (int \<times> 'e trs) res" where
  "open_trs isAddress fails localIp localPort sendOnly' t =
     open2 isAddress fails localIp localPort 0 sendOnly' t"

subsection \<open>Closing\<close>

text \<open>Access through a raw pointer; \<open>delete\<close> leaves the pointer as it is.\<close>

definition onLive :: "('a \<Rightarrow> 'b res) \<Rightarrow> 'a ptr \<Rightarrow> 'b res" where
  "onLive f p = (case p of Live x \<Rightarrow> f x | _ \<Rightarrow> Inl Undefined)"

definition closePtr :: "('a \<Rightarrow> 'a) \<Rightarrow> 'a ptr \<Rightarrow> 'a ptr res" where
  "closePtr cl p = (if p = Null then Inr Null else onLive (\<lambda>x. Inr (Live (cl x))) p)"

text \<open>
  The wait of at most 3000 polls; \<open>io\<close> is what the I/O threads do to the object from one poll to
  the next. The object is deleted if it has stopped.
\<close>

primrec pollStopped :: "nat \<Rightarrow> ('a \<Rightarrow> bool) \<Rightarrow> ('a \<Rightarrow> 'a) \<Rightarrow> 'a \<Rightarrow> 'a" where
  "pollStopped 0 stopped io x = x"
| "pollStopped (Suc n) stopped io x = (if stopped x then x else pollStopped n stopped io (io x))"

definition waitDelete :: "('a \<Rightarrow> bool) \<Rightarrow> ('a \<Rightarrow> 'a) \<Rightarrow> 'a ptr \<Rightarrow> 'a ptr res" where
  "waitDelete stopped io p =
     (if p = Null then Inr Null
      else onLive (\<lambda>x. let x = pollStopped 3000 stopped io x in Inr (if stopped x then Freed else Live x)) p)"

text \<open>\<open>join\<close> waits for the worker's remaining rounds; \<open>ticks\<close> are the clock readings it takes in them,
  and running out of them means that it has not ended yet.\<close>

primrec joinWorker :: "int list \<Rightarrow> 'e trs \<Rightarrow> 'e trs res" where
  "joinWorker [] t = Inl OutOfFuel"
| "joinWorker (ct # ticks) t = andThen (workerRound ct t) (\<lambda>(v, t).
     if v = WaitThenStop then Inr (t\<lparr>workerJoinable := False\<rparr>) else joinWorker ticks t)"

definition close_trs ::
  "('e receiver \<Rightarrow> 'e receiver) \<Rightarrow> ('e sender \<Rightarrow> 'e sender) \<Rightarrow> int list \<Rightarrow> 'e trs \<Rightarrow> 'e trs res" where
  "close_trs rio sio ticks t =
     (if \<not> isBinded t then Inr t
      else
        andThen (closePtr close_receiver (rtpReceiver t)) (\<lambda>rr.
        andThen (closePtr close_sender (rtpSender t)) (\<lambda>rs.
        andThen (closePtr close_receiver (rtcpReceiver t)) (\<lambda>cr.
        andThen (closePtr close_sender (rtcpSender t)) (\<lambda>cs.
        andThen (waitDelete receiver_stopped rio rr) (\<lambda>rr.
        andThen (waitDelete receiver_stopped rio cr) (\<lambda>cr.
        andThen (waitDelete isStopped sio rs) (\<lambda>rs.
        andThen (waitDelete isStopped sio cs) (\<lambda>cs.
          let t = t\<lparr>isBinded := False, stopRecvWorker := True, rtpReceiver := rr, rtcpReceiver := cr,
                    rtpSender := rs, rtcpSender := cs, rtpSocket := SockClosed, rtcpSocket := SockClosed\<rparr>
          in andThen (if \<not> sendOnly t \<and> workerJoinable t then joinWorker ticks t else Inr t) (\<lambda>t.
             Inr (t\<lparr>sendOnly := False, rtpPipeMap := []\<rparr>)))))))))))"

subsection \<open>Destinations\<close>

text \<open>
  An endpoint is an address and a port. \<open>makeAddress\<close> is \<open>asio::ip::make_address\<close>, which throws on
  a text it does not accept, and \<open>toText\<close> is \<open>address::to_string\<close>.
\<close>

definition makeEndpoint :: "(string \<Rightarrow> 'a option) \<Rightarrow> string \<Rightarrow> u16 \<Rightarrow> ('a \<times> u16) res" where
  "makeEndpoint makeAddress ip port =
     (case makeAddress ip of None \<Rightarrow> Inl (RuntimeError ''make_address'') | Some a \<Rightarrow> Inr (a, port))"

definition addDestination ::
  "(string \<Rightarrow> 'a option) \<Rightarrow> ('a \<Rightarrow> string) \<Rightarrow> string \<Rightarrow> u16 \<Rightarrow> ('a \<times> u16) trs \<Rightarrow> ('a \<times> u16) trs res" where
  "addDestination makeAddress toText ip port t =
     andThen (makeEndpoint makeAddress ip port) (\<lambda>target.
       if list_ex (\<lambda>e. toText (fst e) = toText (fst target) \<and> snd e = port) (dstAddrs t) then Inr t
       else Inr (t\<lparr>dstAddrs := dstAddrs t @ [target]\<rparr>))"

definition setDestination ::
  "(string \<Rightarrow> 'a option) \<Rightarrow> ('a \<Rightarrow> string) \<Rightarrow> string \<Rightarrow> u16 \<Rightarrow> ('a \<times> u16) trs \<Rightarrow> ('a \<times> u16) trs res" where
  "setDestination makeAddress toText ip port t =
     addDestination makeAddress toText ip port (t\<lparr>dstAddrs := []\<rparr>)"

definition removeDestination :: "('a \<Rightarrow> string) \<Rightarrow> string \<Rightarrow> u16 \<Rightarrow> ('a \<times> u16) trs \<Rightarrow> ('a \<times> u16) trs" where
  "removeDestination toText ip port t =
     t\<lparr>dstAddrs := filter (\<lambda>e. \<not> (toText (fst e) = ip \<and> snd e = port)) (dstAddrs t)\<rparr>"

definition listDestinations :: "('a \<Rightarrow> string) \<Rightarrow> ('a \<times> u16) trs \<Rightarrow> (string \<times> u16) list" where
  "listDestinations toText t = map (\<lambda>e. (toText (fst e), snd e)) (dstAddrs t)"

definition destinationCount :: "'e trs \<Rightarrow> nat" where
  "destinationCount t = length (dstAddrs t)"

subsection \<open>Sending\<close>

definition withRtpSender :: "('e sender \<Rightarrow> 'e sender res) \<Rightarrow> 'e trs \<Rightarrow> 'e trs res" where
  "withRtpSender f t = onLive (\<lambda>s. andThen (f s) (\<lambda>s. Inr (t\<lparr>rtpSender := Live s\<rparr>))) (rtpSender t)"

definition withRtcpSender :: "('e sender \<Rightarrow> 'e sender res) \<Rightarrow> 'e trs \<Rightarrow> 'e trs res" where
  "withRtcpSender f t = onLive (\<lambda>s. andThen (f s) (\<lambda>s. Inr (t\<lparr>rtcpSender := Live s\<rparr>))) (rtcpSender t)"

text \<open>Every overload leaves the caller's queue empty.\<close>

definition sendRtpTo :: "int \<Rightarrow> rtp list \<Rightarrow> 'e \<Rightarrow> 'e trs \<Rightarrow> 'e trs res" where
  "sendRtpTo currentTime rtps dst =
     withRtpSender (send currentTime (map (fst \<circ> takeRawData) rtps) dst)"

definition sendRtpMulti :: "int \<Rightarrow> rtp list \<Rightarrow> 'e list \<Rightarrow> 'e trs \<Rightarrow> 'e trs res" where
  "sendRtpMulti currentTime rtps multiAddrs t =
     (case multiAddrs of
        [] \<Rightarrow> Inl (LogicError ''RtpTransceiver sendRtp: targetSize is 0.'')
      | [dst] \<Rightarrow> withRtpSender (send currentTime (map (fst \<circ> takeRawData) rtps) dst) t
      | _ \<Rightarrow> withRtpSender (sendAll currentTime (map (fst \<circ> takeRawData) rtps) multiAddrs) t)"

definition sendRtp :: "int \<Rightarrow> rtp list \<Rightarrow> 'e trs \<Rightarrow> 'e trs res" where
  "sendRtp currentTime rtps t = sendRtpMulti currentTime rtps (dstAddrs t) t"

definition sendRtpText ::
  "(string \<Rightarrow> 'a option) \<Rightarrow> int \<Rightarrow> rtp list \<Rightarrow> string \<Rightarrow> u16 \<Rightarrow> ('a \<times> u16) trs \<Rightarrow> ('a \<times> u16) trs res" where
  "sendRtpText makeAddress currentTime rtps dstIp dstPort t =
     andThen (makeEndpoint makeAddress dstIp dstPort) (\<lambda>dst. sendRtpTo currentTime rtps dst t)"

definition sendUdp :: "int \<Rightarrow> bytes list \<Rightarrow> 'e \<Rightarrow> 'e trs \<Rightarrow> 'e trs res" where
  "sendUdp currentTime udps dst = withRtpSender (send currentTime udps dst)"

definition sendUdpText ::
  "(string \<Rightarrow> 'a option) \<Rightarrow> int \<Rightarrow> bytes list \<Rightarrow> string \<Rightarrow> u16 \<Rightarrow> ('a \<times> u16) trs \<Rightarrow> ('a \<times> u16) trs res" where
  "sendUdpText makeAddress currentTime udps dstIp dstPort t =
     andThen (makeEndpoint makeAddress dstIp dstPort) (\<lambda>dst. sendUdp currentTime udps dst t)"

definition sendRtcp :: "int \<Rightarrow> rtcp list \<Rightarrow> 'e \<Rightarrow> 'e trs \<Rightarrow> 'e trs res" where
  "sendRtcp currentTime rtcps dst =
     withRtcpSender (send currentTime (map (fst \<circ> Rtcp_takeRawData) rtcps) dst)"

definition sendRtcpText ::
  "(string \<Rightarrow> 'a option) \<Rightarrow> int \<Rightarrow> rtcp list \<Rightarrow> string \<Rightarrow> u16 \<Rightarrow> ('a \<times> u16) trs \<Rightarrow> ('a \<times> u16) trs res" where
  "sendRtcpText makeAddress currentTime rtcps dstIp dstPort t =
     andThen (makeEndpoint makeAddress dstIp dstPort) (\<lambda>dst. sendRtcp currentTime rtcps dst t)"

definition trs_setCongestionControl :: "bool \<Rightarrow> 'e trs \<Rightarrow> 'e trs res" where
  "trs_setCongestionControl enable = withRtpSender (setCongestionControl enable)"

definition trs_setBandwidth :: "nat \<Rightarrow> nat \<Rightarrow> 'e trs \<Rightarrow> 'e trs res" where
  "trs_setBandwidth maxBytesPerSecond unit = withRtpSender (setBandwidth maxBytesPerSecond unit)"

definition setRtpNotifier :: "nat option \<Rightarrow> 'e trs \<Rightarrow> 'e trs" where
  "setRtpNotifier n t = t\<lparr>rtpNotifier := n\<rparr>"

definition setRtcpNotifier :: "nat option \<Rightarrow> 'e trs \<Rightarrow> 'e trs" where
  "setRtcpNotifier n t = t\<lparr>rtcpNotifier := n\<rparr>"

definition setUdpNotifier :: "nat option \<Rightarrow> 'e trs \<Rightarrow> 'e trs" where
  "setUdpNotifier n t = t\<lparr>udpNotifier := n\<rparr>"

definition setUnkonwnMsgNotifier :: "nat option \<Rightarrow> 'e trs \<Rightarrow> 'e trs" where
  "setUnkonwnMsgNotifier n t = setUdpNotifier n t"

text \<open>The four getters build a \<open>logic_error\<close> without throwing it and then run off the end of a
  function that returns a value, which is undefined. \<open>addr\<close> is the socket's local endpoint.\<close>

definition getLocalRtp :: "'e \<Rightarrow> 'e trs \<Rightarrow> 'e res" where
  "getLocalRtp addr t = (if isBinded t then Inr addr else Inl Undefined)"

definition getLocalRtcp :: "'e \<Rightarrow> 'e trs \<Rightarrow> 'e res" where
  "getLocalRtcp addr t = (if isBinded t \<and> enableRtcp t then Inr addr else Inl Undefined)"

subsection \<open>The worker ends\<close>

lemma joinWorker_two:
  assumes "trs_inv t" "stopRecvWorker t" "\<not> (recvUdpOnly t \<and> udpNotifier t = None)"
  shows "\<exists>t'. joinWorker [t1, t2] t = Inr t' \<and> trs_inv t' \<and> life t' = life (t\<lparr>workerJoinable := False\<rparr>)
    \<and> ring_contents (rtpRecvBuffQueue t') = [] \<and> ring_contents (rtcpRecvBuffQueue t') = []"
proof -
  from workerRound_spec [OF assms(1), of t1] obtain v t' where
    r: "workerRound t1 t = Inr (v, t')" "trs_inv t'" "stopRecvWorker t'" "rtpWorkingQueue t' = []" "life t' = life t"
      "ring_contents (rtpRecvBuffQueue t') = []" "ring_contents (rtcpRecvBuffQueue t') = []"
    using assms(2,3) by (auto split: if_splits)
  from workerRound_spec [OF r(2), of t2] obtain t'' where
    r2: "workerRound t2 t' = Inr (WaitThenStop, t'')" "trs_inv t''" "life t'' = life t"
      "ring_contents (rtpRecvBuffQueue t'') = []" "ring_contents (rtcpRecvBuffQueue t'') = []"
    using r(3-7) by auto
  have up: "trs_inv (x\<lparr>workerJoinable := False\<rparr>) = trs_inv x" for x :: "'a trs" by (simp add: trs_inv_def)
  show ?thesis
  proof (cases "v = WaitThenStop")
    case True
    then show ?thesis using r up by (simp add: life_def)
  next
    case False
    then show ?thesis using r(1) r2 up by (simp add: life_def)
  qed
qed

definition usable :: "'a ptr \<Rightarrow> bool" where
  "usable p \<longleftrightarrow> p \<noteq> Freed"

lemma closePtr_usable: "usable p \<Longrightarrow> \<exists>q. closePtr cl p = Inr q \<and> usable q"
  by (cases p) (simp_all add: usable_def closePtr_def onLive_def)

lemma waitDelete_usable: "usable p \<Longrightarrow> \<exists>q. waitDelete st io p = Inr q"
  by (cases p) (simp_all add: usable_def waitDelete_def onLive_def Let_def)

lemma Freed_faults: "closePtr cl Freed = Inl Undefined" "onLive f Freed = Inl Undefined" "onLive f Null = Inl Undefined"
  by (simp_all add: closePtr_def onLive_def)

lemma close_spec:
  assumes "trs_inv t" "isBinded t" "\<not> (recvUdpOnly t \<and> udpNotifier t = None)"
    and "usable (rtpReceiver t)" "usable (rtcpReceiver t)" "usable (rtpSender t)" "usable (rtcpSender t)"
    and "sendOnly t \<longrightarrow> \<not> workerJoinable t"
  shows "\<exists>t' rr rr'. close_trs rio sio [t1, t2] t = Inr t' \<and> \<not> isBinded t' \<and> \<not> workerJoinable t'
    \<and> rtpSocket t' = SockClosed \<and> rtcpSocket t' = SockClosed \<and> rtpPipeMap t' = [] \<and> \<not> sendOnly t'
    \<and> closePtr close_receiver (rtpReceiver t) = Inr rr \<and> waitDelete receiver_stopped rio rr = Inr rr'
    \<and> rtpReceiver t' = rr'"
proof -
  from closePtr_usable [OF assms(4)] obtain rr where rr: "closePtr close_receiver (rtpReceiver t) = Inr rr" "usable rr" by blast
  from closePtr_usable [OF assms(5)] obtain cr where cr: "closePtr close_receiver (rtcpReceiver t) = Inr cr" "usable cr" by blast
  from closePtr_usable [OF assms(6)] obtain rs where rs: "closePtr close_sender (rtpSender t) = Inr rs" "usable rs" by blast
  from closePtr_usable [OF assms(7)] obtain cs where cs: "closePtr close_sender (rtcpSender t) = Inr cs" "usable cs" by blast
  from waitDelete_usable [OF rr(2)] waitDelete_usable [OF cr(2)] waitDelete_usable [OF rs(2)] waitDelete_usable [OF cs(2)]
  obtain rr' cr' rs' cs' where
    w: "waitDelete receiver_stopped rio rr = Inr rr'" "waitDelete receiver_stopped rio cr = Inr cr'"
       "waitDelete isStopped sio rs = Inr rs'" "waitDelete isStopped sio cs = Inr cs'" by metis
  define t' where "t' = t\<lparr>isBinded := False, stopRecvWorker := True, rtpReceiver := rr', rtcpReceiver := cr',
    rtpSender := rs', rtcpSender := cs', rtpSocket := SockClosed, rtcpSocket := SockClosed\<rparr>"
  have close: "close_trs rio sio ts t
      = andThen (if \<not> sendOnly t' \<and> workerJoinable t' then joinWorker ts t' else Inr t')
          (\<lambda>t. Inr (t\<lparr>sendOnly := False, rtpPipeMap := []\<rparr>))" for ts
    using assms(2) rr(1) cr(1) rs(1) cs(1) w by (simp add: close_trs_def t'_def Let_def)
  have "trs_inv t'" using assms(1) by (simp add: t'_def trs_inv_def)
  moreover have "stopRecvWorker t'" "\<not> (recvUdpOnly t' \<and> udpNotifier t' = None)" using assms(3) by (simp_all add: t'_def)
  ultimately obtain t'' where t'': "joinWorker [t1, t2] t' = Inr t''" "life t'' = life (t'\<lparr>workerJoinable := False\<rparr>)"
    using joinWorker_two [of t' t1 t2] by (auto simp: t'_def)
  have l: "isBinded t'' = False" "workerJoinable t'' = False" "rtpSocket t'' = SockClosed"
    "rtcpSocket t'' = SockClosed" "rtpReceiver t'' = rr'" using t''(2) by (simp_all add: life_def t'_def)
  show ?thesis
  proof (cases "\<not> sendOnly t' \<and> workerJoinable t'")
    case True
    then show ?thesis using t''(1) l rr(1) w(1) by (simp add: close)
  next
    case False
    then have "\<not> workerJoinable t'" using assms(8) by (auto simp: t'_def)
    then show ?thesis using False rr(1) w(1) by (simp add: close) (simp add: t'_def)
  qed
qed



subsection \<open>Opening, branch by branch\<close>

definition pointers_usable :: "'e trs \<Rightarrow> bool" where
  "pointers_usable t \<longleftrightarrow> usable (rtpReceiver t) \<and> usable (rtcpReceiver t) \<and> usable (rtpSender t) \<and> usable (rtcpSender t)"

definition rtcp_result :: "(sockcall \<Rightarrow> bool) \<Rightarrow> u16 \<Rightarrow> 'e trs \<Rightarrow> int" where
  "rtcp_result fails port t =
     (if port = 0 then 0 else if fails OpenRtcp \<or> rtcpSocket t \<noteq> SockClosed then -1 else if fails BindRtcp then -3 else 0)"

lemma open2_opens:
  assumes "\<not> isBinded t" "p \<noteq> q" "isAddress ip" "\<not> fails OpenRtp" "rtpSocket t = SockClosed"
    "\<not> fails ReuseRtp" "\<not> fails BindRtp" "\<not> workerJoinable t"
  shows "\<exists>t'. open2 isAddress fails ip p q so t = Inr (rtcp_result fails q t, t')
    \<and> isBinded t' = (rtcp_result fails q t = 0) \<and> workerJoinable t' = (rtcp_result fails q t = 0 \<and> \<not> so)
    \<and> rtpSocket t' = (if rtcp_result fails q t = -3 then SockClosed else SockBound)
    \<and> (trs_inv t \<longrightarrow> trs_inv t') \<and> (pointers_usable t \<longrightarrow> pointers_usable t')
    \<and> recvUdpOnly t' = recvUdpOnly t \<and> udpNotifier t' = udpNotifier t \<and> sendOnly t' = so
    \<and> rtpReceiver t' = (if rtcp_result fails q t = 0 \<and> \<not> so then Live (start UdpReceiver_new) else rtpReceiver t)"
proof -
  obtain s0 :: "'a sender" where s0: "UdpSender_new = Inr s0" using sender_new by blast
  have pos: "(q > 0) = (q \<noteq> 0)" by (simp add: word_neq_0_conv)
  show ?thesis
  proof (cases "rtcp_result fails q t = 0")
    case True
    then show ?thesis using assms unfolding open2_def s0
      by (auto simp: Let_def rtcp_result_def pos trs_inv_def pointers_usable_def usable_def split: if_splits)
  next
    case False
    then show ?thesis using assms unfolding open2_def s0
      by (auto simp: Let_def rtcp_result_def pos trs_inv_def pointers_usable_def usable_def split: if_splits)
  qed
qed



text \<open>\<open>close()\<close> deletes the receiver but keeps the pointer. A transceiver that has received once, was
  closed, and is opened again to send only, cannot be closed: the second \<open>close()\<close>, and so the
  destructor too, uses the deleted receiver. The only thing asked of the I/O threads is that the
  pending receive ends when the socket is cancelled.\<close>

theorem reopen_faults:
  assumes "trs_inv t" "pointers_usable t" "\<not> isBinded t" "\<not> workerJoinable t" "rtpSocket t = SockClosed"
    and "\<not> (recvUdpOnly t \<and> udpNotifier t = None)" "p \<noteq> 0" "isAddress ip" "\<forall>c. \<not> fails c"
    and "receiver_stopped (pollStopped 3000 receiver_stopped rio (close_receiver (start UdpReceiver_new)))"
  shows "\<exists>t1 t2 t3. open_trs isAddress fails ip p False t = Inr (0, t1) \<and> close_trs rio sio [a, b] t1 = Inr t2
    \<and> open_trs isAddress fails ip p True t2 = Inr (0, t3) \<and> close_trs rio' sio' ts t3 = Inl Undefined"
proof -
  have z: "rtcp_result fails 0 u = 0" for u :: "'a trs" by (simp add: rtcp_result_def)
  have nf: "\<not> fails OpenRtp" "\<not> fails ReuseRtp" "\<not> fails BindRtp" using assms(9) by simp_all
  from open2_opens [where fails = fails and isAddress = isAddress and ip = ip and so = False,
      OF assms(3,7,8) nf(1) assms(5) nf(2,3) assms(4)] assms(1,2,6) obtain t1 where
    t1: "open_trs isAddress fails ip p False t = Inr (0, t1)" "isBinded t1" "trs_inv t1" "pointers_usable t1"
      "\<not> (recvUdpOnly t1 \<and> udpNotifier t1 = None)" "\<not> sendOnly t1" "rtpReceiver t1 = Live (start UdpReceiver_new)"
    using z by (auto simp: open_trs_def)
  have c: "closePtr close_receiver (rtpReceiver t1) = Inr (Live (close_receiver (start UdpReceiver_new)))"
    using t1(7) by (simp add: closePtr_def onLive_def)
  have d: "waitDelete receiver_stopped rio (Live (close_receiver (start UdpReceiver_new))) = Inr Freed"
    using assms(10) by (simp add: waitDelete_def onLive_def Let_def)
  from close_spec [OF t1(3,2,5), of rio sio a b] t1(4,6) c d obtain t2 where
    t2: "close_trs rio sio [a, b] t1 = Inr t2" "\<not> isBinded t2" "\<not> workerJoinable t2" "rtpSocket t2 = SockClosed"
      "rtpReceiver t2 = Freed"
    by (auto simp: pointers_usable_def)
  from open2_opens [where fails = fails and isAddress = isAddress and ip = ip and so = True,
      OF t2(2) assms(7,8) nf(1) t2(4) nf(2,3) t2(3)] obtain t3 where
    t3: "open_trs isAddress fails ip p True t2 = Inr (0, t3)" "isBinded t3" "rtpReceiver t3 = Freed"
    using z t2(5) by (auto simp: open_trs_def)
  then have "close_trs rio' sio' ts t3 = Inl Undefined" by (simp add: close_trs_def closePtr_def onLive_def)
  then show ?thesis using t1(1) t2(1) t3(1) by blast
qed

lemma aborted_stops:
  "receiver_stopped (pollStopped 3000 receiver_stopped (onDatagram Posix 125 [] x) (close_receiver (start UdpReceiver_new)))"
  by (simp add: eval_nat_numeral receiver_stopped_def onDatagram_def close_receiver_def start_def startReceive_def
      UdpReceiver_new_def finishReceive_def abortCode_def Let_def)

theorem reopen_faults_witness:
  "\<exists>t1 t2 t3. open_trs (\<lambda>x. True) (\<lambda>c. False) ''0.0.0.0'' 5000 False (RtpTransceiver_members 16 :: nat trs) = Inr (0, t1)
    \<and> close_trs (onDatagram Posix 125 [] 0) (\<lambda>x. x) [1, 2] t1 = Inr t2
    \<and> open_trs (\<lambda>x. True) (\<lambda>c. False) ''0.0.0.0'' 5000 True t2 = Inr (0, t3)
    \<and> close_trs (\<lambda>x. x) (\<lambda>x. x) [3, 4] t3 = Inl Undefined"
proof -
  let ?t = "RtpTransceiver_members 16 :: nat trs"
  have "trs_inv ?t" by (rule trs_inv_members) simp
  moreover have "pointers_usable ?t" "\<not> isBinded ?t" "\<not> workerJoinable ?t" "rtpSocket ?t = SockClosed" "\<not> (recvUdpOnly ?t \<and> udpNotifier ?t = None)"
    by (simp_all add: pointers_usable_def usable_def RtpTransceiver_members_def)
  ultimately show ?thesis
    by (rule reopen_faults) (simp_all add: aborted_stops)
qed

text \<open>When the RTCP socket cannot be opened, \<open>open2\<close> returns -1 with the RTP socket still bound and
  the transceiver not bound: \<open>close()\<close> then does nothing, so every later attempt to open, even
  without RTCP and when the system refuses nothing, returns -1.\<close>

theorem rtcp_open_failure_sticks:
  assumes "\<not> isBinded t" "\<not> workerJoinable t" "rtpSocket t = SockClosed" "p \<noteq> q" "q \<noteq> 0" "isAddress ip"
    and "\<not> fails OpenRtp" "\<not> fails ReuseRtp" "\<not> fails BindRtp" "fails OpenRtcp"
  shows "\<exists>t1. open2 isAddress fails ip p q so t = Inr (-1, t1) \<and> close_trs rio sio ts t1 = Inr t1
    \<and> (p' \<noteq> 0 \<longrightarrow> open_trs isAddress fails' ip p' so' t1 = Inr (-1, t1))"
proof -
  have z: "rtcp_result fails q t = -1" using assms(5,10) by (simp add: rtcp_result_def)
  from open2_opens [where fails = fails and isAddress = isAddress and ip = ip and so = so,
      OF assms(1,4,6,7,3,8,9,2)] z obtain t1 where
    t1: "open2 isAddress fails ip p q so t = Inr (-1, t1)" "\<not> isBinded t1" "rtpSocket t1 = SockBound" by auto
  then have "close_trs rio sio ts t1 = Inr t1" "p' \<noteq> 0 \<longrightarrow> open_trs isAddress fails' ip p' so' t1 = Inr (-1, t1)"
    using assms(6) by (simp_all add: close_trs_def open_trs_def open2_def)
  then show ?thesis using t1(1) by blast
qed

theorem rtcp_open_failure_sticks_witness:
  "\<exists>t1. open2 (\<lambda>x. True) (\<lambda>c. c = OpenRtcp) ''::1'' 5000 5001 False (RtpTransceiver_members 16 :: nat trs) = Inr (-1, t1)
    \<and> open_trs (\<lambda>x. True) (\<lambda>c. False) ''::1'' 6000 False t1 = Inr (-1, t1)"
proof -
  let ?t = "RtpTransceiver_members 16 :: nat trs"
  have "\<not> isBinded ?t" "\<not> workerJoinable ?t" "rtpSocket ?t = SockClosed" by (simp_all add: RtpTransceiver_members_def)
  from rtcp_open_failure_sticks [OF this, of 5000 5001 "\<lambda>x. True" "''::1''" "\<lambda>c. c = OpenRtcp" False
      "\<lambda>x. x" "\<lambda>x. x" "[]" 6000 "\<lambda>c. False" False] show ?thesis by auto
qed

subsection \<open>Destinations as a set\<close>

lemma listDestinations_add:
  "makeAddress ip = Some a \<Longrightarrow> \<exists>t'. addDestination makeAddress toText ip port t = Inr t'
     \<and> listDestinations toText t' = (if (toText a, port) \<in> set (listDestinations toText t)
          then listDestinations toText t else listDestinations toText t @ [(toText a, port)])"
  by (force simp: addDestination_def makeEndpoint_def listDestinations_def list_ex_iff)

lemma listDestinations_remove:
  "listDestinations toText (removeDestination toText ip port t) = filter (\<lambda>d. d \<noteq> (ip, port)) (listDestinations toText t)"
  by (simp add: listDestinations_def removeDestination_def filter_map o_def)

datatype dest_op = Add string u16 | Remove string u16 | Set string u16

fun run_dests ::
  "(string \<Rightarrow> 'a option) \<Rightarrow> ('a \<Rightarrow> string) \<Rightarrow> dest_op list \<Rightarrow> ('a \<times> u16) trs \<Rightarrow> ('a \<times> u16) trs res" where
  "run_dests mk tx [] t = Inr t"
| "run_dests mk tx (Add ip p # ops) t = andThen (addDestination mk tx ip p t) (run_dests mk tx ops)"
| "run_dests mk tx (Remove ip p # ops) t = run_dests mk tx ops (removeDestination tx ip p t)"
| "run_dests mk tx (Set ip p # ops) t = andThen (setDestination mk tx ip p t) (run_dests mk tx ops)"

text \<open>The abstract effect: a set of texts and ports.\<close>

fun spec_dests :: "(string \<Rightarrow> 'a option) \<Rightarrow> ('a \<Rightarrow> string) \<Rightarrow> dest_op list \<Rightarrow> (string \<times> u16) set \<Rightarrow> (string \<times> u16) set" where
  "spec_dests mk tx [] D = D"
| "spec_dests mk tx (Add ip p # ops) D = spec_dests mk tx ops (insert (tx (the (mk ip)), p) D)"
| "spec_dests mk tx (Remove ip p # ops) D = spec_dests mk tx ops (D - {(ip, p)})"
| "spec_dests mk tx (Set ip p # ops) D = spec_dests mk tx ops {(tx (the (mk ip)), p)}"

fun valid_op :: "(string \<Rightarrow> 'a option) \<Rightarrow> dest_op \<Rightarrow> bool" where
  "valid_op mk (Add ip p) = (mk ip \<noteq> None)"
| "valid_op mk (Set ip p) = (mk ip \<noteq> None)"
| "valid_op mk (Remove ip p) = True"

lemma run_dests_spec:
  assumes "\<forall>x \<in> set ops. valid_op mk x" "distinct (listDestinations tx t)"
  shows "\<exists>t'. run_dests mk tx ops t = Inr t' \<and> distinct (listDestinations tx t')
    \<and> set (listDestinations tx t') = spec_dests mk tx ops (set (listDestinations tx t))"
  using assms
proof (induction mk tx ops t rule: run_dests.induct)
  case (2 mk tx ip p ops t)
  then obtain a where a: "mk ip = Some a" by auto
  from listDestinations_add [where makeAddress = mk and ip = ip and a = a, OF a, of tx p t] obtain t1 where
    t1: "addDestination mk tx ip p t = Inr t1" "listDestinations tx t1 = (if (tx a, p) \<in> set (listDestinations tx t)
          then listDestinations tx t else listDestinations tx t @ [(tx a, p)])" by blast
  then have "distinct (listDestinations tx t1)" "set (listDestinations tx t1) = insert (tx a, p) (set (listDestinations tx t))"
    using "2.prems"(2) by auto
  then show ?case using "2.IH" [of t1] "2.prems"(1) t1(1) a by simp
next
  case (3 mk tx ip p ops t)
  have "set (listDestinations tx (removeDestination tx ip p t)) = set (listDestinations tx t) - {(ip, p)}"
    by (auto simp: listDestinations_remove)
  then show ?case using "3.IH" "3.prems" by (simp add: listDestinations_remove)
next
  case (4 mk tx ip p ops t)
  then obtain a where a: "mk ip = Some a" by auto
  from listDestinations_add [where makeAddress = mk and ip = ip and a = a, OF a, of tx p "t\<lparr>dstAddrs := []\<rparr>"] obtain t1 where
    t1: "setDestination mk tx ip p t = Inr t1" "listDestinations tx t1 = [(tx a, p)]"
    by (auto simp: setDestination_def listDestinations_def)
  then show ?case using "4.IH" [of t1] "4.prems"(1) a by simp
qed simp

text \<open>C27: with texts that are addresses, any sequence of adding, removing and setting destinations has
  the effect of the same operations on a set of written addresses and ports, without duplicates:
  what is added is the canonical text of the address, what is removed is the text as given.\<close>

theorem destinations_set:
  assumes "\<forall>x \<in> set ops. valid_op mk x" "distinct (listDestinations tx t)"
  shows "\<exists>t'. run_dests mk tx ops t = Inr t' \<and> destinationCount t' = card (set (listDestinations tx t'))
    \<and> set (listDestinations tx t') = spec_dests mk tx ops (set (listDestinations tx t))"
proof -
  from run_dests_spec [OF assms] obtain t' where
    t': "run_dests mk tx ops t = Inr t'" "distinct (listDestinations tx t')"
      "set (listDestinations tx t') = spec_dests mk tx ops (set (listDestinations tx t))" by blast
  have "destinationCount t' = length (listDestinations tx t')" by (simp add: destinationCount_def listDestinations_def)
  then show ?thesis using t' distinct_card [OF t'(2)] by auto
qed

definition canon :: "string \<Rightarrow> string option" where
  "canon ip = (if ip = ''0:0:0:0:0:0:0:1'' then Some ''::1'' else Some ip)"

theorem destinations_set_witness:
  "\<exists>t'. run_dests canon (\<lambda>x. x) [Add ''::1'' 5, Add ''0:0:0:0:0:0:0:1'' 5, Add ''::1'' 6, Remove ''::1'' 6]
      (RtpTransceiver_members 16) = Inr t' \<and> set (listDestinations (\<lambda>x. x) t') = {(''::1'', 5)}"
proof -
  let ?ops = "[Add ''::1'' 5, Add ''0:0:0:0:0:0:0:1'' 5, Add ''::1'' 6, Remove ''::1'' 6]"
  have "\<forall>x \<in> set ?ops. valid_op canon x" by (simp add: canon_def)
  moreover have "listDestinations (\<lambda>x. x) (RtpTransceiver_members 16) = []"
    by (simp add: listDestinations_def RtpTransceiver_members_def)
  ultimately show ?thesis
    using destinations_set [of ?ops canon "\<lambda>x. x" "RtpTransceiver_members 16"] by (auto simp: canon_def)
qed

text \<open>A destination added by a text that is not canonical cannot be removed by the same text.\<close>

lemma remove_needs_canonical:
  "\<exists>t'. run_dests canon (\<lambda>x. x) [Add ''0:0:0:0:0:0:0:1'' 5, Remove ''0:0:0:0:0:0:0:1'' 5]
      (RtpTransceiver_members 16) = Inr t' \<and> destinationCount t' = 1"
  by (simp add: addDestination_def makeEndpoint_def canon_def removeDestination_def destinationCount_def
      RtpTransceiver_members_def)

subsection \<open>Starting up and shutting down\<close>

text \<open>A transceiver constructed before \<open>init\<close> was called blocks its thread for ever, because the
  constructor holds \<open>masterMx\<close> when it calls \<open>init\<close>, which locks it again. After \<open>init\<close> the
  constructor succeeds and leaves the process-wide state alone; \<open>init\<close> may not be called twice,
  and \<open>shutdown\<close> allows it again.\<close>

theorem startup:
  "RtpTransceiver_new n master_initial = (Inl Hang :: ('e trs \<times> master) res)
   \<and> (\<forall>k > 0. \<exists>m. init False k master_initial = Inr m \<and> isInited m \<and> keepAlive m = [30000]
        \<and> RtpTransceiver_new n m = Inr (RtpTransceiver_members n :: 'e trs, m)
        \<and> isOk (init False k m) = False
        \<and> (\<exists>m2. shutdown m = Inr m2 \<and> isOk (shutdown m2) = False \<and> isOk (init False k m2)))"
  by (simp add: RtpTransceiver_new_def init_def shutdown_def master_initial_def keepSocketIo_def)

theorem startup_witness:
  "\<exists>m. init False 4 master_initial = Inr m \<and> RtpTransceiver_new 16 m = Inr (RtpTransceiver_members 16 :: nat trs, m)"
  using startup [of 16] by (metis zero_less_numeral)

subsection \<open>Sending needs an open transceiver\<close>

text \<open>Every call that sends or limits the bandwidth on a transceiver that was not opened, or whose
  senders were deleted by \<open>close()\<close>, uses a null or deleted sender; only \<open>sendRtp\<close> without any
  destination throws before it does.\<close>

theorem send_needs_open:
  assumes "rtpSender t = Null \<or> rtpSender t = Freed" "rtcpSender t = Null \<or> rtcpSender t = Freed"
  shows "sendUdp ct udps dst t = Inl Undefined \<and> sendRtpTo ct rtps dst t = Inl Undefined
    \<and> sendRtcp ct rtcps dst t = Inl Undefined \<and> trs_setBandwidth mx unit t = Inl Undefined
    \<and> trs_setCongestionControl en t = Inl Undefined
    \<and> sendRtp ct rtps t = (if destinationCount t = 0 then Inl (LogicError ''RtpTransceiver sendRtp: targetSize is 0.'')
        else Inl Undefined)"
  using assms by (auto simp: sendUdp_def sendRtpTo_def sendRtcp_def trs_setBandwidth_def
      trs_setCongestionControl_def sendRtp_def sendRtpMulti_def withRtpSender_def withRtcpSender_def
      onLive_def destinationCount_def split: list.splits)

theorem send_needs_open_witness:
  "trs_setCongestionControl True (RtpTransceiver_members 16 :: nat trs) = Inl Undefined"
  using send_needs_open [of "RtpTransceiver_members 16 :: nat trs"] by (simp add: RtpTransceiver_members_def)

end
