(* ===== verification/BackupWorker.thy ===== *)
theory BackupWorker
  imports Worker
begin

text \<open>
  The earlier worker that \<open>rtpTrs.hpp\<close> keeps as a backup (\<open>recvWorker2\<close>): one queue, no RTCP, and no branch of its own
  for an engine without reordering or for raw datagrams. What happens while it waits is an argument.
\<close>

definition routeUdp :: "int \<Rightarrow> bytes \<times> 'e \<Rightarrow> bool \<times> bool \<times> 'e trs \<Rightarrow> (bool \<times> bool \<times> 'e trs) res" where
  "routeUdp currentTime x st =
     (case st of (gotRtp, gotUnknonMsg, t) \<Rightarrow>
        if \<not> recvUdpOnly t then routeRtp currentTime x st
        else if udpNotifier t \<noteq> None then Inr (gotRtp, True, pushUdpQueue x t)
        else Inr st)"

primrec routeQueue :: "int \<Rightarrow> (bytes \<times> 'e) list \<Rightarrow> bool \<times> bool \<times> 'e trs \<Rightarrow> (bool \<times> bool \<times> 'e trs) res" where
  "routeQueue currentTime [] st = Inr st"
| "routeQueue currentTime (x # xs) st = andThen (routeUdp currentTime x st) (routeQueue currentTime xs)"

definition processQueue :: "int \<Rightarrow> 'e trs \<Rightarrow> 'e trs res" where
  "processQueue currentTime t =
     andThen (routeQueue currentTime (rtpWorkingQueue t) (False, False, t)) (\<lambda>(gotRtp, gotUnknonMsg, t).
       let t = notify (gotRtp \<or> stopRecvWorker t) (rtpNotifier t) (t\<lparr>rtpWorkingQueue := []\<rparr>)
       in Inr (notify (gotUnknonMsg \<or> stopRecvWorker t) (udpNotifier t) t))"

text \<open>One pass of the loop; the flag says whether it was the last.\<close>

definition workerRound2 :: "int \<Rightarrow> ('e trs \<Rightarrow> 'e trs) \<Rightarrow> 'e trs \<Rightarrow> (bool \<times> 'e trs) res" where
  "workerRound2 currentTime waiting t =
     andThen (dequeueAll (rtpRecvBuffQueue t) (rtpWorkingQueue t)) (\<lambda>(w, q).
       let t = t\<lparr>rtpRecvBuffQueue := q, rtpWorkingQueue := w\<rparr>
       in if w = [] then
            let t = waiting t
            in if stopRecvWorker t then Inr (True, t)
               else andThen (dequeueAll (rtpRecvBuffQueue t) (rtpWorkingQueue t)) (\<lambda>(w, q).
                    andThen (processQueue currentTime (t\<lparr>rtpRecvBuffQueue := q, rtpWorkingQueue := w\<rparr>)) (\<lambda>t.
                      Inr (False, t)))
          else andThen (processQueue currentTime t) (\<lambda>t. Inr (False, t)))"

subsection \<open>Both workers do the same\<close>

lemma routeQueue_routeAll:
  assumes "routed t" "\<not> recvUdpOnly t"
  shows "routeQueue ct xs (g1, g2, t) = routeAll ct xs (g1, g2, t)"
  using assms
proof (induction xs arbitrary: g1 g2 t)
  case (Cons x xs)
  obtain udp src where x: "x = (udp, src)" by (cases x)
  from routeRtp_ok [OF Cons.prems(1), of ct udp src g1 g2] obtain h1 h2 u where
    u: "routeRtp ct x (g1, g2, t) = Inr (h1, h2, u)" "routed u" "same_mode t u" unfolding x by blast
  have "\<not> recvUdpOnly u" using u(3) Cons.prems(2) by (simp add: same_mode_def)
  then show ?case using Cons.IH [OF u(2)] u(1) Cons.prems(2) by (simp add: routeUdp_def)
qed simp

text \<open>What the two leave alike.\<close>

definition received :: "'e trs \<Rightarrow> (rtp \<times> 'e) list \<times> (bytes \<times> 'e) list \<times> (StreamKey \<times> pipe) list \<times> (bytes \<times> 'e) list" where
  "received t = (recvRtpQueue t, recvUdpQueue t, rtpPipeMap t, rtpWorkingQueue t)"

lemma received_notify [simp]: "received (notify b n t) = received t"
  by (simp add: notify_def received_def split: option.splits)

lemma received_notifyAll [simp]: "received (notifyAll a b c t) = received t"
  by (simp add: notifyAll_def Let_def)



text \<open>
  For raw datagrams without a notifier the backup discards them, and stops when it is told to; the worker in use never
  does (\<open>udp_only_never_stops\<close>).
\<close>

lemma routeQueue_discards:
  "recvUdpOnly t \<Longrightarrow> udpNotifier t = None \<Longrightarrow> routeQueue ct xs (g1, g2, t) = Inr (g1, g2, t)"
  by (induction xs) (simp_all add: routeUdp_def)

theorem backup_stops:
  assumes "trs_inv t" "recvUdpOnly t" "udpNotifier t = None" "stopRecvWorker t"
    "rtpWorkingQueue t @ ring_contents (rtpRecvBuffQueue t) \<noteq> []"
  shows "\<exists>u v. workerRound2 ct id t = Inr (False, u) \<and> workerRound2 ct' id u = Inr (True, v)"
proof -
  have inv: "ring_inv (rtpRecvBuffQueue t)" using assms(1) by (simp add: trs_inv_def)
  define w where "w = rtpWorkingQueue t @ ring_contents (rtpRecvBuffQueue t)"
  have wn: "w \<noteq> []" using assms(5) by (simp add: w_def)
  from dequeueAll_spec [OF inv, of "rtpWorkingQueue t"] obtain q where
    q: "dequeueAll (rtpRecvBuffQueue t) (rtpWorkingQueue t) = Inr (w, q)" "ring_inv q" "ring_contents q = []"
    by (auto simp: w_def)
  define t1 where "t1 = t\<lparr>rtpRecvBuffQueue := q, rtpWorkingQueue := w\<rparr>"
  have "routeQueue ct w (False, False, t1) = Inr (False, False, t1)"
    using assms(2,3) by (intro routeQueue_discards) (simp_all add: t1_def)
  then obtain u where u: "processQueue ct t1 = Inr u" "rtpWorkingQueue u = []" "rtpRecvBuffQueue u = q" "stopRecvWorker u"
    using assms(3,4) by (auto simp: processQueue_def Let_def notify_def t1_def split: option.splits)
  have 1: "workerRound2 ct id t = Inr (False, u)"
    using q(1) u(1) wn by (simp add: workerRound2_def t1_def [symmetric] Let_def)
  from dequeueAll_spec [OF q(2), of "[]"] obtain q' where "dequeueAll q [] = Inr ([], q')" using q(3) by auto
  then have "workerRound2 ct' id u = Inr (True, u\<lparr>rtpRecvBuffQueue := q', rtpWorkingQueue := []\<rparr>)"
    using u by (simp add: workerRound2_def Let_def)
  then show ?thesis using 1 by blast
qed

end
