(* ===== verification/Text.thy ===== *)
theory Text
  imports Prelude "HOL-Library.Sublist"
begin

text \<open>
  The string helpers of \<open>mod/janitor/include/seeker/common.h\<close>: the class \<open>seeker::String\<close> (prefix
  \<open>String_\<close>) and the namespace \<open>seeker::string\<close> (prefix \<open>string_\<close>), which has a second version of
  most of them. A \<open>std::string\<close> is a list of characters; \<open>npos\<close> is \<open>None\<close>; \<open>substr\<close> and \<open>erase\<close>
  throw \<open>out_of_range\<close> when their position is past the end.
\<close>

subsection \<open>The standard library\<close>

definition tolower :: "char \<Rightarrow> char" where
  "tolower c = (let n = of_char c :: nat in if 65 \<le> n \<and> n \<le> 90 then char_of (n + 32) else c)"

definition toupper :: "char \<Rightarrow> char" where
  "toupper c = (let n = of_char c :: nat in if 97 \<le> n \<and> n \<le> 122 then char_of (n - 32) else c)"

definition isspace :: "char \<Rightarrow> bool" where
  "isspace c = (let n = of_char c :: nat in n = 32 \<or> 9 \<le> n \<and> n \<le> 13)"

primrec find_in :: "string \<Rightarrow> string \<Rightarrow> nat option" where
  "find_in sp [] = (if sp = [] then Some 0 else None)"
| "find_in sp (c # cs) =
     (if take (length sp) (c # cs) = sp then Some 0 else map_option Suc (find_in sp cs))"

definition find_pos :: "string \<Rightarrow> string \<Rightarrow> nat \<Rightarrow> nat option" where
  "find_pos target sp pos =
     (if length target < pos then None else map_option ((+) pos) (find_in sp (drop pos target)))"

definition substr :: "string \<Rightarrow> nat \<Rightarrow> nat \<Rightarrow> string res" where
  "substr s pos n = (if length s < pos then Inl OutOfRange else Inr (take n (drop pos s)))"

definition erase :: "string \<Rightarrow> nat \<Rightarrow> nat \<Rightarrow> string res" where
  "erase s pos n = (if length s < pos then Inl OutOfRange else Inr (take pos s @ drop (pos + n) s))"

subsection \<open>The class String\<close>

definition String_toLower :: "string \<Rightarrow> string" where
  "String_toLower target = foldl (\<lambda>out c. out @ [tolower c]) [] target"

definition String_toUpper :: "string \<Rightarrow> string" where
  "String_toUpper target = foldl (\<lambda>out c. out @ [toupper c]) [] target"

text \<open>\<open>npos\<close> as a count is the whole rest; \<open>npos + 1\<close> is zero.\<close>

definition String_trim :: "string \<Rightarrow> string res" where
  "String_trim s =
     (if s = [] then Inr []
      else
        let lead = length (takeWhile (\<lambda>c. c = CHR '' '') s);
            keep = length (dropWhile (\<lambda>c. c = CHR '' '') (rev s))
        in andThen (erase s 0 lead) (\<lambda>rst. erase rst keep (length s)))"

primrec String_splitLoop :: "nat \<Rightarrow> string \<Rightarrow> string \<Rightarrow> nat \<Rightarrow> string list \<Rightarrow> string list res" where
  "String_splitLoop 0 target sp pos rst = Inl OutOfFuel"
| "String_splitLoop (Suc fuel) target sp pos rst =
     (case find_pos target sp pos of
        Some f \<Rightarrow> andThen (substr target pos (f - pos)) (\<lambda>r.
          String_splitLoop fuel target sp (f + length sp) (rst @ [r]))
      | None \<Rightarrow> andThen (substr target pos (length target)) (\<lambda>r. Inr (rst @ [r])))"

definition String_split :: "nat \<Rightarrow> string \<Rightarrow> string \<Rightarrow> string list res" where
  "String_split fuel target sp =
     (if target = [] then Inr [] else String_splitLoop fuel target sp 0 [])"

text \<open>\<open>regex_replace\<close> of \<open>\s+\<close> by the empty text.\<close>

definition String_removeBlanks :: "string \<Rightarrow> string" where
  "String_removeBlanks target = filter (\<lambda>c. \<not> isspace c) target"

primrec lastKept :: "string \<Rightarrow> nat \<Rightarrow> nat" where
  "lastKept target 0 = 0"
| "lastKept target (Suc i) =
     (if target ! Suc i = CHR 0x0A \<or> target ! Suc i = CHR 0x0D then lastKept target i else Suc i)"

text \<open>For an empty text \<open>len - 1\<close> wraps around and the loop reads past the end.\<close>

definition String_removeLastEmptyLines :: "string \<Rightarrow> string res" where
  "String_removeLastEmptyLines target =
     (if target = [] then Inl Undefined
      else substr target 0 (lastKept target (length target - 1) + 1))"

subsection \<open>The namespace string\<close>

definition string_toLower :: "string \<Rightarrow> string" where
  "string_toLower target = foldl (\<lambda>out c. out @ [tolower c]) [] target"

definition string_toUpper :: "string \<Rightarrow> string" where
  "string_toUpper target = foldl (\<lambda>out c. out @ [toupper c]) [] target"

definition isBlank :: "char \<Rightarrow> bool" where
  "isBlank c \<longleftrightarrow> c = CHR '' '' \<or> c = CHR 0x09"

text \<open>The scan from the end: it tests \<open>target[begin]\<close>.\<close>

primrec trimEnd :: "string \<Rightarrow> nat \<Rightarrow> nat \<Rightarrow> nat" where
  "trimEnd target bgn 0 = 0"
| "trimEnd target bgn (Suc e) =
     (if bgn < Suc e \<and> isBlank (target ! bgn) then trimEnd target bgn e else Suc e)"

definition string_trim :: "string \<Rightarrow> string res" where
  "string_trim target =
     (let len = length target; bgn = length (takeWhile isBlank target)
      in if len < bgn then Inr []
         else if bgn = len then substr target bgn len
         else let e = trimEnd target bgn (len - 1) in substr target bgn (e - bgn + 1))"

primrec string_splitLoop ::
  "nat \<Rightarrow> nat \<Rightarrow> nat \<Rightarrow> string \<Rightarrow> string \<Rightarrow> nat \<Rightarrow> string list \<Rightarrow> string list res" where
  "string_splitLoop 0 limit cnt target sp pos rst = Inl OutOfFuel"
| "string_splitLoop (Suc fuel) limit cnt target sp pos rst =
     (case find_pos target sp pos of
        Some f \<Rightarrow>
          if cnt < limit - 1 then
            andThen (substr target pos (f - pos)) (\<lambda>r.
              string_splitLoop fuel limit (cnt + 1) target sp (f + length sp) (rst @ [r]))
          else andThen (substr target pos (length target)) (\<lambda>r. Inr (rst @ [r]))
      | None \<Rightarrow> andThen (substr target pos (length target)) (\<lambda>r. Inr (rst @ [r])))"

definition string_split :: "nat \<Rightarrow> string \<Rightarrow> string \<Rightarrow> u32 \<Rightarrow> string list res" where
  "string_split fuel target sp limit =
     (if length target = 0 \<or> length sp = 0 \<or> limit = 0 \<or> limit = 1 then Inr [target]
      else string_splitLoop fuel (unat limit) 0 target sp 0 [])"

definition string_removeBlanks :: "string \<Rightarrow> string" where
  "string_removeBlanks target = filter (\<lambda>c. \<not> isspace c) target"

definition isEol :: "char \<Rightarrow> bool" where
  "isEol c \<longleftrightarrow> c = CHR 0x0D \<or> c = CHR 0x0A"

primrec linesEnd :: "string \<Rightarrow> nat \<Rightarrow> nat \<Rightarrow> nat" where
  "linesEnd target bgn 0 = 0"
| "linesEnd target bgn (Suc e) =
     (if bgn < Suc e \<and> isEol (target ! Suc e) then linesEnd target bgn e else Suc e)"

definition string_removeLastEmptyLines :: "string \<Rightarrow> string res" where
  "string_removeLastEmptyLines target =
     (let len = length target; bgn = length (takeWhile isEol target)
      in if len < bgn then Inr []
         else if bgn = len then substr target bgn len
         else let e = linesEnd target bgn (len - 1) in substr target bgn (e - bgn + 1))"

text \<open>\<open>compare(pos, n, t) = 0\<close> compares the characters from \<open>pos\<close>, at most \<open>n\<close> of them, with \<open>t\<close>.\<close>

definition startWith :: "string \<Rightarrow> string \<Rightarrow> bool" where
  "startWith content target \<longleftrightarrow> length target \<le> length content \<and> take (length target) content = target"

definition endWith :: "string \<Rightarrow> string \<Rightarrow> bool" where
  "endWith content target \<longleftrightarrow> length target \<le> length content
     \<and> take (length target) (drop (length content - length target) content) = target"

definition compareIgnoreCase :: "string \<Rightarrow> string \<Rightarrow> bool" where
  "compareIgnoreCase content target \<longleftrightarrow>
     length content = length target \<and> string_toLower content = string_toLower target"

text \<open>The two overloads of \<open>Map::getOrDefault\<close>, for the unordered and the ordered map.\<close>

definition getOrDefault_unordered :: "('k \<rightharpoonup> 'v) \<Rightarrow> 'k \<Rightarrow> 'v \<Rightarrow> 'v" where
  "getOrDefault_unordered m key defaultValue = (case m key of Some v \<Rightarrow> v | None \<Rightarrow> defaultValue)"

definition getOrDefault_ordered :: "('k \<rightharpoonup> 'v) \<Rightarrow> 'k \<Rightarrow> 'v \<Rightarrow> 'v" where
  "getOrDefault_ordered m key defaultValue = (case m key of Some v \<Rightarrow> v | None \<Rightarrow> defaultValue)"

subsection \<open>Case and blanks\<close>

lemma foldl_snoc: "foldl (\<lambda>out c. out @ [f c]) acc xs = acc @ map f xs"
  by (induction xs arbitrary: acc) simp_all

lemma case_maps [simp]:
  "String_toLower s = map tolower s" "String_toUpper s = map toupper s"
  "string_toLower s = map tolower s" "string_toUpper s = map toupper s"
  by (simp_all add: String_toLower_def String_toUpper_def string_toLower_def string_toUpper_def foldl_snoc)

lemma of_char_char_of [simp]: "n < 256 \<Longrightarrow> (of_char (char_of n) :: nat) = n"
  by simp

lemma tolower_toupper: "tolower (toupper c) = tolower c"
proof -
  have "of_char c < (256 :: nat)" by simp
  then show ?thesis by (auto simp: tolower_def toupper_def Let_def)
qed

subsection \<open>Trimming\<close>

lemma take_all_app: "n = length xs + k \<Longrightarrow> take n (xs @ ys) = xs @ take k ys"
  by simp

text \<open>\<open>String::trim\<close> on a text with \<open>a\<close> blanks before and \<open>b\<close> after its words looks for the last
  word in the untrimmed text but erases in the trimmed one: it throws \<open>out_of_range\<close> when there
  are more blanks before than after, and otherwise leaves as many blanks after the words as
  there were before them.\<close>

theorem String_trim_spec:
  assumes "w \<noteq> []" "hd w \<noteq> CHR '' ''" "last w \<noteq> CHR '' ''"
  shows "String_trim (replicate a CHR '' '' @ w @ replicate b CHR '' '') =
    (if b < a then Inl OutOfRange else Inr (w @ replicate a CHR '' ''))"
proof -
  let ?P = "\<lambda>c. c = CHR '' ''"
  let ?s = "replicate a CHR '' '' @ w @ replicate b CHR '' ''"
  obtain c cs where w: "w = c # cs" using assms(1) by (cases w) auto
  have "rev w = last w # rev (butlast w)" using assms(1) by (metis append_butlast_last_id rev_eq_Cons_iff rev_rev_ident)
  then obtain d ds where r: "rev w = d # ds" "d \<noteq> CHR '' ''" using assms(3) by blast
  have drop_rep: "dropWhile ?P (replicate n CHR '' '' @ xs) = dropWhile ?P xs" for n xs
    by (induction n) simp_all
  have take_rep: "takeWhile ?P (replicate n CHR '' '' @ c # xs) = replicate n CHR '' ''" for n xs
    using assms(2) w by (induction n) simp_all
  have lead: "length (takeWhile ?P ?s) = a" unfolding w append_Cons take_rep by simp
  have "rev ?s = replicate b CHR '' '' @ d # ds @ replicate a CHR '' ''" using r by simp
  then have "dropWhile ?P (rev ?s) = d # ds @ replicate a CHR '' ''" using r(2) by (simp only: drop_rep) simp
  moreover have "length (d # ds) = length w" using arg_cong [OF r(1), of length] by simp
  ultimately have keep: "length (dropWhile ?P (rev ?s)) = length w + a" by simp
  have "String_trim ?s = andThen (erase ?s 0 a) (\<lambda>rst. erase rst (length w + a) (length ?s))"
    using w unfolding String_trim_def Let_def lead keep by simp
  also have "\<dots> = (if length w + b < length w + a then Inl OutOfRange
      else Inr (take (length w + a) (w @ replicate b CHR '' '')))"
    by (simp add: erase_def)
  finally show ?thesis by (simp add: min_def)
qed

theorem String_trim_spec_witness:
  "String_trim ''  ab '' = Inl OutOfRange \<and> String_trim '' ab  '' = Inr ''ab ''"
  using String_trim_spec [of "''ab''" 2 1] String_trim_spec [of "''ab''" 1 2] by (simp add: numeral_2_eq_2)

text \<open>\<open>string::trim\<close> is the same function as dropping the blanks at the beginning: its second
  loop tests the first kept character instead of the last one, so blanks at the end stay.\<close>

theorem string_trim_left: "string_trim target = Inr (dropWhile isBlank target)"
proof -
  let ?b = "length (takeWhile isBlank target)"
  have le: "?b \<le> length target" by (rule length_takeWhile_le)
  have dw: "dropWhile isBlank target = drop ?b target" by (rule dropWhile_eq_drop)
  show ?thesis
  proof (cases "?b = length target")
    case True
    have "string_trim target = substr target ?b (length target)" unfolding string_trim_def Let_def True by simp
    then show ?thesis using dw le by (simp add: substr_def)
  next
    case False
    then have lt: "?b < length target" using le by simp
    have nb: "\<not> isBlank (target ! ?b)" using nth_length_takeWhile [OF lt] .
    have "trimEnd target ?b (length target - 1) = length target - 1"
      using nb by (cases "length target - 1") simp_all
    moreover have "length target - 1 - ?b + 1 = length target - ?b" using lt by simp
    ultimately show ?thesis using lt le dw by (simp add: string_trim_def substr_def Let_def)
  qed
qed

subsection \<open>Searching and splitting\<close>

lemma find_in_Some:
  "find_in sp s = Some k \<Longrightarrow> k \<le> length s \<and> take (length sp) (drop k s) = sp
     \<and> (\<forall>i < k. take (length sp) (drop i s) \<noteq> sp)"
proof (induction s arbitrary: k)
  case (Cons c s)
  show ?case
  proof (cases "take (length sp) (c # s) = sp")
    case True
    then show ?thesis using Cons.prems by simp
  next
    case False
    then obtain j where j: "find_in sp s = Some j" "k = Suc j" using Cons.prems by (auto split: if_splits)
    show ?thesis using Cons.IH [OF j(1)] False j(2) by (auto simp: less_Suc_eq_0_disj)
  qed
qed (auto split: if_splits)

lemma find_in_None: "find_in sp s = None \<longleftrightarrow> (\<forall>i \<le> length s. take (length sp) (drop i s) \<noteq> sp)"
proof (induction s)
  case (Cons c s)
  have "(\<forall>i \<le> length (c # s). take (length sp) (drop i (c # s)) \<noteq> sp)
      \<longleftrightarrow> take (length sp) (c # s) \<noteq> sp \<and> (\<forall>i \<le> length s. take (length sp) (drop i s) \<noteq> sp)"
    by (metis drop0 drop_Suc_Cons length_Cons less_eq_nat.simps(1) not0_implies_Suc not_less_eq_eq)
  then show ?case using Cons.IH by simp
qed auto

lemma find_in_bound:
  assumes "find_in sp s = Some k"
  shows "k + length sp \<le> length s"
proof -
  have m: "k \<le> length s" "take (length sp) (drop k s) = sp" using find_in_Some [OF assms] by blast+
  have "min (length sp) (length s - k) = length sp" using arg_cong [OF m(2), of length] by (simp add: min.commute)
  then show ?thesis using m(1) by (simp add: min_def split: if_splits)
qed

text \<open>The piece before the first match contains no match.\<close>

lemma find_in_before:
  assumes "find_in sp s = Some k" "sp \<noteq> []"
  shows "find_in sp (take k s) = None"
  unfolding find_in_None
proof (intro allI impI)
  fix i assume i: "i \<le> length (take k s)"
  show "take (length sp) (drop i (take k s)) \<noteq> sp"
  proof
    assume eq: "take (length sp) (drop i (take k s)) = sp"
    have "length sp \<le> k - i" using arg_cong [OF eq, of length] by (simp add: min_def split: if_splits)
    then have "take (length sp) (drop i s) = sp" using eq by (simp add: drop_take)
    moreover have "i < k" using \<open>length sp \<le> k - i\<close> assms(2) by (cases sp) simp_all
    ultimately show False using find_in_Some [OF assms(1)] by blast
  qed
qed

primrec join :: "string \<Rightarrow> string list \<Rightarrow> string" where
  "join sp [] = []"
| "join sp (p # ps) = (if ps = [] then p else p @ sp @ join sp ps)"

lemma join_Cons: "ps \<noteq> [] \<Longrightarrow> join sp (p # ps) = p @ sp @ join sp ps"
  by simp

lemma join_single [simp]: "join sp [p] = p"
  by simp

lemma split_at_match:
  assumes "find_in sp (drop pos target) = Some k"
  shows "drop pos target = take k (drop pos target) @ sp @ drop (pos + k + length sp) target"
proof -
  have "take (length sp) (drop k (drop pos target)) = sp" using find_in_Some [OF assms] by blast
  then have "drop k (drop pos target) = sp @ drop (length sp) (drop k (drop pos target))"
    by (metis append_take_drop_id)
  then show ?thesis by (metis append_take_drop_id drop_drop add.commute add.left_commute)
qed

lemma String_splitLoop_spec:
  assumes "sp \<noteq> []" "pos \<le> length target" "length target - pos < fuel"
  shows "\<exists>ps. String_splitLoop fuel target sp pos rst = Inr (rst @ ps) \<and> ps \<noteq> []
    \<and> join sp ps = drop pos target \<and> (\<forall>p \<in> set ps. find_in sp p = None)"
  using assms(2,3)
proof (induction fuel arbitrary: pos rst)
  case (Suc fuel)
  show ?case
  proof (cases "find_in sp (drop pos target)")
    case None
    then have "String_splitLoop (Suc fuel) target sp pos rst = Inr (rst @ [drop pos target])"
      using Suc.prems(1) by (simp add: find_pos_def substr_def)
    then show ?thesis using None by (intro exI [of _ "[drop pos target]"]) simp
  next
    case (Some k)
    let ?r = "take k (drop pos target)" and ?next = "pos + k + length sp"
    have b: "?next \<le> length target" using find_in_bound [OF Some] Suc.prems(1) by simp
    have "length target - ?next < fuel" using Suc.prems b assms(1) by (cases sp) auto
    from Suc.IH [OF b this, of "rst @ [?r]"] obtain ps where
      ps: "String_splitLoop fuel target sp ?next (rst @ [?r]) = Inr ((rst @ [?r]) @ ps)" "ps \<noteq> []"
        "join sp ps = drop ?next target" "\<forall>p \<in> set ps. find_in sp p = None" by blast
    have "String_splitLoop (Suc fuel) target sp pos rst = Inr (rst @ ?r # ps)"
      using Some Suc.prems(1) ps(1) by (simp add: find_pos_def substr_def)
    moreover have "join sp (?r # ps) = drop pos target"
      using join_Cons [OF ps(2)] ps(3) split_at_match [OF Some] by simp
    moreover have "find_in sp ?r = None" by (rule find_in_before [OF Some assms(1)])
    ultimately show ?thesis using ps(4) by (intro exI [of _ "?r # ps"]) simp
  qed
qed simp

text \<open>With a separator that is not empty \<open>String::split\<close> returns, within as many passes as the text
  has characters and one: the pieces joined by the separator give the text back and none of
  them contains the separator. With an empty separator it runs for ever on every text that is
  not empty, collecting empty pieces.\<close>

theorem String_split_spec:
  assumes "target \<noteq> []"
  shows "if sp = [] then String_split fuel target sp = Inl OutOfFuel
    else length target < fuel \<longrightarrow> (\<exists>ps. String_split fuel target sp = Inr ps \<and> join sp ps = target
           \<and> (\<forall>p \<in> set ps. find_in sp p = None))"
proof (cases "sp = []")
  case True
  have f: "find_pos target [] 0 = Some 0" by (cases target) (simp_all add: find_pos_def)
  have "String_splitLoop fuel target [] 0 rst = Inl OutOfFuel" for rst
    by (induction fuel arbitrary: rst) (simp_all add: f substr_def)
  then show ?thesis using True assms by (simp add: String_split_def)
next
  case False
  then show ?thesis using assms String_splitLoop_spec [of sp 0 target fuel "[]"] by (auto simp: String_split_def)
qed

theorem String_split_spec_witness:
  "\<exists>ps. String_split 6 ''a, b'' '', '' = Inr ps \<and> join '', '' ps = ''a, b''"
  using String_split_spec [of "''a, b''" "'', ''" 6] by auto

text \<open>The version with a limit always returns, and gives at most as many pieces as the limit.\<close>

lemma string_splitLoop_spec:
  assumes "sp \<noteq> []" "pos \<le> length target" "length target - pos < fuel" "cnt < limit"
  shows "\<exists>ps. string_splitLoop fuel limit cnt target sp pos rst = Inr (rst @ ps) \<and> ps \<noteq> []
    \<and> join sp ps = drop pos target \<and> length ps + cnt \<le> limit"
  using assms(2-4)
proof (induction fuel arbitrary: pos rst cnt)
  case (Suc fuel)
  show ?case
  proof (cases "find_in sp (drop pos target) = None \<or> \<not> cnt < limit - 1")
    case True
    then have "string_splitLoop (Suc fuel) limit cnt target sp pos rst = Inr (rst @ [drop pos target])"
      using Suc.prems(1) by (auto simp: find_pos_def substr_def split: option.splits)
    then show ?thesis using Suc.prems(3) by (intro exI [of _ "[drop pos target]"]) simp
  next
    case False
    then obtain k where Some: "find_in sp (drop pos target) = Some k" and c: "cnt < limit - 1" by auto
    let ?r = "take k (drop pos target)" and ?next = "pos + k + length sp"
    have b: "?next \<le> length target" using find_in_bound [OF Some] Suc.prems(1) by simp
    have "length target - ?next < fuel" using Suc.prems b assms(1) by (cases sp) auto
    moreover have "cnt + 1 < limit" using c by simp
    ultimately obtain ps where
      ps: "string_splitLoop fuel limit (cnt + 1) target sp ?next (rst @ [?r]) = Inr ((rst @ [?r]) @ ps)" "ps \<noteq> []"
        "join sp ps = drop ?next target" "length ps + (cnt + 1) \<le> limit"
      using Suc.IH [OF b, of "cnt + 1" "rst @ [?r]"] by blast
    have "string_splitLoop (Suc fuel) limit cnt target sp pos rst = Inr (rst @ ?r # ps)"
      using Some Suc.prems(1) ps(1) c by (simp add: find_pos_def substr_def)
    moreover have "join sp (?r # ps) = drop pos target"
      using join_Cons [OF ps(2)] ps(3) split_at_match [OF Some] by simp
    ultimately show ?thesis using ps(4) by (intro exI [of _ "?r # ps"]) simp
  qed
qed simp

text \<open>\<open>string::split\<close> returns on every input: its pieces joined by the separator give the text back,
  and a limit other than zero bounds their number.\<close>

theorem string_split_spec:
  assumes "length target < fuel"
  shows "\<exists>ps. string_split fuel target sp limit = Inr ps \<and> join sp ps = target
    \<and> (limit \<noteq> 0 \<longrightarrow> length ps \<le> unat limit)"
proof (cases "length target = 0 \<or> length sp = 0 \<or> limit = 0 \<or> limit = 1")
  case True
  then show ?thesis by (auto simp: string_split_def unat_eq_zero Suc_le_eq word_neq_0_conv unat_gt_0)
next
  case False
  then have "sp \<noteq> []" "0 < unat limit" by (auto simp: unat_gt_0)
  then show ?thesis using False assms string_splitLoop_spec [of sp 0 target fuel 0 "unat limit" "[]"]
    by (auto simp: string_split_def)
qed

theorem string_split_spec_witness:
  "\<exists>ps. string_split 9 ''a=b=c'' ''='' 2 = Inr ps \<and> join ''='' ps = ''a=b=c'' \<and> length ps \<le> 2"
  using string_split_spec [of "''a=b=c''" 9 "''=''" 2] by auto

subsection \<open>Beginnings and ends\<close>

lemma startWith_prefix: "startWith content target \<longleftrightarrow> prefix target content"
  by (auto simp: startWith_def prefix_def) (metis append_take_drop_id)

lemma endWith_suffix: "endWith content target \<longleftrightarrow> suffix target content"
  by (auto simp: endWith_def suffix_def) (metis append_take_drop_id)

lemma compareIgnoreCase_iff: "compareIgnoreCase content target \<longleftrightarrow> map tolower content = map tolower target"
  using map_eq_imp_length_eq [of tolower content tolower target] by (auto simp: compareIgnoreCase_def)

end
