(* ===== verification/Serial.thy ===== *)
theory Serial
  imports Bytes Text
begin

text \<open>
  The rest of the byte helpers of \<open>mod/janitor/include/seeker/common.h\<close>: hexadecimal text, the
  length-prefixed form of integer vectors, the dumps, the copies of these helpers in the class
  \<open>ByteArray\<close> (prefix \<open>ByteArray_\<close>), and \<open>SASLprep\<close>.
\<close>

subsection \<open>Hexadecimal text\<close>

text \<open>The comparison \<open>c >= 'a'\<close> is of signed characters; the values are stored in \<open>uint8_t\<close>.\<close>

definition fromA :: "char \<Rightarrow> bool" where
  "fromA c \<longleftrightarrow> (let n = of_char c :: nat in 97 \<le> n \<and> n < 128)"

definition highNibble :: "char \<Rightarrow> u8" where
  "highNibble h = (let c = tolower h in if fromA c then of_char h - of_char CHR ''a'' + 10
     else of_char c - of_char CHR ''0'')"

definition lowNibble :: "char \<Rightarrow> u8" where
  "lowNibble h = (let c = tolower h in if fromA c then of_char c - of_char CHR ''a'' + 10
     else of_char c - of_char CHR ''0'')"

fun hex2binLoop :: "string \<Rightarrow> bytes" where
  "hex2binLoop (h # l # cs) = (highNibble h * 16 + lowNibble l) # hex2binLoop cs"
| "hex2binLoop _ = []"

definition hex2bin :: "string \<Rightarrow> bytes res" where
  "hex2bin hex = (if length hex mod 2 \<noteq> 0 then Inl (RuntimeError ''hex2bin: hex.size % 2 != 0'')
     else Inr (hex2binLoop hex))"

definition hexDigit :: "nat \<Rightarrow> char" where
  "hexDigit d = char_of (if d < 10 then 48 + d else 87 + d)"

definition hex2 :: "u8 \<Rightarrow> string" where
  "hex2 b = [hexDigit (unat b div 16), hexDigit (unat b mod 16)]"

text \<open>The overload on a pointer and a length; \<open>data\<close> is the buffer from the pointer on.\<close>

primrec hexLoop :: "nat \<Rightarrow> nat \<Rightarrow> bytes \<Rightarrow> string \<Rightarrow> nat \<Rightarrow> string res" where
  "hexLoop 0 index data separate hexInALine = Inr []"
| "hexLoop (Suc k) index data separate hexInALine =
     andThen (at data index) (\<lambda>d.
       andThen (hexLoop k (Suc index) data separate hexInALine) (\<lambda>rest.
         Inr (hex2 d @ separate
           @ (if index mod hexInALine = hexInALine - 1 then [CHR 0x0A] else []) @ rest)))"

definition binary2HexString_ptr :: "bytes \<Rightarrow> nat \<Rightarrow> string \<Rightarrow> nat \<Rightarrow> string res" where
  "binary2HexString_ptr data len separate lineLen =
     hexLoop len 0 data separate (if lineLen > 0 then lineLen else 4096)"

definition binary2HexString :: "bytes \<Rightarrow> nat \<Rightarrow> string \<Rightarrow> nat \<Rightarrow> string res" where
  "binary2HexString data len separate lineLen =
     binary2HexString_ptr data (if len = 0 \<or> length data < len then length data else len) separate lineLen"

definition number2Hex :: "'a::len word \<Rightarrow> string" where
  "number2Hex num =
     (let len = LENGTH('a) div 8
      in concat (map (\<lambda>i. hex2 (ucast (drop_bit ((len - 1 - i) * 8) num AND 0xFF))) [0..<len]))"

text \<open>The dumps go to the standard output; here they are the text written.\<close>

primrec dumpLoop :: "nat \<Rightarrow> nat \<Rightarrow> bytes \<Rightarrow> string res" where
  "dumpLoop 0 index data = Inr ''''"
| "dumpLoop (Suc k) index data =
     andThen (at data index) (\<lambda>d. andThen (dumpLoop k (Suc index) data) (\<lambda>rest.
       Inr (hex2 d @ '' ''
         @ (if index mod 16 = 15 then '' | '' @ [CHR 0x0A]
            else if index mod 8 = 7 then '' | '' else if index mod 4 = 3 then '' '' else '''') @ rest)))"

definition printBinary_ptr :: "bytes \<Rightarrow> nat \<Rightarrow> string res" where
  "printBinary_ptr data len = andThen (dumpLoop len 0 data) (\<lambda>s. Inr (s @ [CHR 0x0A]))"

definition printBinary :: "bytes \<Rightarrow> nat \<Rightarrow> string res" where
  "printBinary data len = printBinary_ptr data (if len = 0 \<or> length data < len then length data else len)"

subsection \<open>Vectors of integers\<close>

text \<open>Writing at an offset of the output buffer.\<close>

definition writeFrom :: "bytes \<Rightarrow> nat \<Rightarrow> 'a::len word \<Rightarrow> bytes res" where
  "writeFrom buf pos num = andThen (writeData (drop pos buf) num True) (\<lambda>b. Inr (take pos buf @ b))"

primrec writeElements :: "bytes \<Rightarrow> nat \<Rightarrow> 'a::len word list \<Rightarrow> bytes res" where
  "writeElements buf pos [] = Inr buf"
| "writeElements buf pos (e # es) =
     andThen (writeFrom buf pos e) (\<lambda>buf. writeElements buf (pos + LENGTH('a) div 8) es)"

text \<open>A negative length makes \<open>resize\<close> throw \<open>std::length_error\<close>.\<close>

definition vectorToBinary :: "'a::len word list \<Rightarrow> bytes res" where
  "vectorToBinary src =
     (let len = word_of_nat (length src) :: u32
      in if sint len < 0 then Inl (LogicError ''vector::resize'')
         else
           let out = replicate (4 + LENGTH('a) div 8 * unat len) 0
           in andThen (writeFrom out 0 len) (\<lambda>out. writeElements out 4 src))"

primrec readElements :: "bytes \<Rightarrow> nat \<Rightarrow> nat \<Rightarrow> 'a::len word list \<Rightarrow> 'a word list res" where
  "readElements src pos 0 out = Inr out"
| "readElements src pos (Suc n) out =
     andThen (readData (drop pos src) True) (\<lambda>element.
       readElements src (pos + LENGTH('a) div 8) n (out @ [element]))"

text \<open>\<open>reserve\<close> throws \<open>std::length_error\<close> for a negative length, which it sees as a huge one. The
  comparison that follows is in \<open>size_t\<close>.\<close>

definition binaryToVector :: "bytes \<Rightarrow> 'a::len word list res" where
  "binaryToVector src =
     (if length src < 4 then Inl (RuntimeError ''deserialization: src.size() < 4'')
      else
        let len = word_of_nat (length src) :: u32
        in andThen (readData src True) (\<lambda>outLen :: u32.
          if sint outLen < 0 then Inl (LogicError ''vector::reserve'')
          else if (scast outLen :: u64) * word_of_nat (LENGTH('a) div 8) + 4 > scast len
          then Inl (RuntimeError ''deserialization: src.size() is too short for outLen.'')
          else readElements src 4 (unat outLen) []))"

subsection \<open>The class ByteArray\<close>

definition ByteArray_writeData :: "bytes \<Rightarrow> 'a::len word \<Rightarrow> bool \<Rightarrow> bytes res" where
  "ByteArray_writeData buf num littleEndian =
     (let len = LENGTH('a) div 8
      in if littleEndian then writeLoop (\<lambda>i. i) num [0..<len] buf
         else writeLoop (\<lambda>i. len - i - 1) num [0..<len] buf)"

definition ByteArray_readData :: "bytes \<Rightarrow> bool \<Rightarrow> 'a::len word res" where
  "ByteArray_readData buf littleEndian =
     (let len = LENGTH('a) div 8
      in if littleEndian then readLoop buf (map (\<lambda>i. len - 1 - i) [0..<len]) 0
         else readLoop buf [0..<len] 0)"

definition ByteArray_writeBytes :: "bytes \<Rightarrow> bytes \<Rightarrow> nat \<Rightarrow> bytes res" where
  "ByteArray_writeBytes dst data len = writeBytesFrom len 0 dst data"

definition ByteArray_readBytes :: "bytes \<Rightarrow> bytes \<Rightarrow> nat \<Rightarrow> bytes res" where
  "ByteArray_readBytes src data len = writeBytesFrom len 0 data src"

definition ByteArray_readVector :: "bytes \<Rightarrow> bytes \<Rightarrow> nat \<Rightarrow> bytes res" where
  "ByteArray_readVector src data len = readVectorFrom len 0 src data"

definition ByteArray_hex2bin :: "string \<Rightarrow> bytes res" where
  "ByteArray_hex2bin hex = (if length hex mod 2 \<noteq> 0 then Inl (RuntimeError ''hex2bin: hex.size % 2 != 0'')
     else Inr (hex2binLoop hex))"

definition ByteArray_printBinary_ptr :: "bytes \<Rightarrow> nat \<Rightarrow> string res" where
  "ByteArray_printBinary_ptr data len = andThen (dumpLoop len 0 data) (\<lambda>s. Inr (s @ [CHR 0x0A]))"

text \<open>This dump counts from one: the groups end after the same bytes.\<close>

primrec ByteArray_dumpLoop :: "bytes \<Rightarrow> nat \<Rightarrow> nat \<Rightarrow> string" where
  "ByteArray_dumpLoop [] index len = ''''"
| "ByteArray_dumpLoop (d # ds) index len =
     (if len \<le> index then ''''
      else
        let index = index + 1
        in hex2 d @ '' ''
           @ (if index mod 16 = 0 then '' | '' @ [CHR 0x0A]
              else if index mod 8 = 0 then '' | '' else if index mod 4 = 0 then '' '' else '''')
           @ ByteArray_dumpLoop ds index len)"

definition ByteArray_printBinary :: "bytes \<Rightarrow> nat \<Rightarrow> string" where
  "ByteArray_printBinary msg len = ByteArray_dumpLoop msg 0 len @ [CHR 0x0A]"

subsection \<open>SASLprep\<close>

text \<open>\<open>src\<close> is null or the buffer from the pointer on; the loop of the first version has fuel.\<close>

primrec saslLoop :: "nat \<Rightarrow> bytes \<Rightarrow> nat \<Rightarrow> bytes \<Rightarrow> bytes res" where
  "saslLoop 0 src strin rst = Inl OutOfFuel"
| "saslLoop (Suc fuel) src strin rst =
     andThen (at src strin) (\<lambda>c.
       if c = 0 then Inr (rst @ [0])
       else if c = 0xAD then saslLoop fuel src (strin + 1) rst
       else if c = 0xA0 \<or> c = 0x20 then saslLoop fuel src (strin + 1) (rst @ [0x20])
       else if c = 0x7F then saslLoop fuel src strin []
       else if c < 0x1F then saslLoop fuel src strin []
       else if c \<ge> 0x80 \<and> c \<le> 0x9F then saslLoop fuel src strin []
       else saslLoop fuel src (strin + 1) (rst @ [c]))"

definition SASLprep :: "nat \<Rightarrow> bytes option \<Rightarrow> bytes res" where
  "SASLprep fuel src = (case src of None \<Rightarrow> Inr [] | Some s \<Rightarrow> saslLoop fuel s 0 [])"

definition ByteArray_SASLprep :: "nat \<Rightarrow> bytes option \<Rightarrow> bytes res" where
  "ByteArray_SASLprep fuel src = (case src of None \<Rightarrow> Inr [] | Some s \<Rightarrow> saslLoop fuel s 0 [])"

text \<open>The version with an output buffer returns 0 or -1 and the buffer; it recurses on the bytes that
  are left, and reading past the last one is undefined.\<close>

primrec saslOut :: "bytes \<Rightarrow> nat \<Rightarrow> bytes \<Rightarrow> (int \<times> bytes) res" where
  "saslOut [] strout out = Inl Undefined"
| "saslOut (c # cs) strout out =
     (if c = 0 then andThen (put out strout 0) (\<lambda>out. Inr (0, out))
      else if c = 0xAD then saslOut cs strout out
      else if c = 0xA0 \<or> c = 0x20 then andThen (put out strout 0x20) (saslOut cs (strout + 1))
      else if c = 0x7F then Inr (-1, out)
      else if c < 0x1F then Inr (-1, out)
      else if c \<ge> 0x80 \<and> c \<le> 0x9F then Inr (-1, out)
      else andThen (put out strout c) (saslOut cs (strout + 1)))"

definition SASLprep_out :: "bytes option \<Rightarrow> bytes \<Rightarrow> (int \<times> bytes) res" where
  "SASLprep_out src out = (case src of None \<Rightarrow> Inr (0, out) | Some s \<Rightarrow> saslOut s 0 out)"

definition ByteArray_SASLprep0 :: "bytes option \<Rightarrow> bytes \<Rightarrow> (int \<times> bytes) res" where
  "ByteArray_SASLprep0 src out = (case src of None \<Rightarrow> Inr (0, out) | Some s \<Rightarrow> saslOut s 0 out)"

text \<open>The 62 characters of \<open>getCharMap\<close>, and a random text; \<open>next\<close> is the \<open>i\<close>-th number drawn.\<close>

definition getCharMap :: string where
  "getCharMap = map char_of [97..<123 :: nat] @ map char_of [65..<91 :: nat] @ map char_of [48..<58 :: nat]"

primrec randomLoop :: "(nat \<Rightarrow> nat) \<Rightarrow> nat \<Rightarrow> nat \<Rightarrow> string \<Rightarrow> string res" where
  "randomLoop nxt 0 i out = Inr out"
| "randomLoop nxt (Suc k) i out = andThen (at getCharMap (nxt i)) (\<lambda>c. randomLoop nxt k (Suc i) (out @ [c]))"

definition randomChars :: "(nat \<Rightarrow> nat) \<Rightarrow> nat \<Rightarrow> string res" where
  "randomChars nxt len = randomLoop nxt len 0 []"

subsection \<open>Hexadecimal text, there and back\<close>

lemma hexDigit_cases: "d < 16 \<Longrightarrow> d \<in> {0, 1, 2, 3, 4, 5, 6, 7, 8, 9, 10, 11, 12, 13, 14, 15 :: nat}"
  unfolding insert_iff empty_iff by presburger

lemma of_char_word: "n < 256 \<Longrightarrow> (of_char (char_of n) :: u8) = of_nat n"
  using of_nat_of_char [of "char_of n", where ?'a = u8] by simp

lemma nibble_hexDigit:
  assumes "d < 16"
  shows "highNibble (hexDigit d) = of_nat d" "lowNibble (hexDigit d) = of_nat d"
  using hexDigit_cases [OF assms]
  by (auto simp: highNibble_def lowNibble_def hexDigit_def tolower_def fromA_def Let_def of_char_word)

lemma hex2binLoop_hex2: "hex2binLoop (hex2 b @ cs) = b # hex2binLoop cs"
proof -
  have "unat b < 256" using unsigned_less [of b] by simp
  then have d: "unat b div 16 < 16" "unat b mod 16 < 16" by simp_all
  have "(of_nat (unat b div 16) * 16 + of_nat (unat b mod 16) :: u8) = of_nat (unat b div 16 * 16 + unat b mod 16)"
    by (simp only: of_nat_add of_nat_mult of_nat_numeral)
  also have "\<dots> = b" by (simp add: div_mult_mod_eq)
  finally show ?thesis using nibble_hexDigit [OF d(1)] nibble_hexDigit [OF d(2)] by (simp add: hex2_def)
qed

lemma hex2bin_concat: "hex2bin (concat (map hex2 data)) = Inr data"
proof -
  have "length (concat (map hex2 data)) mod 2 = 0" by (induction data) (simp_all add: hex2_def)
  moreover have "hex2binLoop (concat (map hex2 data)) = data" by (induction data) (simp_all add: hex2binLoop_hex2)
  ultimately show ?thesis by (simp add: hex2bin_def)
qed

lemma hexLoop_plain:
  "k + i \<le> length data \<Longrightarrow> k + i < line \<Longrightarrow> hexLoop k i data [] line = Inr (concat (map hex2 (take k (drop i data))))"
proof (induction k arbitrary: i)
  case (Suc k)
  then have "drop i data = data ! i # drop (Suc i) data" by (intro Cons_nth_drop_Suc [symmetric]) simp
  then show ?case using Suc.IH [of "Suc i"] Suc.prems by simp
qed simp

text \<open>What \<open>binary2HexString\<close> writes without a separator, \<open>hex2bin\<close> reads back, for data shorter
  than the line length of 4096 bytes, after which a line break is inserted.\<close>

theorem hex_roundtrip:
  assumes "length data < 4096"
  shows "andThen (binary2HexString data 0 [] 0) hex2bin = Inr data"
  using assms hexLoop_plain [of "length data" 0 data 4096]
  by (simp add: binary2HexString_def binary2HexString_ptr_def hex2bin_concat)

theorem hex_roundtrip_witness: "andThen (binary2HexString [0, 0xA5, 0xFF] 0 [] 0) hex2bin = Inr [0, 0xA5, 0xFF]"
  by (rule hex_roundtrip) simp

lemma number2Hex_hex2bin: "hex2bin (number2Hex num) = Inr (beBytes num)"
proof -
  have "number2Hex num = concat (map hex2 (beBytes num))"
    by (simp add: number2Hex_def beBytes_def Let_def o_def diff_commute cong: map_cong)
  then show ?thesis by (simp add: hex2bin_concat)
qed

definition isHex :: "char \<Rightarrow> bool" where
  "isHex c \<longleftrightarrow> (let n = of_char c :: nat in n \<in> {48..57} \<or> n \<in> {65..70} \<or> n \<in> {97..102})"

text \<open>The high digit of an upper-case letter is taken from the letter itself and not from its lower-case
  form; the error of 32 is a multiple of 256 after the multiplication by 16.\<close>

lemma nibble_toupper:
  assumes "isHex c"
  shows "highNibble (toupper c) * 16 = highNibble c * 16" "lowNibble (toupper c) = lowNibble c"
proof -
  let ?n = "of_char c :: nat"
  have c: "c = char_of ?n" by simp
  have "?n \<in> {48, 49, 50, 51, 52, 53, 54, 55, 56, 57, 65, 66, 67, 68, 69, 70, 97, 98, 99, 100, 101, 102}"
    using assms unfolding isHex_def Let_def atLeastAtMost_iff insert_iff empty_iff by presburger
  then have "\<exists>n \<in> {48, 49, 50, 51, 52, 53, 54, 55, 56, 57, 65, 66, 67, 68, 69, 70, 97, 98, 99, 100, 101, 102 :: nat}. c = char_of n"
    using c by blast
  then show "highNibble (toupper c) * 16 = highNibble c * 16" "lowNibble (toupper c) = lowNibble c"
    by (auto simp: highNibble_def lowNibble_def tolower_def toupper_def fromA_def Let_def of_char_word)
qed

text \<open>Hexadecimal text reads the same in upper and lower case.\<close>

theorem hex2bin_case:
  assumes "\<forall>c \<in> set hex. isHex c"
  shows "hex2bin (string_toUpper hex) = hex2bin hex"
proof -
  have "hex2binLoop (map toupper hex) = hex2binLoop hex"
    using assms by (induction hex rule: hex2binLoop.induct) (simp_all add: nibble_toupper)
  then show ?thesis by (simp add: hex2bin_def)
qed

theorem hex2bin_case_witness: "hex2bin (string_toUpper ''0aF9'') = hex2bin ''0aF9''"
  by (rule hex2bin_case) (simp add: isHex_def Let_def)

subsection \<open>SASLprep\<close>

definition prohibited :: "u8 \<Rightarrow> bool" where
  "prohibited c \<longleftrightarrow> c = 0x7F \<or> c < 0x1F \<or> (c \<ge> 0x80 \<and> c \<le> 0x9F)"

definition saslMap :: "u8 \<Rightarrow> bytes" where
  "saslMap c = (if c = 0xAD then [] else if c = 0xA0 \<or> c = 0x20 then [0x20] else [c])"

lemma at_mid [simp]: "at (pre @ c # cs) (length pre) = Inr c"
  by (simp add: at_def)

lemma not_prohibited_special: "prohibited c \<Longrightarrow> c \<noteq> 0xAD \<and> c \<noteq> 0xA0 \<and> c \<noteq> 0x20"
  by (auto simp: prohibited_def)

lemma saslLoop_spins:
  "prohibited c \<Longrightarrow> c \<noteq> 0 \<Longrightarrow> saslLoop fuel (pre @ c # cs) (length pre) rst = Inl OutOfFuel"
proof (induction fuel arbitrary: rst)
  case (Suc fuel)
  then show ?case using not_prohibited_special [of c] by (auto simp: prohibited_def)
qed simp

lemma saslLoop_good:
  assumes "\<not> prohibited c" "c \<noteq> 0"
  shows "saslLoop (Suc fuel) (pre @ c # cs) (length pre) rst = saslLoop fuel ((pre @ [c]) @ cs) (length (pre @ [c])) (rst @ saslMap c)"
  using assms by (auto simp: prohibited_def saslMap_def)

lemma saslLoop_eq:
  "0 \<notin> set cs \<Longrightarrow> saslLoop fuel (pre @ cs @ 0 # rest) (length pre) rst =
     (if (\<exists>c \<in> set cs. prohibited c) \<or> fuel \<le> length cs then Inl OutOfFuel else Inr (rst @ concat (map saslMap cs) @ [0]))"
proof (induction cs arbitrary: fuel pre rst)
  case Nil
  then show ?case by (cases fuel) simp_all
next
  case (Cons c cs)
  have nz: "c \<noteq> 0" "0 \<notin> set cs" using Cons.prems by auto
  show ?case
  proof (cases "prohibited c")
    case True
    then show ?thesis using saslLoop_spins [OF True nz(1), of fuel pre "cs @ 0 # rest"] by simp
  next
    case False
    show ?thesis
    proof (cases fuel)
      case (Suc f)
      have "saslLoop fuel (pre @ (c # cs) @ 0 # rest) (length pre) rst
          = saslLoop f ((pre @ [c]) @ cs @ 0 # rest) (length (pre @ [c])) (rst @ saslMap c)"
        using saslLoop_good [OF False nz(1), of f pre "cs @ 0 # rest"] Suc by simp
      then show ?thesis using Cons.IH [OF nz(2), of f "pre @ [c]" "rst @ saslMap c"] False Suc by simp
    qed simp
  qed
qed

lemma put_mid [simp]: "put (pre @ x # xs) (length pre) v = Inr (pre @ v # xs)"
  by (simp add: put_def)

lemma saslOut_eq:
  "0 \<notin> set cs \<Longrightarrow> length cs < length out \<Longrightarrow>
   \<exists>r o'. saslOut (cs @ 0 # rest) (length pre) (pre @ out) = Inr (r, o')
     \<and> (if \<exists>c \<in> set cs. prohibited c then r = -1
        else r = 0 \<and> (\<exists>tl. o' = pre @ concat (map saslMap cs) @ 0 # tl))"
proof (induction cs arbitrary: pre out)
  case Nil
  then obtain x xs where "out = x # xs" by (cases out) auto
  then show ?case by simp
next
  case (Cons c cs)
  obtain x xs where out: "out = x # xs" "length cs < length xs" using Cons.prems(2) by (cases out) auto
  have nz: "c \<noteq> 0" "0 \<notin> set cs" using Cons.prems by auto
  show ?case
  proof (cases "prohibited c")
    case True
    then show ?thesis using not_prohibited_special [OF True] nz by (auto simp: prohibited_def)
  next
    case False
    show ?thesis
    proof (cases "c = 0xAD")
      case True
      have m: "concat (map saslMap (c # cs)) = concat (map saslMap cs)" using True by (simp add: saslMap_def)
      have e: "(\<exists>c \<in> set (c # cs). prohibited c) = (\<exists>c \<in> set cs. prohibited c)" using False by simp
      have l: "length cs < length out" using out by simp
      have st: "saslOut ((c # cs) @ 0 # rest) (length pre) (pre @ out) = saslOut (cs @ 0 # rest) (length pre) (pre @ out)"
        using True by simp
      show ?thesis unfolding m e st by (rule Cons.IH [OF nz(2) l])
    next
      case ad: False
      let ?v = "if c = 0xA0 \<or> c = 0x20 then 0x20 else c"
      have st: "saslOut ((c # cs) @ 0 # rest) (length pre) (pre @ out)
          = saslOut (cs @ 0 # rest) (length (pre @ [?v])) ((pre @ [?v]) @ xs)"
        using False ad nz(1) out(1) by (auto simp: prohibited_def)
      have m: "pre @ concat (map saslMap (c # cs)) @ zs = (pre @ [?v]) @ concat (map saslMap cs) @ zs" for zs
        using ad by (simp add: saslMap_def)
      have e: "(\<exists>c \<in> set (c # cs). prohibited c) = (\<exists>c \<in> set cs. prohibited c)" using False by simp
      show ?thesis unfolding m e st by (rule Cons.IH [OF nz(2) out(2)])
    qed
  qed
qed

text \<open>On a text ended by a zero byte the two versions of \<open>SASLprep\<close> agree when every character is
  allowed: soft hyphens are dropped and no-break spaces become spaces. When one is prohibited the
  version with an output buffer returns -1, but the one that returns a vector clears it and
  then looks at the same character for ever.\<close>

theorem SASLprep_versions:
  assumes "0 \<notin> set cs" "length cs < length out"
  shows "\<exists>r o'. SASLprep_out (Some (cs @ 0 # rest)) out = Inr (r, o')
    \<and> (if \<exists>c \<in> set cs. prohibited c
       then r = -1 \<and> (\<forall>fuel. SASLprep fuel (Some (cs @ 0 # rest)) = Inl OutOfFuel)
       else r = 0 \<and> (\<exists>v tl. o' = v @ tl
              \<and> (\<forall>fuel > length cs. SASLprep fuel (Some (cs @ 0 # rest)) = Inr v)))"
proof -
  from saslOut_eq [OF assms, of rest "[]"] obtain r o' where
    o': "saslOut (cs @ 0 # rest) 0 out = Inr (r, o')"
      "if \<exists>c \<in> set cs. prohibited c then r = -1 else r = 0 \<and> (\<exists>tl. o' = concat (map saslMap cs) @ 0 # tl)"
    unfolding append_Nil list.size by blast
  have l: "saslLoop fuel (cs @ 0 # rest) 0 [] = (if (\<exists>c \<in> set cs. prohibited c) \<or> fuel \<le> length cs
      then Inl OutOfFuel else Inr (concat (map saslMap cs) @ [0]))" for fuel
    using saslLoop_eq [OF assms(1), of fuel "[]" rest "[]"] by simp
  show ?thesis
  proof (cases "\<exists>c \<in> set cs. prohibited c")
    case True
    then show ?thesis using o' l by (simp add: SASLprep_def SASLprep_out_def)
  next
    case False
    then obtain tl where "r = 0" "o' = (concat (map saslMap cs) @ [0]) @ tl" using o'(2) by auto
    then have "o' = (concat (map saslMap cs) @ [0]) @ tl" by simp
    moreover have "\<forall>fuel > length cs. SASLprep fuel (Some (cs @ 0 # rest)) = Inr (concat (map saslMap cs) @ [0])"
      using l False by (simp add: SASLprep_def)
    ultimately have "\<exists>v tl. o' = v @ tl \<and> (\<forall>fuel > length cs. SASLprep fuel (Some (cs @ 0 # rest)) = Inr v)" by blast
    then show ?thesis using o'(1) \<open>r = 0\<close> False by (simp add: SASLprep_out_def)
  qed
qed

theorem SASLprep_versions_witness:
  "\<exists>o'. SASLprep_out (Some [0x41, 0x7F, 0]) [9, 9, 9] = Inr (-1, o')
     \<and> (\<forall>fuel. SASLprep fuel (Some [0x41, 0x7F, 0]) = Inl OutOfFuel)"
  using SASLprep_versions [of "[0x41, 0x7F]" "[9, 9, 9]" "[]"] by (auto simp: prohibited_def)

subsection \<open>Vectors, there and back\<close>

definition leBytes :: "'a::len word \<Rightarrow> bytes" where
  "leBytes num = map (\<lambda>i. ucast (drop_bit (i * 8) num)) [0..<LENGTH('a) div 8]"

lemma length_leBytes [simp]: "length (leBytes (num :: 'a::len word)) = LENGTH('a) div 8"
  by (simp add: leBytes_def)

lemma rev_leBytes: "rev (leBytes num) = beBytes num"
  by (rule nth_equalityI) (simp_all add: leBytes_def beBytes_def rev_nth)

lemma writeData_le:
  "LENGTH('a) div 8 \<le> length buf \<Longrightarrow>
   writeData buf (num :: 'a::len word) True = Inr (leBytes num @ drop (LENGTH('a) div 8) buf)"
  by (simp add: writeData_def writeLoop_upt leBytes_def Let_def)

lemma readLoop_rev:
  "n \<le> length buf \<Longrightarrow> (\<forall>j \<in> set js. j < n) \<Longrightarrow>
   readLoop buf (map (\<lambda>i. n - 1 - i) js) x = readLoop (rev (take n buf)) js x"
  by (induction js arbitrary: x) (auto simp: at_def rev_nth)

lemma readData_le:
  fixes x :: "'a::len word"
  assumes "8 dvd LENGTH('a)"
  shows "readData (leBytes x @ rest) True = Inr x"
proof -
  let ?n = "LENGTH('a) div 8"
  have "readData (leBytes x @ rest) True = readLoop (rev (take ?n (leBytes x @ rest))) [0..<?n] (0 :: 'a word)"
    unfolding readData_def Let_def if_True by (rule readLoop_rev) simp_all
  also have "rev (take ?n (leBytes x @ rest)) = beBytes x @ []" by (simp add: rev_leBytes)
  also have "readLoop (beBytes x @ []) [0..<?n] (0 :: 'a word) = readData (beBytes x @ []) False" by (simp add: readData_def)
  also have "\<dots> = Inr x" by (rule readData_be [OF assms])
  finally show ?thesis .
qed

lemma writeFrom_at:
  "LENGTH('a) div 8 \<le> length buf \<Longrightarrow>
   writeFrom (pre @ buf) (length pre) (num :: 'a::len word) = Inr (pre @ leBytes num @ drop (LENGTH('a) div 8) buf)"
  by (simp add: writeFrom_def writeData_le)

lemma writeElements_eq:
  fixes es :: "'a::len word list"
  shows "writeElements (pre @ replicate (LENGTH('a) div 8 * length es) 0) (length pre) es
    = Inr (pre @ concat (map leBytes es))"
proof (induction es arbitrary: pre)
  case (Cons e es)
  let ?w = "LENGTH('a) div 8"
  have "writeFrom (pre @ replicate (?w * length (e # es)) 0) (length pre) e
      = Inr ((pre @ leBytes e) @ replicate (?w * length es) 0)"
    by (subst writeFrom_at) simp_all
  moreover have "length pre + ?w = length (pre @ leBytes e)" by simp
  ultimately show ?case using Cons.IH [of "pre @ leBytes e"] by simp
qed simp

lemma readElements_eq:
  fixes es :: "'a::len word list"
  assumes "8 dvd LENGTH('a)"
  shows "readElements (pre @ concat (map leBytes es) @ tail) (length pre) (length es) out = Inr (out @ es)"
proof (induction es arbitrary: pre out)
  case (Cons e es)
  have "readData (drop (length pre) (pre @ concat (map leBytes (e # es)) @ tail)) True = Inr e"
    using readData_le [OF assms, of e] by simp
  moreover have "length pre + LENGTH('a) div 8 = length (pre @ leBytes e)" by simp
  ultimately show ?case using Cons.IH [of "pre @ leBytes e" "out @ [e]"] by simp
qed simp

lemma word_of_nat_small:
  assumes "n < 2 ^ 31"
  shows "sint (word_of_nat n :: u32) = int n" "unat (word_of_nat n :: u32) = n"
    "(scast (word_of_nat n :: u32) :: u64) = word_of_nat n"
proof -
  have "sint (word_of_nat n :: u32) = signed_take_bit 31 (int n)" by (simp add: signed_of_nat)
  also have "\<dots> = int n" using assms by (intro signed_take_bit_int_eq_self) simp_all
  finally show s: "sint (word_of_nat n :: u32) = int n" .
  show "unat (word_of_nat n :: u32) = n" using assms by (simp add: unat_of_nat)
  show "(scast (word_of_nat n :: u32) :: u64) = word_of_nat n"
    by (metis s of_int_of_nat_eq of_int_sint)
qed

text \<open>\<open>binaryToVector\<close> reads back every vector that \<open>vectorToBinary\<close> writes, for elements of any
  width, as long as the whole fits the \<open>int\<close> in which sizes are kept.\<close>

theorem vector_roundtrip:
  fixes src :: "'a::len word list"
  assumes "8 dvd LENGTH('a)" "LENGTH('a) \<le> 64" "4 + LENGTH('a) div 8 * length src < 2 ^ 31" "length src < 2 ^ 31"
  shows "andThen (vectorToBinary src) binaryToVector = Inr src"
proof -
  let ?n = "length src" and ?w = "LENGTH('a) div 8"
  let ?len = "word_of_nat ?n :: u32"
  let ?b = "leBytes ?len @ concat (map leBytes src)"
  note small = word_of_nat_small [OF assms(4)]
  have z: "replicate (4 + ?w * ?n) 0 = replicate 4 0 @ replicate (?w * ?n) (0 :: u8)" by (rule replicate_add)
  have "writeFrom (replicate (4 + ?w * ?n) 0) 0 ?len = Inr (leBytes ?len @ replicate (?w * ?n) 0)"
    using writeFrom_at [of "replicate (4 + ?w * ?n) 0" "[]" ?len] by (simp add: z)
  then have v: "vectorToBinary src = Inr ?b"
    using writeElements_eq [of "leBytes ?len" src] small(1,2) by (simp add: vectorToBinary_def Let_def)
  have lc: "length (concat (map leBytes src)) = ?w * ?n" by (simp add: length_concat o_def sum_list_triv)
  then have l: "length ?b = 4 + ?w * ?n" by simp
  have r: "readData ?b True = Inr ?len" by (rule readData_le) simp
  have c: "(scast ?len :: u64) * word_of_nat ?w + 4 = word_of_nat (4 + ?w * ?n)" unfolding small(3) by simp
  have s: "(scast (word_of_nat (length ?b) :: u32) :: u64) = word_of_nat (4 + ?w * ?n)"
    unfolding l by (rule word_of_nat_small(3) [OF assms(3)])
  have "(binaryToVector ?b :: 'a word list res) = readElements ?b 4 ?n []"
    unfolding binaryToVector_def Let_def using r c s small(1,2) l by (simp add: ac_simps)
  also have "\<dots> = Inr src"
    using readElements_eq [OF assms(1), of "leBytes ?len" src "[]" "[]"] by simp
  finally show ?thesis using v by simp
qed

theorem vector_roundtrip_witness:
  "andThen (vectorToBinary [1, 0xFFFF, 0x1234 :: u16]) binaryToVector = Inr [1, 0xFFFF, 0x1234 :: u16]"
  by (rule vector_roundtrip) simp_all

lemma readData_le_isOk:
  assumes "LENGTH('a) div 8 \<le> length buf"
  shows "isOk (readData buf True :: 'a::len word res)"
  using assms unfolding readData_def Let_def if_True readLoop_isOk by auto

lemma readElements_ok:
  "pos + LENGTH('a) div 8 * n \<le> length src \<Longrightarrow>
   \<exists>es. readElements src pos n (out :: 'a::len word list) = Inr (out @ es) \<and> length es = n"
proof (induction n arbitrary: pos out)
  case (Suc n)
  have "isOk (readData (drop pos src) True :: 'a word res)" using Suc.prems by (intro readData_le_isOk) simp
  then obtain e :: "'a word" where e: "readData (drop pos src) True = Inr e" by (auto simp: isOk_def)
  from Suc.IH [of "pos + LENGTH('a) div 8" "out @ [e]"] Suc.prems obtain es where
    "readElements src (pos + LENGTH('a) div 8) n (out @ [e]) = Inr ((out @ [e]) @ es)" "length es = n" by auto
  then show ?case using e by (intro exI [of _ "e # es"]) simp
qed simp

text \<open>\<open>binaryToVector\<close> reads nothing out of bounds on any input of less than \<open>2^31\<close> bytes: it
  throws, or it returns as many elements as the prefix says and the input holds.\<close>

theorem binaryToVector_total:
  assumes "length src < 2 ^ 31" "LENGTH('a::len) \<le> 64"
  shows "case binaryToVector src of
      Inr (xs :: 'a word list) \<Rightarrow> (\<exists>n :: u32. readData src True = Inr n \<and> length xs = unat n)
        \<and> 4 + LENGTH('a) div 8 * length xs \<le> length src
    | Inl e \<Rightarrow> \<exists>msg. e = RuntimeError msg \<or> e = LogicError msg"
proof (cases "length src < 4")
  case True
  then show ?thesis by (simp add: binaryToVector_def)
next
  case False
  let ?w = "LENGTH('a) div 8"
  have "isOk (readData src True :: u32 res)" using False by (intro readData_le_isOk) simp
  then obtain n :: u32 where n: "readData src True = Inr n" by (auto simp: isOk_def)
  show ?thesis
  proof (cases "sint n < 0")
    case True
    then show ?thesis using False n by (simp add: binaryToVector_def Let_def)
  next
    case nonneg: False
    have "sint n < 2 ^ 31" using sint_lt [of n] by simp
    then have "uint n = sint n" using nonneg unfolding uint_sint by (intro take_bit_int_eq_self) simp_all
    then have "int (unat n) < int (2 ^ 31)" using \<open>sint n < 2 ^ 31\<close> by simp
    then have "unat n < 2 ^ 31" by (simp only: of_nat_less_iff)
    then have u: "unat n < 2 ^ 31" "n = word_of_nat (unat n)" by simp_all
    have sc: "(scast n :: u64) = word_of_nat (unat n)" using word_of_nat_small(3) [OF u(1)] u(2) by simp
    have sl: "(scast (word_of_nat (length src) :: u32) :: u64) = word_of_nat (length src)"
      by (rule word_of_nat_small(3) [OF assms(1)])
    have "?w \<le> 8" using assms(2) by simp
    then have "unat n * ?w \<le> 2 ^ 31 * 8" using u(1) by (intro mult_le_mono) simp_all
    then have b: "unat n * ?w + 4 < 2 ^ 64" by simp
    have "(word_of_nat (unat n) * word_of_nat ?w + 4 :: u64) = word_of_nat (unat n * ?w + 4)" by simp
    then have cmp: "(scast n :: u64) * word_of_nat ?w + 4 > scast (word_of_nat (length src) :: u32) \<longleftrightarrow> length src < unat n * ?w + 4"
      unfolding sc sl using b assms(1) by (simp add: word_less_nat_alt unat_of_nat del: of_nat_add of_nat_mult)
    show ?thesis
    proof (cases "length src < unat n * ?w + 4")
      case True
      then show ?thesis using False n nonneg cmp by (simp add: binaryToVector_def Let_def)
    next
      case fits: False
      from fits have "4 + ?w * unat n \<le> length src" by (simp add: mult.commute)
      from readElements_ok [OF this, of "[]"] obtain es :: "'a word list" where
        es: "readElements src 4 (unat n) [] = Inr es" "length es = unat n" by auto
      then have "binaryToVector src = Inr es" using False n nonneg cmp fits by (simp add: binaryToVector_def Let_def)
      then show ?thesis using es(2) n fits by (simp add: mult.commute)
    qed
  qed
qed

theorem binaryToVector_total_witness:
  "\<exists>msg. binaryToVector [0xFF, 0xFF, 0xFF, 0xFF, 1] = (Inl (LogicError msg) :: u16 list res)"
proof -
  have "case binaryToVector [0xFF, 0xFF, 0xFF, 0xFF, 1] of
      Inr (xs :: u16 list) \<Rightarrow> (\<exists>n :: u32. readData [0xFF, 0xFF, 0xFF, 0xFF, 1] True = Inr n \<and> length xs = unat n)
        \<and> 4 + LENGTH(16) div 8 * length xs \<le> length [0xFF, 0xFF, 0xFF, 0xFF, 1 :: u8]
    | Inl e \<Rightarrow> \<exists>msg. e = RuntimeError msg \<or> e = LogicError msg"
    by (rule binaryToVector_total) simp_all
  moreover have "binaryToVector [0xFF, 0xFF, 0xFF, 0xFF, 1] = (Inl (LogicError ''vector::reserve'') :: u16 list res)"
    by (simp add: binaryToVector_def readData_def upt_rec at_def Let_def)
  ultimately show ?thesis by blast
qed

end
