(* ===== verification/Sps.thy ===== *)
theory Sps
  imports Text "HOL-Library.Signed_Division" "HOL-Library.Sublist"
begin

text \<open>
  The class \<open>seeker::parseSps\<close> of \<open>mod/videoBat/include/seeker/parseSps.h\<close>: the bit readers, the removal
  of emulation prevention bytes, the base64 decoder, the search in a session description and the
  sequence parameter set itself. A parser is a reader: from the buffer, its length \<open>nLen\<close> and the
  position \<open>StartBit\<close> to a value and the next position, or the fault it runs into. A read past the end
  of the buffer is undefined behaviour. Positions are natural numbers; the code's 32-bit positions are
  the same for buffers below \<open>2 ^ 29\<close> bytes.
\<close>

type_synonym 'a reader = "bytes \<Rightarrow> nat \<Rightarrow> nat \<Rightarrow> ('a \<times> nat) res"

definition thenR :: "'a reader \<Rightarrow> ('a \<Rightarrow> 'b reader) \<Rightarrow> 'b reader" where
  "thenR r f = (\<lambda>buf nLen pos. andThen (r buf nLen pos) (\<lambda>(v, pos). f v buf nLen pos))"

definition retR :: "'a \<Rightarrow> 'a reader" where
  "retR v = (\<lambda>buf nLen pos. Inr (v, pos))"

definition failR :: "fault \<Rightarrow> 'a reader" where
  "failR e = (\<lambda>buf nLen pos. Inl e)"

subsection \<open>Bit readers\<close>

definition bitAt :: "bytes \<Rightarrow> nat \<Rightarrow> bool res" where
  "bitAt buf n = andThen (at buf (n div 8)) (\<lambda>b. Inr (b AND drop_bit (n mod 8) 0x80 \<noteq> 0))"

primrec readBits :: "nat \<Rightarrow> bytes \<Rightarrow> nat \<Rightarrow> nat \<Rightarrow> (nat \<times> nat) res" where
  "readBits 0 buf nStartBit dwRet = Inr (dwRet, nStartBit)"
| "readBits (Suc i) buf nStartBit dwRet =
     andThen (bitAt buf nStartBit) (\<lambda>b.
       readBits i buf (nStartBit + 1) (dwRet * 2 + of_bool b))"

text \<open>No call asks for more than 32 bits, so \<open>dwRet\<close> does not wrap.\<close>

definition u :: "nat \<Rightarrow> nat reader" where
  "u BitCount = (\<lambda>buf nLen nStartBit. readBits BitCount buf nStartBit 0)"

function zeroBits :: "bytes \<Rightarrow> nat \<Rightarrow> nat \<Rightarrow> nat \<Rightarrow> (nat \<times> nat) res" where
  "zeroBits buf bits nZeroNum nStartBit =
     (if nStartBit < bits then
        case bitAt buf nStartBit of
          Inl e \<Rightarrow> Inl e
        | Inr b \<Rightarrow> if b then Inr (nZeroNum, nStartBit) else zeroBits buf bits (nZeroNum + 1) (nStartBit + 1)
      else Inr (nZeroNum, nStartBit))"
  by pat_completeness auto
termination by (relation "measure (\<lambda>(_, bits, _, p). bits - p)") auto

declare zeroBits.simps [simp del]

text \<open>
  The second loop has no bound. \<open>1 << nZeroNum\<close> is an \<open>int\<close>: with 31 or more zeros the shift or the
  subtraction overflows.
\<close>

definition Ue :: "nat reader" where
  "Ue = (\<lambda>buf nLen nStartBit.
     andThen (zeroBits buf (nLen * 8 mod 2 ^ 32) 0 nStartBit) (\<lambda>(nZeroNum, nStartBit).
     andThen (readBits nZeroNum buf (nStartBit + 1) 0) (\<lambda>(dwRet, nStartBit).
       if 31 \<le> nZeroNum then Inl Undefined else Inr (2 ^ nZeroNum - 1 + dwRet, nStartBit))))"

definition Se :: "int reader" where
  "Se = thenR Ue (\<lambda>UeVal.
     let nValue = int ((UeVal + 1) div 2) in retR (if UeVal mod 2 = 0 then - nValue else nValue))"

subsection \<open>Emulation prevention\<close>

primrec shiftLoop :: "nat \<Rightarrow> nat \<Rightarrow> bytes \<Rightarrow> bytes res" where
  "shiftLoop 0 j tmp = Inr tmp"
| "shiftLoop (Suc n) j tmp =
     andThen (at tmp (j + 1)) (\<lambda>v. andThen (put tmp j v) (\<lambda>tmp. shiftLoop n (j + 1) tmp))"

primrec deLoop :: "nat \<Rightarrow> nat \<Rightarrow> nat \<Rightarrow> bytes \<Rightarrow> nat \<Rightarrow> (bytes \<times> nat) res" where
  "deLoop 0 tmp_buf_size i tmp buf_size = Inr (tmp, buf_size)"
| "deLoop (Suc n) tmp_buf_size i tmp buf_size =
     andThen (at tmp i) (\<lambda>a. andThen (at tmp (i + 1)) (\<lambda>b. andThen (at tmp (i + 2)) (\<lambda>c.
       let val = unat (a XOR 0x00) + unat (b XOR 0x00) + unat (c XOR 0x03)
       in if val = 0 then
            andThen (shiftLoop (tmp_buf_size - 1 - (i + 2)) (i + 2) tmp) (\<lambda>tmp.
              deLoop n tmp_buf_size (i + 1) tmp (buf_size - 1))
          else deLoop n tmp_buf_size (i + 1) tmp buf_size)))"

text \<open>The loop runs to \<open>tmp_buf_size - 2\<close>, an unsigned difference.\<close>

definition de_emulation_prevention :: "bytes \<Rightarrow> nat \<Rightarrow> (bytes \<times> nat) res" where
  "de_emulation_prevention buf buf_size =
     deLoop (unat (word_of_nat buf_size - 2 :: u32)) buf_size 0 buf buf_size"

subsection \<open>Base64 and the session description\<close>

definition base64_chars :: string where
  "base64_chars = ''ABCDEFGHIJKLMNOPQRSTUVWXYZabcdefghijklmnopqrstuvwxyz0123456789+/''"

text \<open>\<open>val\<close> is an \<open>int\<close>, cut to 32 bits when it is assigned; the decoded text is a list of bytes.\<close>

primrec base64Loop :: "string \<Rightarrow> int \<Rightarrow> int \<Rightarrow> bytes \<Rightarrow> bytes" where
  "base64Loop [] val valb ret = ret"
| "base64Loop (c # cs) val valb ret =
     (if c = CHR ''='' then ret
      else case find_in [c] base64_chars of
        None \<Rightarrow> base64Loop cs val valb ret
      | Some pos \<Rightarrow>
          let val = signed_take_bit 31 (val * 64 + int pos); valb = valb + 6
          in if 0 \<le> valb
             then base64Loop cs val (valb - 8) (ret @ [word_of_int (drop_bit (nat valb) val)])
             else base64Loop cs val valb ret)"

definition base64Decode :: "string \<Rightarrow> bytes" where
  "base64Decode sdp_sps = base64Loop sdp_sps 0 (-8) []"

definition find_int :: "string \<Rightarrow> string \<Rightarrow> int" where
  "find_int sp s = (case find_in sp s of None \<Rightarrow> -1 | Some p \<Rightarrow> int p)"

definition parseSpsInfo :: "string \<Rightarrow> bytes \<Rightarrow> int \<times> bytes" where
  "parseSpsInfo sdp sps =
     (let pos = find_int ''sprop-parameter-sets='' sdp
      in if pos = -1 then (-1, sps)
         else
           let sdp_sps = drop (nat pos + 21) sdp;
               pos1 = find_int ''a='' sdp_sps;
               pos2 = find_int '';'' sdp_sps;
               pos = (if pos1 < pos2 then pos1 else pos2)
           in if pos = -1 then (-1, sps) else (0, base64Decode (take (nat pos) sdp_sps)))"

subsection \<open>The sequence parameter set\<close>

primrec skipSe :: "nat \<Rightarrow> unit reader" where
  "skipSe 0 = retR ()"
| "skipSe (Suc n) = thenR Se (\<lambda>_. skipSe n)"

primrec skipFlags :: "nat \<Rightarrow> unit reader" where
  "skipFlags 0 = retR ()"
| "skipFlags (Suc n) = thenR (u 1) (\<lambda>_. skipFlags n)"

definition isHighProfile :: "nat \<Rightarrow> bool" where
  "isHighProfile profile_idc \<longleftrightarrow>
     profile_idc = 100 \<or> profile_idc = 110 \<or> profile_idc = 122 \<or> profile_idc = 144"

definition readHighProfile :: "unit reader" where
  "readHighProfile =
     thenR Ue (\<lambda>chroma_format_idc.
     thenR (if chroma_format_idc = 3 then u 1 else retR 0) (\<lambda>_.
     thenR Ue (\<lambda>bit_depth_luma_minus8.
     thenR Ue (\<lambda>bit_depth_chroma_minus8.
     thenR (u 1) (\<lambda>qpprime_y_zero_transform_bypass_flag.
     thenR (u 1) (\<lambda>seq_scaling_matrix_present_flag.
       if seq_scaling_matrix_present_flag \<noteq> 0 then skipFlags 8 else retR ()))))))"

definition readOrderCount :: "unit reader" where
  "readOrderCount =
     thenR Ue (\<lambda>pic_order_cnt_type.
       if pic_order_cnt_type = 0 then thenR Ue (\<lambda>_. retR ())
       else if pic_order_cnt_type = 1 then
         thenR (u 1) (\<lambda>delta_pic_order_always_zero_flag.
         thenR Se (\<lambda>offset_for_non_ref_pic.
         thenR Se (\<lambda>offset_for_top_to_bottom_field.
         thenR Ue (\<lambda>num_ref_frames_in_pic_order_cnt_cycle.
           skipSe num_ref_frames_in_pic_order_cnt_cycle))))
       else retR ())"

text \<open>\<open>(n + 1) * 16\<close> in \<open>int\<close>.\<close>

definition macroblocks :: "nat \<Rightarrow> int reader" where
  "macroblocks minus1 =
     (if (minus1 + 1) * 16 < 2 ^ 31 then retR (int ((minus1 + 1) * 16)) else failR Undefined)"

definition readCropping :: "unit reader" where
  "readCropping =
     thenR (u 1) (\<lambda>frame_cropping_flag.
       if frame_cropping_flag \<noteq> 0 then
         thenR Ue (\<lambda>_. thenR Ue (\<lambda>_. thenR Ue (\<lambda>_. thenR Ue (\<lambda>_. retR ()))))
       else retR ())"

definition int32 :: "nat \<Rightarrow> int" where
  "int32 n = signed_take_bit 31 (int n)"

text \<open>The quotient of two \<open>int\<close>; the smallest one divided by \<open>-1\<close> overflows.\<close>

definition readTiming :: "int reader" where
  "readTiming =
     thenR (u 1) (\<lambda>timing_info_present_flag.
       if timing_info_present_flag \<noteq> 0 then
         thenR (u 32) (\<lambda>num. thenR (u 32) (\<lambda>tim.
           let num_units_in_tick = int32 num; time_scale = int32 tim
           in thenR (if num_units_in_tick = -1 \<and> time_scale = - (2 ^ 31) then failR Undefined
                     else retR (if num_units_in_tick \<noteq> 0 then time_scale sdiv num_units_in_tick else 0)) (\<lambda>fps.
              thenR (u 1) (\<lambda>fixed_frame_rate_flag.
                retR (if fixed_frame_rate_flag \<noteq> 0 then fps sdiv 2 else fps)))))
       else retR 0)"

definition readAspect :: "unit reader" where
  "readAspect =
     thenR (u 1) (\<lambda>aspect_ratio_info_present_flag.
       if aspect_ratio_info_present_flag \<noteq> 0 then
         thenR (u 8) (\<lambda>aspect_ratio_idc.
           if aspect_ratio_idc = 255 then thenR (u 16) (\<lambda>_. thenR (u 16) (\<lambda>_. retR ())) else retR ())
       else retR ())"

definition readSignalType :: "unit reader" where
  "readSignalType =
     thenR (u 1) (\<lambda>video_signal_type_present_flag.
       if video_signal_type_present_flag \<noteq> 0 then
         thenR (u 3) (\<lambda>video_format. thenR (u 1) (\<lambda>video_full_range_flag.
         thenR (u 1) (\<lambda>colour_description_present_flag.
           if colour_description_present_flag \<noteq> 0
           then thenR (u 8) (\<lambda>_. thenR (u 8) (\<lambda>_. thenR (u 8) (\<lambda>_. retR ())))
           else retR ())))
       else retR ())"

definition readVui :: "int reader" where
  "readVui =
     thenR (u 1) (\<lambda>vui_parameter_present_flag.
       if vui_parameter_present_flag \<noteq> 0 then
         thenR readAspect (\<lambda>_.
         thenR (u 1) (\<lambda>overscan_info_present_flag.
         thenR (if overscan_info_present_flag \<noteq> 0 then u 1 else retR 0) (\<lambda>_.
         thenR readSignalType (\<lambda>_.
         thenR (u 1) (\<lambda>chroma_loc_info_present_flag.
         thenR (if chroma_loc_info_present_flag \<noteq> 0 then thenR Ue (\<lambda>_. Ue) else retR 0) (\<lambda>_.
           readTiming))))))
       else retR 0)"

text \<open>The fields after the header of a unit of type 7: the size and the frame rate.\<close>

definition readSps :: "(int \<times> int \<times> int) reader" where
  "readSps =
     thenR (u 8) (\<lambda>profile_idc.
     thenR (u 1) (\<lambda>constraint_set0_flag. thenR (u 1) (\<lambda>constraint_set1_flag.
     thenR (u 1) (\<lambda>constraint_set2_flag. thenR (u 1) (\<lambda>constraint_set3_flag.
     thenR (u 4) (\<lambda>reserved_zero_4bits. thenR (u 8) (\<lambda>level_idc.
     thenR Ue (\<lambda>seq_parameter_set_id.
     thenR (if isHighProfile profile_idc then readHighProfile else retR ()) (\<lambda>_.
     thenR Ue (\<lambda>log2_max_frame_num_minus4.
     thenR readOrderCount (\<lambda>_.
     thenR Ue (\<lambda>num_ref_frames.
     thenR (u 1) (\<lambda>gaps_in_frame_num_value_allowed_flag.
     thenR Ue (\<lambda>pic_width_in_mbs_minus1.
     thenR Ue (\<lambda>pic_height_in_map_units_minus1.
     thenR (macroblocks pic_width_in_mbs_minus1) (\<lambda>width.
     thenR (macroblocks pic_height_in_map_units_minus1) (\<lambda>height.
     thenR (u 1) (\<lambda>frame_mbs_only_flag.
     thenR (if frame_mbs_only_flag = 0 then u 1 else retR 0) (\<lambda>_.
     thenR (u 1) (\<lambda>direct_8x8_inference_flag.
     thenR readCropping (\<lambda>_.
     thenR readVui (\<lambda>fps.
       retR (width, height, fps)))))))))))))))))))))))"

text \<open>The result and the values of the three reference parameters.\<close>

definition getSpsInfo :: "bytes \<Rightarrow> nat \<Rightarrow> int \<Rightarrow> int \<Rightarrow> (bool \<times> int \<times> int \<times> int) res" where
  "getSpsInfo buf nLen width height =
     andThen (de_emulation_prevention buf nLen) (\<lambda>(buf, nLen).
     andThen
       (thenR (u 1) (\<lambda>forbidden_zero_bit. thenR (u 2) (\<lambda>nal_ref_idc. thenR (u 5) (\<lambda>nal_unit_type.
          if nal_unit_type = 7 then thenR readSps (\<lambda>r. retR (True, r))
          else retR (False, (width, height, 0))))) buf nLen 0)
       (\<lambda>(r, _). Inr r))"

subsection \<open>Codes\<close>

text \<open>
  The reference: the bits a field is written with. \<open>uBits n v\<close> is an \<open>n\<close>-bit number, most significant bit
  first, \<open>ueBits\<close> and \<open>seBits\<close> the exponential Golomb codes of the H.264 recommendation.
\<close>

primrec uBits :: "nat \<Rightarrow> nat \<Rightarrow> bool list" where
  "uBits 0 v = []"
| "uBits (Suc n) v = odd (v div 2 ^ n) # uBits n v"

lemma length_uBits [simp]: "length (uBits n v) = n"
  by (induction n) simp_all

fun exponent :: "nat \<Rightarrow> nat" where
  "exponent n = (if n < 2 then 0 else Suc (exponent (n div 2)))"

declare exponent.simps [simp del]

lemma exponent_bounds: "0 < n \<Longrightarrow> 2 ^ exponent n \<le> n \<and> n < 2 * 2 ^ exponent n"
proof (induction n rule: exponent.induct)
  case (1 n)
  then show ?case by (cases "n < 2") (auto simp: exponent.simps [of n])
qed

definition ueBits :: "nat \<Rightarrow> bool list" where
  "ueBits v = (let k = exponent (v + 1) in replicate k False @ True # uBits k (v + 1 - 2 ^ k))"

definition ue_codable :: "nat \<Rightarrow> bool" where
  "ue_codable v \<longleftrightarrow> v + 1 < 2 ^ 31"

definition seIndex :: "int \<Rightarrow> nat" where
  "seIndex v = (if 0 < v then 2 * nat v - 1 else 2 * nat (- v))"

definition seBits :: "int \<Rightarrow> bool list" where
  "seBits v = ueBits (seIndex v)"

text \<open>The bits \<open>bs\<close> lie in the buffer at a position, below the length the reader is told.\<close>

definition holds :: "bytes \<Rightarrow> nat \<Rightarrow> nat \<Rightarrow> bool list \<Rightarrow> bool" where
  "holds buf nLen pos bs \<longleftrightarrow>
     pos + length bs \<le> nLen * 8 mod 2 ^ 32 \<and> (\<forall>i < length bs. bitAt buf (pos + i) = Inr (bs ! i))"

lemma holds_append:
  "holds buf nLen pos (xs @ ys) \<Longrightarrow> holds buf nLen pos xs \<and> holds buf nLen (pos + length xs) ys"
proof (unfold holds_def, elim conjE, intro conjI allI impI)
  assume a: "\<forall>i < length (xs @ ys). bitAt buf (pos + i) = Inr ((xs @ ys) ! i)"
  fix i
  show "i < length xs \<Longrightarrow> bitAt buf (pos + i) = Inr (xs ! i)"
    using a [rule_format, of i] by (simp add: nth_append)
  show "i < length ys \<Longrightarrow> bitAt buf (pos + length xs + i) = Inr (ys ! i)"
    using a [rule_format, of "length xs + i"] by (simp add: add.assoc)
qed simp_all

lemma holds_Cons:
  "holds buf nLen pos (b # bs) \<Longrightarrow>
     pos < nLen * 8 mod 2 ^ 32 \<and> bitAt buf pos = Inr b \<and> holds buf nLen (pos + 1) bs"
  using holds_append [of buf nLen pos "[b]" bs] by (auto simp: holds_def)

text \<open>A reader decodes a bit string to a value: wherever the bits lie it returns the value and stops behind them.\<close>

definition decodes :: "'a reader \<Rightarrow> bool list \<Rightarrow> 'a \<Rightarrow> bool" where
  "decodes r bs v \<longleftrightarrow>
     (\<forall>buf nLen pos. holds buf nLen pos bs \<longrightarrow> r buf nLen pos = Inr (v, pos + length bs))"

named_theorems decode_intros \<open>readers and the bits they decode\<close>

lemma decodesD: "decodes r bs v \<Longrightarrow> holds buf nLen pos bs \<Longrightarrow> r buf nLen pos = Inr (v, pos + length bs)"
  by (simp add: decodes_def)

lemma decodes_ret [decode_intros]: "decodes (retR v) [] v"
  by (simp add: decodes_def retR_def)

lemma decodes_then:
  assumes "decodes r bs v" "decodes (f v) cs w"
  shows "decodes (thenR r f) (bs @ cs) w"
  unfolding decodes_def thenR_def
  using decodesD [OF assms(1)] decodesD [OF assms(2)] by (auto dest!: holds_append simp: add.assoc)

lemma thenR_retR: "thenR (retR v) f = f v"
  by (simp add: thenR_def retR_def)

lemma decodes_last: "decodes r bs v \<Longrightarrow> decodes (f v) [] w \<Longrightarrow> decodes (thenR r f) bs w"
  using decodes_then [of r bs v f "[]" w] by simp

lemma readBits_uBits:
  "holds buf nLen pos (uBits n v) \<Longrightarrow> readBits n buf pos d = Inr (d * 2 ^ n + v mod 2 ^ n, pos + n)"
proof (induction n arbitrary: pos d)
  case (Suc n)
  then have "bitAt buf pos = Inr (odd (v div 2 ^ n))" "holds buf nLen (pos + 1) (uBits n v)"
    using holds_Cons by auto
  moreover have "v mod 2 ^ Suc n = of_bool (odd (v div 2 ^ n)) * 2 ^ n + v mod 2 ^ n"
    by (simp only: power_Suc2 mod_mult2_eq mod_2_eq_odd) (simp add: mult.commute)
  ultimately show ?case using Suc.IH [of "pos + 1"] by (simp add: algebra_simps)
qed simp

lemma decodes_u: "v < 2 ^ n \<Longrightarrow> decodes (u n) (uBits n v) v"
  by (simp add: decodes_def u_def readBits_uBits)

lemma zeroBits_run:
  "holds buf nLen pos (replicate k False @ True # rest) \<Longrightarrow>
     zeroBits buf (nLen * 8 mod 2 ^ 32) z pos = Inr (z + k, pos + k)"
proof (induction k arbitrary: z pos)
  case 0
  then show ?case using holds_Cons [of buf nLen pos True rest] by (simp add: zeroBits.simps)
next
  case (Suc k)
  then show ?case
    using holds_Cons [of buf nLen pos False "replicate k False @ True # rest"] Suc.IH [of "pos + 1" "z + 1"]
    by (simp add: zeroBits.simps [of _ _ z pos])
qed

lemma decodes_Ue: "ue_codable v \<Longrightarrow> decodes Ue (ueBits v) v"
  unfolding decodes_def
proof (intro allI impI)
  fix buf nLen pos assume v: "ue_codable v" and h: "holds buf nLen pos (ueBits v)"
  define k where "k = exponent (v + 1)"
  have k: "2 ^ k \<le> v + 1" "v + 1 < 2 * 2 ^ k" using exponent_bounds [of "v + 1"] by (simp_all add: k_def)
  have "(2 :: nat) ^ k < 2 ^ 31" using k(1) v by (simp add: ue_codable_def)
  then have k31: "k < 31" by (rule power_less_imp_less_exp [rotated]) simp
  have len: "length (ueBits v) = k + 1 + k" by (simp add: ueBits_def k_def Let_def)
  have h: "holds buf nLen pos (replicate k False @ True # uBits k (v + 1 - 2 ^ k))"
    using h by (simp add: ueBits_def k_def Let_def)
  have "holds buf nLen (pos + k + 1) (uBits k (v + 1 - 2 ^ k))"
    using holds_append [OF h] holds_Cons by fastforce
  note r = readBits_uBits [OF this, of 0]
  show "Ue buf nLen pos = Inr (v, pos + length (ueBits v))"
    using k k31 r zeroBits_run [OF h, of 0] len by (simp add: Ue_def)
qed

lemma seIndex_value: "(if seIndex v mod 2 = 0 then - int ((seIndex v + 1) div 2) else int ((seIndex v + 1) div 2)) = v"
proof (cases "0 < v")
  case True
  then have "seIndex v = 2 * (nat v - 1) + 1" by (simp add: seIndex_def)
  then show ?thesis using True by simp
next
  case False
  then show ?thesis by (simp add: seIndex_def)
qed

lemma decodes_Se: "ue_codable (seIndex v) \<Longrightarrow> decodes Se (seBits v) v"
  unfolding Se_def seBits_def Let_def
  by (rule decodes_last [OF decodes_Ue]) (use seIndex_value [of v] in \<open>auto intro: decodes_ret\<close>)

text \<open>
  The contract of a reader with the code it reads, and what a parser that is a sequence of readers
  may rely on: the rest of the parser sees the rest of the bits.
\<close>

locale bit_code =
  fixes rd :: "'b reader" and bits :: "'a \<Rightarrow> bool list" and val :: "'a \<Rightarrow> 'b" and codable :: "'a \<Rightarrow> bool"
  assumes decodes_code: "codable x \<Longrightarrow> decodes rd (bits x) (val x)"
begin

lemma code_then: "codable x \<Longrightarrow> decodes (f (val x)) cs w \<Longrightarrow> decodes (thenR rd f) (bits x @ cs) w"
  by (rule decodes_then [OF decodes_code])

lemma code_last: "codable x \<Longrightarrow> decodes (f (val x)) [] w \<Longrightarrow> decodes (thenR rd f) (bits x) w"
  by (rule decodes_last [OF decodes_code])

lemma code_if_then:
  "c = b \<Longrightarrow> codable x \<Longrightarrow> decodes k cs w \<Longrightarrow>
     decodes (thenR (if c then rd else retR z) (\<lambda>_. k)) ((if b then bits x else []) @ cs) w"
  using code_then [of x "\<lambda>_. k" cs w] decodes_then [OF decodes_ret, of "\<lambda>_. k" z cs w] by simp

end

interpretation fixed: bit_code "u n" "uBits n" "\<lambda>v. v" "\<lambda>v. v < 2 ^ n" for n
  by unfold_locales (rule decodes_u)

interpretation golomb: bit_code Ue ueBits "\<lambda>v. v" ue_codable
  by unfold_locales (rule decodes_Ue)

interpretation sgolomb: bit_code Se seBits "\<lambda>v. v" "\<lambda>v. ue_codable (seIndex v)"
  by unfold_locales (rule decodes_Se)

definition flag :: "bool \<Rightarrow> bool list" where
  "flag b = uBits 1 (of_bool b)"

definition optBits :: "('a \<Rightarrow> bool list) \<Rightarrow> 'a option \<Rightarrow> bool list" where
  "optBits g x = (case x of None \<Rightarrow> flag False | Some y \<Rightarrow> flag True @ g y)"

interpretation flags: bit_code "u 1" flag "of_bool" "\<lambda>_. True"
  by unfold_locales (use decodes_u [of "of_bool _" 1] in \<open>simp add: flag_def\<close>)

lemmas code_thens [decode_intros] =
  fixed.code_then fixed.code_last golomb.code_then golomb.code_last sgolomb.code_then sgolomb.code_last
  flags.code_then flags.code_last
  flags.code_then [unfolded One_nat_def] flags.code_last [unfolded One_nat_def]

lemma decodes_if:
  "c = b \<Longrightarrow> (b \<Longrightarrow> decodes r bs v) \<Longrightarrow> (\<not> b \<Longrightarrow> decodes s cs v) \<Longrightarrow>
     decodes (if c then r else s) (if b then bs else cs) v"
  by simp

lemma decodes_opt:
  assumes "x = None \<Longrightarrow> decodes s [] w" "\<And>y. x = Some y \<Longrightarrow> decodes r (g y) w"
  shows "decodes (thenR (u 1) (\<lambda>f. if f \<noteq> 0 then r else s)) (optBits g x) w"
proof (cases x)
  case None
  show ?thesis
    unfolding None optBits_def option.case by (rule flags.code_last) (simp_all add: assms(1) None)
next
  case (Some y)
  show ?thesis
    unfolding Some optBits_def option.case by (rule flags.code_then) (simp_all add: assms(2) Some)
qed

lemma decodes_skipSe: "\<forall>v \<in> set vs. ue_codable (seIndex v) \<Longrightarrow> decodes (skipSe (length vs)) (concat (map seBits vs)) ()"
  by (induction vs) (auto intro!: decode_intros)

lemma decodes_skipFlags: "decodes (skipFlags (length bs)) (concat (map flag bs)) ()"
  by (induction bs) (auto intro!: decode_intros)

subsection \<open>The syntax of a sequence parameter set\<close>

text \<open>
  The abstract syntax of H.264, section 7.3.2.1, as far as the code reads it, and its bits. A matrix of
  scaling lists is present only with all of its eight lists absent: the code does not read the lists.
\<close>

record high_fields =
  chromaFormat :: nat
  residualColour :: bool
  lumaDepth :: nat
  chromaDepth :: nat
  bypass :: bool
  flatMatrix :: bool

datatype order_count = Order0 nat | Order1 bool int int "int list" | Order2

record vui_fields =
  aspect :: "(nat \<times> nat \<times> nat) option"
  overscan :: "bool option"
  signalType :: "(nat \<times> bool \<times> (nat \<times> nat \<times> nat) option) option"
  chromaLoc :: "(nat \<times> nat) option"
  timing :: "(nat \<times> nat \<times> bool) option"

record sps_fields =
  refIdc :: nat
  profile :: nat
  constraints :: "bool \<times> bool \<times> bool \<times> bool"
  reserved :: nat
  level :: nat
  spsId :: nat
  highFields :: high_fields
  frameNum :: nat
  orderCount :: order_count
  refFrames :: nat
  gaps :: bool
  widthInMbs :: nat
  heightInMapUnits :: nat
  frameMbsOnly :: bool
  adaptiveField :: bool
  direct8x8 :: bool
  crop :: "(nat \<times> nat \<times> nat \<times> nat) option"
  vui :: "vui_fields option"

definition highBits :: "high_fields \<Rightarrow> bool list" where
  "highBits h =
     ueBits (chromaFormat h) @ (if chromaFormat h = 3 then flag (residualColour h) else []) @
     ueBits (lumaDepth h) @ ueBits (chromaDepth h) @ flag (bypass h) @ flag (flatMatrix h) @
     (if flatMatrix h then concat (map flag (replicate 8 False)) else [])"

definition high_codable :: "high_fields \<Rightarrow> bool" where
  "high_codable h \<longleftrightarrow> ue_codable (chromaFormat h) \<and> ue_codable (lumaDepth h) \<and> ue_codable (chromaDepth h)"

primrec orderBits :: "order_count \<Rightarrow> bool list" where
  "orderBits (Order0 n) = ueBits 0 @ ueBits n"
| "orderBits (Order1 d a b vs) =
     ueBits 1 @ flag d @ seBits a @ seBits b @ ueBits (length vs) @ concat (map seBits vs)"
| "orderBits Order2 = ueBits 2"

primrec order_codable :: "order_count \<Rightarrow> bool" where
  "order_codable (Order0 n) \<longleftrightarrow> ue_codable n"
| "order_codable (Order1 d a b vs) \<longleftrightarrow>
     ue_codable (length vs) \<and> (\<forall>v \<in> set (a # b # vs). ue_codable (seIndex v))"
| "order_codable Order2 \<longleftrightarrow> True"

lemma ue_codable_small: "ue_codable 0" "ue_codable 1" "ue_codable (Suc 0)" "ue_codable 2"
  by (simp_all add: ue_codable_def)

interpretation high: bit_code readHighProfile highBits "\<lambda>_. ()" high_codable
proof
  fix h assume h: "high_codable h"
  have f: "decodes (skipFlags 8) (concat (map flag (replicate 8 False))) ()"
    using decodes_skipFlags [of "replicate 8 False"] by simp
  show "decodes readHighProfile (highBits h) ()"
    unfolding readHighProfile_def highBits_def
    using h unfolding high_codable_def
    by (intro decode_intros flags.code_if_then decodes_if f) simp_all
qed

interpretation order: bit_code readOrderCount orderBits "\<lambda>_. ()" order_codable
proof
  fix x assume "order_codable x"
  then show "decodes readOrderCount (orderBits x) ()"
    unfolding readOrderCount_def
    by (cases x) (auto intro!: decode_intros decodes_skipSe simp: ue_codable_small)
qed

definition cropBits :: "(nat \<times> nat \<times> nat \<times> nat) option \<Rightarrow> bool list" where
  "cropBits = optBits (\<lambda>(a, b, c, d). ueBits a @ ueBits b @ ueBits c @ ueBits d)"

definition crop_codable :: "(nat \<times> nat \<times> nat \<times> nat) option \<Rightarrow> bool" where
  "crop_codable x \<longleftrightarrow>
     (\<forall>(a, b, c, d) \<in> set_option x. ue_codable a \<and> ue_codable b \<and> ue_codable c \<and> ue_codable d)"

definition aspectBits :: "(nat \<times> nat \<times> nat) option \<Rightarrow> bool list" where
  "aspectBits = optBits (\<lambda>(idc, w, h). uBits 8 idc @ (if idc = 255 then uBits 16 w @ uBits 16 h else []))"

definition aspect_codable :: "(nat \<times> nat \<times> nat) option \<Rightarrow> bool" where
  "aspect_codable x \<longleftrightarrow> (\<forall>(idc, w, h) \<in> set_option x. idc < 2 ^ 8 \<and> w < 2 ^ 16 \<and> h < 2 ^ 16)"

definition signalBits :: "(nat \<times> bool \<times> (nat \<times> nat \<times> nat) option) option \<Rightarrow> bool list" where
  "signalBits = optBits (\<lambda>(fmt, rng, col).
     uBits 3 fmt @ flag rng @ optBits (\<lambda>(p, t, m). uBits 8 p @ uBits 8 t @ uBits 8 m) col)"

definition signal_codable :: "(nat \<times> bool \<times> (nat \<times> nat \<times> nat) option) option \<Rightarrow> bool" where
  "signal_codable x \<longleftrightarrow> (\<forall>(fmt, rng, col) \<in> set_option x. fmt < 2 ^ 3 \<and>
     (\<forall>(p, t, m) \<in> set_option col. p < 2 ^ 8 \<and> t < 2 ^ 8 \<and> m < 2 ^ 8))"

definition timingBits :: "(nat \<times> nat \<times> bool) option \<Rightarrow> bool list" where
  "timingBits = optBits (\<lambda>(units, scale, fx). uBits 32 units @ uBits 32 scale @ flag fx)"

definition timing_codable :: "(nat \<times> nat \<times> bool) option \<Rightarrow> bool" where
  "timing_codable x \<longleftrightarrow> (\<forall>(units, scale, fx) \<in> set_option x. units < 2 ^ 31 \<and> scale < 2 ^ 31)"

text \<open>The frame rate the timing information stands for; without it, or with no units, it is 0.\<close>

definition frameRate :: "(nat \<times> nat \<times> bool) option \<Rightarrow> nat" where
  "frameRate x = (case x of None \<Rightarrow> 0
     | Some (units, scale, fx) \<Rightarrow> if fx then scale div units div 2 else scale div units)"

definition vuiBits :: "vui_fields option \<Rightarrow> bool list" where
  "vuiBits = optBits (\<lambda>v. aspectBits (aspect v) @ optBits flag (overscan v) @
     signalBits (signalType v) @ optBits (\<lambda>(t, b). ueBits t @ ueBits b) (chromaLoc v) @
     timingBits (timing v))"

definition vui_codable :: "vui_fields option \<Rightarrow> bool" where
  "vui_codable x \<longleftrightarrow> (\<forall>v \<in> set_option x. aspect_codable (aspect v) \<and> signal_codable (signalType v) \<and>
     (\<forall>(t, b) \<in> set_option (chromaLoc v). ue_codable t \<and> ue_codable b) \<and> timing_codable (timing v))"

definition vuiRate :: "vui_fields option \<Rightarrow> nat" where
  "vuiRate x = (case x of None \<Rightarrow> 0 | Some v \<Rightarrow> frameRate (timing v))"

interpretation crops: bit_code readCropping cropBits "\<lambda>_. ()" crop_codable
proof
  fix x assume x: "crop_codable x"
  show "decodes readCropping (cropBits x) ()"
    unfolding readCropping_def cropBits_def
    by (rule decodes_opt) (use x in \<open>auto simp: crop_codable_def intro!: decode_intros\<close>)
qed

interpretation aspects: bit_code readAspect aspectBits "\<lambda>_. ()" aspect_codable
proof
  fix x assume x: "aspect_codable x"
  show "decodes readAspect (aspectBits x) ()"
    unfolding readAspect_def aspectBits_def
    by (rule decodes_opt) (use x in \<open>auto simp: aspect_codable_def intro!: decode_intros decodes_if\<close>)
qed

interpretation signals: bit_code readSignalType signalBits "\<lambda>_. ()" signal_codable
proof
  fix x assume x: "signal_codable x"
  have c: "decodes (thenR (u 1) (\<lambda>f. if f \<noteq> 0 then thenR (u 8) (\<lambda>_. thenR (u 8) (\<lambda>_. thenR (u 8) (\<lambda>_. retR ())))
        else retR ())) (optBits (\<lambda>(p, t, m). uBits 8 p @ uBits 8 t @ uBits 8 m) col) ()"
    if "\<forall>(p, t, m) \<in> set_option col. p < 2 ^ 8 \<and> t < 2 ^ 8 \<and> m < 2 ^ 8" for col
    by (rule decodes_opt) (use that in \<open>auto intro!: decode_intros\<close>)
  show "decodes readSignalType (signalBits x) ()"
    unfolding readSignalType_def signalBits_def
  proof (rule decodes_opt)
    fix y assume y: "x = Some y"
    obtain fmt rng col where e: "y = (fmt, rng, col)" by (cases y)
    have "fmt < 2 ^ 3" "\<forall>(p, t, m) \<in> set_option col. p < 2 ^ 8 \<and> t < 2 ^ 8 \<and> m < 2 ^ 8"
      using x unfolding y e signal_codable_def by simp_all
    then show "decodes (thenR (u 3) (\<lambda>video_format. thenR (u 1) (\<lambda>video_full_range_flag.
         thenR (u 1) (\<lambda>f. if f \<noteq> 0
           then thenR (u 8) (\<lambda>_. thenR (u 8) (\<lambda>_. thenR (u 8) (\<lambda>_. retR ()))) else retR ()))))
         (case y of (fmt, rng, col) \<Rightarrow> uBits 3 fmt @ flag rng @
            optBits (\<lambda>(p, t, m). uBits 8 p @ uBits 8 t @ uBits 8 m) col) ()"
      unfolding e prod.case by (intro fixed.code_then [of _ 3] flags.code_then c) simp_all
  qed (rule decodes_ret)
qed

lemma int32_small: "n < 2 ^ 31 \<Longrightarrow> int32 n = int n"
  by (simp add: int32_def signed_take_bit_int_eq_self)

lemma sdiv_nat: "int a sdiv int b = int (a div b)"
  by (simp add: signed_divide_int_def zdiv_int sgn_if)

interpretation timings: bit_code readTiming timingBits "\<lambda>x. int (frameRate x)" timing_codable
proof
  fix x assume x: "timing_codable x"
  show "decodes readTiming (timingBits x) (int (frameRate x))"
    unfolding readTiming_def timingBits_def
  proof (rule decodes_opt)
    fix y assume y: "x = Some y"
    obtain units scale fx where e: "y = (units, scale, fx)" by (cases y)
    have r: "units < 2 ^ 31" "scale < 2 ^ 31" using x y e by (simp_all add: timing_codable_def)
    have q: "(if int units = -1 \<and> int scale = - (2 ^ 31) then failR Undefined
        else retR (if int units \<noteq> 0 then int scale sdiv int units else 0)) = retR (int (scale div units))"
      by (simp add: sdiv_nat)
    have v: "int (frameRate x) =
        (if of_bool fx \<noteq> (0 :: nat) then int (scale div units) sdiv 2 else int (scale div units))"
      using sdiv_nat [of "scale div units" 2] by (simp add: y e frameRate_def)
    have "decodes (thenR (if int units = -1 \<and> int scale = - (2 ^ 31) then failR Undefined
        else retR (if int units \<noteq> 0 then int scale sdiv int units else 0)) (\<lambda>fps.
        thenR (u 1) (\<lambda>fixed. retR (if fixed \<noteq> 0 then fps sdiv 2 else fps)))) (flag fx) (int (frameRate x))"
      unfolding q thenR_retR v by (rule flags.code_last, rule TrueI, rule decodes_ret)
    then show "decodes (thenR (u 32) (\<lambda>num. thenR (u 32) (\<lambda>tim.
        let num_units_in_tick = int32 num; time_scale = int32 tim
        in thenR (if num_units_in_tick = -1 \<and> time_scale = - (2 ^ 31) then failR Undefined
             else retR (if num_units_in_tick \<noteq> 0 then time_scale sdiv num_units_in_tick else 0)) (\<lambda>fps.
           thenR (u 1) (\<lambda>fixed_frame_rate_flag. retR (if fixed_frame_rate_flag \<noteq> 0 then fps sdiv 2 else fps))))))
      (case y of (units, scale, fx) \<Rightarrow> uBits 32 units @ uBits 32 scale @ flag fx) (int (frameRate x))"
      unfolding e prod.case Let_def
      by (intro fixed.code_then [of _ 32]) (use r in \<open>simp_all add: int32_small split: if_splits\<close>)
  qed (simp add: frameRate_def decodes_ret)
qed

interpretation vuis: bit_code readVui vuiBits "\<lambda>x. int (vuiRate x)" vui_codable
proof
  fix x assume x: "vui_codable x"
  have o: "decodes (thenR (u 1) (\<lambda>f. thenR (if f \<noteq> 0 then u 1 else retR 0) (\<lambda>_. k))) (optBits flag b @ cs) w"
    if "decodes k cs w" for b k cs and w :: int
    by (cases b) (auto simp: optBits_def thenR_retR intro!: code_thens that)
  have p: "decodes (thenR (u 1) (\<lambda>f. thenR (if f \<noteq> 0 then thenR Ue (\<lambda>_. Ue) else retR 0) (\<lambda>_. k)))
      (optBits (\<lambda>(t, b). ueBits t @ ueBits b) c @ cs) w"
    if "decodes k cs w" "\<forall>(t, b) \<in> set_option c. ue_codable t \<and> ue_codable b" for c k cs and w :: int
  proof (cases c)
    case (Some y)
    obtain t b where y: "y = (t, b)" by (cases y)
    then have "decodes (thenR Ue (\<lambda>_. Ue)) (ueBits t @ ueBits b) b"
      using that(2) Some by (intro golomb.code_then decodes_Ue) simp_all
    from decodes_then [OF this, of "\<lambda>_. k", OF that(1)] show ?thesis
      by (auto simp: optBits_def Some y intro!: code_thens)
  qed (auto simp: optBits_def thenR_retR intro!: code_thens that)
  show "decodes readVui (vuiBits x) (int (vuiRate x))"
    unfolding readVui_def vuiBits_def
  proof (rule decodes_opt)
    fix v assume v: "x = Some v"
    then show "decodes (thenR readAspect (\<lambda>_. thenR (u 1) (\<lambda>overscan_info_present_flag.
         thenR (if overscan_info_present_flag \<noteq> 0 then u 1 else retR 0) (\<lambda>_.
         thenR readSignalType (\<lambda>_. thenR (u 1) (\<lambda>chroma_loc_info_present_flag.
         thenR (if chroma_loc_info_present_flag \<noteq> 0 then thenR Ue (\<lambda>_. Ue) else retR 0) (\<lambda>_.
           readTiming)))))))
      (aspectBits (aspect v) @ optBits flag (overscan v) @ signalBits (signalType v) @
       optBits (\<lambda>(t, b). ueBits t @ ueBits b) (chromaLoc v) @ timingBits (timing v)) (int (vuiRate x))"
      using x unfolding vui_codable_def
      by (intro aspects.code_then o signals.code_then p)
        (auto simp: vuiRate_def intro: timings.decodes_code)
  qed (simp add: vuiRate_def decodes_ret)
qed

definition spsBits :: "sps_fields \<Rightarrow> bool list" where
  "spsBits s =
     (case constraints s of (c0, c1, c2, c3) \<Rightarrow>
       uBits 8 (profile s) @ flag c0 @ flag c1 @ flag c2 @ flag c3 @ uBits 4 (reserved s) @
       uBits 8 (level s) @ ueBits (spsId s) @
       (if isHighProfile (profile s) then highBits (highFields s) else []) @
       ueBits (frameNum s) @ orderBits (orderCount s) @ ueBits (refFrames s) @ flag (gaps s) @
       ueBits (widthInMbs s - 1) @ ueBits (heightInMapUnits s - 1) @ flag (frameMbsOnly s) @
       (if frameMbsOnly s then [] else flag (adaptiveField s)) @ flag (direct8x8 s) @
       cropBits (crop s) @ vuiBits (vui s))"

definition sps_codable :: "sps_fields \<Rightarrow> bool" where
  "sps_codable s \<longleftrightarrow>
     refIdc s < 2 ^ 2 \<and> profile s < 2 ^ 8 \<and> reserved s < 2 ^ 4 \<and> level s < 2 ^ 8 \<and> ue_codable (spsId s) \<and>
     high_codable (highFields s) \<and> ue_codable (frameNum s) \<and> order_codable (orderCount s) \<and>
     ue_codable (refFrames s) \<and> 0 < widthInMbs s \<and> widthInMbs s < 2 ^ 27 \<and>
     0 < heightInMapUnits s \<and> heightInMapUnits s < 2 ^ 27 \<and> crop_codable (crop s) \<and> vui_codable (vui s)"

text \<open>The unit: a zero bit, the reference indicator, the type 7, the fields.\<close>

definition nalBits :: "sps_fields \<Rightarrow> bool list" where
  "nalBits s = flag False @ uBits 2 (refIdc s) @ uBits 5 7 @ spsBits s"

definition sizeAndRate :: "sps_fields \<Rightarrow> int \<times> int \<times> int" where
  "sizeAndRate s = (16 * int (widthInMbs s), 16 * int (heightInMapUnits s), int (vuiRate (vui s)))"

lemma macroblocks_then:
  "0 < n \<Longrightarrow> n < 2 ^ 27 \<Longrightarrow> decodes (f (16 * int n)) cs w \<Longrightarrow> decodes (thenR (macroblocks (n - 1)) f) cs w"
  by (simp add: macroblocks_def thenR_retR mult.commute of_nat_diff)

interpretation spss: bit_code readSps spsBits sizeAndRate sps_codable
proof
  fix s assume s: "sps_codable s"
  obtain c0 c1 c2 c3 where c: "constraints s = (c0, c1, c2, c3)" by (cases "constraints s")
  have ue: "ue_codable (widthInMbs s - 1)" "ue_codable (heightInMapUnits s - 1)"
    using s by (simp_all add: sps_codable_def ue_codable_def)
  have f: "decodes (thenR (if of_bool b = (0 :: nat) then u 1 else retR 0) (\<lambda>_. k)) ((if b then [] else flag a) @ cs) w"
    if "decodes k cs w" for a b k cs and w :: "int \<times> int \<times> int"
    using that by (cases b) (auto simp: thenR_retR intro!: code_thens)
  show "decodes readSps (spsBits s) (sizeAndRate s)"
    unfolding readSps_def spsBits_def c prod.case
    using s ue unfolding sps_codable_def
    by (intro fixed.code_then [of _ 8] fixed.code_then [of _ 4] flags.code_then golomb.code_then
        high.code_if_then order.code_then macroblocks_then f crops.code_then vuis.code_last)
      (simp_all add: sizeAndRate_def decodes_ret)
qed

subsection \<open>Removal of the emulation prevention bytes\<close>

text \<open>
  The reference encoder puts a byte 3 before a byte of at most 3 that follows two zero bytes; its first
  argument counts the zeros since the last inserted byte. \<open>strip\<close> is the code's loop without the array.
\<close>

fun escape :: "nat \<Rightarrow> bytes \<Rightarrow> bytes" where
  "escape z [] = []"
| "escape z (b # bs) =
     (if 2 \<le> z \<and> b \<le> 3 then 3 # b # escape (of_bool (b = 0)) bs
      else b # escape (if b = 0 then z + 1 else 0) bs)"

fun strip :: "bytes \<Rightarrow> bytes" where
  "strip (a # b # c # xs) = (if a = 0 \<and> b = 0 \<and> c = 3 then a # strip (b # xs) else a # strip (b # c # xs))"
| "strip [a, b] = [a, b]"
| "strip [a] = [a]"
| "strip [] = []"

lemma length_strip: "length (strip xs) \<le> length xs"
  by (induction xs rule: strip.induct) auto

lemma xor_eq_iff: "(a :: u8) XOR b = 0 \<longleftrightarrow> a = b"
  by (auto simp: bit_eq_iff bit_simps)

lemma triple_zero:
  "unat (a XOR 0) + unat (b XOR 0) + unat ((c :: u8) XOR 3) = 0 \<longleftrightarrow> (a :: u8) = 0 \<and> (b :: u8) = 0 \<and> c = 3"
  by (simp add: unat_eq_zero xor_eq_iff)

lemma shiftLoop_eq:
  "shiftLoop (length xs) (length pre) (pre @ c # xs) = Inr (pre @ xs @ [last (c # xs)])"
proof (induction xs arbitrary: pre c)
  case (Cons x xs)
  show ?case using Cons.IH [of "pre @ [x]" x] by (simp add: nth_append list_update_append)
qed simp

lemma deLoop_triple:
  "deLoop (Suc n) T (length pre) (pre @ a # b # c # xs) sz =
     (if a = 0 \<and> b = 0 \<and> c = 3
      then andThen (shiftLoop (T - 1 - (length pre + 2)) (length pre + 2) (pre @ a # b # c # xs)) (\<lambda>tmp.
             deLoop n T (length pre + 1) tmp (sz - 1))
      else deLoop n T (length pre + 1) (pre @ a # b # c # xs) sz)"
  by (simp add: nth_append Let_def triple_zero [simplified])

declare deLoop.simps(2) [simp del]

lemma deLoop_constant:
  "deLoop (m - 1) T (length pre) (pre @ a # replicate m x) sz = Inr (pre @ a # replicate m x, sz)"
proof (induction m arbitrary: pre a)
  case (Suc m)
  show ?case
  proof (cases m)
    case (Suc j)
    then show ?thesis
      using Suc.IH [of "pre @ [a]" x] by (auto simp: deLoop_triple)
  qed simp
qed simp

lemma deLoop_strip:
  "ys \<noteq> [] \<Longrightarrow> T = length pre + length ys + k \<Longrightarrow>
     deLoop (length ys + k - 2) T (length pre) (pre @ ys @ replicate k (last ys)) sz =
     Inr (pre @ strip ys @ replicate (k + (length ys - length (strip ys))) (last ys),
          sz - (length ys - length (strip ys)))"
proof (induction ys arbitrary: pre k sz rule: strip.induct)
  case (1 a b c xs)
  show ?case
  proof (cases "a = 0 \<and> b = 0 \<and> c = 3")
    case True
    let ?l = "last (c # xs)"
    have "shiftLoop (length (xs @ replicate k ?l)) (length (pre @ [a, b])) ((pre @ [a, b]) @ c # xs @ replicate k ?l)
        = Inr ((pre @ [a, b]) @ (xs @ replicate k ?l) @ [?l])"
      unfolding shiftLoop_eq by (cases k) (simp_all add: last_replicate)
    moreover have "(xs @ replicate k ?l) @ [?l] = xs @ replicate (Suc k) ?l"
      by (simp add: replicate_append_same)
    ultimately have s: "shiftLoop (length xs + k) (length pre + 2) (pre @ a # b # c # xs @ replicate k ?l)
        = Inr ((pre @ [a]) @ b # xs @ replicate (Suc k) ?l)"
      by simp
    have n: "length (a # b # c # xs) + k - 2 = Suc (length xs + k)" by simp
    have go: "deLoop (length (a # b # c # xs) + k - 2) T (length pre) (pre @ (a # b # c # xs) @ replicate k ?l) sz
        = deLoop (length xs + k) T (length (pre @ [a])) ((pre @ [a]) @ b # xs @ replicate (Suc k) ?l) (sz - 1)"
      using s True 1(4) unfolding n by (simp add: deLoop_triple)
    show ?thesis
    proof (cases "xs = []")
      case True
      then show ?thesis
        using go deLoop_constant [of "Suc k" T "pre @ [a]" b c "sz - 1"] \<open>a = 0 \<and> b = 0 \<and> c = 3\<close> by simp
    next
      case False
      then have "last (b # xs) = ?l" by simp
      then show ?thesis
        using go 1(1) [OF True, of "pre @ [a]" "Suc k" "sz - 1"] 1(4) length_strip [of "b # xs"] True
        by (simp add: Suc_diff_le)
    qed
  next
    case False
    have n: "length (a # b # c # xs) + k - 2 = Suc (length xs + k)" by simp
    have go: "deLoop (length (a # b # c # xs) + k - 2) T (length pre) (pre @ (a # b # c # xs) @ replicate k (last (c # xs))) sz
        = deLoop (length xs + k) T (length (pre @ [a])) ((pre @ [a]) @ (b # c # xs) @ replicate k (last (c # xs))) sz"
      using False unfolding n by (auto simp: deLoop_triple)
    show ?thesis
      using go 1(2) [OF False, of "pre @ [a]" k sz] 1(4) False by (simp only: strip.simps if_False) auto
  qed
next
  case (2 a b)
  then show ?case using deLoop_constant [of "Suc k" T pre a b sz] by simp
next
  case (3 a)
  then show ?case using deLoop_constant [of k T pre a a sz] by simp
qed simp

lemma de_emulation_strip:
  assumes "2 \<le> length buf" "length buf < 2 ^ 32"
  shows "\<exists>junk. de_emulation_prevention buf (length buf) = Inr (strip buf @ junk, length (strip buf))"
proof -
  have "word_of_nat (length buf) - 2 = (word_of_nat (length buf - 2) :: u32)"
    using assms(1) by (simp add: of_nat_diff)
  then have "unat (word_of_nat (length buf) - 2 :: u32) = length buf - 2"
    using assms by (simp only: unat_of_nat) simp
  moreover have "buf \<noteq> []" using assms(1) by auto
  moreover have "length buf - (length buf - length (strip buf)) = length (strip buf)"
    using length_strip [of buf] by simp
  ultimately show ?thesis
    using deLoop_strip [of buf "length buf" "[]" 0 "length buf"] by (auto simp: de_emulation_prevention_def)
qed

lemma strip_Cons: "c \<noteq> 0 \<Longrightarrow> strip (c # xs) = c # strip xs"
  by (cases xs rule: strip.cases) auto

lemma strip_zero_Cons: "c \<noteq> 0 \<Longrightarrow> strip (0 # c # xs) = 0 # c # strip xs"
  by (cases xs) (auto simp: strip_Cons)

lemma strip_zeros: "c \<noteq> 3 \<Longrightarrow> strip (0 # 0 # c # xs) = 0 # strip (0 # c # xs)"
  by simp

text \<open>The four states of the encoder; in the last one the code has counted a zero the encoder has not.\<close>

lemma strip_escape_states:
  "(\<not> sublist [0, 0, 0, 3] bs \<longrightarrow> strip (escape 0 bs) = bs) \<and>
   (\<not> sublist [0, 0, 0, 3] (0 # bs) \<longrightarrow> strip (0 # escape 1 bs) = 0 # bs) \<and>
   (\<not> sublist [0, 0, 0, 3] (0 # 0 # bs) \<longrightarrow> strip (0 # 0 # escape 2 bs) = 0 # 0 # bs) \<and>
   (\<not> sublist [0, 0, 0, 3] (0 # 0 # 0 # bs) \<longrightarrow> strip (0 # 0 # escape 1 bs) = 0 # 0 # bs)"
proof (induction bs)
  case (Cons b bs)
  let ?ok = "\<lambda>xs. \<not> sublist [0, 0, 0, 3 :: u8] xs"
  have tl: "?ok (x # xs) \<Longrightarrow> ?ok xs" for x xs by (simp add: sublist_Cons_right)
  have s0: "strip (escape 0 (b # bs)) = b # bs" if ok: "?ok (b # bs)"
  proof (cases "b = 0")
    case True
    then show ?thesis using Cons.IH ok by simp
  next
    case False
    then show ?thesis using Cons.IH tl [OF ok] by (simp add: strip_Cons)
  qed
  have s1: "strip (0 # escape 1 (b # bs)) = 0 # b # bs" if ok: "?ok (0 # b # bs)"
  proof (cases "b = 0")
    case True
    then show ?thesis using Cons.IH ok by (simp add: numeral_2_eq_2)
  next
    case False
    then show ?thesis using Cons.IH tl [OF tl [OF ok]] by (simp add: strip_zero_Cons)
  qed
  have s3: "strip (0 # 0 # escape 1 (b # bs)) = 0 # 0 # b # bs" if ok: "?ok (0 # 0 # 0 # b # bs)"
  proof (cases "b = 0")
    case True
    then have "escape 1 (b # bs) = 0 # escape 2 bs" by (simp add: numeral_2_eq_2)
    then show ?thesis using Cons.IH tl [OF tl [OF ok]] True by simp
  next
    case False
    moreover have "b \<noteq> 3" using ok by (auto simp: sublist_Cons_right)
    ultimately show ?thesis
      using Cons.IH tl [OF tl [OF tl [OF tl [OF ok]]]] by (simp add: strip_zeros strip_zero_Cons)
  qed
  have s2: "strip (0 # 0 # escape 2 (b # bs)) = 0 # 0 # b # bs" if ok: "?ok (0 # 0 # b # bs)"
  proof (cases "b = 0")
    case True
    then show ?thesis using Cons.IH ok by simp
  next
    case False
    then show ?thesis
      using Cons.IH tl [OF tl [OF tl [OF ok]]] by (cases "b \<le> 3") (auto simp: strip_zero_Cons)
  qed
  show ?case using s0 s1 s2 s3 by blast
qed simp

lemma strip_escape: "\<not> sublist [0, 0, 0, 3] bs \<Longrightarrow> strip (escape 0 bs) = bs"
  using strip_escape_states [of bs] by blast

lemma length_escape: "length bs \<le> length (escape z bs)"
proof (induction bs arbitrary: z)
  case (Cons b bs)
  show ?case
    using Cons.IH [of "of_bool (b = 0)"] Cons.IH [of "if b = 0 then z + 1 else 0"] by simp
qed simp

subsection \<open>The bits of a buffer\<close>

definition byteBits :: "u8 \<Rightarrow> bool list" where
  "byteBits b = map (\<lambda>i. bit b (7 - i)) [0..<8]"

definition bitsOf :: "bytes \<Rightarrow> bool list" where
  "bitsOf buf = concat (map byteBits buf)"

lemma length_bitsOf: "length (bitsOf buf) = 8 * length buf"
  by (induction buf) (simp_all add: bitsOf_def byteBits_def)

lemma nth_bitsOf: "n < 8 * length buf \<Longrightarrow> bitsOf buf ! n = bit (buf ! (n div 8)) (7 - n mod 8)"
proof (induction buf arbitrary: n)
  case (Cons b buf)
  show ?case
  proof (cases "n < 8")
    case True
    then show ?thesis by (simp add: bitsOf_def byteBits_def nth_append)
  next
    case False
    then have "bitsOf (b # buf) ! n = bitsOf buf ! (n - 8)"
      by (simp add: bitsOf_def byteBits_def nth_append)
    also have "\<dots> = bit (buf ! ((n - 8) div 8)) (7 - (n - 8) mod 8)"
      using False Cons.prems by (intro Cons.IH) simp
    finally show ?thesis using False by (simp add: le_div_geq le_mod_geq)
  qed
qed simp

lemma bit_mask: "k < 8 \<Longrightarrow> (b :: u8) AND drop_bit k 0x80 \<noteq> 0 \<longleftrightarrow> bit b (7 - k)"
proof -
  assume k: "k < 8"
  have "drop_bit k (0x80 :: u8) = push_bit (7 - k) 1"
    using k by (simp add: less_Suc_eq numeral_eq_Suc) auto
  then show ?thesis by (simp add: bit_iff_and_push_bit_not_eq_0)
qed

lemma bitAt_bitsOf: "n < 8 * length buf \<Longrightarrow> bitAt (buf @ junk) n = Inr (bitsOf buf ! n)"
  using less_mult_imp_div_less [of n "length buf" 8]
  by (simp add: bitAt_def bit_mask nth_bitsOf nth_append mult.commute)

lemma holds_prefix:
  assumes "prefix bs (bitsOf buf)" "length buf < 2 ^ 29"
  shows "holds (buf @ junk) (length buf) 0 bs"
  unfolding holds_def
proof (intro conjI allI impI)
  have l: "length bs \<le> 8 * length buf"
    using prefix_length_le [OF assms(1)] by (simp add: length_bitsOf)
  then show "0 + length bs \<le> length buf * 8 mod 2 ^ 32" using assms(2) by simp
  fix i assume "i < length bs"
  then show "bitAt (buf @ junk) (0 + i) = Inr (bs ! i)"
    using l assms(1) by (auto simp: bitAt_bitsOf prefix_def nth_append)
qed


definition exampleSps :: sps_fields where
  "exampleSps = \<lparr>refIdc = 3, profile = 66, constraints = (True, True, False, False), reserved = 0, level = 30,
     spsId = 0, highFields = \<lparr>chromaFormat = 1, residualColour = False, lumaDepth = 0, chromaDepth = 0,
       bypass = False, flatMatrix = False\<rparr>,
     frameNum = 0, orderCount = Order2, refFrames = 1, gaps = False, widthInMbs = 40,
     heightInMapUnits = 30, frameMbsOnly = True, adaptiveField = False, direct8x8 = True, crop = None,
     vui = Some \<lparr>aspect = None, overscan = None, signalType = None, chromaLoc = None,
       timing = Some (1, 50, True)\<rparr>\<rparr>"

definition exampleNal :: bytes where
  "exampleNal = [0x67, 0x42, 0xC0, 0x1E, 0xDA, 0x02, 0x80, 0xF6, 0x84, 0, 0, 0, 0x04, 0, 0, 0, 0xCB]"

lemma uBits_map: "uBits n v = map (\<lambda>i. odd (v div 2 ^ i)) (rev [0..<n])"
  by (induction n) simp_all

lemma ueBits_eval:
  "ueBits 0 = [True]" "ueBits (Suc 0) = [False, True, False]" "ueBits 2 = [False, True, True]"
  "ueBits 29 = [False, False, False, False, True, True, True, True, False]"
  "ueBits 39 = [False, False, False, False, False, True, False, True, False, False, False]"
  by (simp_all add: ueBits_def Let_def exponent.simps uBits_map upt_conv_Cons numeral_eq_Suc [of num.One])

lemma exampleSps_bits: "sps_codable exampleSps" "prefix (nalBits exampleSps) (bitsOf exampleNal)"
proof -
  show "sps_codable exampleSps"
    by (simp add: sps_codable_def exampleSps_def high_codable_def ue_codable_def crop_codable_def vui_codable_def
        aspect_codable_def signal_codable_def timing_codable_def)
  show "prefix (nalBits exampleSps) (bitsOf exampleNal)"
    by (simp add: nalBits_def spsBits_def exampleSps_def exampleNal_def isHighProfile_def flag_def uBits_map
        ueBits_eval cropBits_def vuiBits_def optBits_def aspectBits_def signalBits_def timingBits_def
        bitsOf_def byteBits_def upt_conv_Cons)
qed


text \<open>
  The loop that removes emulation prevention bytes also removes a byte 3 of the payload when the two zeros
  before it are not both counted by the encoder, so the payload is damaged.
\<close>

theorem de_emulation_trap:
  "escape 0 (0 # 0 # 0 # 3 # [b]) = [0, 0, 3, 0, 3, b]"
  "de_emulation_prevention [0, 0, 3, 0, 3, b] 6 = Inr ([0, 0, 0, b, b, b], 4)"
proof -
  show "escape 0 (0 # 0 # 0 # 3 # [b]) = [0, 0, 3, 0, 3, b]" by simp
  show "de_emulation_prevention [0, 0, 3, 0, 3, b] 6 = Inr ([0, 0, 0, b, b, b], 4)"
  proof -
    have "deLoop 4 6 0 [0, 0, 3, 0, 3, b] 6 = Inr ([0, 0, 0, b, b, b], 4)"
      using deLoop_strip [of "[0, 0, 3, 0, 3, b]" 6 "[]" 0 6] by (simp add: eval_nat_numeral)
    then show ?thesis by (simp add: de_emulation_prevention_def)
  qed
qed

text \<open>With fewer than two bytes the bound of that loop wraps around and the first round reads past the end.\<close>

theorem getSpsInfo_short:
  assumes "length buf < 2"
  shows "getSpsInfo buf (length buf) width height = Inl Undefined"
proof -
  have "deLoop n T 0 buf sz = Inl Undefined" if "0 < n" for n T sz
    using that assms by (cases n) (auto simp: deLoop.simps(2) andThen_eq_Inl at_def)
  moreover have "0 < unat (word_of_nat (length buf) - 2 :: u32)"
    using assms by (cases "length buf = 0") (auto simp: less_2_cases_iff unat_gt_0)
  ultimately show ?thesis by (simp add: getSpsInfo_def de_emulation_prevention_def)
qed

theorem getSpsInfo_short_witness: "getSpsInfo [0x67] 1 0 0 = Inl Undefined"
  using getSpsInfo_short [of "[0x67]" 0 0] by simp

subsection \<open>Base64\<close>

text \<open>The reference encoder: groups of three bytes, padded with equals signs.\<close>

definition sextet :: "int \<Rightarrow> char" where
  "sextet p = base64_chars ! nat p"

fun base64Encode :: "bytes \<Rightarrow> string" where
  "base64Encode (a # b # c # bs) =
     sextet (uint a div 4) # sextet (uint a mod 4 * 16 + uint b div 16) #
     sextet (uint b mod 16 * 4 + uint c div 64) # sextet (uint c mod 64) # base64Encode bs"
| "base64Encode [a, b] =
     [sextet (uint a div 4), sextet (uint a mod 4 * 16 + uint b div 16), sextet (uint b mod 16 * 4), CHR ''='']"
| "base64Encode [a] = [sextet (uint a div 4), sextet (uint a mod 4 * 16), CHR ''='', CHR ''='']"
| "base64Encode [] = []"

lemma find_in_nth: "distinct xs \<Longrightarrow> i < length xs \<Longrightarrow> find_in [xs ! i] xs = Some i"
proof (induction xs arbitrary: i)
  case (Cons x xs)
  then show ?case by (cases i) auto
qed simp

lemma base64_chars_distinct: "distinct base64_chars" "length base64_chars = 64" "CHR ''='' \<notin> set base64_chars"
  by (simp_all add: base64_chars_def)

lemma sextet_find:
  assumes "0 \<le> p" "p < 64"
  shows "find_in [sextet p] base64_chars = Some (nat p)" "sextet p \<noteq> CHR ''=''"
proof -
  have n: "nat p < length base64_chars" using assms base64_chars_distinct by simp
  show "find_in [sextet p] base64_chars = Some (nat p)"
    unfolding sextet_def by (rule find_in_nth [OF base64_chars_distinct(1) n])
  show "sextet p \<noteq> CHR ''=''"
    using nth_mem [OF n] base64_chars_distinct(3) unfolding sextet_def by metis
qed

lemma base64_step:
  assumes "0 \<le> p" "p < 64"
  shows "base64Loop (sextet p # cs) val valb ret =
    (let val = signed_take_bit 31 (val * 64 + p); valb = valb + 6
     in if 0 \<le> valb then base64Loop cs val (valb - 8) (ret @ [word_of_int (drop_bit (nat valb) val)])
        else base64Loop cs val valb ret)"
  using sextet_find [OF assms] assms by (simp add: Let_def)

lemma word8_eqI: "take_bit 8 x = uint (a :: u8) \<Longrightarrow> word_of_int x = a"
  by (rule word_uint_eqI) (simp add: uint_word_of_int take_bit_eq_mod)

text \<open>The byte put out depends on the last fourteen bits of the accumulator, and not on the earlier ones.\<close>

lemma emitted_byte:
  assumes "n \<le> 6" "x div 2 ^ n mod 256 = uint (a :: u8)"
  shows "word_of_int (drop_bit n (signed_take_bit 31 x)) = a"
proof (rule word8_eqI)
  have "take_bit 8 (drop_bit n (signed_take_bit 31 x)) = take_bit 8 (drop_bit n x)"
    using assms(1) by (auto simp: bit_eq_iff bit_simps min_def)
  then show "take_bit 8 (drop_bit n (signed_take_bit 31 x)) = uint a"
    using assms(2) by (simp add: take_bit_eq_mod drop_bit_eq_div)
qed

lemma kept_sextet: "signed_take_bit 31 (v * 64 + p) mod 64 = p mod (64 :: int)"
proof -
  have "take_bit 6 (signed_take_bit 31 (v * 64 + p)) = take_bit 6 (v * 64 + p)"
    by (auto simp: bit_eq_iff bit_simps min_def)
  then show ?thesis by (simp add: take_bit_eq_mod)
qed

declare base64Loop.simps(2) [simp del]

lemma mod256: "0 \<le> y \<Longrightarrow> y < 256 \<Longrightarrow> (y + 256 * k) mod 256 = (y :: int)"
  by simp

lemma sextet_sum:
  fixes v p q :: int
  assumes "v mod 64 = p" "0 \<le> q" "q < 64"
  shows "(v * 64 + q) div 16 mod 256 = p * 4 + q div 16"
    and "(v * 64 + q) div 4 mod 256 = p mod 16 * 16 + q div 4"
    and "(v * 64 + q) mod 256 = p mod 4 * 64 + q"
proof -
  define t where "t = v div 64"
  have v: "v = 64 * t + p" using mult_div_mod_eq [of 64 v] assms(1) by (simp only: t_def)
  have p: "0 \<le> p" "p < 64" using assms(1) by auto
  have "v * 64 + q = q + 16 * (4 * p + 256 * t)" by (simp add: v algebra_simps)
  then have "(v * 64 + q) div 16 = (p * 4 + q div 16) + 256 * t" by simp
  then show "(v * 64 + q) div 16 mod 256 = p * 4 + q div 16"
    using p assms(2,3) by (simp only: mod256)
  have p16: "16 * p = 16 * (p mod 16) + 256 * (p div 16)"
  proof -
    have "16 * p = 16 * (16 * (p div 16) + p mod 16)" by (simp only: mult_div_mod_eq)
    then show ?thesis by (simp only: distrib_left mult.assoc [symmetric], (simp)?)
  qed
  have "v * 64 + q = q + 4 * (16 * p + 256 * (4 * t))" by (simp add: v algebra_simps)
  then have "(v * 64 + q) div 4 = 16 * p + 256 * (4 * t) + q div 4" by simp
  then have "(v * 64 + q) div 4 = (p mod 16 * 16 + q div 4) + 256 * (p div 16 + 4 * t)"
    unfolding p16 by (simp add: distrib_left)
  moreover have "q div 4 < 16" "0 \<le> q div 4" "p mod 16 < 16" "0 \<le> p mod 16" using assms(2,3) by simp_all
  ultimately show "(v * 64 + q) div 4 mod 256 = p mod 16 * 16 + q div 4"
    by (simp only: mod256)
  have p4: "64 * p = 64 * (p mod 4) + 256 * (p div 4)"
  proof -
    have "64 * p = 64 * (4 * (p div 4) + p mod 4)" by (simp only: mult_div_mod_eq)
    then show ?thesis by (simp only: distrib_left mult.assoc [symmetric], (simp)?)
  qed
  have "v * 64 + q = (p mod 4 * 64 + q) + 256 * (p div 4 + 16 * t)"
    using p4 by (simp add: v distrib_left distrib_right)
  moreover have "p mod 4 < 4" "0 \<le> p mod 4" by simp_all
  ultimately show "(v * 64 + q) mod 256 = p mod 4 * 64 + q"
    using assms(2,3) by (simp only: mod256)
qed

lemma base64_first:
  assumes "0 \<le> p" "p < 64"
  shows "\<exists>w. w mod 64 = p \<and> base64Loop (sextet p # cs) v (-8) ret = base64Loop cs w (-2) ret"
  unfolding base64_step [OF assms] using kept_sextet [of v p] assms
  by (intro exI [of _ "signed_take_bit 31 (v * 64 + p)"]) simp

lemma base64_second:
  assumes "v mod 64 = p" "0 \<le> q" "q < 64" "p * 4 + q div 16 = uint a"
  shows "\<exists>w. w mod 64 = q \<and> base64Loop (sextet q # cs) v (-2) ret = base64Loop cs w (-4) (ret @ [a])"
proof -
  have "word_of_int (drop_bit 4 (signed_take_bit 31 (v * 64 + q))) = a"
    using sextet_sum(1) [OF assms(1-3)] assms(4) by (intro emitted_byte) simp_all
  then show ?thesis
    unfolding base64_step [OF assms(2,3)] using kept_sextet [of v q] assms(2,3)
    by (intro exI [of _ "signed_take_bit 31 (v * 64 + q)"]) simp
qed

lemma base64_third:
  assumes "v mod 64 = p" "0 \<le> q" "q < 64" "p mod 16 * 16 + q div 4 = uint a"
  shows "\<exists>w. w mod 64 = q \<and> base64Loop (sextet q # cs) v (-4) ret = base64Loop cs w (-6) (ret @ [a])"
proof -
  have "word_of_int (drop_bit 2 (signed_take_bit 31 (v * 64 + q))) = a"
    using sextet_sum(2) [OF assms(1-3)] assms(4) by (intro emitted_byte) simp_all
  then show ?thesis
    unfolding base64_step [OF assms(2,3)] using kept_sextet [of v q] assms(2,3)
    by (intro exI [of _ "signed_take_bit 31 (v * 64 + q)"]) simp
qed

lemma base64_fourth:
  assumes "v mod 64 = p" "0 \<le> q" "q < 64" "p mod 4 * 64 + q = uint a"
  shows "\<exists>w. base64Loop (sextet q # cs) v (-6) ret = base64Loop cs w (-8) (ret @ [a])"
proof -
  have "word_of_int (drop_bit 0 (signed_take_bit 31 (v * 64 + q))) = a"
    using sextet_sum(3) [OF assms(1-3)] assms(4) by (intro emitted_byte) simp_all
  then show ?thesis
    unfolding base64_step [OF assms(2,3)]
    by (intro exI [of _ "signed_take_bit 31 (v * 64 + q)"]) simp
qed

lemma base64Loop_pad: "base64Loop (CHR ''='' # cs) v valb ret = ret"
  by (simp add: base64Loop.simps(2))

lemma byte_int: "0 \<le> uint (a :: u8)" "uint (a :: u8) < 256"
  using uint_bounded [of a] by simp_all

lemma sextet_bounds:
  fixes x y :: int
  assumes "0 \<le> x" "x < 256" "0 \<le> y" "y < 256"
  shows "0 \<le> x div 4" "x div 4 < 64"
    and "0 \<le> x mod 4 * 16" "x mod 4 * 16 < 64" "0 \<le> x mod 16 * 4" "x mod 16 * 4 < 64"
    and "0 \<le> x mod 4 * 16 + y div 16" "x mod 4 * 16 + y div 16 < 64"
    and "0 \<le> x mod 16 * 4 + y div 64" "x mod 16 * 4 + y div 64 < 64"
    and "0 \<le> x mod 64" "x mod 64 < 64"
  using assms by presburger+

lemma sextet_bytes:
  fixes x y :: int
  assumes "0 \<le> x" "x < 256" "0 \<le> y" "y < 256"
  shows "x div 4 * 4 + x mod 4 * 16 div 16 = x"
    and "x div 4 * 4 + (x mod 4 * 16 + y div 16) div 16 = x"
    and "x div 64 * 64 + x mod 64 = x"
proof -
  have "0 \<le> y div 16" "y div 16 < 16" using assms by presburger+
  then have "(x mod 4 * 16 + y div 16) div 16 = x mod 4" by simp
  then show "x div 4 * 4 + (x mod 4 * 16 + y div 16) div 16 = x" by simp
qed simp_all

lemma sextet_middle:
  fixes x y z :: int
  assumes "0 \<le> x" "x < 256" "0 \<le> y" "y < 256" "0 \<le> z" "z < 256"
  shows "(x mod 4 * 16 + y div 16) mod 16 * 16 + (y mod 16 * 4 + z div 64) div 4 = y"
    and "(x mod 4 * 16 + y div 16) mod 16 * 16 + y mod 16 * 4 div 4 = y"
    and "(y mod 16 * 4 + z div 64) mod 4 * 64 + z mod 64 = z"
proof -
  have d: "0 \<le> y div 16" "0 \<le> z div 64" using assms(3,5) by simp_all
  have "y div 16 < 16" using assms(4) by presburger
  moreover have "z div 64 < 4" using assms(6) by presburger
  moreover note d
  ultimately have e: "(x mod 4 * 16 + y div 16) mod 16 = y div 16"
    "(y mod 16 * 4 + z div 64) div 4 = y mod 16" "(y mod 16 * 4 + z div 64) mod 4 = z div 64"
    by simp_all
  have m: "y mod 16 * 4 div 4 = y mod 16" by simp
  show "(x mod 4 * 16 + y div 16) mod 16 * 16 + (y mod 16 * 4 + z div 64) div 4 = y"
    "(x mod 4 * 16 + y div 16) mod 16 * 16 + y mod 16 * 4 div 4 = y"
    "(y mod 16 * 4 + z div 64) mod 4 * 64 + z mod 64 = z"
    unfolding e m by (rule div_mult_mod_eq)+
qed

lemma base64Loop_encode: "base64Loop (base64Encode bs) v (-8) ret = ret @ bs"
proof (induction bs arbitrary: v ret rule: base64Encode.induct)
  case (1 a b c bs)
  note i = byte_int [of a] byte_int [of b]
  note j = byte_int [of b] byte_int [of c]
  let ?q = "sextet (uint a mod 4 * 16 + uint b div 16)" and ?r = "sextet (uint b mod 16 * 4 + uint c div 64)"
    and ?s = "sextet (uint c mod 64)"
  obtain w1 where w1: "w1 mod 64 = uint a div 4"
    "base64Loop (base64Encode (a # b # c # bs)) v (-8) ret = base64Loop (?q # ?r # ?s # base64Encode bs) w1 (-2) ret"
    using base64_first [OF sextet_bounds(1,2) [OF i], of _ v ret] by fastforce
  obtain w2 where w2: "w2 mod 64 = uint a mod 4 * 16 + uint b div 16"
    "base64Loop (?q # ?r # ?s # base64Encode bs) w1 (-2) ret = base64Loop (?r # ?s # base64Encode bs) w2 (-4) (ret @ [a])"
    using base64_second [OF w1(1) sextet_bounds(7,8) [OF i] sextet_bytes(2) [OF i]] by blast
  obtain w3 where w3: "w3 mod 64 = uint b mod 16 * 4 + uint c div 64"
    "base64Loop (?r # ?s # base64Encode bs) w2 (-4) (ret @ [a]) = base64Loop (?s # base64Encode bs) w3 (-6) (ret @ [a] @ [b])"
    using base64_third [OF w2(1) sextet_bounds(9,10) [OF j] sextet_middle(1) [OF i byte_int [of c]], of _ "ret @ [a]"]
    by auto
  obtain w4 where
    "base64Loop (?s # base64Encode bs) w3 (-6) (ret @ [a] @ [b]) = base64Loop (base64Encode bs) w4 (-8) (ret @ [a] @ [b] @ [c])"
    using base64_fourth [OF w3(1) sextet_bounds(11,12) [OF byte_int byte_int] sextet_middle(3) [OF i byte_int [of c]], of _ "ret @ [a] @ [b]"]
    by auto
  then show ?case using w1(2) w2(2) w3(2) 1 [of w4 "ret @ [a] @ [b] @ [c]"] by simp
next
  case (2 a b)
  note i = byte_int [of a] byte_int [of b]
  let ?q = "sextet (uint a mod 4 * 16 + uint b div 16)" and ?r = "sextet (uint b mod 16 * 4)"
  obtain w1 where w1: "w1 mod 64 = uint a div 4"
    "base64Loop (base64Encode [a, b]) v (-8) ret = base64Loop [?q, ?r, CHR ''=''] w1 (-2) ret"
    using base64_first [OF sextet_bounds(1,2) [OF i], of _ v ret] by fastforce
  obtain w2 where w2: "w2 mod 64 = uint a mod 4 * 16 + uint b div 16"
    "base64Loop [?q, ?r, CHR ''=''] w1 (-2) ret = base64Loop [?r, CHR ''=''] w2 (-4) (ret @ [a])"
    using base64_second [OF w1(1) sextet_bounds(7,8) [OF i] sextet_bytes(2) [OF i]] by blast
  obtain w3 where
    "base64Loop [?r, CHR ''=''] w2 (-4) (ret @ [a]) = base64Loop [CHR ''=''] w3 (-6) (ret @ [a] @ [b])"
    using base64_third [OF w2(1) sextet_bounds(5,6) [OF byte_int [of b] byte_int [of b]]
        sextet_middle(2) [OF i byte_int [of b]], of _ "ret @ [a]"] by auto
  then show ?case using w1(2) w2(2) by (simp add: base64Loop_pad)
next
  case (3 a)
  note i = byte_int [of a] byte_int [of a]
  let ?q = "sextet (uint a mod 4 * 16)"
  obtain w1 where w1: "w1 mod 64 = uint a div 4"
    "base64Loop (base64Encode [a]) v (-8) ret = base64Loop [?q, CHR ''='', CHR ''=''] w1 (-2) ret"
    using base64_first [OF sextet_bounds(1,2) [OF i], of _ v ret] by fastforce
  obtain w2 where
    "base64Loop [?q, CHR ''='', CHR ''=''] w1 (-2) ret = base64Loop [CHR ''='', CHR ''=''] w2 (-4) (ret @ [a])"
    using base64_second [OF w1(1) sextet_bounds(3,4) [OF i] sextet_bytes(1) [OF i]] by blast
  then show ?case using w1(2) by (simp add: base64Loop_pad)
qed simp


text \<open>
  A position not found counts as \<open>-1\<close>, which is the smaller one: a parameter list that is the last of its line,
  or of the description, is rejected unless both texts follow somewhere.
\<close>

theorem parseSpsInfo_needs_both:
  assumes "find_in ''sprop-parameter-sets='' sdp = Some p"
    "find_in ''a='' (drop (p + 21) sdp) = None \<or> find_in '';'' (drop (p + 21) sdp) = None"
  shows "parseSpsInfo sdp sps = (-1, sps)"
  using assms by (auto simp: parseSpsInfo_def find_int_def nat_add_distrib Let_def split: option.splits)

end
