(* ===== verification/WsMessage.thy ===== *)
theory WsMessage
  imports Prelude "HOL-Library.AList" Complex_Main
begin

text \<open>
  The signalling message \<open>Message\<close> of \<open>core/engine/signalBridge/wsMessage.hpp\<close>: a JSON value with
  one accessor and one setter per member. The JSON value is the part of \<open>nlohmann::basic_json\<close> (with
  \<open>fifo_map\<close> objects, which keep the order of insertion) that the class uses: indexing by a name,
  which turns null into an object and inserts absent members as null, assignment, and conversion to
  text, numbers and booleans, which throws \<open>type_error\<close> for another type.
\<close>

datatype json =
    JNull
  | JBool bool
  | JInt int
  | JFloat rat
  | JString string
  | JArray "json list"
  | JObject "(string \<times> json) list"

named_theorems ws_defs \<open>the accessors of the signalling message\<close>

subsection \<open>Indexing and conversion\<close>

text \<open>\<open>js[key]\<close>: the member and the value after the access.\<close>

definition js_index :: "string \<Rightarrow> json \<Rightarrow> (json \<times> json) res" where
  "js_index key js =
     (case js of
        JNull \<Rightarrow> Inr (JNull, JObject [(key, JNull)])
      | JObject m \<Rightarrow>
          (case map_of m key of Some v \<Rightarrow> Inr (v, js) | None \<Rightarrow> Inr (JNull, JObject (m @ [(key, JNull)])))
      | _ \<Rightarrow> Inl JsonError)"

text \<open>\<open>js[key] = v\<close>.\<close>

definition js_set :: "string \<Rightarrow> json \<Rightarrow> json \<Rightarrow> json res" where
  "js_set key v js =
     (case js of
        JNull \<Rightarrow> Inr (JObject [(key, v)])
      | JObject m \<Rightarrow> Inr (JObject (AList.update key v m))
      | _ \<Rightarrow> Inl JsonError)"

text \<open>Indexing a constant value: an absent member is undefined behaviour.\<close>

definition js_index_const :: "string \<Rightarrow> json \<Rightarrow> json res" where
  "js_index_const key js =
     (case js of
        JObject m \<Rightarrow> (case map_of m key of Some v \<Rightarrow> Inr v | None \<Rightarrow> Inl Undefined)
      | _ \<Rightarrow> Inl JsonError)"

definition truncate_rat :: "rat \<Rightarrow> int" where
  "truncate_rat r = (if r < 0 then - \<lfloor>- r\<rfloor> else \<lfloor>r\<rfloor>)"

text \<open>A number as a signed integer of \<open>w\<close> bits: integers wrap around, a floating point number is
  truncated and must fit.\<close>

definition as_number :: "nat \<Rightarrow> json \<Rightarrow> int res" where
  "as_number w v =
     (case v of
        JInt i \<Rightarrow> Inr (signed_take_bit (w - 1) i)
      | JFloat r \<Rightarrow>
          (if - (2 ^ (w - 1)) \<le> truncate_rat r \<and> truncate_rat r < 2 ^ (w - 1)
           then Inr (truncate_rat r) else Inl Undefined)
      | _ \<Rightarrow> Inl JsonError)"

definition as_int :: "json \<Rightarrow> int res" where
  "as_int v = (case v of JBool b \<Rightarrow> Inr (of_bool b) | _ \<Rightarrow> as_number 32 v)"

definition as_string :: "json \<Rightarrow> string res" where
  "as_string v = (case v of JString s \<Rightarrow> Inr s | _ \<Rightarrow> Inl JsonError)"

definition as_bool :: "json \<Rightarrow> bool res" where
  "as_bool v = (case v of JBool b \<Rightarrow> Inr b | _ \<Rightarrow> Inl JsonError)"

text \<open>The shape of every accessor: null, or absent, gives the default.\<close>

definition getMember :: "(json \<Rightarrow> 'a res) \<Rightarrow> 'a \<Rightarrow> string \<Rightarrow> json \<Rightarrow> ('a \<times> json) res" where
  "getMember conv dflt key js =
     andThen (js_index key js) (\<lambda>(v, js).
       if v = JNull then Inr (dflt, js) else andThen (conv v) (\<lambda>x. Inr (x, js)))"

abbreviation getString :: "string \<Rightarrow> json \<Rightarrow> (string \<times> json) res" where
  "getString \<equiv> getMember as_string []"

abbreviation getInt :: "string \<Rightarrow> json \<Rightarrow> (int \<times> json) res" where
  "getInt \<equiv> getMember as_int (-1)"

abbreviation getInt64 :: "string \<Rightarrow> json \<Rightarrow> (int \<times> json) res" where
  "getInt64 \<equiv> getMember (as_number 64) (-1)"

abbreviation getBool :: "string \<Rightarrow> json \<Rightarrow> (bool \<times> json) res" where
  "getBool \<equiv> getMember as_bool False"

subsection \<open>The accessors\<close>

definition ws_janus :: "json \<Rightarrow> (string \<times> json) res" where
  "ws_janus js = getString ''janus'' js"

definition set_janus :: "string \<Rightarrow> json \<Rightarrow> json res" where
  "set_janus inp js = js_set ''janus'' (JString inp) js"

definition ws_transaction :: "json \<Rightarrow> (string \<times> json) res" where
  "ws_transaction js = getString ''transaction'' js"

definition set_transaction :: "string \<Rightarrow> json \<Rightarrow> json res" where
  "set_transaction inp js = js_set ''transaction'' (JString inp) js"

definition ws_session_id :: "json \<Rightarrow> (int \<times> json) res" where
  "ws_session_id js = getInt64 ''session_id'' js"

definition set_session_id :: "int \<Rightarrow> json \<Rightarrow> json res" where
  "set_session_id inp js = js_set ''session_id'' (JInt inp) js"

definition ws_handle_id :: "json \<Rightarrow> (int \<times> json) res" where
  "ws_handle_id js = getInt64 ''handle_id'' js"

definition set_handle_id :: "int \<Rightarrow> json \<Rightarrow> json res" where
  "set_handle_id inp js = js_set ''handle_id'' (JInt inp) js"

definition ws_call_id :: "json \<Rightarrow> (string \<times> json) res" where
  "ws_call_id js = getString ''Call_ID'' js"

definition set_call_id :: "string \<Rightarrow> json \<Rightarrow> json res" where
  "set_call_id inp js = js_set ''Call_ID'' (JString inp) js"

definition ws_userid :: "json \<Rightarrow> (string \<times> json) res" where
  "ws_userid js = getString ''userId'' js"

definition set_userid :: "string \<Rightarrow> json \<Rightarrow> json res" where
  "set_userid inp js = js_set ''userId'' (JString inp) js"

definition ws_password :: "json \<Rightarrow> (string \<times> json) res" where
  "ws_password js = getString ''password'' js"

definition set_password :: "string \<Rightarrow> json \<Rightarrow> json res" where
  "set_password inp js = js_set ''password'' (JString inp) js"

definition ws_cseq :: "json \<Rightarrow> (int \<times> json) res" where
  "ws_cseq js = getInt ''Cseq'' js"

definition set_cseq :: "int \<Rightarrow> json \<Rightarrow> json res" where
  "set_cseq inp js = js_set ''Cseq'' (JInt inp) js"

definition ws_sdp :: "json \<Rightarrow> (string \<times> json) res" where
  "ws_sdp js = getString ''SDP'' js"

definition set_sdp :: "string \<Rightarrow> json \<Rightarrow> json res" where
  "set_sdp inp js = js_set ''SDP'' (JString inp) js"

definition ws_mcuId :: "json \<Rightarrow> (int \<times> json) res" where
  "ws_mcuId js = getInt ''mcuId'' js"

definition set_mcuId :: "int \<Rightarrow> json \<Rightarrow> json res" where
  "set_mcuId inp js = js_set ''mcuId'' (JInt inp) js"

definition ws_meth :: "json \<Rightarrow> (string \<times> json) res" where
  "ws_meth js = getString ''meth'' js"

definition set_meth :: "string \<Rightarrow> json \<Rightarrow> json res" where
  "set_meth inp js = js_set ''meth'' (JString inp) js"

definition ws_videoformat :: "json \<Rightarrow> (string \<times> json) res" where
  "ws_videoformat js = getString ''videoformat'' js"

definition set_videoformat :: "string \<Rightarrow> json \<Rightarrow> json res" where
  "set_videoformat inp js = js_set ''videoformat'' (JString inp) js"

definition ws_audioformat :: "json \<Rightarrow> (string \<times> json) res" where
  "ws_audioformat js = getString ''audioformat'' js"

definition set_audioformat :: "string \<Rightarrow> json \<Rightarrow> json res" where
  "set_audioformat inp js = js_set ''audioformat'' (JString inp) js"

definition ws_isresponse :: "json \<Rightarrow> (bool \<times> json) res" where
  "ws_isresponse js = getBool ''isResponse'' js"

definition set_isresponse :: "bool \<Rightarrow> json \<Rightarrow> json res" where
  "set_isresponse inp js = js_set ''isResponse'' (JBool inp) js"

definition ws_from :: "json \<Rightarrow> (string \<times> json) res" where
  "ws_from js = getString ''from'' js"

definition set_from :: "string \<Rightarrow> json \<Rightarrow> json res" where
  "set_from inp js = js_set ''from'' (JString inp) js"

definition ws_to :: "json \<Rightarrow> (string \<times> json) res" where
  "ws_to js = getString ''to'' js"

definition set_to :: "string \<Rightarrow> json \<Rightarrow> json res" where
  "set_to inp js = js_set ''to'' (JString inp) js"

definition ws_signal :: "json \<Rightarrow> (string \<times> json) res" where
  "ws_signal js = getString ''signal'' js"

definition set_signal :: "string \<Rightarrow> json \<Rightarrow> json res" where
  "set_signal inp js = js_set ''signal'' (JString inp) js"

definition ws_reason :: "json \<Rightarrow> (string \<times> json) res" where
  "ws_reason js = getString ''reason'' js"

definition set_reason :: "string \<Rightarrow> json \<Rightarrow> json res" where
  "set_reason inp js = js_set ''reason'' (JString inp) js"

definition ws_cmeth :: "json \<Rightarrow> (string \<times> json) res" where
  "ws_cmeth js = getString ''Cmeth'' js"

definition set_cmeth :: "string \<Rightarrow> json \<Rightarrow> json res" where
  "set_cmeth inp js = js_set ''Cmeth'' (JString inp) js"

definition ws_statuscode :: "json \<Rightarrow> (int \<times> json) res" where
  "ws_statuscode js = getInt ''statusCode'' js"

definition set_statuscode :: "int \<Rightarrow> json \<Rightarrow> json res" where
  "set_statuscode inp js = js_set ''statusCode'' (JInt inp) js"

definition ws_completed :: "json \<Rightarrow> (bool \<times> json) res" where
  "ws_completed js = getBool ''completed'' js"

definition set_completed :: "bool \<Rightarrow> json \<Rightarrow> json res" where
  "set_completed inp js = js_set ''completed'' (JBool inp) js"

definition ws_candidate :: "json \<Rightarrow> (string \<times> json) res" where
  "ws_candidate js = getString ''candidate'' js"

definition set_candidate :: "string \<Rightarrow> json \<Rightarrow> json res" where
  "set_candidate inp js = js_set ''candidate'' (JString inp) js"

definition ws_sdpMLineIndex :: "json \<Rightarrow> (int \<times> json) res" where
  "ws_sdpMLineIndex js = getInt ''sdpMLineIndex'' js"

definition set_sdpMLineIndex :: "int \<Rightarrow> json \<Rightarrow> json res" where
  "set_sdpMLineIndex inp js = js_set ''sdpMLineIndex'' (JInt inp) js"

definition ws_sdpMid :: "json \<Rightarrow> (string \<times> json) res" where
  "ws_sdpMid js = getString ''sdpMid'' js"

definition set_sdpMid :: "string \<Rightarrow> json \<Rightarrow> json res" where
  "set_sdpMid inp js = js_set ''sdpMid'' (JString inp) js"

definition ws_timePoint :: "json \<Rightarrow> int res" where
  "ws_timePoint js =
     andThen (js_index_const ''timePoint'' js) (\<lambda>v.
       case v of
         JNull \<Rightarrow> Inr (-1)
       | JInt _ \<Rightarrow> as_number 64 v
       | JFloat _ \<Rightarrow> as_number 64 v
       | _ \<Rightarrow> Inr (-1))"

definition ws_meetingId :: "json \<Rightarrow> (string \<times> json) res" where
  "ws_meetingId js = getString ''meetingId'' js"

lemmas message_defs [ws_defs] =
  ws_janus_def set_janus_def ws_transaction_def set_transaction_def ws_session_id_def
  set_session_id_def ws_handle_id_def set_handle_id_def ws_call_id_def set_call_id_def
  ws_userid_def set_userid_def ws_password_def set_password_def ws_cseq_def set_cseq_def
  ws_sdp_def set_sdp_def ws_mcuId_def set_mcuId_def ws_meth_def set_meth_def ws_videoformat_def
  set_videoformat_def ws_audioformat_def set_audioformat_def ws_isresponse_def set_isresponse_def
  ws_from_def set_from_def ws_to_def set_to_def ws_signal_def set_signal_def ws_reason_def
  set_reason_def ws_cmeth_def set_cmeth_def ws_statuscode_def set_statuscode_def ws_completed_def
  set_completed_def ws_candidate_def set_candidate_def ws_sdpMLineIndex_def set_sdpMLineIndex_def
  ws_sdpMid_def set_sdpMid_def ws_timePoint_def ws_meetingId_def

end
