(* ===== verification/Maps.thy ===== *)
theory Maps
  imports Prelude
begin

text \<open>
  \<open>std::map\<close> as the list of its entries in ascending order of the keys: assignment through
  \<open>operator[]\<close> replaces, \<open>emplace\<close> keeps an entry that is there.
\<close>

fun map_put :: "'k::linorder \<Rightarrow> 'a \<Rightarrow> ('k \<times> 'a) list \<Rightarrow> ('k \<times> 'a) list" where
  "map_put k v [] = [(k, v)]"
| "map_put k v ((k', v') # m) =
     (if k < k' then (k, v) # (k', v') # m
      else if k = k' then (k, v) # m
      else (k', v') # map_put k v m)"

definition map_emplace :: "'k::linorder \<Rightarrow> 'a \<Rightarrow> ('k \<times> 'a) list \<Rightarrow> ('k \<times> 'a) list" where
  "map_emplace k v m = (if map_of m k = None then map_put k v m else m)"

definition ordered :: "('k::linorder \<times> 'a) list \<Rightarrow> bool" where
  "ordered m \<longleftrightarrow> sorted_wrt (<) (map fst m)"

lemma keys_map_put: "fst ` set (map_put k v m) = insert k (fst ` set m)"
  by (induction k v m rule: map_put.induct) auto

lemma ordered_simps [simp]:
  "ordered []" "ordered ((k, v) # m) \<longleftrightarrow> (\<forall>k' \<in> fst ` set m. k < k') \<and> ordered m"
  by (auto simp: ordered_def)

lemma ordered_map_put [simp]: "ordered m \<Longrightarrow> ordered (map_put k v m)"
  by (induction k v m rule: map_put.induct) (auto simp: keys_map_put)

lemma ordered_map_emplace [simp]: "ordered m \<Longrightarrow> ordered (map_emplace k v m)"
  by (simp add: map_emplace_def)

lemma map_of_put: "ordered m \<Longrightarrow> map_of (map_put k v m) = (map_of m)(k \<mapsto> v)"
  by (induction k v m rule: map_put.induct) auto

lemma map_of_emplace:
  "ordered m \<Longrightarrow> map_of (map_emplace k v m) = (if map_of m k = None then (map_of m)(k \<mapsto> v) else map_of m)"
  by (simp add: map_emplace_def map_of_put)

lemma map_put_last: "\<forall>k' \<in> fst ` set m. k' < k \<Longrightarrow> map_put k v m = m @ [(k, v)]"
  by (induction k v m rule: map_put.induct) auto

end
