(* ===== verification/Media.thy ===== *)
theory Media
  imports Text Maps Complex_Main
begin

text \<open>
  The media engines below the signalling engine: \<open>rtcAudioEngine\<close>
  (\<open>core/engine/signalBridge/AudioEngine/rtcAudioEngine.cpp\<close>) and \<open>RTCVideoEngine\<close>
  (\<open>core/engine/signalBridge/VideoEngine/rtcVideoEngine.cpp\<close>). WebRTC is the environment: what its
  device module, capturers and peer connection answer is an argument, what is asked of them is
  recorded in a log. A pointer is a flag that says whether it is set; using one that is not is
  undefined behaviour.
\<close>

subsection \<open>The audio engine\<close>

datatype admcall =
    AdmInit
  | SetRecordingDevice u16
  | InitRecording
  | StartRecording
  | StopRecording
  | SetPlayoutDevice u16
  | InitPlayout
  | StartPlayout
  | StopPlayout
  | SetMicrophoneMute bool
  | SetMicrophoneVolume u32
  | SetSpeakerMute bool
  | SetSpeakerVolume u32
  | SetTrackEnabled bool

record audio =
  adm :: bool
  audio_track :: bool
  admLog :: "admcall list"

definition rtcAudioEngine_new :: audio where
  "rtcAudioEngine_new = \<lparr>adm = False, audio_track = False, admLog = []\<rparr>"

definition admDo :: "admcall list \<Rightarrow> audio \<Rightarrow> audio" where
  "admDo cs a = a\<lparr>admLog := admLog a @ cs\<rparr>"

text \<open>Destruction stops the devices.\<close>

definition rtcAudioEngine_destroy :: "audio \<Rightarrow> audio" where
  "rtcAudioEngine_destroy a =
     (if adm a then (admDo [StopRecording, StopPlayout] (a\<lparr>audio_track := False\<rparr>))\<lparr>adm := False\<rparr>
      else a\<lparr>audio_track := False\<rparr>)"

text \<open>\<open>InitAdm\<close>: \<open>created\<close> says whether WebRTC created a device module, \<open>initRst\<close> is what its \<open>Init\<close>
  returns. The result says whether the returned module is not null.\<close>

definition InitAdm :: "bool \<Rightarrow> int \<Rightarrow> audio \<Rightarrow> bool \<times> audio" where
  "InitAdm created initRst a =
     (let a = a\<lparr>adm := created\<rparr>
      in if \<not> adm a then (False, a)
         else (initRst = 0, admDo [AdmInit] a))"

text \<open>The device lists: \<open>names\<close> holds, for each device number, its name, or \<open>None\<close> where the name
  cannot be read.\<close>

primrec putDevices :: "nat \<Rightarrow> string option list \<Rightarrow> (int \<times> string) list \<Rightarrow> (int \<times> string) list" where
  "putDevices i [] m = m"
| "putDevices i (n # ns) m =
     putDevices (Suc i) ns (case n of Some s \<Rightarrow> map_put (int i) s m | None \<Rightarrow> m)"

definition GetRecordingDevices :: "string option list \<Rightarrow> audio \<Rightarrow> (int \<times> string) list \<Rightarrow> (int \<times> string) list" where
  "GetRecordingDevices names a m = (if \<not> adm a then m else putDevices 0 names m)"

definition GetPlayoutDevices :: "string option list \<Rightarrow> audio \<Rightarrow> (int \<times> string) list \<Rightarrow> (int \<times> string) list" where
  "GetPlayoutDevices names a m = (if \<not> adm a then m else putDevices 0 names m)"

text \<open>The device switches: \<open>status\<close> is what each call of the module returns; the result is the
  conjunction of the return codes, as the source writes it.\<close>

definition SetRecordingDevices :: "(admcall \<Rightarrow> int) \<Rightarrow> u16 \<Rightarrow> audio \<Rightarrow> bool \<times> audio" where
  "SetRecordingDevices status i a =
     (if \<not> adm a then (False, a)
      else let cs = [SetRecordingDevice i, InitRecording]
           in (\<forall>c \<in> set cs. status c \<noteq> 0, admDo cs a))"

definition SetPlayoutDevices :: "(admcall \<Rightarrow> int) \<Rightarrow> u16 \<Rightarrow> audio \<Rightarrow> bool \<times> audio" where
  "SetPlayoutDevices status i a =
     (if \<not> adm a then (False, a)
      else let cs = [SetPlayoutDevice i, InitPlayout]
           in (\<forall>c \<in> set cs. status c \<noteq> 0, admDo cs a))"

definition ReplaceRecordingDevices :: "(admcall \<Rightarrow> int) \<Rightarrow> u16 \<Rightarrow> audio \<Rightarrow> bool \<times> audio" where
  "ReplaceRecordingDevices status i a =
     (if \<not> adm a then (False, a)
      else let cs = [StopRecording, SetRecordingDevice i, InitRecording, StartRecording]
           in (\<forall>c \<in> set cs. status c \<noteq> 0, admDo cs a))"

definition ReplacePlayoutDevices :: "(admcall \<Rightarrow> int) \<Rightarrow> u16 \<Rightarrow> audio \<Rightarrow> bool \<times> audio" where
  "ReplacePlayoutDevices status i a =
     (if \<not> adm a then (False, a)
      else let cs = [StopPlayout, SetPlayoutDevice i, InitPlayout, StartPlayout]
           in (\<forall>c \<in> set cs. status c \<noteq> 0, admDo cs a))"

text \<open>\<open>AddAudioTracks\<close> uses the factory and the connection it is given; \<open>added\<close> says whether
  \<open>AddTrack\<close> succeeds.\<close>

definition AddAudioTracks :: "bool \<Rightarrow> bool \<Rightarrow> bool \<Rightarrow> audio \<Rightarrow> (bool \<times> audio) res" where
  "AddAudioTracks factory pc added a =
     (if \<not> factory \<or> \<not> pc then Inl Undefined
      else if \<not> added then Inr (False, a)
      else Inr (True, a\<lparr>audio_track := True\<rparr>))"

definition setMicrophone :: "bool \<Rightarrow> bool \<Rightarrow> audio \<Rightarrow> bool \<times> audio" where
  "setMicrophone changed new_state a =
     (if audio_track a then (changed, admDo [SetTrackEnabled new_state] a) else (False, a))"

text \<open>\<open>static_cast<uint32_t>(2.55 * volume)\<close> in double precision: the nearest double to 2.55 is
  \<open>2871044762448691 / 2 ^ 50\<close>, the exact product is rounded to 53 binary digits (to even on a tie) and
  truncated. A negative product cannot be converted.\<close>

fun bitLength :: "nat \<Rightarrow> nat" where
  "bitLength n = (if n = 0 then 0 else Suc (bitLength (n div 2)))"

declare bitLength.simps [simp del]

definition roundEven :: "nat \<Rightarrow> nat \<Rightarrow> nat" where
  "roundEven n k =
     (let q = n div 2 ^ k; r = n mod 2 ^ k
      in if 2 * r > 2 ^ k \<or> (2 * r = 2 ^ k \<and> odd q) then q + 1 else q)"

definition scaleVolume :: "int \<Rightarrow> u32 res" where
  "scaleVolume volume =
     (if volume < 0 then Inl Undefined
      else
        let n = 2871044762448691 * nat volume;
            k = bitLength n - 53;
            v = roundEven n k * 2 ^ k div 2 ^ 50
        in if v < 2 ^ 32 then Inr (of_nat v) else Inl Undefined)"

lemma bitLength_eval:
  "bitLength 0 = 0"
  "0 < n \<Longrightarrow> bitLength n = Suc (bitLength (n div 2))"
  by (simp_all add: bitLength.simps [of n] bitLength.simps [of 0])

lemma scaleVolume_50: "scaleVolume 50 = Inr 127"
  by (simp add: scaleVolume_def Let_def bitLength_eval roundEven_def)

definition setMicrophoneVolume :: "(admcall \<Rightarrow> int) \<Rightarrow> int \<Rightarrow> audio \<Rightarrow> (bool \<times> audio) res" where
  "setMicrophoneVolume status volume a =
     (if \<not> adm a then Inr (False, a)
      else if volume = 0 then Inr (status (SetMicrophoneMute True) \<noteq> 0, admDo [SetMicrophoneMute True] a)
      else andThen (scaleVolume volume) (\<lambda>v.
        Inr (status (SetMicrophoneVolume v) \<noteq> 0, admDo [SetMicrophoneMute False, SetMicrophoneVolume v] a)))"

definition setPlayoutVolume :: "(admcall \<Rightarrow> int) \<Rightarrow> int \<Rightarrow> audio \<Rightarrow> (bool \<times> audio) res" where
  "setPlayoutVolume status volume a =
     (if \<not> adm a then Inr (False, a)
      else if volume = 0 then Inr (status (SetSpeakerMute True) \<noteq> 0, admDo [SetSpeakerMute True] a)
      else andThen (scaleVolume volume) (\<lambda>v.
        Inr (status (SetSpeakerVolume v) \<noteq> 0, admDo [SetSpeakerMute False, SetSpeakerVolume v] a)))"

definition PlayoutVolume :: "u32 \<Rightarrow> audio \<Rightarrow> u32" where
  "PlayoutVolume v a = (if \<not> adm a then - 1 else v)"

definition MicrophoneVolume :: "u32 \<Rightarrow> audio \<Rightarrow> u32" where
  "MicrophoneVolume v a = (if \<not> adm a then - 1 else v)"

text \<open>\<open>close\<close> does not ask whether there is a device module.\<close>

definition audio_close :: "audio \<Rightarrow> audio res" where
  "audio_close a =
     (if \<not> adm a then Inl Undefined
      else Inr ((admDo [StopRecording, StopPlayout] (a\<lparr>audio_track := False\<rparr>))\<lparr>adm := False\<rparr>))"

subsection \<open>Filtering the audio codecs of a session description\<close>

text \<open>\<open>std::getline\<close> until the end of the text.\<close>

function getlines :: "string \<Rightarrow> string list" where
  "getlines s =
     (if s = [] then []
      else takeWhile (\<lambda>c. c \<noteq> CHR 0x0A) s # getlines (tl (dropWhile (\<lambda>c. c \<noteq> CHR 0x0A) s)))"
  by auto
termination
proof (relation "measure length")
  fix s :: string
  assume "s \<noteq> []"
  then have "length (tl (dropWhile (\<lambda>c. c \<noteq> CHR 0x0A) s)) < length s"
    using length_dropWhile_le [of "\<lambda>c. c \<noteq> CHR 0x0A" s] by (cases s) auto
  then show "(tl (dropWhile (\<lambda>c. c \<noteq> CHR 0x0A) s), s) \<in> measure length" by simp
qed simp

declare getlines.simps [simp del]

definition contains :: "string \<Rightarrow> string \<Rightarrow> bool" where
  "contains sub line \<longleftrightarrow> find_in sub line \<noteq> None"

text \<open>A format that is neither falls off the end of the function.\<close>

definition shouldKeepCodec :: "string \<Rightarrow> string \<Rightarrow> bool res" where
  "shouldKeepCodec line audioformat =
     (if audioformat = ''OPUS'' then Inr (contains ''opus'' line)
      else if audioformat = ''PCMA'' then Inr (contains ''PCMA'' line)
      else Inl Undefined)"

record sdpFlags =
  inAudio :: bool
  inVideo :: bool
  inrtpmat :: bool
  inpcma :: bool
  af :: bool
  sf :: bool

definition sdpFlags_initial :: sdpFlags where
  "sdpFlags_initial = \<lparr>inAudio = False, inVideo = False, inrtpmat = False, inpcma = False, af = False, sf = False\<rparr>"

definition filterLine :: "string \<Rightarrow> string \<Rightarrow> sdpFlags \<Rightarrow> (string list \<times> sdpFlags) res" where
  "filterLine audioformat line f =
     (if contains ''m=audio'' line then
        Inr (if audioformat = ''OPUS'' then [''m=audio 9 UDP/TLS/RTP/SAVPF 111'']
             else if audioformat = ''PCMA'' then [''m=audio 9 UDP/TLS/RTP/SAVPF 8''] else [],
             f\<lparr>inVideo := False, inAudio := True, inpcma := False, inrtpmat := False, af := False\<rparr>)
      else if contains ''m=video'' line then
        Inr ([line], f\<lparr>inAudio := False, inVideo := True, inpcma := False, inrtpmat := False, af := False\<rparr>)
      else if inAudio f then
        let f = (if contains ''a=rtpmap'' line then f\<lparr>inrtpmat := True, af := True, sf := False\<rparr>
                 else f\<lparr>inrtpmat := False, sf := contains ''a=ssrc'' line\<rparr>)
        in if inrtpmat f then
             andThen (shouldKeepCodec line audioformat) (\<lambda>keep.
               if keep then Inr ([line], f\<lparr>inpcma := True\<rparr>) else Inr ([], f\<lparr>inpcma := False\<rparr>))
           else if inpcma f then Inr ([line], f)
           else if \<not> af f then Inr ([line], f)
           else if sf f then Inr ([line], f)
           else Inr ([], f)
      else if inVideo f then Inr ([line], f)
      else Inr ([line], f))"

primrec filterLines :: "string \<Rightarrow> string list \<Rightarrow> sdpFlags \<Rightarrow> string list res" where
  "filterLines audioformat [] f = Inr []"
| "filterLines audioformat (l # ls) f =
     andThen (filterLine audioformat l f) (\<lambda>(outs, f).
     andThen (filterLines audioformat ls f) (\<lambda>rest. Inr (outs @ rest)))"

definition modifySdp :: "string \<Rightarrow> string \<Rightarrow> string res" where
  "modifySdp sdp audioformat =
     andThen (filterLines audioformat (getlines sdp) sdpFlags_initial) (\<lambda>ls.
       Inr (concat (map (\<lambda>l. l @ [CHR 0x0A]) ls)))"

subsection \<open>What the filter keeps\<close>

primrec otherLines :: "bool \<Rightarrow> string list \<Rightarrow> string list" where
  "otherLines audio [] = []"
| "otherLines audio (l # ls) =
     (if contains ''m=audio'' l then otherLines True ls
      else if contains ''m=video'' l then l # otherLines False ls
      else if audio then otherLines audio ls else l # otherLines audio ls)"

primrec audioLines :: "bool \<Rightarrow> string list \<Rightarrow> string list" where
  "audioLines audio [] = []"
| "audioLines audio (l # ls) =
     (if contains ''m=audio'' l then audioLines True ls
      else if contains ''m=video'' l then audioLines False ls
      else if audio then l # audioLines audio ls else audioLines audio ls)"

definition codecName :: "string \<Rightarrow> string" where
  "codecName fmt = (if fmt = ''OPUS'' then ''opus'' else ''PCMA'')"

definition audioHeader :: "string \<Rightarrow> string" where
  "audioHeader fmt = (if fmt = ''OPUS'' then ''m=audio 9 UDP/TLS/RTP/SAVPF 111''
     else ''m=audio 9 UDP/TLS/RTP/SAVPF 8'')"

definition known_format :: "string \<Rightarrow> bool" where
  "known_format fmt \<longleftrightarrow> fmt = ''OPUS'' \<or> fmt = ''PCMA''"

lemma audioHeader_contains [simp]:
  "contains ''m=audio'' (audioHeader fmt)" "CHR 0x0A \<notin> set (audioHeader fmt)"
  by (auto simp: audioHeader_def contains_def)

lemma getlines_no_newline: "l \<in> set (getlines s) \<Longrightarrow> CHR 0x0A \<notin> set l"
proof (induction s rule: getlines.induct)
  case (1 s)
  then show ?case by (subst (asm) (2) getlines.simps) (auto split: if_splits dest: set_takeWhileD)
qed

lemma getlines_concat:
  "\<forall>l \<in> set ls. CHR 0x0A \<notin> set l \<Longrightarrow> getlines (concat (map (\<lambda>l. l @ [CHR 0x0A]) ls)) = ls"
proof (induction ls)
  case Nil
  show ?case by (simp add: getlines.simps)
next
  case (Cons l ls)
  let ?r = "concat (map (\<lambda>l. l @ [CHR 0x0A]) ls)"
  have n: "takeWhile (\<lambda>c. c \<noteq> CHR 0x0A) (l @ CHR 0x0A # ?r) = l"
    "dropWhile (\<lambda>c. c \<noteq> CHR 0x0A) (l @ CHR 0x0A # ?r) = CHR 0x0A # ?r"
    using Cons.prems by (auto simp: takeWhile_append dropWhile_append)
  show ?case using Cons n by (subst getlines.simps) simp
qed

lemma filterLine_known:
  assumes "known_format fmt"
  shows "filterLine fmt l f =
    (if contains ''m=audio'' l then
       Inr ([audioHeader fmt], f\<lparr>inVideo := False, inAudio := True, inpcma := False, inrtpmat := False, af := False\<rparr>)
     else if contains ''m=video'' l then
       Inr ([l], f\<lparr>inAudio := False, inVideo := True, inpcma := False, inrtpmat := False, af := False\<rparr>)
     else if inAudio f then
       if contains ''a=rtpmap'' l then
         let keep = contains (codecName fmt) l
         in Inr (if keep then [l] else [], f\<lparr>inrtpmat := True, af := True, sf := False, inpcma := keep\<rparr>)
       else
         let ss = contains ''a=ssrc'' l
         in Inr (if inpcma f \<or> \<not> af f \<or> ss then [l] else [], f\<lparr>inrtpmat := False, sf := ss\<rparr>)
     else Inr ([l], f))"
  using assms
  by (auto simp: known_format_def filterLine_def shouldKeepCodec_def audioHeader_def codecName_def Let_def)

lemma filterLine_Inr:
  assumes "known_format fmt"
  shows "\<exists>outs f'. filterLine fmt l f = Inr (outs, f')"
  unfolding filterLine_known [OF assms] Let_def by simp

lemma filterLines_known:
  assumes "known_format fmt"
  shows "\<exists>outs. filterLines fmt ls f = Inr outs
    \<and> otherLines (inAudio f) outs = otherLines (inAudio f) ls
    \<and> (\<forall>l \<in> set (audioLines (inAudio f) outs). contains ''a=rtpmap'' l \<longrightarrow> contains (codecName fmt) l)
    \<and> (\<forall>l \<in> set outs. l \<in> set ls \<or> l = audioHeader fmt)"
proof (induction ls arbitrary: f)
  case (Cons l ls)
  obtain o1 f1 where f1: "filterLine fmt l f = Inr (o1, f1)"
    using filterLine_Inr [OF assms] by blast
  obtain o2 where o2: "filterLines fmt ls f1 = Inr o2"
    "otherLines (inAudio f1) o2 = otherLines (inAudio f1) ls"
    "\<forall>l \<in> set (audioLines (inAudio f1) o2). contains ''a=rtpmap'' l \<longrightarrow> contains (codecName fmt) l"
    "\<forall>l \<in> set o2. l \<in> set ls \<or> l = audioHeader fmt"
    using Cons.IH by blast
  have "otherLines (inAudio f) (o1 @ o2) = otherLines (inAudio f) (l # ls)"
    using f1 o2(2) unfolding filterLine_known [OF assms] by (auto simp: Let_def split: if_splits)
  moreover have "\<forall>l \<in> set (audioLines (inAudio f) (o1 @ o2)). contains ''a=rtpmap'' l \<longrightarrow> contains (codecName fmt) l"
    using f1 o2(3) unfolding filterLine_known [OF assms] by (auto simp: Let_def split: if_splits)
  moreover have "\<forall>k \<in> set o1. k = l \<or> k = audioHeader fmt"
    using f1 unfolding filterLine_known [OF assms] by (auto simp: Let_def split: if_splits)
  ultimately show ?case using f1 o2(1,4) by auto
qed simp

definition ahead :: "sdpFlags \<Rightarrow> sdpFlags \<Rightarrow> bool" where
  "ahead f g \<longleftrightarrow> inAudio g = inAudio f \<and> (inpcma f \<longrightarrow> inpcma g) \<and> (af g \<longrightarrow> af f)"

lemma filterLine_cases:
  assumes "known_format fmt"
  shows "contains ''m=audio'' l \<Longrightarrow> filterLine fmt l f = Inr ([audioHeader fmt],
      f\<lparr>inVideo := False, inAudio := True, inpcma := False, inrtpmat := False, af := False\<rparr>)"
    and "\<not> contains ''m=audio'' l \<Longrightarrow> contains ''m=video'' l \<Longrightarrow> filterLine fmt l f = Inr ([l],
      f\<lparr>inAudio := False, inVideo := True, inpcma := False, inrtpmat := False, af := False\<rparr>)"
    and "\<not> contains ''m=audio'' l \<Longrightarrow> \<not> contains ''m=video'' l \<Longrightarrow> \<not> inAudio f \<Longrightarrow>
      filterLine fmt l f = Inr ([l], f)"
    and "\<not> contains ''m=audio'' l \<Longrightarrow> \<not> contains ''m=video'' l \<Longrightarrow> inAudio f \<Longrightarrow> contains ''a=rtpmap'' l \<Longrightarrow>
      filterLine fmt l f = Inr (if contains (codecName fmt) l then [l] else [],
        f\<lparr>inrtpmat := True, af := True, sf := False, inpcma := contains (codecName fmt) l\<rparr>)"
    and "\<not> contains ''m=audio'' l \<Longrightarrow> \<not> contains ''m=video'' l \<Longrightarrow> inAudio f \<Longrightarrow> \<not> contains ''a=rtpmap'' l \<Longrightarrow>
      filterLine fmt l f = Inr (if inpcma f \<or> \<not> af f \<or> contains ''a=ssrc'' l then [l] else [],
        f\<lparr>inrtpmat := False, sf := contains ''a=ssrc'' l\<rparr>)"
  by (simp_all only: filterLine_known [OF assms] Let_def if_True if_False)

lemma filterLine_again:
  assumes "known_format fmt" "filterLine fmt l f = Inr (outs, f1)" "ahead f g"
  shows "outs = [] \<and> ahead f1 g \<or> (\<exists>k g1. outs = [k] \<and> filterLine fmt k g = Inr ([k], g1) \<and> ahead f1 g1)"
proof -
  note fl = filterLine_cases [OF assms(1)]
  have g: "inAudio g = inAudio f" "inpcma f \<longrightarrow> inpcma g" "af g \<longrightarrow> af f" using assms(3) by (simp_all add: ahead_def)
  consider "contains ''m=audio'' l" | "\<not> contains ''m=audio'' l" "contains ''m=video'' l"
    | "\<not> contains ''m=audio'' l" "\<not> contains ''m=video'' l" "\<not> inAudio f"
    | "\<not> contains ''m=audio'' l" "\<not> contains ''m=video'' l" "inAudio f" "contains ''a=rtpmap'' l"
    | "\<not> contains ''m=audio'' l" "\<not> contains ''m=video'' l" "inAudio f" "\<not> contains ''a=rtpmap'' l"
    by blast
  then show ?thesis
  proof cases
    case 1
    then show ?thesis using assms(2) fl(1) [OF 1, where f = f] fl(1) [OF audioHeader_contains(1) [of fmt], where f = g] by (auto simp: ahead_def)
  next
    case 2
    then show ?thesis using assms(2) fl(2) [OF 2] by (auto simp: ahead_def)
  next
    case 3
    then show ?thesis using assms(2,3) fl(3) [OF 3] fl(3) [OF 3(1,2), where f = g] g by auto
  next
    case 4
    then show ?thesis using assms(2) fl(4) [OF 4] fl(4) [OF 4(1,2) _ 4(4), where f = g] g
      by (auto simp: ahead_def split: if_splits)
  next
    case 5
    then show ?thesis using assms(2) fl(5) [OF 5] fl(5) [OF 5(1,2) _ 5(4), where f = g] g
      by (auto simp: ahead_def split: if_splits)
  qed
qed

lemma filterLines_again:
  assumes "known_format fmt" "filterLines fmt ls f = Inr outs" "ahead f g"
  shows "filterLines fmt outs g = Inr outs"
  using assms(2-)
proof (induction ls arbitrary: f g outs)
  case (Cons l ls)
  obtain o1 f1 where f1: "filterLine fmt l f = Inr (o1, f1)"
    using filterLine_Inr [OF assms(1)] by blast
  then obtain o2 where o2: "filterLines fmt ls f1 = Inr o2" "outs = o1 @ o2"
    using Cons.prems(1) by (auto simp: andThen_eq_Inr)
  from filterLine_again [OF assms(1) f1 Cons.prems(2)] show ?case
    using Cons.IH [OF o2(1)] o2(2) by auto
qed simp



lemma filterLine_other:
  assumes "contains ''m=audio'' l \<or> contains ''m=video'' l \<or> \<not> inAudio f \<or> \<not> contains ''a=rtpmap'' l"
  shows "\<exists>outs f1. filterLine fmt l f = Inr (outs, f1)
    \<and> inAudio f1 = (if contains ''m=audio'' l then True else if contains ''m=video'' l then False else inAudio f)"
  using assms by (cases "inAudio f") (auto simp: filterLine_def Let_def)

lemma filterLines_unknown:
  assumes "\<not> known_format fmt"
  shows "if \<exists>l \<in> set (audioLines (inAudio f) ls). contains ''a=rtpmap'' l
    then filterLines fmt ls f = Inl Undefined else isOk (filterLines fmt ls f)"
proof (induction ls arbitrary: f)
  case (Cons l ls)
  show ?case
  proof (cases "\<not> contains ''m=audio'' l \<and> \<not> contains ''m=video'' l \<and> inAudio f \<and> contains ''a=rtpmap'' l")
    case True
    then show ?thesis using assms
      by (auto simp: filterLine_def shouldKeepCodec_def known_format_def Let_def)
  next
    case False
    then obtain o1 f1 where f1: "filterLine fmt l f = Inr (o1, f1)"
      "inAudio f1 = (if contains ''m=audio'' l then True else if contains ''m=video'' l then False else inAudio f)"
      using filterLine_other [of l f fmt] by blast
    have "isOk (filterLines fmt (l # ls) f) = isOk (filterLines fmt ls f1)"
      "filterLines fmt (l # ls) f = Inl Undefined \<longleftrightarrow> filterLines fmt ls f1 = Inl Undefined"
      using f1(1) by (cases "filterLines fmt ls f1"; simp)+
    moreover have "(\<exists>k \<in> set (audioLines (inAudio f) (l # ls)). contains ''a=rtpmap'' k)
        \<longleftrightarrow> (\<exists>k \<in> set (audioLines (inAudio f1) ls). contains ''a=rtpmap'' k)"
      using False f1(2) by auto
    ultimately show ?thesis using Cons.IH [of f1] by presburger
  qed
qed simp

text \<open>For any other format name, such as the \<open>unknown\<close> the signalling starts from, the filter runs off the
  end of \<open>shouldKeepCodec\<close> exactly when an audio section has a codec line.\<close>

theorem modifySdp_unknown:
  assumes "\<not> known_format fmt"
  shows "modifySdp sdp fmt = Inl Undefined
    \<longleftrightarrow> (\<exists>l \<in> set (audioLines False (getlines sdp)). contains ''a=rtpmap'' l)"
proof -
  have i: "inAudio sdpFlags_initial = False" by (simp add: sdpFlags_initial_def)
  show ?thesis
    using filterLines_unknown [OF assms, where f = sdpFlags_initial and ls = "getlines sdp"] unfolding i
    by (cases "filterLines fmt (getlines sdp) sdpFlags_initial") (auto simp: modifySdp_def split: if_splits)
qed

theorem modifySdp_unknown_witness:
  "modifySdp (''m=audio 9'' @ CHR 0x0A # ''a=rtpmap:8 PCMA/8000'') ''unknown'' = Inl Undefined"
proof -
  have "getlines (''m=audio 9'' @ CHR 0x0A # ''a=rtpmap:8 PCMA/8000'') = [''m=audio 9'', ''a=rtpmap:8 PCMA/8000'']"
    by (simp add: getlines.simps)
  moreover have "\<not> known_format ''unknown''" by (simp add: known_format_def)
  ultimately show ?thesis
    using modifySdp_unknown [of "''unknown''"] by (simp add: contains_def)
qed

subsection \<open>The video engine\<close>

text \<open>\<open>ids\<close> are the identifiers of the connection's senders, in order; \<open>tracks\<close> those of the tracks
  they carry. Where a call of WebRTC can fail, a flag says whether it succeeds.\<close>

datatype vcall =
    CreateVideoTrack string
  | AddTrack string
  | SetTrack string
  | SetEnabled string bool
  | SetMaxBitrate string rat
  | RequestKeyFrame string
  | RequestRefreshFrame
  | SelectScreen u8
  | SelectWindow int
  | StartCapture string
  | StopCapture string
  | StartStats
  | StopStats

record video =
  v_peer :: bool
  v_factory :: bool
  v_track :: bool
  v_screen :: bool
  screenDevice :: bool
  windowDevice :: bool
  cameraState :: bool
  screenState :: bool
  isWinfirst :: bool
  isScreenfirst :: bool
  statsRunning :: bool
  videoDevList :: "int list"
  videoLog :: "vcall list"

definition RTCVideoEngine_new :: video where
  "RTCVideoEngine_new = \<lparr>v_peer = False, v_factory = False, v_track = False, v_screen = False,
     screenDevice = False, windowDevice = False, cameraState = True, screenState = True,
     isWinfirst = True, isScreenfirst = False, statsRunning = False, videoDevList = [], videoLog = []\<rparr>"

definition videoDo :: "vcall list \<Rightarrow> video \<Rightarrow> video" where
  "videoDo cs v = v\<lparr>videoLog := videoLog v @ cs\<rparr>"

definition addVideoTrack :: "bool \<Rightarrow> bool \<Rightarrow> bool \<Rightarrow> video \<Rightarrow> (int \<times> video) res" where
  "addVideoTrack factory pc added v =
     (if \<not> factory \<or> \<not> pc then Inl Undefined
      else
        let v = videoDo [CreateVideoTrack ''camera'', AddTrack ''camera''] (v\<lparr>v_factory := factory, v_peer := pc, v_track := True\<rparr>)
        in if \<not> added then Inr (-1, v) else Inr (0, v))"

definition requestKeyFrame :: "string list \<Rightarrow> video \<Rightarrow> video res" where
  "requestKeyFrame ids v =
     (if \<not> v_peer v then Inl Undefined
      else
        let v = videoDo (if ''screen'' \<in> set ids then [RequestKeyFrame ''screen''] else []) v
        in if \<not> v_screen v then Inl Undefined else Inr (videoDo [RequestRefreshFrame] v))"

definition switchCamera :: "bool \<Rightarrow> video \<Rightarrow> (int \<times> video) res" where
  "switchCamera flag v =
     (if \<not> v_track v then Inl Undefined
      else Inr (0, (videoDo [SetEnabled ''camera'' flag] v)\<lparr>cameraState := flag\<rparr>))"

definition switchScreen :: "bool \<Rightarrow> video \<Rightarrow> (int \<times> video) res" where
  "switchScreen flag v =
     (if \<not> v_screen v then Inl Undefined
      else Inr (0, (videoDo [SetEnabled ''screen'' flag] v)\<lparr>screenState := flag\<rparr>))"

definition v_setCamera :: "string list \<Rightarrow> (int \<Rightarrow> bool) \<Rightarrow> int \<Rightarrow> video \<Rightarrow> video res" where
  "v_setCamera tracks opens i v =
     (if \<not> v_peer v then Inl Undefined
      else if ''camera'' \<notin> set tracks then Inr v
      else if i \<in> set (videoDevList v) then
        (if \<not> v_factory v then Inl Undefined
         else Inr (videoDo [CreateVideoTrack ''camera'', SetTrack ''camera''] (v\<lparr>v_track := True\<rparr>)))
      else if \<not> opens i then Inr v
      else if \<not> v_factory v then Inl Undefined
      else Inr (videoDo [CreateVideoTrack ''camera'', SetTrack ''camera'']
             (v\<lparr>v_track := True, videoDevList := videoDevList v @ [i]\<rparr>)))"

primrec emplaceSources :: "(int \<times> string) list \<Rightarrow> (int \<times> string) list \<Rightarrow> (int \<times> string) list" where
  "emplaceSources [] m = m"
| "emplaceSources (s # ss) m = emplaceSources ss (map_emplace (fst s) (snd s) m)"

definition getScreenMap :: "(int \<times> string) list option \<Rightarrow> (int \<times> string) list \<Rightarrow> (int \<times> string) list" where
  "getScreenMap sources m = (case sources of Some ss \<Rightarrow> emplaceSources ss m | None \<Rightarrow> m)"

definition getWinMap :: "(int \<times> string) list option \<Rightarrow> (int \<times> string) list \<Rightarrow> (int \<times> string) list" where
  "getWinMap sources m = (case sources of Some ss \<Rightarrow> emplaceSources ss m | None \<Rightarrow> m)"

primrec emplaceCameras :: "nat \<Rightarrow> string option list \<Rightarrow> (int \<times> string) list \<Rightarrow> (int \<times> string) list" where
  "emplaceCameras i [] m = m"
| "emplaceCameras i (n # ns) m =
     emplaceCameras (Suc i) ns (case n of Some s \<Rightarrow> map_emplace (int i) s m | None \<Rightarrow> m)"

definition getCameraMap :: "string option list option \<Rightarrow> (int \<times> string) list \<Rightarrow> (int \<times> string) list" where
  "getCameraMap info m = (case info of None \<Rightarrow> m | Some names \<Rightarrow> emplaceCameras 0 names m)"

definition addScreenTrack :: "bool \<Rightarrow> bool \<Rightarrow> video \<Rightarrow> video res" where
  "addScreenTrack factory pc v =
     (let v = videoDo [StartCapture ''window'', StartCapture ''screen'']
            (v\<lparr>v_factory := factory, v_peer := pc, screenDevice := True, windowDevice := True\<rparr>)
      in if \<not> factory \<or> \<not> pc then Inl Undefined
         else Inr (videoDo [CreateVideoTrack ''screen'', AddTrack ''screen''] (v\<lparr>v_screen := True\<rparr>)))"

definition setScreenCapture :: "string list \<Rightarrow> u8 \<Rightarrow> video \<Rightarrow> video res" where
  "setScreenCapture tracks i v =
     (if isScreenfirst v then
        (if \<not> v_peer v then Inl Undefined
         else if ''screen'' \<notin> set tracks then Inr v
         else if \<not> v_factory v then Inl Undefined
         else
           let v = videoDo [CreateVideoTrack ''screen'', SetTrack ''screen'']
                 (v\<lparr>v_screen := True, isWinfirst := True\<rparr>)
           in if \<not> screenDevice v then Inl Undefined else Inr (videoDo [SelectScreen i] v))
      else if \<not> screenDevice v then Inl Undefined
      else Inr (videoDo [SelectScreen i] v))"

definition setWindowCapture :: "string list \<Rightarrow> int \<Rightarrow> video \<Rightarrow> video res" where
  "setWindowCapture tracks i v =
     (if isWinfirst v then
        (if \<not> v_peer v then Inl Undefined
         else if ''screen'' \<notin> set tracks then Inr v
         else if \<not> v_factory v then Inl Undefined
         else
           let v = videoDo [CreateVideoTrack ''screen'', SetTrack ''screen'']
                 (v\<lparr>v_screen := True, isWinfirst := False, isScreenfirst := True\<rparr>)
           in if \<not> windowDevice v then Inl Undefined else Inr (videoDo [SelectWindow i] v))
      else if \<not> windowDevice v then Inl Undefined
      else Inr (videoDo [SelectWindow i] v))"

definition setVideoBitrate :: "string list \<Rightarrow> rat \<Rightarrow> video \<Rightarrow> video res" where
  "setVideoBitrate ids rate v =
     (if \<not> v_peer v then Inl Undefined
      else Inr (videoDo (map (\<lambda>i. SetMaxBitrate i rate) (filter (\<lambda>i. i = ''camera'') ids)) v))"

definition startStatsCollection :: "video \<Rightarrow> video" where
  "startStatsCollection v =
     (if statsRunning v then v else videoDo [StartStats] (v\<lparr>statsRunning := True\<rparr>))"

definition stopStatsCollection :: "video \<Rightarrow> video" where
  "stopStatsCollection v = (if statsRunning v then videoDo [StopStats] (v\<lparr>statsRunning := False\<rparr>) else v)"

definition video_close :: "video \<Rightarrow> video" where
  "video_close v =
     (let v = v\<lparr>v_factory := False, v_peer := False, v_track := False, v_screen := False\<rparr>;
          v = (if screenDevice v then (videoDo [StopCapture ''screen''] v)\<lparr>screenDevice := False\<rparr> else v);
          v = (if windowDevice v then (videoDo [StopCapture ''window''] v)\<lparr>windowDevice := False\<rparr> else v)
      in v\<lparr>videoDevList := []\<rparr>)"

end
