(* ===== verification/Effects.thy ===== *)
theory Effects
  imports Prelude
begin

text \<open>
  Vocabulary of the signalling clients: operations that may throw and keep the effects they had until
  then, thread objects, numbers as text, and the rules by which a preorder on states is carried
  through composed operations.
\<close>

subsection \<open>Operations that may throw and keep their effects\<close>

type_synonym ('a, 's) eff = "'a res \<times> 's"

definition thenDo :: "('a, 's) eff \<Rightarrow> ('a \<Rightarrow> 's \<Rightarrow> ('b, 's) eff) \<Rightarrow> ('b, 's) eff" where
  "thenDo r f = (case r of (Inl e, s) \<Rightarrow> (Inl e, s) | (Inr x, s) \<Rightarrow> f x s)"

lemma thenDo_simps [simp, res_simps]:
  "thenDo (Inr x, s) f = f x s"
  "thenDo (Inl e, s) f = (Inl e, s)"
  by (simp_all add: thenDo_def)

text \<open>A computation that does not touch the state.\<close>

abbreviation pure :: "'a res \<Rightarrow> 's \<Rightarrow> ('a, 's) eff" where
  "pure r s \<equiv> (r, s)"

text \<open>The faults that are exceptions: a handler catches them, but not undefined behaviour, a blocked
  thread or the end of the process.\<close>

primrec catchable :: "fault \<Rightarrow> bool" where
  "catchable (RuntimeError s) = True"
| "catchable (LogicError s) = True"
| "catchable OutOfRange = True"
| "catchable JsonError = True"
| "catchable BadAnyCast = True"
| "catchable ProcessExit = False"
| "catchable OutOfFuel = False"
| "catchable Hang = False"
| "catchable Undefined = False"

definition catching :: "'a \<Rightarrow> ('a, 's) eff \<Rightarrow> ('a, 's) eff" where
  "catching dflt r = (case r of (Inl e, s) \<Rightarrow> if catchable e then (Inr dflt, s) else (Inl e, s) | _ \<Rightarrow> r)"

subsection \<open>Threads and numbers\<close>

text \<open>A thread object: none, one whose function still runs, one whose function has returned.\<close>

datatype thread = NoThread | Running | Ended

text \<open>\<open>std::to_string\<close> of a number that is not negative.\<close>

fun to_string :: "nat \<Rightarrow> string" where
  "to_string n = (if n < 10 then [] else to_string (n div 10)) @ [char_of (48 + n mod 10)]"

declare to_string.simps [simp del]

subsection \<open>Relations that composition preserves\<close>

text \<open>Most of what is shown relates the state before an operation to the one after it by a preorder. The
  operations are composed by \<open>thenDo\<close>, so one rule per preorder carries every handler.\<close>

locale trace_order =
  fixes R :: "'s \<Rightarrow> 's \<Rightarrow> bool"
  assumes R_refl: "R s s"
    and R_trans: "R s t \<Longrightarrow> R t u \<Longrightarrow> R s u"
begin

lemma then_order:
  assumes "R s (snd r)" "\<And>x t. R s t \<Longrightarrow> R s (snd (f x t))"
  shows "R s (snd (thenDo r f))"
  using assms by (cases r; cases "fst r") auto

lemma catching_order: "R s (snd r) \<Longrightarrow> R s (snd (catching d r))"
  by (cases r; cases "fst r") (auto simp: catching_def)

lemma if_order: "(b \<Longrightarrow> R s (snd r)) \<Longrightarrow> (\<not> b \<Longrightarrow> R s (snd r')) \<Longrightarrow> R s (snd (if b then r else r'))"
  by simp

lemma prod_order: "(\<And>x y. p = (x, y) \<Longrightarrow> R s (snd (f x y))) \<Longrightarrow> R s (snd (case p of (x, y) \<Rightarrow> f x y))"
  by (cases p) simp

lemma prod_fun_order:
  "(\<And>x y. p = (x, y) \<Longrightarrow> R s (snd (f x y t))) \<Longrightarrow> R s (snd ((case p of (x, y) \<Rightarrow> f x y) t))"
  by (cases p) simp

lemma option_order:
  "(p = None \<Longrightarrow> R s (snd r)) \<Longrightarrow> (\<And>x. p = Some x \<Longrightarrow> R s (snd (f x))) \<Longrightarrow>
   R s (snd (case p of None \<Rightarrow> r | Some x \<Rightarrow> f x))"
  by (cases p) simp_all

lemma value_order: "R s t \<Longrightarrow> R s (snd (x, t))"
  by simp

lemmas order_intros = then_order if_order prod_order prod_fun_order option_order value_order catching_order

lemma after_order: "R s t \<Longrightarrow> (\<And>u. R u (snd (f u))) \<Longrightarrow> R s (snd (f t))"
  using R_trans by blast

end

end
