(* ===== verification/Engine.thy ===== *)
theory Engine
  imports WsMessage Media Effects
begin

text \<open>
  \<open>rtcengine::RtcConnectEngine\<close> (\<open>core/engine/signalBridge/rtcConnectEngine.cpp\<close>): the client of the
  signalling server. Its members are a record; a request is the JSON value handed to the web socket,
  and the log of sent frames is part of the state. WebRTC, the clock and \<open>rand()\<close> answer through an
  environment record. An operation is a value or a fault together with the state it leaves, because
  the callers catch exceptions and go on with that state.
\<close>

subsection \<open>The engine's state and its environment\<close>

datatype State = NONE | CONNECT_ON | LOGIN_ON | CALLING | TRYING | RINGING | MEETING

datatype VideoCodecType = H264 | VP9
datatype AudioCodecType = PCMA | OPUS
datatype VideoMcu = Mcu_Y | Mcu_J
datatype AudioMcu = Mcu_X | Mcu_L

primrec VideoCodecType_value :: "VideoCodecType \<Rightarrow> int" where
  "VideoCodecType_value H264 = 0"
| "VideoCodecType_value VP9 = 1"

primrec AudioCodecType_value :: "AudioCodecType \<Rightarrow> int" where
  "AudioCodecType_value PCMA = 0"
| "AudioCodecType_value OPUS = 1"

primrec VideoMcu_value :: "VideoMcu \<Rightarrow> int" where
  "VideoMcu_value Mcu_Y = 0"
| "VideoMcu_value Mcu_J = 1"

primrec AudioMcu_value :: "AudioMcu \<Rightarrow> int" where
  "AudioMcu_value Mcu_X = 0"
| "AudioMcu_value Mcu_L = 1"

record devices =
  micList :: "(int \<times> string) list"
  speakerList :: "(int \<times> string) list"
  camList :: "(int \<times> string) list"
  screenList :: "(int \<times> string) list"
  windowList :: "(int \<times> string) list"

record rtc =
  signalState :: State
  userId :: string
  password :: string
  signalIp :: string
  signalPort :: u16
  meetingId :: string
  outboundUser :: string
  localJsep :: string
  remoteJsep :: string
  cseq :: int
  mcu :: int
  videoMcu :: int
  audioMcu :: int
  videoCodecType :: int
  audioCodecType :: int
  audioEngine :: "audio option"
  videoEngine :: "video option"
  peerConnection :: bool
  peerFactory :: bool
  signalingThread :: bool
  signalingSocket :: bool
  listenerThread :: thread
  keepaliveThread :: thread
  sendCandidateDone :: bool
  Closeflag :: bool
  noHeartbeatRespTime :: int
  threadDestroy :: bool
  devs :: devices
  frames :: "json list"

definition RtcConnectEngine_new :: rtc where
  "RtcConnectEngine_new = \<lparr>signalState = NONE, userId = [], password = [], signalIp = [], signalPort = -1,
     meetingId = [], outboundUser = [], localJsep = ''unknown'', remoteJsep = ''unknown'', cseq = 0,
     mcu = -1, videoMcu = -1, audioMcu = -1, videoCodecType = -1, audioCodecType = -1,
     audioEngine = None, videoEngine = None, peerConnection = False, peerFactory = False,
     signalingThread = False, signalingSocket = False, listenerThread = NoThread,
     keepaliveThread = NoThread, sendCandidateDone = False, Closeflag = False, noHeartbeatRespTime = 0, threadDestroy = False,
     devs = \<lparr>micList = [], speakerList = [], camList = [], screenList = [], windowList = []\<rparr>, frames = []\<rparr>"

record env =
  rnd :: nat
  clock :: int
  socketConnects :: bool
  admCreated :: bool
  admInitRst :: int
  admStatus :: "admcall \<Rightarrow> int"
  micNames :: "string option list"
  speakerNames :: "string option list"
  cameraNames :: "string option list option"
  screenSources :: "(int \<times> string) list option"
  windowSources :: "(int \<times> string) list option"
  factoryOk :: bool
  connectionOk :: bool
  noSenders :: bool
  audioAdded :: bool
  videoAdded :: bool
  trackChanged :: bool
  senderIds :: "string list"
  trackIds :: "string list"
  cameraOpens :: "int \<Rightarrow> bool"

subsection \<open>Requests\<close>

definition sendSocket :: "json \<Rightarrow> rtc \<Rightarrow> rtc" where
  "sendSocket js s = (if signalingSocket s then s\<lparr>frames := frames s @ [js]\<rparr> else s)"

text \<open>\<open>cseq++\<close> on a signed 32-bit integer.\<close>

definition nextCseq :: "rtc \<Rightarrow> (int, rtc) eff" where
  "nextCseq s = (if cseq s = 2147483647 then (Inl Undefined, s) else (Inr (cseq s), s\<lparr>cseq := cseq s + 1\<rparr>))"

definition build :: "(json \<Rightarrow> json res) list \<Rightarrow> json res" where
  "build fs = foldl andThen (Inr JNull) fs"

definition transmit :: "(json \<Rightarrow> json res) list \<Rightarrow> rtc \<Rightarrow> (unit, rtc) eff" where
  "transmit fs s = (case build fs of Inl e \<Rightarrow> (Inl e, s) | Inr js \<Rightarrow> (Inr (), sendSocket js s))"

text \<open>Calls through the pointers to the media engines.\<close>

definition onAudio :: "(audio \<Rightarrow> ('a \<times> audio) res) \<Rightarrow> rtc \<Rightarrow> ('a, rtc) eff" where
  "onAudio f s =
     (case audioEngine s of
        None \<Rightarrow> (Inl Undefined, s)
      | Some a \<Rightarrow> (case f a of Inl e \<Rightarrow> (Inl e, s) | Inr (x, a) \<Rightarrow> (Inr x, s\<lparr>audioEngine := Some a\<rparr>)))"

definition onVideo :: "(video \<Rightarrow> video res) \<Rightarrow> rtc \<Rightarrow> (unit, rtc) eff" where
  "onVideo f s =
     (case videoEngine s of
        None \<Rightarrow> (Inl Undefined, s)
      | Some v \<Rightarrow> (case f v of Inl e \<Rightarrow> (Inl e, s) | Inr v \<Rightarrow> (Inr (), s\<lparr>videoEngine := Some v\<rparr>)))"

subsection \<open>Connecting and logging in\<close>

text \<open>\<open>connect\<close>: a failure to connect is caught. Before the listener thread is replaced the old one is
  joined, which blocks for as long as it still listens.\<close>

definition connect :: "env \<Rightarrow> string \<Rightarrow> u16 \<Rightarrow> rtc \<Rightarrow> (bool, rtc) eff" where
  "connect e ip port s =
     (if \<not> socketConnects e then (Inr False, s)
      else
        let s = s\<lparr>signalIp := ip, signalPort := port, signalingSocket := True\<rparr>
        in if listenerThread s = Running then (Inl Hang, s)
           else
             let s = s\<lparr>listenerThread := Running\<rparr>;
                 s = (if keepaliveThread s = NoThread then s\<lparr>keepaliveThread := Running\<rparr> else s)
             in (Inr True, s\<lparr>signalState := CONNECT_ON, Closeflag := False\<rparr>))"

definition login :: "string \<Rightarrow> string \<Rightarrow> rtc \<Rightarrow> (bool, rtc) eff" where
  "login uid pwd s =
     (if uid \<noteq> [] \<and> pwd \<noteq> [] then
        thenDo (nextCseq s) (\<lambda>c s.
        thenDo (transmit [set_userid uid, set_password pwd, set_cseq c, set_meth ''REGISTER'',
                         set_isresponse False] s) (\<lambda>_ s.
          (Inr True, s\<lparr>userId := uid, password := pwd\<rparr>)))
      else (Inr False, s))"

definition logout :: "rtc \<Rightarrow> (unit, rtc) eff" where
  "logout s =
     thenDo (nextCseq s) (\<lambda>c s.
       transmit [set_userid (userId s), set_cseq c, set_meth ''LOGOUT'', set_isresponse False] s)"

subsection \<open>Meetings\<close>

text \<open>The number of the mixer for the two groups; for other values it stays what it was.\<close>

definition mcuOf :: "int \<Rightarrow> int \<Rightarrow> int \<Rightarrow> int" where
  "mcuOf vm am old =
     (if vm = 0 then (if am = 0 then 0 else if am = 1 then 1 else old)
      else if vm = 1 then (if am = 0 then 2 else if am = 1 then 3 else old)
      else old)"

definition videoTypeName :: "int \<Rightarrow> string" where
  "videoTypeName t = (if t = VideoCodecType_value H264 then ''H264''
     else if t = VideoCodecType_value VP9 then ''VP9'' else ''unknown'')"

definition audioTypeName :: "int \<Rightarrow> string" where
  "audioTypeName t = (if t = AudioCodecType_value PCMA then ''PCMA''
     else if t = AudioCodecType_value OPUS then ''OPUS'' else ''unknown'')"

definition scheduleMeeting ::
  "env \<Rightarrow> VideoMcu \<Rightarrow> AudioMcu \<Rightarrow> VideoCodecType \<Rightarrow> AudioCodecType \<Rightarrow> rtc \<Rightarrow> (bool, rtc) eff" where
  "scheduleMeeting e vm am vct act s =
     (let s = s\<lparr>mcu := mcuOf (VideoMcu_value vm) (AudioMcu_value am) (mcu s)\<rparr>
      in thenDo (nextCseq s) (\<lambda>c s.
         thenDo (transmit [set_from (userId s), set_meth ''CREATE'', set_cseq c, set_call_id (to_string (rnd e)),
             set_mcuId (mcu s), set_videoformat (videoTypeName (VideoCodecType_value vct)),
             set_audioformat (audioTypeName (AudioCodecType_value act)), set_isresponse False] s) (\<lambda>_ s.
           (Inr True, s))))"

definition ensureEngines :: "rtc \<Rightarrow> rtc" where
  "ensureEngines s =
     (let s = (if audioEngine s = None then s\<lparr>audioEngine := Some rtcAudioEngine_new\<rparr> else s)
      in if videoEngine s = None then s\<lparr>videoEngine := Some RTCVideoEngine_new\<rparr> else s)"

text \<open>\<open>CreatePeerConnection\<close>: on failure the pointer stays what it was.\<close>

definition CreatePeerConnection :: "env \<Rightarrow> rtc \<Rightarrow> bool \<times> rtc" where
  "CreatePeerConnection e s =
     (let s = (if connectionOk e then s\<lparr>peerConnection := True\<rparr> else s)
      in (peerConnection s, s))"

definition AddTracks :: "env \<Rightarrow> rtc \<Rightarrow> (unit, rtc) eff" where
  "AddTracks e s =
     (if \<not> peerConnection s then (Inl Undefined, s)
      else if \<not> noSenders e then (Inr (), s)
      else
        thenDo (onAudio (AddAudioTracks (peerFactory s) (peerConnection s) (audioAdded e)) s) (\<lambda>_ s.
        thenDo (onVideo (\<lambda>v. andThen (addVideoTrack (peerFactory s) (peerConnection s) (videoAdded e) v)
                                (\<lambda>(_, v). Inr v)) s) (\<lambda>_ s.
        thenDo (onVideo (addScreenTrack (peerFactory s) (peerConnection s)) s) (\<lambda>_ s.
        thenDo (onVideo (\<lambda>v. andThen (switchCamera False v) (\<lambda>(_, v). Inr v)) s) (\<lambda>_ s.
        onVideo (\<lambda>v. andThen (switchScreen False v) (\<lambda>(_, v). Inr v)) s)))))"

definition InitializePeerConnection :: "env \<Rightarrow> rtc \<Rightarrow> (bool, rtc) eff" where
  "InitializePeerConnection e s =
     thenDo (onAudio (\<lambda>a. Inr (InitAdm (admCreated e) (admInitRst e) a)) s) (\<lambda>_ s.
       let s = s\<lparr>signalingThread := True\<rparr>
       in thenDo (onVideo Inr s) (\<lambda>_ s.
          let s = s\<lparr>peerFactory := factoryOk e\<rparr>
          in if \<not> peerFactory s then (Inr False, s)
             else
               let (created, s) = CreatePeerConnection e s
               in if \<not> created then (Inr False, s)
                  else thenDo (AddTracks e s) (\<lambda>_ s. (Inr True, s))))"

text \<open>What both ways into a meeting do once the formats are known: the result of
  \<open>InitializePeerConnection\<close> is not looked at.\<close>

definition startOffer :: "env \<Rightarrow> rtc \<Rightarrow> (unit, rtc) eff" where
  "startOffer e s =
     thenDo (InitializePeerConnection e s) (\<lambda>_ s.
       if \<not> peerConnection s then (Inl Undefined, s)
       else thenDo (onAudio (setMicrophoneVolume (admStatus e) 50) s) (\<lambda>_ s. (Inr (), s)))"

definition createMeeting ::
  "env \<Rightarrow> VideoMcu \<Rightarrow> AudioMcu \<Rightarrow> VideoCodecType \<Rightarrow> AudioCodecType \<Rightarrow> rtc \<Rightarrow> (bool, rtc) eff" where
  "createMeeting e vm am vct act s =
     (let s = s\<lparr>videoMcu := VideoMcu_value vm, audioMcu := AudioMcu_value am,
                videoCodecType := VideoCodecType_value vct, audioCodecType := AudioCodecType_value act\<rparr>;
          s = s\<lparr>mcu := mcuOf (videoMcu s) (audioMcu s) (mcu s)\<rparr>;
          s = ensureEngines s
      in thenDo (startOffer e s) (\<lambda>_ s. (Inr True, s)))"

definition joinMeeting :: "env \<Rightarrow> string \<Rightarrow> rtc \<Rightarrow> (bool, rtc) eff" where
  "joinMeeting e m s =
     (if userId s = [] \<or> password s = [] then (Inr False, s)
      else
        let s = s\<lparr>meetingId := m\<rparr>
        in thenDo (nextCseq s) (\<lambda>c s.
           thenDo (transmit [set_from (userId s), set_to (meetingId s), set_meth ''QUERY'', set_cseq c,
                             set_call_id (to_string (rnd e))] s) (\<lambda>_ s.
             (Inr True, s))))"

text \<open>The end of a meeting, shared by leaving, closing and being closed.\<close>

definition releaseMedia :: "rtc \<Rightarrow> (unit, rtc) eff" where
  "releaseMedia s =
     thenDo (onVideo (\<lambda>v. Inr (stopStatsCollection v)) s) (\<lambda>_ s.
     thenDo (onVideo (\<lambda>v. Inr (video_close v)) s) (\<lambda>_ s.
     thenDo (onAudio (\<lambda>a. andThen (audio_close a) (\<lambda>a. Inr ((), a))) s) (\<lambda>_ s.
       (Inr (), s\<lparr>meetingId := [], videoCodecType := -1, audioCodecType := -1, videoMcu := -1, audioMcu := -1,
                 peerConnection := False, peerFactory := False\<rparr>))))"

definition exitMeeting :: "env \<Rightarrow> rtc \<Rightarrow> (bool, rtc) eff" where
  "exitMeeting e s =
     thenDo (nextCseq s) (\<lambda>c s.
     thenDo (transmit [set_from (userId s), set_to (meetingId s), set_cseq c, set_call_id (to_string (rnd e)),
                       set_meth ''BYE'', set_isresponse False] s) (\<lambda>_ s.
     thenDo (releaseMedia s) (\<lambda>_ s. (Inr True, s))))"

definition closeMeeting :: "env \<Rightarrow> rtc \<Rightarrow> (unit, rtc) eff" where
  "closeMeeting e s =
     thenDo (nextCseq s) (\<lambda>c s.
     thenDo (transmit [set_from (userId s), set_to (meetingId s), set_cseq c, set_call_id (to_string (rnd e)),
                       set_meth ''CLOSE'', set_isresponse False] s) (\<lambda>_ s.
     thenDo (releaseMedia s) (\<lambda>_ s. (Inr (), s\<lparr>Closeflag := True\<rparr>))))"

subsection \<open>Media controls\<close>

definition openCamera :: "env \<Rightarrow> rtc \<Rightarrow> (bool, rtc) eff" where
  "openCamera e s =
     thenDo (onVideo (setVideoBitrate (senderIds e) (9 / 10)) s) (\<lambda>_ s.
     thenDo (onVideo (\<lambda>v. andThen (switchCamera True v) (\<lambda>(_, v). Inr v)) s) (\<lambda>_ s. (Inr True, s)))"

definition closeCamera :: "env \<Rightarrow> rtc \<Rightarrow> (bool, rtc) eff" where
  "closeCamera e s =
     thenDo (onVideo (setVideoBitrate (senderIds e) (2 / 10)) s) (\<lambda>_ s.
     thenDo (onVideo (\<lambda>v. andThen (switchCamera False v) (\<lambda>(_, v). Inr v)) s) (\<lambda>_ s. (Inr True, s)))"

text \<open>The \<open>INFO\<close> requests carry the signal in a text.\<close>

definition sendInfo :: "env \<Rightarrow> string \<Rightarrow> rtc \<Rightarrow> (unit, rtc) eff" where
  "sendInfo e sig s =
     thenDo (nextCseq s) (\<lambda>c s.
       transmit [set_from (userId s), set_to (meetingId s), set_cseq c, set_call_id (to_string (rnd e)),
                 set_meth ''INFO'', set_signal sig, set_isresponse False] s)"

definition openMicphone :: "env \<Rightarrow> rtc \<Rightarrow> (bool, rtc) eff" where
  "openMicphone e s =
     thenDo (sendInfo e ''21'' s) (\<lambda>_ s.
       onAudio (\<lambda>a. Inr (setMicrophone (trackChanged e) True a)) s)"

definition closeMicphone :: "env \<Rightarrow> rtc \<Rightarrow> (bool, rtc) eff" where
  "closeMicphone e s =
     thenDo (sendInfo e ''20'' s) (\<lambda>_ s.
       onAudio (\<lambda>a. Inr (setMicrophone (trackChanged e) False a)) s)"

text \<open>The result is the integer 0 of \<open>switchScreen\<close> as a truth value.\<close>

definition openScreenShare :: "env \<Rightarrow> rtc \<Rightarrow> (bool, rtc) eff" where
  "openScreenShare e s =
     thenDo (sendInfo e ''31'' s) (\<lambda>_ s.
     thenDo (onVideo (setVideoBitrate (senderIds e) (16 / 10)) s) (\<lambda>_ s.
     thenDo (onVideo (\<lambda>v. andThen (switchScreen True v) (\<lambda>(_, v). Inr v)) s) (\<lambda>_ s. (Inr False, s))))"

definition closeScreenShare :: "env \<Rightarrow> rtc \<Rightarrow> (bool, rtc) eff" where
  "closeScreenShare e s =
     thenDo (sendInfo e ''30'' s) (\<lambda>_ s.
     thenDo (onVideo (setVideoBitrate (senderIds e) (9 / 10)) s) (\<lambda>_ s.
     thenDo (onVideo (\<lambda>v. andThen (switchScreen False v) (\<lambda>(_, v). Inr v)) s) (\<lambda>_ s. (Inr False, s))))"

definition setCamera :: "env \<Rightarrow> int \<Rightarrow> rtc \<Rightarrow> (unit, rtc) eff" where
  "setCamera e i s =
     thenDo (onVideo (setVideoBitrate (senderIds e) (9 / 10)) s) (\<lambda>_ s.
       onVideo (v_setCamera (trackIds e) (cameraOpens e) i) s)"

definition setScreen :: "env \<Rightarrow> int \<Rightarrow> rtc \<Rightarrow> (unit, rtc) eff" where
  "setScreen e i s =
     thenDo (onVideo (setVideoBitrate (senderIds e) (16 / 10)) s) (\<lambda>_ s.
       onVideo (setScreenCapture (trackIds e) (word_of_int i)) s)"

definition setWindow :: "env \<Rightarrow> int \<Rightarrow> rtc \<Rightarrow> (unit, rtc) eff" where
  "setWindow e i s =
     thenDo (onVideo (setVideoBitrate (senderIds e) (16 / 10)) s) (\<lambda>_ s.
       onVideo (setWindowCapture (trackIds e) i) s)"

definition setMicphone :: "env \<Rightarrow> int \<Rightarrow> rtc \<Rightarrow> (unit, rtc) eff" where
  "setMicphone e i s =
     thenDo (onAudio (\<lambda>a. Inr (ReplaceRecordingDevices (admStatus e) (word_of_int i) a)) s) (\<lambda>_ s. (Inr (), s))"

definition setMicphoneVolume :: "env \<Rightarrow> int \<Rightarrow> rtc \<Rightarrow> (unit, rtc) eff" where
  "setMicphoneVolume e val s =
     thenDo (onAudio (setMicrophoneVolume (admStatus e) val) s) (\<lambda>_ s. (Inr (), s))"

definition setSpeaker :: "env \<Rightarrow> int \<Rightarrow> rtc \<Rightarrow> (unit, rtc) eff" where
  "setSpeaker e i s =
     thenDo (onAudio (\<lambda>a. Inr (ReplacePlayoutDevices (admStatus e) (word_of_int i) a)) s) (\<lambda>_ s. (Inr (), s))"

text \<open>The device lists: the engine's own list is filled and then swapped with the caller's, so each is
  filled again the next time but one. An empty list is not swapped.\<close>

definition swapList :: "(int \<times> string) list \<Rightarrow> (int \<times> string) list \<Rightarrow> (int \<times> string) list \<times> (int \<times> string) list" where
  "swapList own caller = (if own = [] then (own, caller) else (caller, own))"

definition getAudioInputDevInfo :: "env \<Rightarrow> (int \<times> string) list \<Rightarrow> rtc \<Rightarrow> (int \<times> string) list \<times> rtc" where
  "getAudioInputDevInfo e caller s =
     (case audioEngine s of
        Some a \<Rightarrow>
          let (own, caller) = swapList (GetRecordingDevices (micNames e) a (micList (devs s))) caller
          in (caller, s\<lparr>devs := (devs s)\<lparr>micList := own\<rparr>\<rparr>)
      | None \<Rightarrow> (caller, s))"

definition getAudioOutputDevInfo :: "env \<Rightarrow> (int \<times> string) list \<Rightarrow> rtc \<Rightarrow> (int \<times> string) list \<times> rtc" where
  "getAudioOutputDevInfo e caller s =
     (case audioEngine s of
        Some a \<Rightarrow>
          let (own, caller) = swapList (GetPlayoutDevices (speakerNames e) a (speakerList (devs s))) caller
          in (caller, s\<lparr>devs := (devs s)\<lparr>speakerList := own\<rparr>\<rparr>)
      | None \<Rightarrow> (caller, s))"

definition getVideoInputDevInfo :: "env \<Rightarrow> (int \<times> string) list \<Rightarrow> rtc \<Rightarrow> (int \<times> string) list \<times> rtc" where
  "getVideoInputDevInfo e caller s =
     (case videoEngine s of
        Some v \<Rightarrow>
          let (own, caller) = swapList (getCameraMap (cameraNames e) (camList (devs s))) caller
          in (caller, s\<lparr>devs := (devs s)\<lparr>camList := own\<rparr>\<rparr>)
      | None \<Rightarrow> (caller, s))"

definition getScreenInfo :: "env \<Rightarrow> (int \<times> string) list \<Rightarrow> rtc \<Rightarrow> (int \<times> string) list \<times> rtc" where
  "getScreenInfo e caller s =
     (case videoEngine s of
        Some v \<Rightarrow>
          let (own, caller) = swapList (getScreenMap (screenSources e) (screenList (devs s))) caller
          in (caller, s\<lparr>devs := (devs s)\<lparr>screenList := own\<rparr>\<rparr>)
      | None \<Rightarrow> (caller, s))"

definition getWindowInfo :: "env \<Rightarrow> (int \<times> string) list \<Rightarrow> rtc \<Rightarrow> (int \<times> string) list \<times> rtc" where
  "getWindowInfo e caller s =
     (case videoEngine s of
        Some v \<Rightarrow>
          let (own, caller) = swapList (getWinMap (windowSources e) (windowList (devs s))) caller
          in (caller, s\<lparr>devs := (devs s)\<lparr>windowList := own\<rparr>\<rparr>)
      | None \<Rightarrow> (caller, s))"

definition outbound :: "env \<Rightarrow> string \<Rightarrow> rtc \<Rightarrow> (unit, rtc) eff" where
  "outbound e target s =
     (let s = s\<lparr>outboundUser := target\<rparr>
      in thenDo (nextCseq s) (\<lambda>c s.
         transmit [set_from (userId s), set_to (meetingId s), set_meth ''INFO'', set_cseq c,
                   set_call_id (to_string (rnd e)), set_signal (outboundUser s), set_isresponse False] s))"

subsection \<open>Session description and candidates\<close>

definition setLocal :: "rtc \<Rightarrow> (unit, rtc) eff" where
  "setLocal s = (if peerConnection s then (Inr (), s) else (Inl Undefined, s))"

definition setRemote :: "rtc \<Rightarrow> (unit, rtc) eff" where
  "setRemote s = (if peerConnection s then (Inr (), s) else (Inl Undefined, s))"

text \<open>\<open>OnSuccess\<close>: WebRTC has made the offer \<open>sdp\<close>.\<close>

definition OnSuccess :: "env \<Rightarrow> string \<Rightarrow> rtc \<Rightarrow> (unit, rtc) eff" where
  "OnSuccess e sdp s =
     (let audioType = audioTypeName (audioCodecType s)
      in case audioEngine s of
        None \<Rightarrow> (Inl Undefined, s)
      | Some a \<Rightarrow>
          thenDo (pure (modifySdp sdp audioType) s) (\<lambda>jsep s.
            let s = s\<lparr>localJsep := jsep\<rparr>
            in thenDo (nextCseq s) (\<lambda>c s.
               thenDo (transmit
                 (if meetingId s = [] then
                    [set_from (userId s), set_cseq c, set_call_id (to_string (rnd e)),
                     set_sdp (localJsep s), set_mcuId (mcu s), set_videoformat (videoTypeName (videoCodecType s)),
                     set_audioformat audioType, set_meth ''INVITE'', set_isresponse False]
                  else
                    [set_from (userId s), set_to (meetingId s), set_cseq c,
                     set_call_id (to_string (rnd e)), set_sdp (localJsep s), set_meth ''INVITE'',
                     set_isresponse False]) s) (\<lambda>_ s.
                 (Inr (), s\<lparr>signalState := CALLING\<rparr>)))))"

text \<open>A candidate is its media line, its media id and its text, which may fail to serialise.\<close>

definition sendTrickle :: "env \<Rightarrow> int \<times> string \<times> string option \<Rightarrow> rtc \<Rightarrow> (unit, rtc) eff" where
  "sendTrickle e cand s =
     (let (line, mid, text) = cand
      in thenDo (nextCseq s) (\<lambda>c s.
         case text of
           None \<Rightarrow> (Inr (), s)
         | Some t \<Rightarrow>
             transmit [set_from (userId s), set_to (meetingId s), set_cseq c, set_call_id (to_string (rnd e)),
               set_meth ''TRICKLE'', set_sdpMLineIndex line, set_sdpMid mid, set_candidate t,
               set_isresponse False] s))"

definition sendTrickleComplete :: "env \<Rightarrow> rtc \<Rightarrow> (unit, rtc) eff" where
  "sendTrickleComplete e s =
     thenDo (nextCseq s) (\<lambda>c s.
       transmit [set_from (userId s), set_to (meetingId s), set_cseq c, set_call_id (to_string (rnd e)),
         set_meth ''TRICKLE'', set_completed True, set_isresponse False] s)"

definition OnIceCandidate :: "env \<Rightarrow> int \<times> string \<times> string option \<Rightarrow> rtc \<Rightarrow> (unit, rtc) eff" where
  "OnIceCandidate e cand s =
     (if \<not> peerConnection s then (Inl Undefined, s) else sendTrickle e cand s)"

definition OnIceGatheringChange :: "env \<Rightarrow> bool \<Rightarrow> rtc \<Rightarrow> (unit, rtc) eff" where
  "OnIceGatheringChange e gathered s =
     (let s = s\<lparr>sendCandidateDone := True\<rparr>
      in if gathered then sendTrickleComplete e s else (Inr (), s))"

text \<open>One turn of the keep-alive thread.\<close>

definition keepalive :: "rtc \<Rightarrow> (unit, rtc) eff" where
  "keepalive s =
     thenDo (transmit [set_from (userId s), set_to (userId s), set_meth ''Heartbeat''] s) (\<lambda>_ s.
       (Inr (), s\<lparr>noHeartbeatRespTime := noHeartbeatRespTime s + 1\<rparr>))"

definition onHeartbeatResp :: "rtc \<Rightarrow> rtc" where
  "onHeartbeatResp s = s\<lparr>noHeartbeatRespTime := 0\<rparr>"

definition onTrying :: "rtc \<Rightarrow> rtc" where
  "onTrying s = s\<lparr>signalState := TRYING\<rparr>"

definition onRinging :: "rtc \<Rightarrow> (unit, rtc) eff" where
  "onRinging s =
     (let s = s\<lparr>signalState := RINGING\<rparr>
      in if localJsep s \<noteq> ''unknown'' then setLocal s else (Inr (), s))"

text \<open>Destroying the video engine while its statistics thread runs terminates the process.\<close>

definition destroysRunningThread :: "rtc \<Rightarrow> bool" where
  "destroysRunningThread s = (case videoEngine s of Some v \<Rightarrow> statsRunning v | None \<Rightarrow> False)"

definition onCancel :: "json \<Rightarrow> rtc \<Rightarrow> (unit, rtc) eff" where
  "onCancel resp s =
     thenDo (pure (ws_cmeth resp) s) (\<lambda>(m, _) s.
       if m = ''INVITE'' then
         let s = s\<lparr>meetingId := [], videoCodecType := -1, audioCodecType := -1, videoMcu := -1, audioMcu := -1\<rparr>
         in thenDo (if audioEngine s = None then (Inr (), s)
                    else onAudio (\<lambda>a. andThen (audio_close a) (\<lambda>a. Inr ((), a))) s) (\<lambda>_ s.
            if destroysRunningThread s then (Inl ProcessExit, s)
            else (Inr (), s\<lparr>audioEngine := None, videoEngine := None, signalingThread := False,
                           peerFactory := False, peerConnection := False\<rparr>))
       else if m = ''QUERY'' then
         (Inr (), s\<lparr>meetingId := [], videoCodecType := -1, audioCodecType := -1, videoMcu := -1, audioMcu := -1,
                   peerConnection := False, peerFactory := False\<rparr>)
       else (Inr (), s))"

end
