(* ===== verification/SafeQueue.thy ===== *)
theory SafeQueue
  imports Fifo
begin

text \<open>
  \<open>base::ThreadSafeQueue\<close> (\<open>core/savequeue.h\<close>) and the message bus \<open>alllink::hi\<close> with its message
  types (\<open>core/message.h\<close>). The mutex makes every method one step. A queue is the list of its
  elements; an element that was moved from keeps its place as \<open>mv x\<close>, what the move of its type
  leaves behind, until it is popped. A wait is given the elements that other threads push
  before it returns.
\<close>

subsection \<open>The queue\<close>

definition Push :: "'a \<Rightarrow> 'a list \<Rightarrow> 'a list" where
  "Push value q = q @ [value]"

definition TryPop :: "'a list \<Rightarrow> 'a option \<times> 'a list" where
  "TryPop q = (case q of [] \<Rightarrow> (None, []) | x # xs \<Rightarrow> (Some x, xs))"

primrec dropWhileLong :: "nat \<Rightarrow> 'a list \<Rightarrow> 'a list" where
  "dropWhileLong 0 q = q"
| "dropWhileLong (Suc n) q = (if length q > 5 then dropWhileLong n (tl q) else q)"

definition TryPopFlex :: "('a \<Rightarrow> 'a) \<Rightarrow> 'a list \<Rightarrow> 'a option \<times> 'a list" where
  "TryPopFlex mv q =
     (case q of [] \<Rightarrow> (None, [])
      | x # xs \<Rightarrow>
          let q = dropWhileLong (length q) (mv x # xs)
          in (Some x, if length q > 1 then tl q else q))"

definition waitFor :: "'a list \<Rightarrow> 'a list \<Rightarrow> 'a list" where
  "waitFor pushed q = (if q = [] then pushed else q)"

definition WaitPop :: "'a list \<Rightarrow> 'a list \<Rightarrow> 'a option \<times> 'a list" where
  "WaitPop pushed q =
     (case waitFor pushed q of [] \<Rightarrow> (None, []) | x # xs \<Rightarrow> (Some x, xs))"

definition WaitPopFlex :: "('a \<Rightarrow> 'a) \<Rightarrow> 'a list \<Rightarrow> 'a list \<Rightarrow> 'a option \<times> 'a list" where
  "WaitPopFlex mv pushed q =
     (case waitFor pushed q of [] \<Rightarrow> (None, [])
      | x # xs \<Rightarrow>
          let q = dropWhileLong (length (x # xs)) (mv x # xs)
          in (Some x, if length q > 1 then tl q else q))"

definition queue_Empty :: "'a list \<Rightarrow> bool" where
  "queue_Empty q \<longleftrightarrow> q = []"

definition queue_Size :: "'a list \<Rightarrow> nat" where
  "queue_Size q = length q"

subsection \<open>The message bus\<close>

datatype MessageType =
    CREATE_MEETING
  | JOIN_MEETING
  | START_LOGIN
  | START_LOGOUT
  | SETTING
  | IS_LOGIN
  | IS_CREATE
  | IS_BOOKING
  | IS_JOIN
  | MEETING_END
  | SWITCH_AUDIO_INPUT_STR
  | SWITCH_AUDIO_OUTPUT_STR
  | SWITCH_VIDEO_INPUT
  | SWITCH_SHARE_SCREEN
  | SWITCH_SHARE_WINDOW
  | SWITCH_MIC_VOLUME
  | SET_MIC_PHONE
  | SET_CAMERA
  | SET_SHARE
  | REQUEST_IFRAME
  | REQUEST_WINDOW_LIST
  | REQUEST_MEETING_INFO
  | START_INVITE
  | INVITE_USER
  | LOGIN_SUCCESS
  | CREATE_MEETING_OK
  | BOOKING_MEETING_OK
  | JOIN_MEETING_OK
  | SEND_SDP_TO_PEER
  | SEND_ICE_TO_PEER
  | SEND_ICE_COMPLETE_TO_PEER
  | SEND_MSG_FAILED
  | ADD_TRACK
  | REMOVE_TRACK
  | DISCONNECT_PEER
  | RECONNECT_SERVER_FAILED
  | RECONNECT_PEER
  | AUDIO_INPUT_DEV_INFO
  | AUDIO_OUTPUT_DEV_INFO
  | VIDEO_DEV_INFO
  | SHARE_SCREEN_INFO
  | SHARE_WINDOW_INFO
  | MEETING_MEDIA_INFO

primrec msgTo :: "MessageType \<Rightarrow> int" where
  "msgTo CREATE_MEETING = 0"
| "msgTo JOIN_MEETING = 1"
| "msgTo START_LOGIN = 2"
| "msgTo START_LOGOUT = 3"
| "msgTo SETTING = 4"
| "msgTo IS_LOGIN = 5"
| "msgTo IS_CREATE = 6"
| "msgTo IS_BOOKING = 7"
| "msgTo IS_JOIN = 8"
| "msgTo MEETING_END = 9"
| "msgTo SWITCH_AUDIO_INPUT_STR = 10"
| "msgTo SWITCH_AUDIO_OUTPUT_STR = 11"
| "msgTo SWITCH_VIDEO_INPUT = 12"
| "msgTo SWITCH_SHARE_SCREEN = 13"
| "msgTo SWITCH_SHARE_WINDOW = 14"
| "msgTo SWITCH_MIC_VOLUME = 15"
| "msgTo SET_MIC_PHONE = 16"
| "msgTo SET_CAMERA = 17"
| "msgTo SET_SHARE = 18"
| "msgTo REQUEST_IFRAME = 19"
| "msgTo REQUEST_WINDOW_LIST = 20"
| "msgTo REQUEST_MEETING_INFO = 21"
| "msgTo START_INVITE = 22"
| "msgTo INVITE_USER = 23"
| "msgTo LOGIN_SUCCESS = 24"
| "msgTo CREATE_MEETING_OK = 25"
| "msgTo BOOKING_MEETING_OK = 26"
| "msgTo JOIN_MEETING_OK = 27"
| "msgTo SEND_SDP_TO_PEER = 28"
| "msgTo SEND_ICE_TO_PEER = 29"
| "msgTo SEND_ICE_COMPLETE_TO_PEER = 30"
| "msgTo SEND_MSG_FAILED = 31"
| "msgTo ADD_TRACK = 32"
| "msgTo REMOVE_TRACK = 33"
| "msgTo DISCONNECT_PEER = 34"
| "msgTo RECONNECT_SERVER_FAILED = 35"
| "msgTo RECONNECT_PEER = 36"
| "msgTo AUDIO_INPUT_DEV_INFO = 37"
| "msgTo AUDIO_OUTPUT_DEV_INFO = 38"
| "msgTo VIDEO_DEV_INFO = 39"
| "msgTo SHARE_SCREEN_INFO = 40"
| "msgTo SHARE_WINDOW_INFO = 41"
| "msgTo MEETING_MEDIA_INFO = 42"

definition enumMap :: "(MessageType \<times> string) list" where
  "enumMap =
     [(SWITCH_AUDIO_INPUT_STR, ''SWITCH_AUDIO_INPUT_STR''),
      (SWITCH_MIC_VOLUME, ''SWITCH_MIC_VOLUME''),
      (SET_MIC_PHONE, ''SET_MIC_PHONE''),
      (SWITCH_SHARE_SCREEN, ''SWITCH_SHARE_SCREEN''),
      (SWITCH_SHARE_WINDOW, ''SWITCH_SHARE_WINDOW''),
      (SET_CAMERA, ''SET_CAMERA''),
      (SET_SHARE, ''SET_SHARE''),
      (REQUEST_IFRAME, ''REQUEST_IFRAME''),
      (REQUEST_WINDOW_LIST, ''REQUEST_WINDOW_LIST''),
      (REQUEST_MEETING_INFO, ''REQUEST_MEETING_INFO''),
      (INVITE_USER, ''INVITE_USER''),
      (SEND_SDP_TO_PEER, ''SEND_SDP_TO_PEER''),
      (SEND_ICE_TO_PEER, ''SEND_ICE_TO_PEER''),
      (SEND_ICE_COMPLETE_TO_PEER, ''SEND_ICE_COMPLETE_TO_PEER''),
      (DISCONNECT_PEER, ''DISCONNECT_PEER''),
      (RECONNECT_PEER, ''RECONNECT_PEER''),
      (CREATE_MEETING_OK, ''CREATE_MEETING_OK''),
      (JOIN_MEETING_OK, ''JOIN_MEETING_OK'')]"

definition enumToString :: "MessageType \<Rightarrow> string" where
  "enumToString e = (case map_of enumMap e of Some s \<Rightarrow> s | None \<Rightarrow> ''Unknown'')"

text \<open>A message is the number of its type and its data.\<close>

record 'd Message =
  msg_id :: int
  msg_data :: 'd

definition PostMsg :: "'d Message \<Rightarrow> 'd Message list \<Rightarrow> 'd Message list" where
  "PostMsg m q = Push m q"

definition GetMsg :: "'d Message list \<Rightarrow> 'd Message option \<times> 'd Message list" where
  "GetMsg q = TryPop q"

definition GetMsgBlock :: "'d Message list \<Rightarrow> 'd Message list \<Rightarrow> 'd Message option \<times> 'd Message list" where
  "GetMsgBlock pushed q = WaitPop pushed q"

subsection \<open>The queue is a queue\<close>

interpretation safe_queue: unbounded_fifo "\<lambda>q. q" "\<lambda>q. True" "\<lambda>q. True"
  "\<lambda>x q. (True, Push x q)" "\<lambda>q. Inr (TryPop q)"
  by unfold_locales (auto simp: Push_def TryPop_def)

lemma posted_accepted:
  fixes q :: "'d Message list"
  shows "\<exists>out q'. run_queue (\<lambda>x q. (True, PostMsg x q)) (\<lambda>q. Inr (GetMsg q)) ops q
    = Inr (concat (map (\<lambda>op. case op of Enq x \<Rightarrow> [x] | Deq \<Rightarrow> []) ops), out, q')"
proof (induction ops arbitrary: q)
  case (Cons op ops)
  show ?case
  proof (cases op)
    case (Enq x)
    then show ?thesis using Cons.IH [of "PostMsg x q"] by auto
  next
    case Deq
    obtain r q1 where "GetMsg q = (r, q1)" by (cases "GetMsg q")
    then show ?thesis using Cons.IH [of q1] Deq by auto
  qed
qed simp


lemma dropWhileLong_eq: "length q \<le> n + 5 \<Longrightarrow> dropWhileLong n q = drop (length q - 5) q"
proof (induction n arbitrary: q)
  case (Suc n)
  show ?case
  proof (cases "length q > 5")
    case True
    then have m: "length q - 5 = Suc (length (tl q) - 5)" by simp
    show ?thesis using Suc True unfolding m by (simp add: drop_Suc)
  qed simp
qed simp

lemma TryPopFlex_Cons:
  "TryPopFlex mv (x # xs) = (Some x, if xs = [] then [mv x] else drop (length xs - 4) xs)"
proof (cases "length xs > 4")
  case True
  then have l: "length (mv x # xs) - 5 = Suc (length xs - 5)" by simp
  have "dropWhileLong (length (x # xs)) (mv x # xs) = drop (length (mv x # xs) - 5) (mv x # xs)"
    by (rule dropWhileLong_eq) simp
  also have "\<dots> = drop (length xs - 5) xs" by (simp only: l drop_Suc_Cons)
  finally have "dropWhileLong (length (x # xs)) (mv x # xs) = drop (length xs - 5) xs" .
  moreover have "tl (drop (length xs - 5) xs) = drop (length xs - 4) xs"
  proof -
    have e: "length xs - 4 = Suc (length xs - 5)" using True by simp
    show ?thesis unfolding e by (simp add: drop_Suc tl_drop)
  qed
  ultimately show ?thesis using True by (simp add: TryPopFlex_def Let_def del: dropWhileLong.simps) auto
next
  case False
  have "dropWhileLong (length (x # xs)) (mv x # xs) = mv x # xs"
    using False by (subst dropWhileLong_eq) auto
  then show ?thesis using False by (auto simp: TryPopFlex_def Let_def simp del: dropWhileLong.simps)
qed

lemma WaitPopFlex_eq: "WaitPopFlex mv pushed q = TryPopFlex mv (waitFor pushed q)"
  by (simp add: WaitPopFlex_def TryPopFlex_def split: list.split)

text \<open>The flexible pop returns the oldest element; of the elements behind it at most the last four
  stay. A queue of one element keeps it, in the state the move left it in: once a queue
  was filled it never becomes empty again, and every later pop succeeds, with a moved-from element when
  nothing was pushed in between.\<close>

theorem TryPopFlex_spec:
  "TryPopFlex mv q =
     (case q of [] \<Rightarrow> (None, [])
      | x # xs \<Rightarrow> (Some x, if xs = [] then [mv x] else drop (length xs - 4) xs))
   \<and> WaitPopFlex mv pushed q = TryPopFlex mv (if q = [] then pushed else q)
   \<and> (snd (TryPopFlex mv q) = [] \<longleftrightarrow> q = [])"
proof (cases q)
  case Nil
  then show ?thesis by (simp add: WaitPopFlex_eq waitFor_def) (simp add: TryPopFlex_def)
next
  case (Cons x xs)
  have "drop (length xs - 4) xs = [] \<longleftrightarrow> xs = []" by (cases xs) auto
  then show ?thesis using Cons by (simp add: WaitPopFlex_eq waitFor_def TryPopFlex_Cons)
qed

definition MessageTypes :: "MessageType list" where
  "MessageTypes =
     [CREATE_MEETING, JOIN_MEETING, START_LOGIN, START_LOGOUT, SETTING, IS_LOGIN, IS_CREATE, IS_BOOKING,
      IS_JOIN, MEETING_END, SWITCH_AUDIO_INPUT_STR, SWITCH_AUDIO_OUTPUT_STR, SWITCH_VIDEO_INPUT,
      SWITCH_SHARE_SCREEN, SWITCH_SHARE_WINDOW, SWITCH_MIC_VOLUME, SET_MIC_PHONE, SET_CAMERA, SET_SHARE,
      REQUEST_IFRAME, REQUEST_WINDOW_LIST, REQUEST_MEETING_INFO, START_INVITE, INVITE_USER, LOGIN_SUCCESS,
      CREATE_MEETING_OK, BOOKING_MEETING_OK, JOIN_MEETING_OK, SEND_SDP_TO_PEER, SEND_ICE_TO_PEER,
      SEND_ICE_COMPLETE_TO_PEER, SEND_MSG_FAILED, ADD_TRACK, REMOVE_TRACK, DISCONNECT_PEER,
      RECONNECT_SERVER_FAILED, RECONNECT_PEER, AUDIO_INPUT_DEV_INFO, AUDIO_OUTPUT_DEV_INFO, VIDEO_DEV_INFO,
      SHARE_SCREEN_INFO, SHARE_WINDOW_INFO, MEETING_MEDIA_INFO]"

lemma nth_MessageTypes: "MessageTypes ! nat (msgTo e) = e"
  by (cases e) (simp_all add: MessageTypes_def)

lemma msgTo_inject: "msgTo a = msgTo b \<longleftrightarrow> a = b"
  using nth_MessageTypes [of a] nth_MessageTypes [of b] by metis

end
