(* ===== verification/Application.thy ===== *)
theory Application
  imports Engine SafeQueue
begin

text \<open>
  The application around the signalling engine: the central controller \<open>alllink::Controller\<close>
  (\<open>src/controller.cpp\<close>), which is the engine's subclass and answers its callbacks, the listener that
  feeds server messages to the engine (\<open>engineListener.cpp\<close>), and the vision controller
  (\<open>src/vision.cpp\<close>), whose \<open>update\<close> takes one message off the bus per round. Every handler is one
  step; the screens are a log of the calls made on them.
\<close>

subsection \<open>Messages\<close>

text \<open>Wide texts are lists of code points. A message's data is a \<open>std::any\<close>.\<close>

type_synonym wstring = "nat list"

record MediaInfo =
  inFrameRate :: rat
  outFrameRate :: rat
  inBitrate :: rat
  outBitrate :: rat

datatype kind = Video | Audio

datatype anyval =
    ANull
  | AString string
  | AStrings "string list"
  | AWStrings "wstring list"
  | AMap16 "(int \<times> string) list"
  | AMap32 "(int \<times> string) list"
  | AInt int
  | AInt64 int
  | ABool bool
  | AMeeting string int
  | AMedia MediaInfo
  | ATrack kind

type_synonym msg = "anyval Message"

definition mkMsg :: "MessageType \<Rightarrow> anyval \<Rightarrow> msg" where
  "mkMsg t d = \<lparr>msg_id = msgTo t, msg_data = d\<rparr>"

definition castString :: "anyval \<Rightarrow> string res" where
  "castString d = (case d of AString s \<Rightarrow> Inr s | _ \<Rightarrow> Inl BadAnyCast)"

definition castStrings :: "anyval \<Rightarrow> string list res" where
  "castStrings d = (case d of AStrings s \<Rightarrow> Inr s | _ \<Rightarrow> Inl BadAnyCast)"

definition castWStrings :: "anyval \<Rightarrow> wstring list res" where
  "castWStrings d = (case d of AWStrings s \<Rightarrow> Inr s | _ \<Rightarrow> Inl BadAnyCast)"

definition castMap16 :: "anyval \<Rightarrow> (int \<times> string) list res" where
  "castMap16 d = (case d of AMap16 s \<Rightarrow> Inr s | _ \<Rightarrow> Inl BadAnyCast)"

definition castMap32 :: "anyval \<Rightarrow> (int \<times> string) list res" where
  "castMap32 d = (case d of AMap32 s \<Rightarrow> Inr s | _ \<Rightarrow> Inl BadAnyCast)"

definition castInt :: "anyval \<Rightarrow> int res" where
  "castInt d = (case d of AInt s \<Rightarrow> Inr s | _ \<Rightarrow> Inl BadAnyCast)"

definition castInt64 :: "anyval \<Rightarrow> int res" where
  "castInt64 d = (case d of AInt64 s \<Rightarrow> Inr s | _ \<Rightarrow> Inl BadAnyCast)"

definition castBool :: "anyval \<Rightarrow> bool res" where
  "castBool d = (case d of ABool s \<Rightarrow> Inr s | _ \<Rightarrow> Inl BadAnyCast)"

definition castMeeting :: "anyval \<Rightarrow> (string \<times> int) res" where
  "castMeeting d = (case d of AMeeting s t \<Rightarrow> Inr (s, t) | _ \<Rightarrow> Inl BadAnyCast)"

definition castMedia :: "anyval \<Rightarrow> MediaInfo res" where
  "castMedia d = (case d of AMedia s \<Rightarrow> Inr s | _ \<Rightarrow> Inl BadAnyCast)"

definition castTrack :: "anyval \<Rightarrow> kind res" where
  "castTrack d = (case d of ATrack s \<Rightarrow> Inr s | _ \<Rightarrow> Inl BadAnyCast)"

subsection \<open>The state of the application\<close>

datatype VisionType = LOGIN | LOGOUT | RECONNECT

datatype window = StartWnd | LoginWnd | EnterWnd | StreamWnd | InviteWnd

datatype screencall =
    Enter window
  | Exit window
  | SetType bool
  | SetUseId string
  | SetDevList "(int \<times> string) list" nat
  | SetShareList "(int \<times> string) list" nat
  | SetSessionId string
  | SetSessionTimepoint int
  | SetBookingId string
  | SetMediaInfo MediaInfo
  | StartRemoteRenderer
  | StopRemoteRenderer
  | ReleaseTrack

record app =
  eng :: rtc
  audioInputDevMap :: "(int \<times> string) list"
  audioOutputDevMap :: "(int \<times> string) list"
  videoInputDevMap :: "(int \<times> string) list"
  shareScreenMap :: "(int \<times> string) list"
  shareWindowMap :: "(int \<times> string) list"
  meetId :: string
  bus :: "msg list"
  vision_type :: VisionType
  screens :: "screencall list"
  wsBuffer :: string
  lastHearbeatTime :: int

definition app_new :: app where
  "app_new = \<lparr>eng = RtcConnectEngine_new, audioInputDevMap = [], audioOutputDevMap = [],
     videoInputDevMap = [], shareScreenMap = [], shareWindowMap = [], meetId = [], bus = [],
     vision_type = LOGOUT, screens = [], wsBuffer = [], lastHearbeatTime = 0\<rparr>"

definition post :: "MessageType \<Rightarrow> anyval \<Rightarrow> app \<Rightarrow> app" where
  "post t d a = a\<lparr>bus := PostMsg (mkMsg t d) (bus a)\<rparr>"

definition screen :: "screencall list \<Rightarrow> app \<Rightarrow> app" where
  "screen cs a = a\<lparr>screens := screens a @ cs\<rparr>"

definition engDo :: "(rtc \<Rightarrow> ('a, rtc) eff) \<Rightarrow> app \<Rightarrow> ('a, app) eff" where
  "engDo f a = (case f (eng a) of (r, s) \<Rightarrow> (r, a\<lparr>eng := s\<rparr>))"

subsection \<open>The controller's answers to the engine\<close>

definition OnLoginSuccess :: "string \<Rightarrow> app \<Rightarrow> app" where
  "OnLoginSuccess uid a = post LOGIN_SUCCESS (AString uid) a"

definition OnReceiveTrack :: "kind \<Rightarrow> app \<Rightarrow> app" where
  "OnReceiveTrack k a = post ADD_TRACK (ATrack k) a"

definition OnCreateMeetingSuccess :: "string \<Rightarrow> int \<Rightarrow> app \<Rightarrow> app" where
  "OnCreateMeetingSuccess m t a = post CREATE_MEETING_OK (AMeeting m t) a"

text \<open>Reading the five device lists and posting them, as two handlers do.\<close>

definition readInto ::
  "((int \<times> string) list \<Rightarrow> rtc \<Rightarrow> (int \<times> string) list \<times> rtc) \<Rightarrow> (app \<Rightarrow> (int \<times> string) list)
    \<Rightarrow> ((int \<times> string) list \<Rightarrow> app \<Rightarrow> app) \<Rightarrow> app \<Rightarrow> app" where
  "readInto get cur set_cur a = (let (l, s) = get (cur a) (eng a) in set_cur l (a\<lparr>eng := s\<rparr>))"

definition readDevices :: "env \<Rightarrow> app \<Rightarrow> app" where
  "readDevices e a =
     (let a = readInto (getAudioInputDevInfo e) audioInputDevMap (\<lambda>l a. a\<lparr>audioInputDevMap := l\<rparr>) a;
          a = readInto (getAudioOutputDevInfo e) audioOutputDevMap (\<lambda>l a. a\<lparr>audioOutputDevMap := l\<rparr>) a;
          a = readInto (getVideoInputDevInfo e) videoInputDevMap (\<lambda>l a. a\<lparr>videoInputDevMap := l\<rparr>) a;
          a = readInto (getScreenInfo e) shareScreenMap (\<lambda>l a. a\<lparr>shareScreenMap := l\<rparr>) a
      in readInto (getWindowInfo e) shareWindowMap (\<lambda>l a. a\<lparr>shareWindowMap := l\<rparr>) a)"

definition postDevices :: "app \<Rightarrow> app" where
  "postDevices a =
     (let a = post AUDIO_INPUT_DEV_INFO (AMap16 (audioInputDevMap a)) a;
          a = post AUDIO_OUTPUT_DEV_INFO (AMap16 (audioOutputDevMap a)) a;
          a = post VIDEO_DEV_INFO (AMap16 (videoInputDevMap a)) a;
          a = post SHARE_SCREEN_INFO (AMap32 (shareScreenMap a)) a
      in post SHARE_WINDOW_INFO (AMap32 (shareWindowMap a)) a)"

definition OnJoinMeetingSuccess :: "env \<Rightarrow> int \<Rightarrow> app \<Rightarrow> app" where
  "OnJoinMeetingSuccess e t a = post JOIN_MEETING_OK (AInt64 t) (postDevices (readDevices e a))"

definition OnScheduleMeeting :: "string \<Rightarrow> app \<Rightarrow> app" where
  "OnScheduleMeeting m a = post BOOKING_MEETING_OK (AString m) a"

subsection \<open>Server messages\<close>

text \<open>The pattern of a meeting number: three digits, a dash, three digits.\<close>

definition isDigit :: "char \<Rightarrow> bool" where
  "isDigit c \<longleftrightarrow> 48 \<le> (of_char c :: nat) \<and> (of_char c :: nat) \<le> 57"

definition isMeetingId :: "string \<Rightarrow> bool" where
  "isMeetingId m \<longleftrightarrow> length m = 7 \<and> m ! 3 = CHR ''-'' \<and> (\<forall>i \<in> set [0, 1, 2, 4, 5, 6]. isDigit (m ! i))"

definition onQueryOK :: "env \<Rightarrow> json \<Rightarrow> app \<Rightarrow> (unit, app) eff" where
  "onQueryOK e resp a =
     (if \<not> isMeetingId (meetingId (eng a)) then (Inr (), a)
      else
        let a = a\<lparr>eng := ensureEngines (eng a)\<rparr>
        in thenDo (pure (ws_videoformat resp) a) (\<lambda>(vf, _) a.
           let a = (if vf = ''H264'' then a\<lparr>eng := (eng a)\<lparr>videoCodecType := VideoCodecType_value H264\<rparr>\<rparr>
                    else if vf = ''VP9'' then a\<lparr>eng := (eng a)\<lparr>videoCodecType := VideoCodecType_value VP9\<rparr>\<rparr>
                    else a)
           in thenDo (pure (ws_audioformat resp) a) (\<lambda>(af, _) a.
              let a = (if af = ''PCMA'' then a\<lparr>eng := (eng a)\<lparr>audioCodecType := AudioCodecType_value PCMA\<rparr>\<rparr>
                       else if af = ''OPUS'' then a\<lparr>eng := (eng a)\<lparr>audioCodecType := AudioCodecType_value OPUS\<rparr>\<rparr>
                       else a)
              in engDo (startOffer e) a)))"

definition onInviteOK :: "env \<Rightarrow> json \<Rightarrow> app \<Rightarrow> (unit, app) eff" where
  "onInviteOK e resp a =
     (let a = a\<lparr>eng := (eng a)\<lparr>signalState := MEETING\<rparr>\<rparr>
      in thenDo (pure (ws_sdp resp) a) (\<lambda>(jsep, _) a.
         let a = a\<lparr>eng := (eng a)\<lparr>remoteJsep := jsep\<rparr>\<rparr>
         in thenDo (engDo setRemote a) (\<lambda>_ a.
            thenDo (pure (ws_timePoint resp) a) (\<lambda>tp a.
              let t = (if tp = -1 then clock e else tp)
              in thenDo
                   (if meetingId (eng a) = [] then
                      thenDo (pure (ws_meetingId resp) a) (\<lambda>(m, _) a.
                        (Inr (), OnCreateMeetingSuccess m t (a\<lparr>eng := (eng a)\<lparr>meetingId := m\<rparr>\<rparr>)))
                    else (Inr (), a)) (\<lambda>_ a.
                 engDo (onVideo (\<lambda>v. Inr (startStatsCollection v))) (OnJoinMeetingSuccess e t a))))))"

definition onClose :: "app \<Rightarrow> (unit, app) eff" where
  "onClose a = engDo releaseMedia a"

text \<open>\<open>onOK\<close>: the answer to the request named by \<open>Cmeth\<close>.\<close>

definition onOK :: "env \<Rightarrow> json \<Rightarrow> app \<Rightarrow> (unit, app) eff" where
  "onOK e resp a =
     thenDo (pure (ws_cmeth resp) a) (\<lambda>(m, _) a.
       if m = ''REGISTER'' then
         let a = a\<lparr>eng := (eng a)\<lparr>signalState := LOGIN_ON, Closeflag := False\<rparr>\<rparr>
         in (Inr (), OnLoginSuccess (userId (eng a)) a)
       else if m = ''LOGOUT'' then (Inr (), a\<lparr>eng := (eng a)\<lparr>signalState := NONE\<rparr>\<rparr>)
       else if m = ''QUERY'' then onQueryOK e resp a
       else if m = ''INVITE'' then onInviteOK e resp a
       else if m = ''INFO'' then
         thenDo (pure (ws_signal resp) a) (\<lambda>(sig, _) a.
           if sig = ''31'' then engDo (onVideo (requestKeyFrame (senderIds e))) a else (Inr (), a))
       else if m = ''BYE'' then (Inr (), a\<lparr>eng := (eng a)\<lparr>meetingId := []\<rparr>\<rparr>)
       else if m = ''CREATE'' then
         thenDo (pure (ws_meetingId resp) a) (\<lambda>(mid, _) a.
           (Inr (), OnScheduleMeeting mid (a\<lparr>eng := (eng a)\<lparr>meetingId := mid\<rparr>\<rparr>)))
       else if m = ''CLOSE'' then (if \<not> Closeflag (eng a) then onClose a else (Inr (), a))
       else (Inr (), a))"

definition onUnauthorized :: "json \<Rightarrow> app \<Rightarrow> (unit, app) eff" where
  "onUnauthorized resp a =
     thenDo (pure (ws_cmeth resp) a) (\<lambda>(m, _) a.
       if m = ''REGISTER'' then (Inr (), a\<lparr>eng := (eng a)\<lparr>userId := [], password := []\<rparr>\<rparr>)
       else if m = ''INVITE'' then (Inr (), a\<lparr>eng := (eng a)\<lparr>meetingId := []\<rparr>\<rparr>)
       else if m = ''INFO'' then thenDo (pure (ws_signal resp) a) (\<lambda>_ a. (Inr (), a))
       else (Inr (), a))"

text \<open>The listener collects the parts of a message; an empty part ends it. \<open>parse\<close> is the JSON parser,
  which throws on text that is not JSON. Whatever is thrown is caught here.\<close>

definition dispatch :: "env \<Rightarrow> json \<Rightarrow> app \<Rightarrow> (unit, app) eff" where
  "dispatch e js a =
     thenDo (pure (ws_cmeth js) a) (\<lambda>(cm, js) a.
     thenDo (if cm = ''Heartbeat'' then (Inr True, a)
             else thenDo (pure (ws_meth js) a) (\<lambda>(m, _) a. (Inr (m = ''Heartbeat''), a))) (\<lambda>beat a.
       let a = (if beat then a\<lparr>eng := onHeartbeatResp (eng a)\<rparr> else a)
       in thenDo (pure (ws_statuscode js) a) (\<lambda>(code, js) a.
          if code = 200 then onOK e js a
          else if code = 100 then (Inr (), a\<lparr>eng := onTrying (eng a)\<rparr>)
          else if code = 180 then engDo onRinging a
          else if code = 401 then onUnauthorized js a
          else thenDo (pure (ws_meth js) a) (\<lambda>(m, js) a.
            if m = ''CANCEL'' then engDo (onCancel js) a else (Inr (), a)))))"

definition readMessage :: "(string \<Rightarrow> json option) \<Rightarrow> env \<Rightarrow> string \<Rightarrow> app \<Rightarrow> (unit, app) eff" where
  "readMessage parse e data a =
     catching ()
       (if data \<noteq> [] then (Inr (), a\<lparr>wsBuffer := wsBuffer a @ data\<rparr>)
        else if wsBuffer a = [] then (Inr (), a)
        else
          let whole = wsBuffer a; a = a\<lparr>wsBuffer := []\<rparr>
          in case parse (takeWhile (\<lambda>c. c \<noteq> CHR 0x00) whole) of
               None \<Rightarrow> (Inl JsonError, a)
             | Some js \<Rightarrow> dispatch e js (a\<lparr>lastHearbeatTime := clock e\<rparr>))"

subsection \<open>The controller\<close>

text \<open>\<open>linkinfo::ServerInfo\<close>: an address text \<open>a.b.c.d:port\<close>. Where the text does not match, or the port
  is too long for \<open>stoi\<close>, the port keeps the indeterminate value \<open>junk\<close>.\<close>

definition digits :: "string \<Rightarrow> string" where
  "digits s = takeWhile isDigit s"

primrec quads :: "nat \<Rightarrow> string \<Rightarrow> string option" where
  "quads 0 s = (if digits s = [] then None else Some (dropWhile isDigit s))"
| "quads (Suc n) s =
     (if digits s = [] then None
      else case dropWhile isDigit s of
        c # rest \<Rightarrow> if c = CHR ''.'' then quads n rest else None
      | [] \<Rightarrow> None)"

definition number :: "string \<Rightarrow> int" where
  "number s = foldl (\<lambda>n c. n * 10 + (of_char c - 48)) 0 s"

definition ServerInfo :: "u16 \<Rightarrow> string \<Rightarrow> string \<times> u16" where
  "ServerInfo junk addr =
     (case quads 3 addr of
        Some (c # port) \<Rightarrow>
          if c = CHR '':'' \<and> port \<noteq> [] \<and> digits port = port then
            let ip = take (length addr - length port - 1) addr
            in if number port \<le> 2147483647 then (ip, word_of_int (number port)) else (ip, junk)
          else ([], junk)
      | _ \<Rightarrow> ([], junk))"

definition LoginSignaling :: "env \<Rightarrow> string \<times> u16 \<Rightarrow> string \<Rightarrow> string \<Rightarrow> app \<Rightarrow> (bool, app) eff" where
  "LoginSignaling e server uid pwd a =
     thenDo (engDo (connect e (fst server) (snd server)) a) (\<lambda>ok a.
       if \<not> ok then (Inr False, a)
       else thenDo (engDo (login uid pwd) a) (\<lambda>ok a. (Inr ok, a)))"

text \<open>The names of the formats and groups that the enter screen offers.\<close>

definition wide :: "string \<Rightarrow> wstring" where
  "wide s = map of_char s"

definition choices :: "wstring \<Rightarrow> wstring \<Rightarrow> wstring \<Rightarrow> wstring \<Rightarrow> VideoCodecType \<times> AudioCodecType \<times> VideoMcu \<times> AudioMcu" where
  "choices videoEnc audioEnc vm am =
     (if videoEnc = wide ''vp9'' then VP9 else H264,
      if audioEnc = wide ''pcma'' then PCMA else OPUS,
      if vm = [89, 32452] then Mcu_Y else Mcu_J,
      if am = [76, 32452] then Mcu_L else Mcu_X)"

definition CreateMeeting :: "env \<Rightarrow> wstring \<Rightarrow> wstring \<Rightarrow> wstring \<Rightarrow> wstring \<Rightarrow> app \<Rightarrow> (bool, app) eff" where
  "CreateMeeting e ve ae vm am a =
     (let (vc, ac, vmcu, amcu) = choices ve ae vm am
      in thenDo (engDo (createMeeting e vmcu amcu vc ac) a) (\<lambda>_ a.
         (Inr True, postDevices (readDevices e a))))"

definition BookingMeeting :: "env \<Rightarrow> wstring \<Rightarrow> wstring \<Rightarrow> wstring \<Rightarrow> wstring \<Rightarrow> app \<Rightarrow> (unit, app) eff" where
  "BookingMeeting e ve ae vm am a =
     (let (vc, ac, vmcu, amcu) = choices ve ae vm am
      in thenDo (engDo (scheduleMeeting e vmcu amcu vc ac) a) (\<lambda>_ a. (Inr (), a)))"

definition JoinMeeting :: "env \<Rightarrow> string \<Rightarrow> app \<Rightarrow> (bool, app) eff" where
  "JoinMeeting e to a = engDo (joinMeeting e to) (a\<lparr>meetId := to\<rparr>)"

definition InviteUser :: "env \<Rightarrow> string \<Rightarrow> app \<Rightarrow> (unit, app) eff" where
  "InviteUser e to a = engDo (outbound e to) a"

definition DisconnectFromCurrentPeer :: "env \<Rightarrow> app \<Rightarrow> (unit, app) eff" where
  "DisconnectFromCurrentPeer e a =
     thenDo (engDo (exitMeeting e) (screen [StopRemoteRenderer] a)) (\<lambda>ok a.
       (Inr (), if ok then a\<lparr>meetId := []\<rparr> else a))"

text \<open>\<open>std::atoi\<close> of a text: blanks, a sign, digits; undefined when the number does not fit.\<close>

definition atoi :: "string \<Rightarrow> int res" where
  "atoi s =
     (let s = dropWhile isspace s;
          (sg, s) = (case s of c # cs \<Rightarrow> if c = CHR ''-'' then (-1, cs) else if c = CHR ''+'' then (1, cs) else (1, s)
                     | [] \<Rightarrow> (1, []));
          n = sg * number (digits s)
      in if -2147483648 \<le> n \<and> n \<le> 2147483647 then Inr n else Inl Undefined)"

text \<open>The first entry, in the order of the map, that a test accepts.\<close>

definition pick :: "((int \<times> string) \<Rightarrow> bool) \<Rightarrow> (int \<times> string) list \<Rightarrow> int option" where
  "pick P m = map_option fst (find P m)"

definition pickDo :: "(int \<Rightarrow> rtc \<Rightarrow> (unit, rtc) eff) \<Rightarrow> int option \<Rightarrow> app \<Rightarrow> (unit, app) eff" where
  "pickDo f i a = (case i of Some i \<Rightarrow> engDo (f i) a | None \<Rightarrow> (Inr (), a))"

text \<open>The part of a window's title after its last dash, or all of it.\<close>

definition windowLabel :: "string \<Rightarrow> string" where
  "windowLabel name = (if CHR ''-'' \<in> set name then rev (takeWhile (\<lambda>c. c \<noteq> CHR ''-'') (rev name)) else name)"

definition switchBy :: "env \<Rightarrow> (app \<Rightarrow> (int \<times> string) list) \<Rightarrow> (int \<Rightarrow> rtc \<Rightarrow> (unit, rtc) eff) \<Rightarrow> anyval \<Rightarrow> app \<Rightarrow> (unit, app) eff" where
  "switchBy e devmap f d a =
     thenDo (pure (castString d) a) (\<lambda>device a. pickDo f (pick (\<lambda>(i, name). device = name) (devmap a)) a)"

definition toggle :: "(rtc \<Rightarrow> (bool, rtc) eff) \<Rightarrow> (rtc \<Rightarrow> (bool, rtc) eff) \<Rightarrow> anyval \<Rightarrow> app \<Rightarrow> (unit, app) eff" where
  "toggle on off d a =
     thenDo (pure (castBool d) a) (\<lambda>b a. thenDo (engDo (if b then on else off) a) (\<lambda>_ a. (Inr (), a)))"

definition switchShareScreen :: "env \<Rightarrow> anyval \<Rightarrow> app \<Rightarrow> (unit, app) eff" where
  "switchShareScreen e d a =
     thenDo (pure (castString d) a) (\<lambda>deviceId a.
       if shareScreenMap a = [] then (Inr (), a)
       else thenDo (pure (atoi (takeWhile (\<lambda>c. c \<noteq> CHR 0x00) deviceId)) a) (\<lambda>n a.
         pickDo (setScreen e) (pick (\<lambda>(i, name). n = i) (shareScreenMap a)) a))"

definition switchShareWindow :: "env \<Rightarrow> anyval \<Rightarrow> app \<Rightarrow> (unit, app) eff" where
  "switchShareWindow e d a =
     thenDo (pure (castString d) a) (\<lambda>label a.
       pickDo (setWindow e) (pick (\<lambda>(i, name). label = windowLabel name) (shareWindowMap a)) a)"

definition requestWindowList :: "env \<Rightarrow> app \<Rightarrow> app" where
  "requestWindowList e a =
     (let old = shareWindowMap a;
          a = readInto (getWindowInfo e) shareWindowMap (\<lambda>l a. a\<lparr>shareWindowMap := l\<rparr>) a
      in if length old \<noteq> length (shareWindowMap a)
         then post SHARE_WINDOW_INFO (AMap32 (shareWindowMap a)) a else a)"

text \<open>The statistics that WebRTC last delivered are an argument.\<close>

definition requestMeetingInfo :: "MediaInfo \<Rightarrow> app \<Rightarrow> (unit, app) eff" where
  "requestMeetingInfo info a =
     (if videoEngine (eng a) = None then (Inl Undefined, a)
      else (Inr (), post MEETING_MEDIA_INFO (AMedia info) a))"

definition CustomMessageCallback :: "env \<Rightarrow> MediaInfo \<Rightarrow> msg \<Rightarrow> app \<Rightarrow> (unit, app) eff" where
  "CustomMessageCallback e info m a =
     (let n = msg_id m; d = msg_data m
      in if n = msgTo SWITCH_AUDIO_INPUT_STR then switchBy e audioInputDevMap (setMicphone e) d a
         else if n = msgTo SWITCH_AUDIO_OUTPUT_STR then switchBy e audioOutputDevMap (setSpeaker e) d a
         else if n = msgTo SWITCH_VIDEO_INPUT then switchBy e videoInputDevMap (setCamera e) d a
         else if n = msgTo SWITCH_SHARE_SCREEN then switchShareScreen e d a
         else if n = msgTo SWITCH_SHARE_WINDOW then switchShareWindow e d a
         else if n = msgTo SWITCH_MIC_VOLUME then
           thenDo (pure (castInt d) a) (\<lambda>volume a. engDo (setMicphoneVolume e volume) a)
         else if n = msgTo SET_MIC_PHONE then toggle (openMicphone e) (closeMicphone e) d a
         else if n = msgTo SET_CAMERA then toggle (openCamera e) (closeCamera e) d a
         else if n = msgTo SET_SHARE then toggle (openScreenShare e) (closeScreenShare e) d a
         else if n = msgTo REQUEST_WINDOW_LIST then (Inr (), requestWindowList e a)
         else if n = msgTo REQUEST_MEETING_INFO then requestMeetingInfo info a
         else (Inr (), a))"

subsection \<open>The vision controller\<close>

text \<open>The messages that \<open>update\<close> hands to the controller as they are.\<close>

definition forwardedTypes :: "MessageType list" where
  "forwardedTypes =
     [SWITCH_AUDIO_INPUT_STR, SWITCH_AUDIO_OUTPUT_STR, SWITCH_VIDEO_INPUT, SWITCH_SHARE_SCREEN,
      SWITCH_SHARE_WINDOW, SWITCH_MIC_VOLUME, SET_MIC_PHONE, SET_CAMERA, SET_SHARE, REQUEST_IFRAME,
      REQUEST_WINDOW_LIST, REQUEST_MEETING_INFO, SEND_SDP_TO_PEER, SEND_ICE_COMPLETE_TO_PEER,
      SEND_ICE_TO_PEER, RECONNECT_PEER]"

text \<open>What the enter window's \<open>OnEnter\<close> returns, and the value a failed address leaves in the port, are
  arguments.\<close>

definition visionEnter :: "bool \<Rightarrow> bool \<Rightarrow> app \<Rightarrow> (unit, app) eff" where
  "visionEnter entered create a =
     (if vision_type a = LOGOUT then (Inr (), a)
      else
        let a = screen [Enter EnterWnd] a
        in if \<not> entered then (Inr (), a) else (Inr (), screen [SetType create] a))"

definition visionLogin :: "env \<Rightarrow> u16 \<Rightarrow> anyval \<Rightarrow> app \<Rightarrow> (unit, app) eff" where
  "visionLogin e junk d a =
     thenDo (pure (castStrings d) a) (\<lambda>loginInfo a.
       if length loginInfo < 3 then (Inr (), a)
       else thenDo (LoginSignaling e (ServerInfo junk (loginInfo ! 0)) (loginInfo ! 1) (loginInfo ! 2) a)
              (\<lambda>_ a. (Inr (), a)))"

definition visionMeeting :: "(wstring \<Rightarrow> wstring \<Rightarrow> wstring \<Rightarrow> wstring \<Rightarrow> app \<Rightarrow> ('b, app) eff) \<Rightarrow> anyval \<Rightarrow> app \<Rightarrow> (unit, app) eff" where
  "visionMeeting f d a =
     (if vision_type a = LOGOUT then (Inr (), a)
      else thenDo (pure (castWStrings d) a) (\<lambda>l a.
        if length l \<noteq> 4 then (Inr (), a)
        else thenDo (f (l ! 0) (l ! 1) (l ! 2) (l ! 3) a) (\<lambda>_ a. (Inr (), a))))"

definition visionJoin :: "env \<Rightarrow> anyval \<Rightarrow> app \<Rightarrow> (unit, app) eff" where
  "visionJoin e d a =
     (if vision_type a = LOGOUT then (Inr (), a)
      else thenDo (pure (castString d) a) (\<lambda>meeting a.
        if meeting = [] then (Inr (), a)
        else thenDo (JoinMeeting e meeting a) (\<lambda>_ a. (Inr (), screen [SetSessionId meeting] a))))"

definition visionLoginSuccess :: "env \<Rightarrow> MediaInfo \<Rightarrow> anyval \<Rightarrow> app \<Rightarrow> (unit, app) eff" where
  "visionLoginSuccess e info d a =
     (let a = screen [Exit LoginWnd] a
      in thenDo (pure (castString d) a) (\<lambda>uid a.
         let a = screen [SetUseId uid] a
         in thenDo (if vision_type a = RECONNECT then CustomMessageCallback e info (mkMsg RECONNECT_PEER ANull) a
                    else (Inr (), a)) (\<lambda>_ a. (Inr (), a\<lparr>vision_type := LOGIN\<rparr>))))"

definition visionInvite :: "env \<Rightarrow> anyval \<Rightarrow> app \<Rightarrow> (unit, app) eff" where
  "visionInvite e d a =
     (let a = screen [Exit InviteWnd] a
      in thenDo (pure (castString d) a) (\<lambda>user a.
         if user = [] then (Inr (), a) else InviteUser e user a))"

definition visionAddTrack :: "anyval \<Rightarrow> app \<Rightarrow> (unit, app) eff" where
  "visionAddTrack d a =
     thenDo (pure (castTrack d) a) (\<lambda>k a.
       let a = (if k = Video then screen [Exit EnterWnd, Exit StartWnd, Enter StreamWnd, StartRemoteRenderer] a else a)
       in (Inr (), screen [ReleaseTrack] a))"

text \<open>What the environment answers during one round of \<open>update\<close>: besides the engine's, whether the
  enter window opens, the port left by a bad address, and the delivered statistics.\<close>

record round_env =
  renv :: env
  windowEntered :: bool
  junkPort :: u16
  mediaInfo :: MediaInfo

definition handle :: "round_env \<Rightarrow> msg \<Rightarrow> app \<Rightarrow> (unit, app) eff" where
  "handle r m a =
     (let e = renv r; n = msg_id m; d = msg_data m
      in if n = msgTo CREATE_MEETING then visionEnter (windowEntered r) True a
         else if n = msgTo JOIN_MEETING then visionEnter (windowEntered r) False a
         else if n = msgTo START_LOGIN then (Inr (), screen [Enter LoginWnd] a)
         else if n = msgTo IS_LOGIN then visionLogin e (junkPort r) d a
         else if n = msgTo IS_CREATE then visionMeeting (CreateMeeting e) d a
         else if n = msgTo IS_BOOKING then visionMeeting (BookingMeeting e) d a
         else if n = msgTo IS_JOIN then visionJoin e d a
         else if n = msgTo LOGIN_SUCCESS then visionLoginSuccess e (mediaInfo r) d a
         else if n = msgTo MEETING_END then
           DisconnectFromCurrentPeer e (screen [Exit StreamWnd, Enter StartWnd] a)
         else if n = msgTo START_INVITE then (Inr (), screen [Enter InviteWnd] a)
         else if n = msgTo INVITE_USER then visionInvite e d a
         else if n = msgTo DISCONNECT_PEER then
           CustomMessageCallback e (mediaInfo r) m (screen [Exit StreamWnd, Enter StartWnd] a)
         else if n = msgTo RECONNECT_SERVER_FAILED then (Inr (), screen [SetUseId []] a)
         else if n = msgTo AUDIO_INPUT_DEV_INFO then
           thenDo (pure (castMap16 d) a) (\<lambda>l a. (Inr (), screen [SetDevList l 0] a))
         else if n = msgTo AUDIO_OUTPUT_DEV_INFO then
           thenDo (pure (castMap16 d) a) (\<lambda>l a. (Inr (), screen [SetDevList l 1] a))
         else if n = msgTo VIDEO_DEV_INFO then
           thenDo (pure (castMap16 d) a) (\<lambda>l a. (Inr (), screen [SetDevList l 2] a))
         else if n = msgTo SHARE_SCREEN_INFO then
           thenDo (pure (castMap32 d) a) (\<lambda>l a. (Inr (), screen [SetShareList l 1] a))
         else if n = msgTo SHARE_WINDOW_INFO then
           thenDo (pure (castMap32 d) a) (\<lambda>l a. (Inr (), screen [SetShareList l 2] a))
         else if n = msgTo MEETING_MEDIA_INFO then
           thenDo (pure (castMedia d) a) (\<lambda>i a. (Inr (), screen [SetMediaInfo i] a))
         else if n = msgTo CREATE_MEETING_OK then
           thenDo (pure (castMeeting d) a) (\<lambda>(m, t) a. (Inr (), screen [SetSessionId m, SetSessionTimepoint t] a))
         else if n = msgTo BOOKING_MEETING_OK then
           thenDo (pure (castString d) a) (\<lambda>m a. (Inr (), screen [SetBookingId m, Exit EnterWnd] a))
         else if n = msgTo JOIN_MEETING_OK then
           thenDo (pure (castInt64 d) a) (\<lambda>t a. (Inr (), screen [SetSessionTimepoint t] a))
         else if n \<in> set (map msgTo forwardedTypes) then CustomMessageCallback e (mediaInfo r) m a
         else if n = msgTo ADD_TRACK then visionAddTrack d a
         else if n = msgTo REMOVE_TRACK then
           thenDo (pure (castTrack d) a) (\<lambda>_ a. (Inr (), screen [ReleaseTrack] a))
         else (Inr (), a))"

definition vision_update :: "round_env \<Rightarrow> app \<Rightarrow> (unit, app) eff" where
  "vision_update r a =
     (case GetMsg (bus a) of
        (None, q) \<Rightarrow> (Inr (), a)
      | (Some m, q) \<Rightarrow> catching () (handle r m (a\<lparr>bus := q\<rparr>)))"

subsection \<open>The application as a transition system\<close>

text \<open>The messages the screens post, with the data they put into them
  (\<open>startscreen.cpp\<close>, \<open>loginscreen.cpp\<close>, \<open>enterscreen.cpp\<close>, \<open>invitescreen.cpp\<close>, \<open>streamscreen.cpp\<close>).\<close>

datatype ui =
    UiCreate | UiJoin | UiLogin | UiLogout
  | UiIsLogin "string list"
  | UiIsCreate "wstring list"
  | UiIsBooking "wstring list"
  | UiIsJoin string
  | UiInvite string
  | UiMeetingEnd | UiIFrame | UiStartInvite
  | UiMic bool | UiCam bool | UiShare bool
  | UiWindowList
  | UiAudioIn string | UiAudioOut string | UiVideoIn string | UiScreen string | UiWindow string
  | UiVolume int
  | UiMeetingInfo

primrec uiMsg :: "ui \<Rightarrow> msg" where
  "uiMsg UiCreate = mkMsg CREATE_MEETING ANull"
| "uiMsg UiJoin = mkMsg JOIN_MEETING ANull"
| "uiMsg UiLogin = mkMsg START_LOGIN ANull"
| "uiMsg UiLogout = mkMsg START_LOGOUT ANull"
| "uiMsg (UiIsLogin l) = mkMsg IS_LOGIN (AStrings l)"
| "uiMsg (UiIsCreate l) = mkMsg IS_CREATE (AWStrings l)"
| "uiMsg (UiIsBooking l) = mkMsg IS_BOOKING (AWStrings l)"
| "uiMsg (UiIsJoin m) = mkMsg IS_JOIN (AString m)"
| "uiMsg (UiInvite u) = mkMsg INVITE_USER (AString u)"
| "uiMsg UiMeetingEnd = mkMsg MEETING_END ANull"
| "uiMsg UiIFrame = mkMsg REQUEST_IFRAME ANull"
| "uiMsg UiStartInvite = mkMsg START_INVITE ANull"
| "uiMsg (UiMic b) = mkMsg SET_MIC_PHONE (ABool b)"
| "uiMsg (UiCam b) = mkMsg SET_CAMERA (ABool b)"
| "uiMsg (UiShare b) = mkMsg SET_SHARE (ABool b)"
| "uiMsg UiWindowList = mkMsg REQUEST_WINDOW_LIST ANull"
| "uiMsg (UiAudioIn l) = mkMsg SWITCH_AUDIO_INPUT_STR (AString l)"
| "uiMsg (UiAudioOut l) = mkMsg SWITCH_AUDIO_OUTPUT_STR (AString l)"
| "uiMsg (UiVideoIn l) = mkMsg SWITCH_VIDEO_INPUT (AString l)"
| "uiMsg (UiScreen l) = mkMsg SWITCH_SHARE_SCREEN (AString l)"
| "uiMsg (UiWindow l) = mkMsg SWITCH_SHARE_WINDOW (AString l)"
| "uiMsg (UiVolume v) = mkMsg SWITCH_MIC_VOLUME (AInt v)"
| "uiMsg UiMeetingInfo = mkMsg REQUEST_MEETING_INFO ANull"

text \<open>What can happen next: the user acts, the vision controller takes a message, a part of a server
  message arrives, WebRTC calls back, the keep-alive thread wakes up, the server closes the
  connection so that the listener thread returns.\<close>

datatype event =
    Ui ui
  | Update round_env
  | Part env string
  | Offer env string
  | Candidate env "int \<times> string \<times> string option"
  | Gathering env bool
  | Track kind
  | Beat
  | ListenerEnds

definition app_step :: "(string \<Rightarrow> json option) \<Rightarrow> event \<Rightarrow> app \<Rightarrow> (unit, app) eff" where
  "app_step parse ev a =
     (case ev of
        Ui u \<Rightarrow> (Inr (), a\<lparr>bus := PostMsg (uiMsg u) (bus a)\<rparr>)
      | Update r \<Rightarrow> vision_update r a
      | Part e d \<Rightarrow> readMessage parse e d a
      | Offer e sdp \<Rightarrow> engDo (OnSuccess e sdp) a
      | Candidate e c \<Rightarrow> engDo (OnIceCandidate e c) a
      | Gathering e g \<Rightarrow> engDo (OnIceGatheringChange e g) a
      | Track k \<Rightarrow> (Inr (), OnReceiveTrack k a)
      | Beat \<Rightarrow> (if keepaliveThread (eng a) = Running then engDo keepalive a else (Inr (), a))
      | ListenerEnds \<Rightarrow>
          (Inr (), if listenerThread (eng a) = Running then a\<lparr>eng := (eng a)\<lparr>listenerThread := Ended\<rparr>\<rparr> else a))"

text \<open>A run stops at the first fault.\<close>

primrec run_app :: "(string \<Rightarrow> json option) \<Rightarrow> event list \<Rightarrow> app \<Rightarrow> (unit, app) eff" where
  "run_app parse [] a = (Inr (), a)"
| "run_app parse (ev # evs) a = thenDo (app_step parse ev a) (\<lambda>_ a. run_app parse evs a)"

end
