(* ===== verification/Meeting.thy ===== *)
theory Meeting
  imports Application
begin

text \<open>
  What holds of the running application (theory \<open>Application\<close>): the sequence numbers of the requests,
  the types of the messages on the bus, the login gate of the vision controller, and what the flows
  of logging in, joining and leaving do, the faulty ones included.
\<close>

subsection \<open>Sequence numbers\<close>

definition frameCseq :: "json \<Rightarrow> int option" where
  "frameCseq js = (case js of JObject m \<Rightarrow>
     (case map_of m ''Cseq'' of Some (JInt c) \<Rightarrow> Some c | _ \<Rightarrow> None) | _ \<Rightarrow> None)"

definition cseqs :: "json list \<Rightarrow> int list" where
  "cseqs fs = concat (map (\<lambda>f. case frameCseq f of Some c \<Rightarrow> [c] | None \<Rightarrow> []) fs)"

lemma cseqs_simps [simp]:
  "cseqs [] = []"
  "cseqs (fs @ gs) = cseqs fs @ cseqs gs"
  "cseqs [f] = (case frameCseq f of Some c \<Rightarrow> [c] | None \<Rightarrow> [])"
  by (simp_all add: cseqs_def)

text \<open>The frames sent by an operation carry increasing numbers out of those that the counter passes.\<close>

definition extends :: "rtc \<Rightarrow> rtc \<Rightarrow> bool" where
  "extends s t \<longleftrightarrow> (\<exists>fs. frames t = frames s @ fs \<and> cseq s \<le> cseq t \<and> sorted_wrt (<) (cseqs fs)
     \<and> (\<forall>c \<in> set (cseqs fs). cseq s \<le> c \<and> c < cseq t))"

lemma extends_refl: "extends s s"
  by (auto simp: extends_def)

lemma extends_trans: "extends s t \<Longrightarrow> extends t u \<Longrightarrow> extends s u"
  unfolding extends_def by (fastforce simp: sorted_wrt_append)

interpretation requests: trace_order extends
  by unfold_locales (fact extends_refl, fact extends_trans)

lemma extends_cong: "frames t' = frames t \<Longrightarrow> cseq t' = cseq t \<Longrightarrow> extends s t' = extends s t"
  by (simp add: extends_def)

lemma extends_update [simp]:
  "extends s (signalState_update f1 t) = extends s t"
  "extends s (userId_update f2 t) = extends s t"
  "extends s (password_update f3 t) = extends s t"
  "extends s (signalIp_update f4 t) = extends s t"
  "extends s (signalPort_update f5 t) = extends s t"
  "extends s (meetingId_update f6 t) = extends s t"
  "extends s (outboundUser_update f7 t) = extends s t"
  "extends s (localJsep_update f8 t) = extends s t"
  "extends s (remoteJsep_update f9 t) = extends s t"
  "extends s (mcu_update f10 t) = extends s t"
  "extends s (videoMcu_update f11 t) = extends s t"
  "extends s (audioMcu_update f12 t) = extends s t"
  "extends s (videoCodecType_update f13 t) = extends s t"
  "extends s (audioCodecType_update f14 t) = extends s t"
  "extends s (audioEngine_update f15 t) = extends s t"
  "extends s (videoEngine_update f16 t) = extends s t"
  "extends s (peerConnection_update f17 t) = extends s t"
  "extends s (peerFactory_update f18 t) = extends s t"
  "extends s (signalingThread_update f19 t) = extends s t"
  "extends s (signalingSocket_update f20 t) = extends s t"
  "extends s (listenerThread_update f21 t) = extends s t"
  "extends s (keepaliveThread_update f22 t) = extends s t"
  "extends s (sendCandidateDone_update f23 t) = extends s t"
  "extends s (Closeflag_update f24 t) = extends s t"
  "extends s (noHeartbeatRespTime_update f25 t) = extends s t"
  "extends s (threadDestroy_update f27 t) = extends s t"
  "extends s (devs_update f26 t) = extends s t"
  by (rule extends_cong; simp)+

lemma extends_onAudio: "extends s t \<Longrightarrow> extends s (snd (onAudio f t))"
  by (auto simp: onAudio_def split: option.splits sum.splits)

lemma extends_onVideo: "extends s t \<Longrightarrow> extends s (snd (onVideo f t))"
  by (auto simp: onVideo_def split: option.splits sum.splits)

text \<open>A frame built with the number just taken, and one without a number.\<close>

lemma extends_request:
  assumes "extends s t" "\<And>c t js. build (fs c t) = Inr js \<Longrightarrow> frameCseq js = Some c"
    and "\<And>x u. extends s u \<Longrightarrow> extends s (snd (k x u))"
  shows "extends s (snd (thenDo (nextCseq t) (\<lambda>c t. thenDo (transmit (fs c t) t) k)))"
proof (cases "cseq t = 2147483647")
  case False
  define u where "u = t\<lparr>cseq := cseq t + 1\<rparr>"
  have n: "nextCseq t = (Inr (cseq t), u)" using False by (simp add: nextCseq_def u_def)
  have "extends t (snd (transmit (fs (cseq t) u) u))"
  proof (cases "build (fs (cseq t) u)")
    case (Inl e)
    then show ?thesis by (auto simp: transmit_def extends_def u_def)
  next
    case (Inr js)
    then have "frameCseq js = Some (cseq t)" by (rule assms(2))
    then show ?thesis using Inr by (auto simp: transmit_def sendSocket_def extends_def u_def)
  qed
  then have "extends s (snd (transmit (fs (cseq t) u) u))" using assms(1) extends_trans by blast
  then show ?thesis using assms(3) by (simp add: n requests.then_order)
qed (simp add: nextCseq_def assms(1))

lemma extends_request_last:
  assumes "extends s t" "\<And>c t js. build (fs c t) = Inr js \<Longrightarrow> frameCseq js = Some c"
  shows "extends s (snd (thenDo (nextCseq t) (\<lambda>c t. transmit (fs c t) t)))"
proof -
  have "thenDo r (\<lambda>x t. (Inr x, t)) = r" for r :: "(unit, rtc) eff"
    by (cases r; cases "fst r") auto
  then show ?thesis using extends_request [where fs = fs and k = "\<lambda>x t. (Inr x, t)", OF assms] by simp
qed

lemmas build_simps = build_def message_defs js_set_def frameCseq_def

lemma extends_connect: "extends s t \<Longrightarrow> extends s (snd (connect e ip port t))"
  by (simp add: connect_def Let_def)

lemma extends_login: "extends s t \<Longrightarrow> extends s (snd (login uid pwd t))"
  unfolding login_def by (auto intro!: extends_request simp: build_simps)

lemma extends_logout: "extends s t \<Longrightarrow> extends s (snd (logout t))"
  unfolding logout_def by (auto intro!: extends_request_last simp: build_simps)

lemma extends_scheduleMeeting: "extends s t \<Longrightarrow> extends s (snd (scheduleMeeting e vm am vct act t))"
  unfolding scheduleMeeting_def Let_def by (auto intro!: extends_request simp: build_simps)

lemmas engine_call_intros = extends_onAudio extends_onVideo requests.then_order requests.if_order

lemma extends_AddTracks: "extends s t \<Longrightarrow> extends s (snd (AddTracks e t))"
  unfolding AddTracks_def by (auto intro!: engine_call_intros)

lemma extends_startOffer: "extends s t \<Longrightarrow> extends s (snd (startOffer e t))"
  unfolding startOffer_def InitializePeerConnection_def CreatePeerConnection_def Let_def
  by (auto intro!: engine_call_intros extends_AddTracks split: prod.splits)

lemma extends_ensureEngines: "extends s t \<Longrightarrow> extends s (ensureEngines t)"
  by (simp add: ensureEngines_def Let_def)

lemma extends_createMeeting: "extends s t \<Longrightarrow> extends s (snd (createMeeting e vm am vct act t))"
  unfolding createMeeting_def Let_def
  by (auto intro!: requests.then_order extends_startOffer extends_ensureEngines)

lemma extends_joinMeeting: "extends s t \<Longrightarrow> extends s (snd (joinMeeting e m t))"
  unfolding joinMeeting_def Let_def by (auto intro!: extends_request simp: build_simps)

lemma extends_releaseMedia: "extends s t \<Longrightarrow> extends s (snd (releaseMedia t))"
  unfolding releaseMedia_def by (auto intro!: engine_call_intros)

lemma extends_exitMeeting: "extends s t \<Longrightarrow> extends s (snd (exitMeeting e t))"
  unfolding exitMeeting_def
  by (rule extends_request) (auto intro!: requests.then_order extends_releaseMedia simp: build_simps)

lemma extends_sendInfo: "extends s t \<Longrightarrow> extends s (snd (sendInfo e sig t))"
  unfolding sendInfo_def by (auto intro!: extends_request_last simp: build_simps)

lemma extends_controls:
  assumes "extends s t"
  shows "extends s (snd (openCamera e t))" "extends s (snd (closeCamera e t))"
    "extends s (snd (openMicphone e t))" "extends s (snd (closeMicphone e t))"
    "extends s (snd (openScreenShare e t))" "extends s (snd (closeScreenShare e t))"
    "extends s (snd (setCamera e i t))" "extends s (snd (setScreen e i t))" "extends s (snd (setWindow e i t))"
    "extends s (snd (setMicphone e i t))" "extends s (snd (setMicphoneVolume e i t))"
    "extends s (snd (setSpeaker e i t))"
  unfolding openCamera_def closeCamera_def openMicphone_def closeMicphone_def openScreenShare_def
    closeScreenShare_def setCamera_def setScreen_def setWindow_def setMicphone_def setMicphoneVolume_def
    setSpeaker_def
  using assms by (auto intro!: engine_call_intros extends_sendInfo)

lemma extends_outbound: "extends s t \<Longrightarrow> extends s (snd (outbound e u t))"
  unfolding outbound_def Let_def by (auto intro!: extends_request_last simp: build_simps)

lemma extends_sendTrickleComplete: "extends s t \<Longrightarrow> extends s (snd (sendTrickleComplete e t))"
  unfolding sendTrickleComplete_def by (auto intro!: extends_request_last simp: build_simps)

lemma extends_nextCseq: "extends s t \<Longrightarrow> extends s (snd (nextCseq t))"
  unfolding nextCseq_def by (fastforce simp: extends_def)

lemma extends_sendTrickle: "extends s t \<Longrightarrow> extends s (snd (sendTrickle e cand t))"
proof -
  assume t: "extends s t"
  obtain ln mid cs where fields: "cand = (ln, mid, cs)" by (cases cand)
  show ?thesis
  proof (cases cs)
    case None
    then show ?thesis using t fields unfolding sendTrickle_def
      by (auto intro!: requests.then_order extends_nextCseq)
  next
    case (Some x)
    then show ?thesis using t fields unfolding sendTrickle_def
      by (auto intro!: extends_request_last simp: build_simps)
  qed
qed

lemma extends_OnSuccess: "extends s t \<Longrightarrow> extends s (snd (OnSuccess e sdp t))"
proof (cases "audioEngine t")
  case (Some a)
  assume t: "extends s t"
  show ?thesis
  proof (cases "modifySdp sdp (audioTypeName (audioCodecType t))")
    case (Inr jsep)
    have "extends s (t\<lparr>localJsep := jsep\<rparr>)" using t by simp
    then show ?thesis unfolding OnSuccess_def Let_def using Some Inr
      by simp (rule extends_request; auto simp: build_simps split: if_splits)
  qed (use t Some in \<open>simp add: OnSuccess_def Let_def\<close>)
qed (simp add: OnSuccess_def Let_def)

lemma extends_OnIceCandidate: "extends s t \<Longrightarrow> extends s (snd (OnIceCandidate e cand t))"
  unfolding OnIceCandidate_def by (simp add: extends_sendTrickle)

lemma extends_OnIceGatheringChange: "extends s t \<Longrightarrow> extends s (snd (OnIceGatheringChange e g t))"
  unfolding OnIceGatheringChange_def Let_def by (simp add: extends_sendTrickleComplete)

text \<open>A heartbeat has no number.\<close>

lemma extends_keepalive: "extends s t \<Longrightarrow> extends s (snd (keepalive t))"
proof -
  assume t: "extends s t"
  have "extends t (snd (transmit [set_from (userId t), set_to (userId t), set_meth ''Heartbeat''] t))"
    by (simp add: transmit_def build_simps sendSocket_def) (simp add: extends_def frameCseq_def)
  then show ?thesis unfolding keepalive_def
    using t extends_trans by (intro requests.then_order) (blast, simp)
qed

lemma extends_onCancel: "extends s t \<Longrightarrow> extends s (snd (onCancel js t))"
  unfolding onCancel_def Let_def
  by (auto intro!: engine_call_intros)

lemma extends_answers:
  assumes "extends s t"
  shows "extends s (onHeartbeatResp t)" "extends s (onTrying t)" "extends s (snd (onRinging t))"
    "extends s (snd (setRemote t))"
  unfolding onHeartbeatResp_def onTrying_def onRinging_def setLocal_def setRemote_def Let_def
  using assms by auto

lemma extends_devices:
  assumes "extends s t"
  shows "extends s (snd (getAudioInputDevInfo e l t))" "extends s (snd (getAudioOutputDevInfo e l t))"
    "extends s (snd (getVideoInputDevInfo e l t))" "extends s (snd (getScreenInfo e l t))"
    "extends s (snd (getWindowInfo e l t))"
  unfolding getAudioInputDevInfo_def getAudioOutputDevInfo_def getVideoInputDevInfo_def getScreenInfo_def
    getWindowInfo_def swapList_def Let_def
  using assms by (auto split: option.splits prod.splits)

subsection \<open>Every handler of the application\<close>

text \<open>The data that the consumer of a message casts to.\<close>

definition fits :: "MessageType \<Rightarrow> anyval \<Rightarrow> bool" where
  "fits t d \<longleftrightarrow>
     (if t = IS_LOGIN then isOk (castStrings d)
      else if t \<in> {IS_CREATE, IS_BOOKING} then isOk (castWStrings d)
      else if t \<in> {IS_JOIN, LOGIN_SUCCESS, INVITE_USER, BOOKING_MEETING_OK, SWITCH_AUDIO_INPUT_STR,
                   SWITCH_AUDIO_OUTPUT_STR, SWITCH_VIDEO_INPUT, SWITCH_SHARE_SCREEN, SWITCH_SHARE_WINDOW}
        then isOk (castString d)
      else if t \<in> {AUDIO_INPUT_DEV_INFO, AUDIO_OUTPUT_DEV_INFO, VIDEO_DEV_INFO} then isOk (castMap16 d)
      else if t \<in> {SHARE_SCREEN_INFO, SHARE_WINDOW_INFO} then isOk (castMap32 d)
      else if t = SWITCH_MIC_VOLUME then isOk (castInt d)
      else if t \<in> {SET_MIC_PHONE, SET_CAMERA, SET_SHARE} then isOk (castBool d)
      else if t = MEETING_MEDIA_INFO then isOk (castMedia d)
      else if t = CREATE_MEETING_OK then isOk (castMeeting d)
      else if t = JOIN_MEETING_OK then isOk (castInt64 d)
      else if t \<in> {ADD_TRACK, REMOVE_TRACK} then isOk (castTrack d)
      else True)"

definition msg_ok :: "msg \<Rightarrow> bool" where
  "msg_ok m \<longleftrightarrow> (\<exists>t. msg_id m = msgTo t \<and> fits t (msg_data m))"

lemmas cast_defs = castString_def castStrings_def castWStrings_def castMap16_def castMap32_def castInt_def
  castInt64_def castBool_def castMeeting_def castMedia_def castTrack_def

lemma msg_ok_mkMsg [simp]: "msg_ok (mkMsg t d) = fits t d"
  by (auto simp: msg_ok_def mkMsg_def msgTo_inject)

text \<open>One preorder for what handlers do to the parts that several properties speak about: the requests,
  the bus and the login state of the vision controller.\<close>

definition app_order :: "app \<Rightarrow> app \<Rightarrow> bool" where
  "app_order a b \<longleftrightarrow> extends (eng a) (eng b)
     \<and> (\<exists>ms. bus b = bus a @ ms \<and> (\<forall>m \<in> set ms. msg_ok m))
     \<and> (vision_type b = vision_type a \<or> vision_type b = LOGIN)"

lemma app_order_refl: "app_order a a"
  by (auto simp: app_order_def extends_refl)

lemma app_order_trans: "app_order a b \<Longrightarrow> app_order b c \<Longrightarrow> app_order a c"
  unfolding app_order_def using extends_trans by fastforce

interpretation handlers: trace_order app_order
  by unfold_locales (fact app_order_refl, fact app_order_trans)

lemma app_order_update [simp]:
  "app_order s (audioInputDevMap_update f1 a) = app_order s a"
  "app_order s (audioOutputDevMap_update f2 a) = app_order s a"
  "app_order s (videoInputDevMap_update f3 a) = app_order s a"
  "app_order s (shareScreenMap_update f4 a) = app_order s a"
  "app_order s (shareWindowMap_update f5 a) = app_order s a"
  "app_order s (meetId_update f6 a) = app_order s a"
  "app_order s (screens_update f7 a) = app_order s a"
  "app_order s (wsBuffer_update f8 a) = app_order s a"
  "app_order s (lastHearbeatTime_update f9 a) = app_order s a"
  "app_order s (screen cs a) = app_order s a"
  by (simp_all add: app_order_def screen_def)

lemma app_order_login: "app_order s a \<Longrightarrow> app_order s (a\<lparr>vision_type := LOGIN\<rparr>)"
  by (simp add: app_order_def)

lemma app_order_eng: "app_order s a \<Longrightarrow> extends (eng a) x \<Longrightarrow> app_order s (a\<lparr>eng := x\<rparr>)"
  unfolding app_order_def using extends_trans by auto

lemma app_order_engDo:
  assumes "app_order s a" "\<And>t. extends t (snd (f t))"
  shows "app_order s (snd (engDo f a))"
  using app_order_eng [OF assms(1) assms(2)] by (cases "f (eng a)") (metis engDo_def case_prod_conv snd_conv)

lemma app_order_post: "app_order s a \<Longrightarrow> fits t d \<Longrightarrow> app_order s (post t d a)"
  by (auto simp: app_order_def post_def PostMsg_def Push_def)

lemma app_order_postDevices: "app_order s a \<Longrightarrow> app_order s (postDevices a)"
  unfolding postDevices_def Let_def
  by (intro app_order_post) (simp_all add: fits_def cast_defs)

lemma app_order_readInto:
  assumes "app_order s a" "\<And>l t. extends t (snd (get l t))" "\<And>l b. app_order s (set_cur l b) = app_order s b"
  shows "app_order s (readInto get cur set_cur a)"
proof -
  obtain l t where lt: "get (cur a) (eng a) = (l, t)" by (cases "get (cur a) (eng a)")
  then have "extends (eng a) t" using assms(2) [of "eng a" "cur a"] by simp
  then show ?thesis using app_order_eng [OF assms(1)] assms(3) by (simp add: readInto_def lt)
qed

lemma app_order_readDevices: "app_order s a \<Longrightarrow> app_order s (readDevices e a)"
  unfolding readDevices_def Let_def
  by (intro app_order_readInto; simp add: extends_devices extends_refl)

lemmas handler_intros = handlers.order_intros app_order_engDo app_order_post app_order_postDevices app_order_readDevices app_order_login

lemma app_order_answers:
  assumes "app_order s a"
  shows "app_order s (OnLoginSuccess u a)" "app_order s (OnReceiveTrack k a)"
    "app_order s (OnCreateMeetingSuccess m n a)" "app_order s (OnJoinMeetingSuccess e n a)"
    "app_order s (OnScheduleMeeting m a)"
  unfolding OnLoginSuccess_def OnReceiveTrack_def OnCreateMeetingSuccess_def OnJoinMeetingSuccess_def
    OnScheduleMeeting_def
  using assms by (auto intro!: handler_intros simp: fits_def cast_defs)

lemma order_onQueryOK: "app_order s a \<Longrightarrow> app_order s (snd (onQueryOK e js a))"
  unfolding onQueryOK_def Let_def
  by (auto intro!: handler_intros extends_startOffer app_order_eng extends_ensureEngines extends_refl
      simp: extends_refl)

lemma order_onInviteOK: "app_order s a \<Longrightarrow> app_order s (snd (onInviteOK e js a))"
  unfolding onInviteOK_def Let_def
  by (auto intro!: handler_intros app_order_answers app_order_eng extends_answers extends_onVideo
      simp: extends_refl)

lemma order_onOK: "app_order s a \<Longrightarrow> app_order s (snd (onOK e js a))"
  unfolding onOK_def onClose_def Let_def
  by (intro handler_intros app_order_answers app_order_eng extends_onVideo order_onQueryOK
      order_onInviteOK extends_releaseMedia) (simp_all add: extends_refl)

lemma order_onUnauthorized: "app_order s a \<Longrightarrow> app_order s (snd (onUnauthorized js a))"
  unfolding onUnauthorized_def Let_def
  by (intro handler_intros app_order_eng) (simp_all add: extends_refl)

lemma order_dispatch: "app_order s a \<Longrightarrow> app_order s (snd (dispatch e js a))"
  unfolding dispatch_def Let_def
  by (intro handler_intros app_order_eng order_onOK order_onUnauthorized extends_answers extends_onCancel)
    (simp_all add: app_order_eng extends_answers extends_refl)

lemma order_readMessage: "app_order s a \<Longrightarrow> app_order s (snd (readMessage parse e d a))"
  unfolding readMessage_def Let_def
  by (intro handler_intros order_dispatch) simp_all

lemma order_custom: "app_order s a \<Longrightarrow> app_order s (snd (CustomMessageCallback e info m a))"
proof -
  assume a: "app_order s a"
  have pick: "app_order s u \<Longrightarrow> (\<And>i t. extends t (snd (f i t))) \<Longrightarrow> app_order s (snd (pickDo f x u))" for u f x
    by (auto simp: pickDo_def intro!: app_order_engDo split: option.split)
  have list: "app_order s (requestWindowList e a)"
    unfolding requestWindowList_def Let_def
    using app_order_readInto [OF a, of "getWindowInfo e" "\<lambda>l a. a\<lparr>shareWindowMap := l\<rparr>" shareWindowMap]
    by (auto intro!: app_order_post simp: extends_devices extends_refl fits_def cast_defs)
  show ?thesis
    unfolding CustomMessageCallback_def Let_def switchBy_def switchShareScreen_def switchShareWindow_def
      toggle_def requestMeetingInfo_def
    using a list
    by (auto intro!: handler_intros pick extends_controls extends_refl simp: fits_def cast_defs)
qed

lemma order_handle: "app_order s a \<Longrightarrow> app_order s (snd (handle r m a))"
proof -
  assume a: "app_order s a"
  have enter: "app_order s (snd (visionEnter b c a))" for b c
    using a by (simp add: visionEnter_def Let_def)
  have login: "app_order s (snd (visionLogin e j d a))" for e j d
    unfolding visionLogin_def LoginSignaling_def
    using a by (auto intro!: handler_intros extends_connect extends_login extends_refl)
  have create: "app_order s (snd (visionMeeting (CreateMeeting e) d a))" for e d
    unfolding visionMeeting_def CreateMeeting_def choices_def Let_def
    using a by (auto intro!: handler_intros extends_createMeeting extends_refl)
  have booking: "app_order s (snd (visionMeeting (BookingMeeting e) d a))" for e d
    unfolding visionMeeting_def BookingMeeting_def choices_def Let_def
    using a by (auto intro!: handler_intros extends_scheduleMeeting extends_refl)
  have join: "app_order s (snd (visionJoin e d a))" for e d
    unfolding visionJoin_def JoinMeeting_def
    using a by (auto intro!: handler_intros extends_joinMeeting extends_refl)
  have ok: "app_order s (snd (visionLoginSuccess e i d a))" for e i d
    unfolding visionLoginSuccess_def Let_def
    using a by (auto intro!: handler_intros order_custom)
  have leave: "app_order s (snd (DisconnectFromCurrentPeer e (screen cs a)))" for e cs
    unfolding DisconnectFromCurrentPeer_def
    using a by (auto intro!: handler_intros extends_exitMeeting extends_refl)
  have invite: "app_order s (snd (visionInvite e d a))" for e d
    unfolding visionInvite_def InviteUser_def Let_def
    using a by (auto intro!: handler_intros extends_outbound extends_refl)
  have track: "app_order s (snd (visionAddTrack d a))" for d
    unfolding visionAddTrack_def Let_def using a by (auto intro!: handler_intros)
  show ?thesis
    unfolding handle_def Let_def
    using a enter login create booking join ok leave invite track
    by (auto intro!: handlers.then_order handlers.if_order order_custom split: prod.split)
qed

subsection \<open>Faults that are not exceptions\<close>

definition hard :: "'a res \<Rightarrow> bool" where
  "hard r \<longleftrightarrow> (\<forall>e. r = Inl e \<longrightarrow> \<not> catchable e)"

lemma hard_simps [simp]: "hard (Inr x)" "hard (Inl e) \<longleftrightarrow> \<not> catchable e"
  by (simp_all add: hard_def)

lemma hard_andThen: "hard r \<Longrightarrow> (\<And>x. hard (f x)) \<Longrightarrow> hard (andThen r f)"
  by (cases r) simp_all

lemma hard_thenDo: "hard (fst r) \<Longrightarrow> (\<And>x t. hard (fst (f x t))) \<Longrightarrow> hard (fst (thenDo r f))"
  by (cases r; cases "fst r") simp_all

lemma hard_if: "(b \<Longrightarrow> hard (fst r)) \<Longrightarrow> (\<not> b \<Longrightarrow> hard (fst r')) \<Longrightarrow> hard (fst (if b then r else r'))"
  by simp

lemma hard_prod: "(\<And>x y. p = (x, y) \<Longrightarrow> hard (fst (f x y))) \<Longrightarrow> hard (fst (case p of (x, y) \<Rightarrow> f x y))"
  by (cases p) simp

lemma hard_prod_fun:
  "(\<And>x y. p = (x, y) \<Longrightarrow> hard (fst (f x y t))) \<Longrightarrow> hard (fst ((case p of (x, y) \<Rightarrow> f x y) t))"
  by (cases p) simp

lemma hard_value: "hard r \<Longrightarrow> hard (fst (r, s))"
  by simp

lemma hard_prod_res: "(\<And>x y. p = (x, y) \<Longrightarrow> hard (f x y)) \<Longrightarrow> hard (case p of (x, y) \<Rightarrow> f x y)"
  by (cases p) simp

lemma hard_nextCseq: "hard (fst (nextCseq s))"
  by (simp add: nextCseq_def)

lemma hard_transmit: "isOk (build fs) \<Longrightarrow> hard (fst (transmit fs s))"
  by (auto simp: isOk_def transmit_def)

lemma hard_onAudio: "(\<And>a. hard (f a)) \<Longrightarrow> hard (fst (onAudio f s))"
  by (auto simp: onAudio_def hard_def split: option.splits sum.splits)

lemma hard_onVideo: "(\<And>v. hard (f v)) \<Longrightarrow> hard (fst (onVideo f s))"
  by (auto simp: onVideo_def hard_def split: option.splits sum.splits)

lemma hard_media:
  "hard (AddAudioTracks b c d a)" "hard (setMicrophoneVolume st n a)" "hard (audio_close a)"
  "hard (addVideoTrack b c d v)" "hard (addScreenTrack b c v)" "hard (switchCamera b v)" "hard (switchScreen b v)"
  "hard (setVideoBitrate ids q v)" "hard (v_setCamera ids ok i v)" "hard (setScreenCapture ids w v)"
  "hard (setWindowCapture ids i v)" "hard (scaleVolume n)"
proof -
  show s: "hard (scaleVolume n)" for n by (simp add: scaleVolume_def Let_def)
  show "hard (setMicrophoneVolume st n a)"
    by (auto simp: setMicrophoneVolume_def intro!: hard_andThen s)
qed (simp_all add: AddAudioTracks_def audio_close_def addVideoTrack_def addScreenTrack_def switchCamera_def
    switchScreen_def setVideoBitrate_def v_setCamera_def setScreenCapture_def setWindowCapture_def Let_def)

lemmas hard_intros = hard_thenDo hard_if hard_prod hard_prod_fun hard_prod_res hard_andThen hard_value
  hard_nextCseq hard_onAudio hard_onVideo hard_media hard_transmit hard_simps(1)

lemma hard_meetings:
  "hard (fst (connect e ip port s))" "hard (fst (login u p s))"
  "hard (fst (scheduleMeeting e vm am vct act s))" "hard (fst (joinMeeting e m s))"
  "hard (fst (exitMeeting e s))" "hard (fst (outbound e u s))"
  unfolding connect_def login_def scheduleMeeting_def joinMeeting_def exitMeeting_def releaseMedia_def
    outbound_def Let_def
  by (intro hard_intros; simp add: build_simps)+

lemma hard_startOffer: "hard (fst (startOffer e s))"
  unfolding startOffer_def InitializePeerConnection_def CreatePeerConnection_def AddTracks_def Let_def
  by (intro hard_intros) simp_all

lemma hard_createMeeting: "hard (fst (createMeeting e vm am vct act s))"
  unfolding createMeeting_def Let_def by (intro hard_thenDo hard_startOffer) simp

lemma hard_controls:
  "hard (fst (openCamera e s))" "hard (fst (closeCamera e s))"
  "hard (fst (openMicphone e s))" "hard (fst (closeMicphone e s))"
  "hard (fst (openScreenShare e s))" "hard (fst (closeScreenShare e s))"
  "hard (fst (setCamera e i s))" "hard (fst (setScreen e i s))" "hard (fst (setWindow e i s))"
  "hard (fst (setMicphone e i s))" "hard (fst (setMicphoneVolume e i s))" "hard (fst (setSpeaker e i s))"
  unfolding openCamera_def closeCamera_def openMicphone_def closeMicphone_def openScreenShare_def
    closeScreenShare_def setCamera_def setScreen_def setWindow_def setMicphone_def setMicphoneVolume_def
    setSpeaker_def sendInfo_def
  by (intro hard_intros; simp add: build_simps)+

lemma hard_engDo: "(\<And>s. hard (fst (f s))) \<Longrightarrow> hard (fst (engDo f a))"
  unfolding engDo_def by (cases "f (eng a)") (metis case_prod_conv fst_conv)

lemma hard_ok: "isOk r \<Longrightarrow> hard r"
  by (cases r) simp_all

lemma msg_ok_cast:
  assumes "msg_ok m" "msg_id m \<in> msgTo ` S" "\<And>t. t \<in> S \<Longrightarrow> fits t (msg_data m) \<Longrightarrow> isOk r"
  shows "hard r"
  using assms by (auto simp: msg_ok_def msgTo_inject intro!: hard_ok)

lemma hard_pickDo: "(\<And>i s. hard (fst (f i s))) \<Longrightarrow> hard (fst (pickDo f x a))"
  by (cases x) (auto simp: pickDo_def intro!: hard_engDo)

lemma hard_atoi: "hard (atoi s)"
  by (simp add: atoi_def Let_def split: prod.split)

lemma hard_custom:
  assumes "msg_ok m"
  shows "hard (fst (CustomMessageCallback e info m a))"
proof -
  have s: "msg_id m \<in> msgTo ` {SWITCH_AUDIO_INPUT_STR, SWITCH_AUDIO_OUTPUT_STR, SWITCH_VIDEO_INPUT,
      SWITCH_SHARE_SCREEN, SWITCH_SHARE_WINDOW} \<Longrightarrow> hard (castString (msg_data m))"
    by (erule msg_ok_cast [OF assms]) (auto simp: fits_def)
  have b: "msg_id m \<in> msgTo ` {SET_MIC_PHONE, SET_CAMERA, SET_SHARE} \<Longrightarrow> hard (castBool (msg_data m))"
    by (erule msg_ok_cast [OF assms]) (auto simp: fits_def)
  have i: "msg_id m \<in> msgTo ` {SWITCH_MIC_VOLUME} \<Longrightarrow> hard (castInt (msg_data m))"
    by (erule msg_ok_cast [OF assms]) (auto simp: fits_def)
  show ?thesis
    unfolding CustomMessageCallback_def Let_def switchBy_def switchShareScreen_def switchShareWindow_def
      toggle_def requestMeetingInfo_def
    by (intro hard_intros hard_pickDo hard_engDo hard_controls hard_atoi s b i) (simp_all add: hard_controls)
qed

lemma hard_handle:
  assumes "msg_ok m"
  shows "hard (fst (handle r m a))"
proof -
  have c1: "msg_id m \<in> msgTo ` {IS_LOGIN} \<Longrightarrow> hard (castStrings (msg_data m))"
    by (erule msg_ok_cast [OF assms]) (auto simp: fits_def)
  have c2: "msg_id m \<in> msgTo ` {IS_CREATE, IS_BOOKING} \<Longrightarrow> hard (castWStrings (msg_data m))"
    by (erule msg_ok_cast [OF assms]) (auto simp: fits_def)
  have c3: "msg_id m \<in> msgTo ` {IS_JOIN, LOGIN_SUCCESS, INVITE_USER, BOOKING_MEETING_OK} \<Longrightarrow> hard (castString (msg_data m))"
    by (erule msg_ok_cast [OF assms]) (auto simp: fits_def)
  have c4: "msg_id m \<in> msgTo ` {AUDIO_INPUT_DEV_INFO, AUDIO_OUTPUT_DEV_INFO, VIDEO_DEV_INFO} \<Longrightarrow> hard (castMap16 (msg_data m))"
    by (erule msg_ok_cast [OF assms]) (auto simp: fits_def)
  have c5: "msg_id m \<in> msgTo ` {SHARE_SCREEN_INFO, SHARE_WINDOW_INFO} \<Longrightarrow> hard (castMap32 (msg_data m))"
    by (erule msg_ok_cast [OF assms]) (auto simp: fits_def)
  have c6: "msg_id m \<in> msgTo ` {MEETING_MEDIA_INFO} \<Longrightarrow> hard (castMedia (msg_data m))"
    by (erule msg_ok_cast [OF assms]) (auto simp: fits_def)
  have c7: "msg_id m \<in> msgTo ` {CREATE_MEETING_OK} \<Longrightarrow> hard (castMeeting (msg_data m))"
    by (erule msg_ok_cast [OF assms]) (auto simp: fits_def)
  have c8: "msg_id m \<in> msgTo ` {JOIN_MEETING_OK} \<Longrightarrow> hard (castInt64 (msg_data m))"
    by (erule msg_ok_cast [OF assms]) (auto simp: fits_def)
  have c9: "msg_id m \<in> msgTo ` {ADD_TRACK, REMOVE_TRACK} \<Longrightarrow> hard (castTrack (msg_data m))"
    by (erule msg_ok_cast [OF assms]) (auto simp: fits_def)
  have meet: "hard (castWStrings d) \<Longrightarrow> (\<And>x y z w a. hard (fst (g x y z w a))) \<Longrightarrow> hard (fst (visionMeeting g d a))"
    for g :: "wstring \<Rightarrow> wstring \<Rightarrow> wstring \<Rightarrow> wstring \<Rightarrow> app \<Rightarrow> ('b, app) eff" and d
    unfolding visionMeeting_def by (intro hard_intros) simp_all
  have create: "hard (fst (CreateMeeting e x y z w a))" and book: "hard (fst (BookingMeeting e x y z w a))"
    for e x y z w a
    unfolding CreateMeeting_def BookingMeeting_def choices_def Let_def
    by (auto intro!: hard_thenDo hard_engDo hard_createMeeting hard_meetings)
  have rest: "hard (castStrings d) \<Longrightarrow> hard (fst (visionLogin e j d a))"
    "hard (castString d) \<Longrightarrow> hard (fst (visionJoin e d a))"
    "hard (castString d) \<Longrightarrow> hard (fst (visionLoginSuccess e i d a))"
    "hard (castString d) \<Longrightarrow> hard (fst (visionInvite e d a))"
    "hard (castTrack d) \<Longrightarrow> hard (fst (visionAddTrack d a))"
    "hard (fst (DisconnectFromCurrentPeer e a))" "hard (fst (visionEnter b c a))" for e j d a i b c
    unfolding visionLogin_def LoginSignaling_def visionJoin_def JoinMeeting_def visionLoginSuccess_def
      visionInvite_def InviteUser_def visionAddTrack_def DisconnectFromCurrentPeer_def visionEnter_def Let_def
    by (intro hard_intros hard_engDo hard_meetings hard_custom; simp add: fits_def)+
  show ?thesis
    unfolding handle_def Let_def
    by (intro hard_if hard_thenDo hard_prod_fun hard_value hard_custom assms rest meet create book c1 c2 c3 c4 c5 c6 c7 c8 c9)
      simp_all
qed

lemmas app_eval = vision_update_def GetMsg_def TryPop_def PostMsg_def Push_def mkMsg_def handle_def visionLogin_def
  castStrings_def LoginSignaling_def engDo_def connect_def Let_def login_def nextCseq_def transmit_def build_def
  message_defs js_set_def sendSocket_def catching_def

lemmas read_eval = readMessage_def dispatch_def getMember_def js_index_def as_string_def as_int_def as_number_def
  onOK_def onUnauthorized_def Let_def message_defs catching_def

text \<open>An environment in which everything works.\<close>

definition sampleEnv :: env where
  "sampleEnv = \<lparr>rnd = 7, clock = 1000, socketConnects = True, admCreated = True, admInitRst = 0,
     admStatus = (\<lambda>_. 0), micNames = [Some ''mic''], speakerNames = [], cameraNames = None,
     screenSources = None, windowSources = None, factoryOk = True, connectionOk = True, noSenders = True,
     audioAdded = True, videoAdded = True, trackChanged = True, senderIds = [], trackIds = [],
     cameraOpens = (\<lambda>_. True)\<rparr>"

definition sampleRound :: round_env where
  "sampleRound = \<lparr>renv = sampleEnv, windowEntered = True, junkPort = 0,
     mediaInfo = \<lparr>inFrameRate = 0, outFrameRate = 0, inBitrate = 0, outBitrate = 0\<rparr>\<rparr>"

subsection \<open>Every run of the application\<close>

definition app_inv :: "app \<Rightarrow> bool" where
  "app_inv a \<longleftrightarrow> (\<forall>m \<in> set (bus a). msg_ok m) \<and> vision_type a \<noteq> RECONNECT
     \<and> sorted_wrt (<) (cseqs (frames (eng a))) \<and> (\<forall>c \<in> set (cseqs (frames (eng a))). c < cseq (eng a))"

lemma app_inv_order: "app_inv a \<Longrightarrow> app_order a b \<Longrightarrow> app_inv b"
proof -
  assume i: "app_inv a" and o: "app_order a b"
  obtain fs where fs: "frames (eng b) = frames (eng a) @ fs" "cseq (eng a) \<le> cseq (eng b)"
    "sorted_wrt (<) (cseqs fs)" "\<forall>c \<in> set (cseqs fs). cseq (eng a) \<le> c \<and> c < cseq (eng b)"
    using o unfolding app_order_def extends_def by blast
  have "sorted_wrt (<) (cseqs (frames (eng b)))" "\<forall>c \<in> set (cseqs (frames (eng b))). c < cseq (eng b)"
    using i fs unfolding app_inv_def by (auto simp: sorted_wrt_append intro: less_le_trans)
  then show ?thesis using i o unfolding app_inv_def app_order_def by auto
qed

lemma uiMsg_ok: "msg_ok (uiMsg u)"
  by (cases u) (simp_all add: fits_def cast_defs)

lemma app_step_inv:
  assumes "app_inv a"
  shows "app_inv (snd (app_step parse ev a))"
proof (cases ev)
  case (Ui u)
  then show ?thesis using assms uiMsg_ok
    by (auto simp: app_step_def app_inv_def PostMsg_def Push_def)
next
  case (Update r)
  show ?thesis
  proof (cases "bus a")
    case Nil
    then show ?thesis using assms Update by (simp add: app_step_def vision_update_def GetMsg_def TryPop_def)
  next
    case (Cons m q)
    have "app_inv (a\<lparr>bus := q\<rparr>)" using assms Cons by (simp add: app_inv_def)
    moreover have "app_order (a\<lparr>bus := q\<rparr>) (snd (catching () (handle r m (a\<lparr>bus := q\<rparr>))))"
      by (intro handlers.catching_order order_handle app_order_refl)
    ultimately show ?thesis using Update Cons app_inv_order
      by (simp add: app_step_def vision_update_def GetMsg_def TryPop_def)
  qed
next
  case (Part e d)
  then show ?thesis using app_inv_order [OF assms order_readMessage [OF app_order_refl]]
    by (simp add: app_step_def)
next
  case (Offer e sdp)
  then show ?thesis using app_inv_order [OF assms app_order_engDo [OF app_order_refl extends_OnSuccess [OF extends_refl]]]
    by (simp add: app_step_def)
next
  case (Candidate e c)
  then show ?thesis using app_inv_order [OF assms app_order_engDo [OF app_order_refl extends_OnIceCandidate [OF extends_refl]]]
    by (simp add: app_step_def)
next
  case (Gathering e g)
  then show ?thesis using app_inv_order [OF assms app_order_engDo [OF app_order_refl extends_OnIceGatheringChange [OF extends_refl]]]
    by (simp add: app_step_def)
next
  case (Track k)
  then show ?thesis using app_inv_order [OF assms app_order_answers(2) [OF app_order_refl]]
    by (simp add: app_step_def)
next
  case Beat
  then show ?thesis
    using assms app_inv_order [OF assms app_order_engDo [OF app_order_refl extends_keepalive [OF extends_refl]]]
    by (simp add: app_step_def)
next
  case ListenerEnds
  then show ?thesis using assms by (simp add: app_step_def app_inv_def)
qed

lemma app_step_vision: "vision_type (snd (app_step parse ev a)) \<in> {vision_type a, LOGIN}"
proof -
  have order: "app_order b c \<Longrightarrow> vision_type c \<in> {vision_type b, LOGIN}" for b c
    by (simp add: app_order_def)
  show ?thesis
  proof (cases ev)
    case (Update r)
    then show ?thesis
      using order [OF handlers.catching_order [OF order_handle [OF app_order_refl]]]
      by (cases "bus a") (simp_all add: app_step_def vision_update_def GetMsg_def TryPop_def, force)
  next
    case (Part e d)
    then show ?thesis using order [OF order_readMessage [OF app_order_refl]] by (simp add: app_step_def)
  next
    case (Track k)
    then show ?thesis by (simp add: app_step_def OnReceiveTrack_def post_def)
  qed (simp_all add: app_step_def engDo_def split: prod.split)
qed

lemma run_app_inv: "app_inv a \<Longrightarrow> app_inv (snd (run_app parse evs a))"
proof (induction evs arbitrary: a)
  case (Cons ev evs)
  obtain r b where rb: "app_step parse ev a = (r, b)" by (cases "app_step parse ev a")
  then have "app_inv b" using app_step_inv [OF Cons.prems, of parse ev] by simp
  then show ?case using Cons.IH rb by (cases r) simp_all
qed simp

lemma app_inv_new: "app_inv app_new"
  by (simp add: app_inv_def app_new_def RtcConnectEngine_new_def)



text \<open>C11: the requests sent to the server, up to a fault if there is one, carry strictly increasing sequence
  numbers below the counter.\<close>

theorem requests_numbered:
  "let s = eng (snd (run_app parse evs app_new))
   in sorted_wrt (<) (cseqs (frames s)) \<and> (\<forall>c \<in> set (cseqs (frames s)). c < cseq s)"
  using run_app_inv [OF app_inv_new, of parse evs] unfolding app_inv_def Let_def by blast

theorem requests_numbered_witness:
  "\<exists>s. eng (snd (run_app (\<lambda>_. None) [Ui (UiIsLogin [''10.0.0.1:80'', ''u'', ''p'']), Update sampleRound] app_new)) = s
    \<and> cseqs (frames s) = [0] \<and> sorted_wrt (<) (cseqs (frames s)) \<and> cseq s = 1"
proof -
  let ?s = "eng (snd (run_app (\<lambda>_. None) [Ui (UiIsLogin [''10.0.0.1:80'', ''u'', ''p'']), Update sampleRound] app_new))"
  have "cseqs (frames ?s) = [0] \<and> cseq ?s = 1"
    by (simp add: app_step_def app_eval app_new_def RtcConnectEngine_new_def sampleRound_def sampleEnv_def
        cseqs_def frameCseq_def split: prod.split)
  then show ?thesis
    using requests_numbered [of "\<lambda>_. None" "[Ui (UiIsLogin [''10.0.0.1:80'', ''u'', ''p'']), Update sampleRound]"]
    unfolding Let_def by blast
qed

subsection \<open>Logging in and out\<close>

lemma transmit_Inr: "isOk (build fs) \<Longrightarrow> \<exists>js. build fs = Inr js \<and> transmit fs s = (Inr (), sendSocket js s)"
  by (auto simp: isOk_def transmit_def)

lemma sendSocket_simps [simp]:
  "audioEngine (sendSocket js s) = audioEngine s" "videoEngine (sendSocket js s) = videoEngine s"
  by (simp_all add: sendSocket_def)

lemma releaseMedia_ok:
  assumes "releaseMedia s = (Inr (), t)"
  shows "\<exists>a v. audioEngine t = Some a \<and> \<not> adm a \<and> videoEngine t = Some v"
  using assms
  by (auto simp: releaseMedia_def onVideo_def onAudio_def audio_close_def admDo_def split: option.splits if_splits)

lemma releaseMedia_again:
  assumes "audioEngine s = Some a" "\<not> adm a"
  shows "fst (releaseMedia s) = Inl Undefined"
  using assms
  by (cases "videoEngine s") (auto simp: releaseMedia_def onVideo_def onAudio_def audio_close_def)

lemma nextCseq_cases: "nextCseq s = (Inl Undefined, s) \<or> nextCseq s = (Inr (cseq s), s\<lparr>cseq := cseq s + 1\<rparr>)"
  by (simp add: nextCseq_def)

text \<open>Leaving a meeting closes both media engines but keeps the pointers to them: leaving again, before a
  new meeting was started, calls through the audio engine's null device module.\<close>

theorem exit_twice:
  assumes "exitMeeting e s = (Inr ok, s1)"
  shows "fst (exitMeeting e' s1) = Inl Undefined"
proof -
  have build: "isOk (build [set_from u, set_to m, set_cseq c, set_call_id i, set_meth ''BYE'', set_isresponse False])"
    for u m c i by (simp add: build_def message_defs js_set_def)
  obtain s2 where "releaseMedia s2 = (Inr (), s1)"
    using assms transmit_Inr [OF build] unfolding exitMeeting_def
    by (auto simp: thenDo_def split: prod.splits sum.splits)
  from releaseMedia_ok [OF this] obtain a where a: "audioEngine s1 = Some a" "\<not> adm a" by blast
  from nextCseq_cases [of s1] show ?thesis
  proof
    assume "nextCseq s1 = (Inr (cseq s1), s1\<lparr>cseq := cseq s1 + 1\<rparr>)"
    moreover obtain js where "transmit [set_from (userId s1), set_to (meetingId s1), set_cseq (cseq s1),
        set_call_id (to_string (rnd e')), set_meth ''BYE'', set_isresponse False] (s1\<lparr>cseq := cseq s1 + 1\<rparr>)
      = (Inr (), sendSocket js (s1\<lparr>cseq := cseq s1 + 1\<rparr>))"
      using transmit_Inr [OF build] by blast
    moreover have "fst (releaseMedia (sendSocket js (s1\<lparr>cseq := cseq s1 + 1\<rparr>))) = Inl Undefined"
      using a by (intro releaseMedia_again) simp_all
    ultimately show ?thesis by (auto simp: exitMeeting_def thenDo_def split: prod.splits)
  qed (simp add: exitMeeting_def)
qed

theorem exit_twice_witness:
  "\<exists>s s1. exitMeeting sampleEnv s = (Inr True, s1) \<and> fst (exitMeeting sampleEnv s1) = Inl Undefined"
proof -
  let ?s = "RtcConnectEngine_new\<lparr>audioEngine := Some \<lparr>adm = True, audio_track = True, admLog = []\<rparr>,
    videoEngine := Some RTCVideoEngine_new\<rparr>"
  have "fst (exitMeeting sampleEnv ?s) = Inr True"
    by (simp add: exitMeeting_def releaseMedia_def onVideo_def onAudio_def audio_close_def app_eval
        RtcConnectEngine_new_def)
  then obtain s1 where "exitMeeting sampleEnv ?s = (Inr True, s1)" by (cases "exitMeeting sampleEnv ?s") auto
  then show ?thesis using exit_twice by blast
qed

lemma run_app_append: "run_app parse (xs @ ys) a = thenDo (run_app parse xs a) (\<lambda>_ a. run_app parse ys a)"
proof (induction xs arbitrary: a)
  case (Cons x xs)
  then show ?case by (cases "app_step parse x a"; cases "fst (app_step parse x a)") auto
qed simp

text \<open>C13: logging in: the user's message makes the controller connect to the address and send a \<open>REGISTER\<close>
  request with the next number; the server's answer puts the engine in the state \<open>LOGIN_ON\<close> and a message on
  the bus; taking that message closes the login window, shows the user and opens the gate.\<close>

theorem login_flow:
  assumes "socketConnects (renv r)" "listenerThread (eng a) \<noteq> Running" "uid \<noteq> []" "pwd \<noteq> []"
    "cseq (eng a) \<noteq> 2147483647" "bus a = [mkMsg IS_LOGIN (AStrings [addr, uid, pwd])]"
    "ServerInfo (junkPort r) addr = (ip, port)" "vision_type a \<noteq> RECONNECT" "wsBuffer a = []"
    and "answer \<noteq> []" "CHR 0x00 \<notin> set answer"
    "parse answer = Some (JObject [(''statusCode'', JInt 200), (''Cmeth'', JString ''REGISTER'')])"
  shows "\<exists>b. run_app parse [Update r, Part e answer, Part e [], Update r'] a = (Inr (), b)
    \<and> frames (eng b) = frames (eng a) @ [JObject [(''userId'', JString uid), (''password'', JString pwd),
        (''Cseq'', JInt (cseq (eng a))), (''meth'', JString ''REGISTER''), (''isResponse'', JBool False)]]
    \<and> (signalIp (eng b), signalPort (eng b)) = (ip, port)
    \<and> signalState (eng b) = LOGIN_ON \<and> userId (eng b) = uid \<and> vision_type b = LOGIN \<and> bus b = []
    \<and> screens b = screens a @ [Exit LoginWnd, SetUseId uid]"
proof -
  obtain b where b: "vision_update r a = (Inr (), b)" "bus b = []" "wsBuffer b = []" "vision_type b = vision_type a"
    "screens b = screens a" "userId (eng b) = uid" "signalIp (eng b) = ip" "signalPort (eng b) = port"
    "frames (eng b) = frames (eng a) @ [JObject [(''userId'', JString uid), (''password'', JString pwd),
        (''Cseq'', JInt (cseq (eng a))), (''meth'', JString ''REGISTER''), (''isResponse'', JBool False)]]"
    using assms(1-9) by (cases "keepaliveThread (eng a) = NoThread") (simp_all add: app_eval)
  have w: "takeWhile (\<lambda>c. c \<noteq> CHR 0x00) answer = answer" using assms(11) by (auto simp: takeWhile_eq_all_conv)
  obtain c where c: "run_app parse [Part e answer, Part e []] b = (Inr (), c)"
    "signalState (eng c) = LOGIN_ON" "bus c = [mkMsg LOGIN_SUCCESS (AString uid)]" "vision_type c = vision_type b"
    "screens c = screens b" "userId (eng c) = uid" "signalIp (eng c) = ip" "signalPort (eng c) = port"
    "frames (eng c) = frames (eng b)"
    using b assms(10-12) w
    by (simp add: app_step_def read_eval OnLoginSuccess_def post_def PostMsg_def Push_def onHeartbeatResp_def)
  have "\<exists>d. vision_update r' c = (Inr (), d) \<and> eng d = eng c \<and> bus d = [] \<and> vision_type d = LOGIN
      \<and> screens d = screens c @ [Exit LoginWnd, SetUseId uid]"
    using c b(4) assms(8)
    by (simp add: app_eval visionLoginSuccess_def castString_def screen_def)
  then obtain d where d: "run_app parse [Update r'] c = (Inr (), d)" "eng d = eng c" "bus d = []"
    "vision_type d = LOGIN" "screens d = screens c @ [Exit LoginWnd, SetUseId uid]"
    by (auto simp: app_step_def)
  have "run_app parse ([Update r] @ [Part e answer, Part e []] @ [Update r']) a = (Inr (), d)"
    unfolding run_app_append using b(1) c(1) d(1) by (simp only: run_app.simps app_step_def event.case thenDo_simps)
  then show ?thesis using b c d by simp
qed

theorem login_flow_witness:
  "\<exists>b. run_app (\<lambda>_. Some (JObject [(''statusCode'', JInt 200), (''Cmeth'', JString ''REGISTER'')]))
      [Ui (UiIsLogin [''10.0.0.1:80'', ''u'', ''p'']), Update sampleRound, Part sampleEnv ''x'', Part sampleEnv [],
       Update sampleRound] app_new = (Inr (), b)
    \<and> signalState (eng b) = LOGIN_ON \<and> vision_type b = LOGIN \<and> (signalIp (eng b), signalPort (eng b)) = (''10.0.0.1'', 80)"
proof -
  let ?a = "app_new\<lparr>bus := [mkMsg IS_LOGIN (AStrings [''10.0.0.1:80'', ''u'', ''p''])]\<rparr>"
  have "ServerInfo 0 ''10.0.0.1:80'' = (''10.0.0.1'', 80)"
    by (simp add: ServerInfo_def digits_def isDigit_def number_def numeral_eq_Suc)
  then obtain b where b: "run_app (\<lambda>_. Some (JObject [(''statusCode'', JInt 200), (''Cmeth'', JString ''REGISTER'')]))
      [Update sampleRound, Part sampleEnv ''x'', Part sampleEnv [], Update sampleRound] ?a = (Inr (), b)"
    "(signalIp (eng b), signalPort (eng b)) = (''10.0.0.1'', 80)" "signalState (eng b) = LOGIN_ON" "vision_type b = LOGIN"
    using login_flow [of sampleRound ?a "''u''" "''p''" "''10.0.0.1:80''" "''10.0.0.1''" 80 "''x''"
        "\<lambda>_. Some (JObject [(''statusCode'', JInt 200), (''Cmeth'', JString ''REGISTER'')])" sampleEnv sampleRound]
    by (simp add: sampleRound_def sampleEnv_def app_new_def RtcConnectEngine_new_def) blast
  have "app_step (\<lambda>_. Some (JObject [(''statusCode'', JInt 200), (''Cmeth'', JString ''REGISTER'')]))
      (Ui (UiIsLogin [''10.0.0.1:80'', ''u'', ''p''])) app_new = (Inr (), ?a)"
    by (simp add: app_step_def PostMsg_def Push_def app_new_def)
  then show ?thesis using b by (simp only: run_app.simps(2) thenDo_simps) blast
qed

text \<open>Every login connects anew, and the new listener thread is started only after the old one has
  returned, which it does when the server closes the connection: a second login, such as the one after a
  rejected password, blocks the thread that draws the windows.\<close>

theorem relogin_hangs:
  assumes "listenerThread (eng a) = Running" "socketConnects (renv r)"
    "bus a = mkMsg IS_LOGIN (AStrings [addr, uid, pwd]) # q"
  shows "fst (vision_update r a) = Inl Hang"
  using assms by (cases "ServerInfo (junkPort r) addr") (simp add: app_eval)

theorem relogin_hangs_witness:
  "fst (run_app (\<lambda>_. Some (JObject [(''statusCode'', JInt 401), (''Cmeth'', JString ''REGISTER'')]))
      [Ui (UiIsLogin [''10.0.0.1:80'', ''u'', ''p'']), Update sampleRound, Part sampleEnv ''x'', Part sampleEnv [],
       Ui (UiIsLogin [''10.0.0.1:80'', ''u'', ''q'']), Update sampleRound] app_new) = Inl Hang"
proof -
  let ?p = "\<lambda>_ :: string. Some (JObject [(''statusCode'', JInt 401), (''Cmeth'', JString ''REGISTER'')])"
  let ?evs = "[Ui (UiIsLogin [''10.0.0.1:80'', ''u'', ''p'']), Update sampleRound, Part sampleEnv ''x'',
    Part sampleEnv [], Ui (UiIsLogin [''10.0.0.1:80'', ''u'', ''q''])]"
  obtain a where a: "run_app ?p ?evs app_new = (Inr (), a)" "listenerThread (eng a) = Running"
    "bus a = [mkMsg IS_LOGIN (AStrings [''10.0.0.1:80'', ''u'', ''q''])]"
    by (simp add: app_step_def app_eval read_eval sampleRound_def sampleEnv_def app_new_def RtcConnectEngine_new_def
        onHeartbeatResp_def split: prod.split)
  have "fst (vision_update sampleRound a) = Inl Hang"
    using a by (intro relogin_hangs [of a sampleRound "''10.0.0.1:80''" "''u''" "''q''" "[]"])
      (simp_all add: sampleRound_def sampleEnv_def)
  then have "fst (run_app ?p (?evs @ [Update sampleRound]) app_new) = Inl Hang"
    unfolding run_app_append a(1)
    by (cases "vision_update sampleRound a") (simp add: app_step_def)
  then show ?thesis by simp
qed

text \<open>An answer to \<open>INVITE\<close> without a \<open>timePoint\<close> member is read out of bounds: the accessor indexes a
  constant object, so its test for null does not cover an absent member.\<close>

theorem invite_ok_needs_timePoint:
  assumes "map_of m ''Cmeth'' = Some (JString ''INVITE'')" "map_of m ''SDP'' = Some (JString jsep)"
    "map_of m ''timePoint'' = None" "peerConnection (eng a)"
  shows "fst (onOK e (JObject m) a) = Inl Undefined"
  using assms
  by (simp add: read_eval onInviteOK_def engDo_def setRemote_def js_index_const_def)

theorem invite_ok_needs_timePoint_witness:
  "\<exists>a. fst (onOK sampleEnv (JObject [(''Cmeth'', JString ''INVITE''), (''SDP'', JString ''v=0'')]) a) = Inl Undefined"
proof -
  have "fst (onOK sampleEnv (JObject [(''Cmeth'', JString ''INVITE''), (''SDP'', JString ''v=0'')])
      (app_new\<lparr>eng := RtcConnectEngine_new\<lparr>peerConnection := True\<rparr>\<rparr>)) = Inl Undefined"
    by (rule invite_ok_needs_timePoint) simp_all
  then show ?thesis by blast
qed

text \<open>Before a login has succeeded the messages that create, book or join a meeting have no effect at all.\<close>

theorem login_gate:
  assumes "vision_type a = LOGOUT"
    "msg_id m \<in> msgTo ` {CREATE_MEETING, JOIN_MEETING, IS_CREATE, IS_BOOKING, IS_JOIN}"
  shows "handle r m a = (Inr (), a)"
proof -
  have "handle r m a = (Inr (), a)" if "msg_id m = msgTo t" "t \<in> {CREATE_MEETING, JOIN_MEETING, IS_CREATE, IS_BOOKING, IS_JOIN}" for t
    using that assms(1) by (auto simp: handle_def visionEnter_def visionMeeting_def visionJoin_def)
  then show ?thesis using assms(2) by blast
qed

theorem login_gate_witness: "handle sampleRound (mkMsg IS_JOIN (AString ''123-456'')) app_new = (Inr (), app_new)"
  by (rule login_gate) (simp_all add: app_new_def mkMsg_def)

text \<open>The gate never closes again: whatever happens after a login, a logout and a lost connection
  included, the vision controller stays logged in. Its state \<open>RECONNECT\<close> is never entered.\<close>

theorem login_is_final:
  assumes "vision_type a = LOGIN"
  shows "vision_type (snd (run_app parse evs a)) = LOGIN"
proof -
  have step: "vision_type (snd (app_step parse ev b)) = LOGIN" if "vision_type b = LOGIN" for ev b
    using app_step_vision [where a = b and parse = parse and ev = ev] that by auto
  have "vision_type b = LOGIN \<Longrightarrow> vision_type (snd (run_app parse evs b)) = LOGIN" for b
  proof (induction evs arbitrary: b)
    case (Cons ev evs)
    obtain r c where rc: "app_step parse ev b = (r, c)" by (cases "app_step parse ev b")
    have "vision_type c = LOGIN" using step [OF Cons.prems, of ev] rc by simp
    then show ?case using rc Cons.IH by (cases r) simp_all
  qed simp
  then show ?thesis using assms by blast
qed

theorem login_is_final_witness:
  "vision_type (snd (run_app (\<lambda>_. None) [Ui UiLogout, Update sampleRound] (app_new\<lparr>vision_type := LOGIN\<rparr>))) = LOGIN"
  by (rule login_is_final) simp

text \<open>A meeting number in another form than three digits, a dash and three digits: the server's answer to
  the query is dropped without a word, and the meeting is never joined.\<close>

theorem query_needs_meeting_id:
  assumes "map_of m ''Cmeth'' = Some (JString ''QUERY'')" "\<not> isMeetingId (meetingId (eng a))"
  shows "onOK e (JObject m) a = (Inr (), a)"
  using assms by (simp add: read_eval onQueryOK_def)

theorem query_needs_meeting_id_witness:
  "\<exists>a. meetingId (eng a) = ''1234'' \<and> onOK sampleEnv (JObject [(''Cmeth'', JString ''QUERY'')]) a = (Inr (), a)"
proof -
  let ?a = "app_new\<lparr>eng := RtcConnectEngine_new\<lparr>meetingId := ''1234''\<rparr>\<rparr>"
  have "onOK sampleEnv (JObject [(''Cmeth'', JString ''QUERY'')]) ?a = (Inr (), ?a)"
    by (rule query_needs_meeting_id) (simp_all add: isMeetingId_def)
  then show ?thesis by (intro exI [of _ ?a]) simp
qed

subsection \<open>Offers\<close>

definition keeps_format :: "rtc \<Rightarrow> rtc \<Rightarrow> bool" where
  "keeps_format s t \<longleftrightarrow> audioCodecType t = audioCodecType s \<and> (audioEngine s \<noteq> None \<longrightarrow> audioEngine t \<noteq> None)"

interpretation formats: trace_order keeps_format
  by unfold_locales (auto simp: keeps_format_def)

lemma keeps_format_calls:
  "keeps_format s t \<Longrightarrow> keeps_format s (snd (onAudio f t))"
  "keeps_format s t \<Longrightarrow> keeps_format s (snd (onVideo g t))"
  by (auto simp: keeps_format_def onAudio_def onVideo_def split: option.splits sum.splits)

lemma keeps_format_updates [simp]:
  "keeps_format s (t\<lparr>peerConnection := b\<rparr>) = keeps_format s t"
  "keeps_format s (t\<lparr>peerFactory := b\<rparr>) = keeps_format s t"
  "keeps_format s (t\<lparr>signalingThread := b\<rparr>) = keeps_format s t"
  by (simp_all add: keeps_format_def)

lemma keeps_format_startOffer: "keeps_format s t \<Longrightarrow> keeps_format s (snd (startOffer e t))"
  unfolding startOffer_def InitializePeerConnection_def CreatePeerConnection_def AddTracks_def Let_def
  by (intro formats.order_intros keeps_format_calls) (auto split: if_splits)

text \<open>A meeting is joined in two steps: the answer to \<open>QUERY\<close> tells the formats, then the offer is made.
  If the answer names no known audio format, the offer runs into undefined behaviour as soon as it has
  an audio codec line.\<close>

theorem offer_needs_format:
  assumes "onQueryOK e resp a = (Inr (), b)" "isMeetingId (meetingId (eng a))"
    "ws_audioformat resp = Inr (fmt, resp')" "\<not> known_format fmt" "audioCodecType (eng a) = -1"
    and "l \<in> set (audioLines False (getlines sdp))" "contains ''a=rtpmap'' l"
  shows "fst (OnSuccess e' sdp (eng b)) = Inl Undefined"
proof -
  obtain vf js where vf: "ws_videoformat resp = Inr (vf, js)"
    using assms(1,2) by (cases "ws_videoformat resp") (auto simp: onQueryOK_def Let_def)
  let ?s = "ensureEngines (eng a)"
  have e: "audioCodecType ?s = -1" "audioEngine ?s \<noteq> None"
    using assms(5) by (simp_all add: ensureEngines_def Let_def)
  have "\<exists>s. audioCodecType s = -1 \<and> audioEngine s \<noteq> None \<and> snd (startOffer e s) = eng b"
  proof -
    define s where "s = (if vf = ''H264'' then ?s\<lparr>videoCodecType := 0\<rparr> else if vf = ''VP9'' then ?s\<lparr>videoCodecType := 1\<rparr> else ?s)"
    have "engDo (startOffer e) (a\<lparr>eng := s\<rparr>) = (Inr (), b)"
      using assms(1-4) vf by (simp add: onQueryOK_def Let_def s_def known_format_def split: if_splits)
    then have "snd (startOffer e s) = eng b" by (auto simp: engDo_def split: prod.splits)
    then show ?thesis using e by (intro exI [of _ s]) (simp add: s_def)
  qed
  then have b: "audioCodecType (eng b) = -1" "audioEngine (eng b) \<noteq> None"
    using keeps_format_startOffer [of s s for s] unfolding keeps_format_def by metis+
  have "\<not> known_format (audioTypeName (-1))" by (simp add: audioTypeName_def known_format_def)
  then have "modifySdp sdp (audioTypeName (-1)) = Inl Undefined" using modifySdp_unknown assms(6,7) by blast
  then show ?thesis using b by (auto simp: OnSuccess_def Let_def)
qed

theorem offer_needs_format_witness:
  "\<exists>a b. onQueryOK sampleEnv (JObject []) a = (Inr (), b)
    \<and> fst (OnSuccess sampleEnv (''m=audio 9'' @ CHR 0x0A # ''a=rtpmap:8 PCMA/8000'') (eng b)) = Inl Undefined"
proof -
  let ?a = "app_new\<lparr>eng := RtcConnectEngine_new\<lparr>meetingId := ''123-456''\<rparr>\<rparr>"
  have i: "isMeetingId (meetingId (eng ?a))" by (simp add: isMeetingId_def isDigit_def)
  have "fst (onQueryOK sampleEnv (JObject []) ?a) = Inr ()"
    using i by (simp add: onQueryOK_def read_eval engDo_def startOffer_def InitializePeerConnection_def onAudio_def
        InitAdm_def admDo_def sampleEnv_def onVideo_def CreatePeerConnection_def AddTracks_def AddAudioTracks_def
        addVideoTrack_def addScreenTrack_def videoDo_def switchCamera_def switchScreen_def ensureEngines_def
        RtcConnectEngine_new_def setMicrophoneVolume_def scaleVolume_50)
  then obtain b where b: "onQueryOK sampleEnv (JObject []) ?a = (Inr (), b)"
    by (cases "onQueryOK sampleEnv (JObject []) ?a") auto
  have "getlines (''m=audio 9'' @ CHR 0x0A # ''a=rtpmap:8 PCMA/8000'') = [''m=audio 9'', ''a=rtpmap:8 PCMA/8000'']"
    by (simp add: getlines.simps)
  then have "fst (OnSuccess sampleEnv (''m=audio 9'' @ CHR 0x0A # ''a=rtpmap:8 PCMA/8000'') (eng b)) = Inl Undefined"
    by (intro offer_needs_format [OF b i, where fmt = "[]" and l = "''a=rtpmap:8 PCMA/8000''"])
      (simp_all add: read_eval known_format_def RtcConnectEngine_new_def contains_def)
  then show ?thesis using b by blast
qed

subsection \<open>The list of windows to share\<close>

lemma keys_emplace: "fst ` set m \<subseteq> fst ` set (emplaceSources ss m)"
  by (induction ss arbitrary: m) (auto simp: map_emplace_def keys_map_put subset_iff)

text \<open>The controller's list and the engine's are filled in turn and never cleared: a window that was once
  in either of them is never dropped, however many times the list is read again after it was closed.\<close>

theorem closed_windows_stay:
  "fst ` set (shareWindowMap a) \<union> fst ` set (windowList (devs (eng a)))
    \<subseteq> fst ` set (shareWindowMap (requestWindowList e a)) \<union> fst ` set (windowList (devs (eng (requestWindowList e a))))"
proof -
  have g: "fst ` set m \<subseteq> fst ` set (getWinMap ss m)" for ss m
    using keys_emplace by (cases ss) (auto simp: getWinMap_def)
  let ?b = "readInto (getWindowInfo e) shareWindowMap (\<lambda>l a. a\<lparr>shareWindowMap := l\<rparr>) a"
  have "fst ` set (shareWindowMap a) \<union> fst ` set (windowList (devs (eng a)))
    \<subseteq> fst ` set (shareWindowMap ?b) \<union> fst ` set (windowList (devs (eng ?b)))"
    using g [of "windowList (devs (eng a))" "windowSources e"]
    by (auto simp: readInto_def getWindowInfo_def swapList_def split: option.splits)
  then show ?thesis by (simp add: requestWindowList_def Let_def post_def)
qed

end
