(* ===== verification/Reconnect.thy ===== *)
theory Reconnect
  imports Engine
begin

text \<open>
  Losing and regaining the signalling server: \<open>reconnect\<close>, \<open>onReconnect\<close> and the destructor of
  \<open>RtcConnectEngine\<close> (\<open>core/engine/signalBridge/rtcConnectEngine.cpp\<close>) and the watch of \<open>EngineListener\<close>
  (\<open>engineListener.cpp\<close>). The thread that would run the watch is commented out, so the application's runs do
  not reach this code. The attempts and the clock after each of them are inputs.
\<close>

subsection \<open>The engine\<close>

text \<open>
  One attempt. The old socket is told to stop, so its thread can be joined; a thread listening on a socket the engine
  does not hold cannot. The keep-alive thread object is assigned without a join.
\<close>

definition reconnect :: "bool \<Rightarrow> rtc \<Rightarrow> (bool, rtc) eff" where
  "reconnect connects s =
     (if \<not> connects then (Inr False, s)
      else if listenerThread s = Running \<and> \<not> signalingSocket s then (Inl Hang, s\<lparr>signalingSocket := True\<rparr>)
      else
        let s = s\<lparr>signalingSocket := True, listenerThread := Running, threadDestroy := False\<rparr>
        in if keepaliveThread s \<noteq> NoThread then (Inl ProcessExit, s)
           else (Inr True, s\<lparr>keepaliveThread := Running, signalState := CONNECT_ON, Closeflag := False\<rparr>))"

text \<open>The inner loop of \<open>onReconnect\<close>: attempts until one succeeds or 30 seconds have passed.\<close>

primrec tryReconnect :: "int \<Rightarrow> (bool \<times> int) list \<Rightarrow> rtc \<Rightarrow> (unit, rtc) eff" where
  "tryReconnect timepoint [] s = (Inl OutOfFuel, s)"
| "tryReconnect timepoint (x # xs) s =
     thenDo (reconnect (fst x) s) (\<lambda>done s.
       if \<not> done \<and> snd x - timepoint \<le> 30000 then tryReconnect timepoint xs s else (Inr (), s))"

text \<open>Letting go of the media. The thread of a video engine that still collects statistics ends the process.\<close>

definition dropMedia :: "rtc \<Rightarrow> (unit, rtc) eff" where
  "dropMedia s =
     (let s = s\<lparr>peerFactory := False, peerConnection := False\<rparr>
      in thenDo (if audioEngine s = None then (Inr (), s)
                 else onAudio (\<lambda>a. andThen (audio_close a) (\<lambda>a. Inr ((), a))) s) (\<lambda>_ s.
         let s = s\<lparr>audioEngine := None\<rparr>
         in thenDo (if videoEngine s = None then (Inr (), s) else onVideo (\<lambda>v. Inr (video_close v)) s) (\<lambda>_ s.
            if destroysRunningThread s then (Inl ProcessExit, s)
            else (Inr (), s\<lparr>videoEngine := None, signalingThread := False\<rparr>))))"

text \<open>Logging in again, and joining the meeting again, with exceptions caught.\<close>

definition resume :: "env \<Rightarrow> State \<Rightarrow> rtc \<Rightarrow> (unit, rtc) eff" where
  "resume e lastState s =
     catching ()
       (if lastState = LOGIN_ON then thenDo (login (userId s) (password s) s) (\<lambda>_ s. (Inr (), s))
        else if lastState = MEETING then
          thenDo (login (userId s) (password s) s) (\<lambda>_ s.
          thenDo (joinMeeting e (meetingId s) s) (\<lambda>_ s. (Inr (), s)))
        else (Inr (), s))"

text \<open>
  The result is whether the reconnection is reported as a success. After a successful attempt the state is no longer
  \<open>NONE\<close>, so the outer loop runs once; it does not run when the time is over before the first attempt.
\<close>

definition onReconnect :: "env \<Rightarrow> int \<Rightarrow> int \<Rightarrow> (bool \<times> int) list \<Rightarrow> rtc \<Rightarrow> (bool, rtc) eff" where
  "onReconnect e timepoint clk attempts s =
     (let lastState = signalState s;
          s = s\<lparr>signalState := NONE, threadDestroy := True, keepaliveThread := NoThread\<rparr>
      in thenDo (dropMedia s) (\<lambda>_ s.
         thenDo (if clk - timepoint \<le> 30000 then
                   thenDo (tryReconnect timepoint attempts s) (\<lambda>_ s.
                     if signalState s = NONE then (Inr (), s) else resume e lastState s)
                 else (Inr (), s)) (\<lambda>_ s.
           (Inr (signalState s \<noteq> NONE), s))))"

text \<open>The destructor.\<close>

definition RtcConnectEngine_destroy :: "rtc \<Rightarrow> (unit, rtc) eff" where
  "RtcConnectEngine_destroy s =
     (let s = s\<lparr>threadDestroy := True, keepaliveThread := NoThread\<rparr>
      in if listenerThread s = Running \<and> \<not> signalingSocket s then (Inl Hang, s)
         else
           let s = s\<lparr>signalingSocket := False, listenerThread := NoThread, audioEngine := None\<rparr>
           in if destroysRunningThread s then (Inl ProcessExit, s)
              else (Inr (), s\<lparr>videoEngine := None, peerConnection := False, peerFactory := False\<rparr>))"

subsection \<open>The watch of the listener\<close>

record watch =
  reconnectStop :: bool
  lastHearbeat :: int
  watchRunning :: bool

text \<open>The constructor sets the flag twice; the destructor stops and joins.\<close>

definition EngineListener_new :: watch where
  "EngineListener_new = \<lparr>reconnectStop = False, lastHearbeat = 0, watchRunning = False\<rparr>"

definition EngineListener_destroy :: "watch \<Rightarrow> watch" where
  "EngineListener_destroy w = w\<lparr>reconnectStop := True, watchRunning := False\<rparr>"

text \<open>One round of the watch: the result is whether \<open>onReconnect\<close> is called.\<close>

definition watchRound :: "int \<Rightarrow> watch \<Rightarrow> bool \<times> watch" where
  "watchRound clk w =
     (if reconnectStop w then (False, w\<lparr>watchRunning := False\<rparr>)
      else if lastHearbeat w = 0 then (False, w)
      else if 7000 < clk - lastHearbeat w then (True, w\<lparr>lastHearbeat := 0\<rparr>)
      else (False, w))"

subsection \<open>Outcome\<close>

text \<open>Whether an attempt succeeds before the first one that fails after the time is over.\<close>

primrec succeeds :: "int \<Rightarrow> (bool \<times> int) list \<Rightarrow> bool" where
  "succeeds timepoint [] = False"
| "succeeds timepoint (x # xs) \<longleftrightarrow> fst x \<or> snd x - timepoint \<le> 30000 \<and> succeeds timepoint xs"

lemma tryReconnect_outcome:
  assumes "signalingSocket s \<or> listenerThread s \<noteq> Running" "keepaliveThread s = NoThread" "signalState s = NONE"
    "\<exists>x \<in> set attempts. fst x \<or> 30000 < snd x - timepoint"
  shows "tryReconnect timepoint attempts s = (Inr (),
    if succeeds timepoint attempts
    then s\<lparr>signalingSocket := True, listenerThread := Running, threadDestroy := False, keepaliveThread := Running,
           signalState := CONNECT_ON, Closeflag := False\<rparr>
    else s)"
  using assms(4)
proof (induction attempts)
  case (Cons x xs)
  show ?case
  proof (cases "fst x \<or> 30000 < snd x - timepoint")
    case True
    then show ?thesis using assms(1-3) by (auto simp: reconnect_def Let_def)
  next
    case False
    then have "\<exists>x \<in> set xs. fst x \<or> 30000 < snd x - timepoint" using Cons.prems by auto
    then show ?thesis using Cons.IH False by (simp add: reconnect_def)
  qed
qed simp

text \<open>The engines can be dropped.\<close>

definition media_idle :: "rtc \<Rightarrow> bool" where
  "media_idle s \<longleftrightarrow> (\<forall>a \<in> set_option (audioEngine s). adm a) \<and> \<not> destroysRunningThread s"

lemma dropMedia_idle:
  assumes "media_idle s"
  shows "dropMedia s = (Inr (), s\<lparr>peerFactory := False, peerConnection := False, audioEngine := None,
    videoEngine := None, signalingThread := False\<rparr>)"
  using assms
  by (cases "audioEngine s"; cases "videoEngine s")
    (auto simp: dropMedia_def media_idle_def onAudio_def onVideo_def audio_close_def Let_def destroysRunningThread_def
      video_close_def videoDo_def)

text \<open>The requests sent after a successful attempt, by the state before the loss.\<close>

definition registerFrame :: "rtc \<Rightarrow> json" where
  "registerFrame s = JObject [(''userId'', JString (userId s)), (''password'', JString (password s)),
     (''Cseq'', JInt (cseq s)), (''meth'', JString ''REGISTER''), (''isResponse'', JBool False)]"

definition queryFrame :: "env \<Rightarrow> rtc \<Rightarrow> json" where
  "queryFrame e s = JObject [(''from'', JString (userId s)), (''to'', JString (meetingId s)),
     (''meth'', JString ''QUERY''), (''Cseq'', JInt (cseq s + 1)), (''Call_ID'', JString (to_string (rnd e)))]"

definition resumeFrames :: "env \<Rightarrow> State \<Rightarrow> rtc \<Rightarrow> json list" where
  "resumeFrames e st s =
     (if st = LOGIN_ON then [registerFrame s] else if st = MEETING then [registerFrame s, queryFrame e s] else [])"

lemma registerFrame_build:
  "build [set_userid (userId s), set_password (password s), set_cseq (cseq s), set_meth ''REGISTER'',
     set_isresponse False] = Inr (registerFrame s)"
  by (simp add: build_def ws_defs js_set_def registerFrame_def)

lemma queryFrame_build:
  "build [set_from (userId s), set_to (meetingId s), set_meth ''QUERY'', set_cseq (cseq s + 1),
     set_call_id (to_string (rnd e))] = Inr (queryFrame e s)"
  by (simp add: build_def ws_defs js_set_def queryFrame_def)

lemma login_again:
  assumes "signalingSocket s" "userId s \<noteq> []" "password s \<noteq> []" "cseq s \<noteq> 2147483647"
  shows "login (userId s) (password s) s =
    (Inr True, s\<lparr>frames := frames s @ [registerFrame s], cseq := cseq s + 1\<rparr>)"
  using assms by (simp add: login_def nextCseq_def transmit_def registerFrame_build sendSocket_def)

lemma resume_sends:
  assumes "signalingSocket s" "userId s \<noteq> []" "password s \<noteq> []" "cseq s + 2 < 2147483647"
  shows "resume e st s = (Inr (), s\<lparr>frames := frames s @ resumeFrames e st s,
    cseq := cseq s + int (length (resumeFrames e st s))\<rparr>)"
proof -
  have l: "login (userId s) (password s) s =
      (Inr True, s\<lparr>frames := frames s @ [registerFrame s], cseq := cseq s + 1\<rparr>)"
    using assms by (intro login_again) auto
  show ?thesis
    using assms
    by (cases st)
      (simp_all add: resume_def catching_def l joinMeeting_def nextCseq_def transmit_def queryFrame_build sendSocket_def
        resumeFrames_def)
qed



text \<open>
  A client that has left a meeting still holds the audio engine whose device module is gone: a loss of the server
  then ends in a call through a null pointer.
\<close>

theorem onReconnect_after_exit:
  assumes "audioEngine s = Some a" "\<not> adm a"
  shows "fst (onReconnect e timepoint clk attempts s) = Inl Undefined"
  using assms by (simp add: onReconnect_def Let_def dropMedia_def onAudio_def audio_close_def)

text \<open>The destructor joins every thread unless the statistics thread of the video engine still runs.\<close>

theorem RtcConnectEngine_destroy_ok:
  assumes "signalingSocket s" "\<not> destroysRunningThread s"
  shows "\<exists>t. RtcConnectEngine_destroy s = (Inr (), t) \<and> keepaliveThread t = NoThread \<and> listenerThread t = NoThread
    \<and> \<not> signalingSocket t"
  using assms by (auto simp: RtcConnectEngine_destroy_def Let_def destroysRunningThread_def)

text \<open>The watch asks for a reconnection at most once until the next message arrives.\<close>

theorem watchRound_once:
  assumes "watchRound clk w = (True, w')"
  shows "fst (watchRound clk' w') = False"
  using assms by (auto simp: watchRound_def split: if_splits)

end
