(* ===== verification/VideoStats.thy ===== *)
theory VideoStats
  imports Media
begin

text \<open>
  The statistics of \<open>RTCVideoEngine\<close> (\<open>core/engine/signalBridge/VideoEngine/rtcVideoEngine.cpp\<close>): the reports asked for,
  the frame rates and bit rates read from them, and the choice of the codecs. The reports are inputs, each statistic
  with the reading of the clock made for it (milliseconds since 1970, so not negative). The last counters are static
  variables of a function: all streams and all engines of the process share them. Rates are rational numbers.
\<close>

subsection \<open>Codecs\<close>

datatype codec = OpenH264 | LibvpxVp9

text \<open>The encoders and decoders offered; any other mode leaves the pointers as they are.\<close>

definition getVideoFactory :: "int \<Rightarrow> (codec list \<times> codec list) option \<Rightarrow> (codec list \<times> codec list) option" where
  "getVideoFactory m fs =
     (let fs = (if m = 0 then Some ([OpenH264], [OpenH264]) else fs);
          fs = (if m = 1 then Some ([LibvpxVp9], [LibvpxVp9]) else fs)
      in if m = 2 then Some ([LibvpxVp9, OpenH264], [LibvpxVp9, OpenH264]) else fs)"

subsection \<open>Asking for reports\<close>

text \<open>Whom a report is asked about: a sender or a receiver, by position.\<close>

datatype peer = PeerSender nat | PeerReceiver nat

text \<open>The kind of the track of each sender or receiver, if it has one.\<close>

primrec videoPositions :: "nat \<Rightarrow> string option list \<Rightarrow> nat list" where
  "videoPositions i [] = []"
| "videoPositions i (k # ks) = (if k = Some ''video'' then [i] else []) @ videoPositions (Suc i) ks"

definition collectStats :: "string option list \<Rightarrow> string option list \<Rightarrow> video \<Rightarrow> peer list" where
  "collectStats senders receivers v =
     (if \<not> v_peer v then []
      else map PeerSender (videoPositions 0 senders) @ map PeerReceiver (videoPositions 0 receivers))"

subsection \<open>Reading a report\<close>

record streamStats =
  kindOf :: "string option"
  framesPerSecond :: "rat option"
  byteCount :: "u64 option"

datatype stat = Outbound streamStats | Inbound streamStats | OtherStat

record counters =
  out_last_bytes :: u64
  out_last_time :: int
  in_last_bytes :: u64
  in_last_time :: u64

record rates =
  outFramerate :: rat
  outBitrate :: rat
  inFramerate :: rat
  inBitrate :: rat

definition counters_initial :: counters where
  "counters_initial = \<lparr>out_last_bytes = 0, out_last_time = 0, in_last_bytes = 0, in_last_time = 0\<rparr>"

definition rates_initial :: rates where
  "rates_initial = \<lparr>outFramerate = 0, outBitrate = 0, inFramerate = 0, inBitrate = 0\<rparr>"

text \<open>The bits between two readings of a counter; the difference wraps around.\<close>

definition bitsSince :: "u64 \<Rightarrow> u64 \<Rightarrow> nat" where
  "bitsSince last_bytes current_bytes = unat ((current_bytes - last_bytes) * 8)"

text \<open>
  The times of sent data are signed, those of received data unsigned, so
  there the interval wraps around too.
\<close>

definition outboundBytes :: "nat \<Rightarrow> u64 \<Rightarrow> counters \<times> rates \<Rightarrow> counters \<times> rates" where
  "outboundBytes current_time current_bytes s =
     (case s of (g, r) \<Rightarrow>
        let g' = g\<lparr>out_last_bytes := current_bytes, out_last_time := int current_time\<rparr>
        in if 0 < out_last_time g \<and> 0 < out_last_bytes g then
             let interval_sec = int current_time - out_last_time g
             in if interval_sec < 1000 then (g, r)
                else (g', r\<lparr>outBitrate := of_nat (bitsSince (out_last_bytes g) current_bytes) / of_int interval_sec\<rparr>)
           else (g', r))"

definition inboundBytes :: "nat \<Rightarrow> u64 \<Rightarrow> counters \<times> rates \<Rightarrow> counters \<times> rates" where
  "inboundBytes current_time current_bytes s =
     (case s of (g, r) \<Rightarrow>
        let g' = g\<lparr>in_last_bytes := current_bytes, in_last_time := of_nat current_time\<rparr>
        in if 0 < in_last_time g \<and> 0 < in_last_bytes g then
             let interval_sec = unat (of_nat current_time - in_last_time g)
             in if interval_sec < 1000 then (g, r)
                else (g', r\<lparr>inBitrate := of_nat (bitsSince (in_last_bytes g) current_bytes) / of_nat interval_sec\<rparr>)
           else (g', r))"

definition processStat :: "nat \<times> stat \<Rightarrow> counters \<times> rates \<Rightarrow> counters \<times> rates" where
  "processStat x s =
     (case snd x of
        Outbound y \<Rightarrow>
          if kindOf y = Some ''video'' then
            let s = (case framesPerSecond y of Some f \<Rightarrow> (fst s, (snd s)\<lparr>outFramerate := f\<rparr>) | None \<Rightarrow> s)
            in (case byteCount y of Some b \<Rightarrow> outboundBytes (fst x) b s | None \<Rightarrow> s)
          else s
      | Inbound y \<Rightarrow>
          if kindOf y = Some ''video'' then
            let s = (case framesPerSecond y of Some f \<Rightarrow> (fst s, (snd s)\<lparr>inFramerate := f\<rparr>) | None \<Rightarrow> s)
            in (case byteCount y of Some b \<Rightarrow> inboundBytes (fst x) b s | None \<Rightarrow> s)
          else s
      | OtherStat \<Rightarrow> s)"

definition processStatsReport :: "(nat \<times> stat) list \<Rightarrow> counters \<times> rates \<Rightarrow> counters \<times> rates" where
  "processStatsReport report s = fold processStat report s"

text \<open>The callback holds a raw pointer to the engine, which is never null but may be left dangling.\<close>

definition OnStatsDelivered :: "bool \<Rightarrow> (nat \<times> stat) list \<Rightarrow> counters \<times> rates \<Rightarrow> (counters \<times> rates) res" where
  "OnStatsDelivered alive report s = (if alive then Inr (processStatsReport report s) else Inl Undefined)"

definition getCurrentFrameRate :: "rates \<Rightarrow> rat \<times> rat" where
  "getCurrentFrameRate r = (outFramerate r, inFramerate r)"

definition getCurrentBitrate :: "rates \<Rightarrow> rat \<times> rat" where
  "getCurrentBitrate r = (outBitrate r, inBitrate r)"

subsection \<open>The reference: one stream of samples\<close>

text \<open>
  A sample within a second of the last one that counted is passed over. The first sample, and one after a counter of
  zero, only sets the base.
\<close>

fun sampler :: "nat \<times> u64 \<Rightarrow> nat \<times> u64 \<times> rat \<Rightarrow> nat \<times> u64 \<times> rat" where
  "sampler (t, b) (lt, lb, r) =
     (if lt = 0 \<or> lb = 0 then (t, b, r)
      else if t < lt + 1000 then (lt, lb, r)
      else (t, b, of_nat (bitsSince lb b) / of_nat (t - lt)))"

definition outSamples :: "(nat \<times> stat) list \<Rightarrow> (nat \<times> u64) list" where
  "outSamples = List.map_filter (\<lambda>x. case snd x of
     Outbound y \<Rightarrow> if kindOf y = Some ''video'' then map_option (Pair (fst x)) (byteCount y) else None | _ \<Rightarrow> None)"

definition inSamples :: "(nat \<times> stat) list \<Rightarrow> (nat \<times> u64) list" where
  "inSamples = List.map_filter (\<lambda>x. case snd x of
     Inbound y \<Rightarrow> if kindOf y = Some ''video'' then map_option (Pair (fst x)) (byteCount y) else None | _ \<Rightarrow> None)"

definition outView :: "counters \<times> rates \<Rightarrow> nat \<times> u64 \<times> rat" where
  "outView s = (nat (out_last_time (fst s)), out_last_bytes (fst s), outBitrate (snd s))"

definition inView :: "counters \<times> rates \<Rightarrow> nat \<times> u64 \<times> rat" where
  "inView s = (unat (in_last_time (fst s)), in_last_bytes (fst s), inBitrate (snd s))"

lemma outboundBytes_sampler:
  assumes "0 \<le> out_last_time (fst s)"
  shows "outView (outboundBytes t b s) = sampler (t, b) (outView s) \<and> 0 \<le> out_last_time (fst (outboundBytes t b s))
    \<and> inView (outboundBytes t b s) = inView s"
  using assms
  by (cases s) (auto simp: outboundBytes_def outView_def inView_def Let_def word_gt_0 of_nat_diff nat_less_iff)

lemma inboundBytes_sampler:
  assumes "unat (in_last_time (fst s)) \<le> t" "t < 2 ^ 64"
  shows "inView (inboundBytes t b s) = sampler (t, b) (inView s) \<and> unat (in_last_time (fst (inboundBytes t b s))) \<le> t
    \<and> outView (inboundBytes t b s) = outView s \<and> out_last_time (fst (inboundBytes t b s)) = out_last_time (fst s)"
proof -
  have u: "unat (of_nat t :: u64) = t" using assms(2) by (simp add: unat_of_nat)
  then have le: "in_last_time (fst s) \<le> of_nat t" using assms(1) by (simp add: word_le_nat_alt)
  have "unat (of_nat t - in_last_time (fst s)) = t - unat (in_last_time (fst s))"
    using le by (simp add: unat_sub u)
  then show ?thesis
    using assms(1)
    by (cases s) (auto simp: inboundBytes_def outView_def inView_def Let_def word_gt_0 u unat_eq_0)
qed

lemma views_framerate [simp]:
  "outView (g, r\<lparr>outFramerate := f\<rparr>) = outView (g, r)" "inView (g, r\<lparr>outFramerate := f\<rparr>) = inView (g, r)"
  "outView (g, r\<lparr>inFramerate := f\<rparr>) = outView (g, r)" "inView (g, r\<lparr>inFramerate := f\<rparr>) = inView (g, r)"
  by (simp_all add: outView_def inView_def)

text \<open>Only a sample of its direction moves a side of the state.\<close>

definition stats_inv :: "nat \<Rightarrow> counters \<times> rates \<Rightarrow> bool" where
  "stats_inv t s \<longleftrightarrow> 0 \<le> out_last_time (fst s) \<and> unat (in_last_time (fst s)) \<le> t"

lemma processStat_sampler:
  assumes "stats_inv (fst x) s" "fst x < 2 ^ 64"
  shows "outView (processStat x s) = fold sampler (outSamples [x]) (outView s)
    \<and> inView (processStat x s) = fold sampler (inSamples [x]) (inView s) \<and> stats_inv (fst x) (processStat x s)"
proof -
  obtain t y where x: "x = (t, y)" by (cases x)
  obtain g r where s: "s = (g, r)" by (cases s)
  have i: "stats_inv t (g, r')" for r' using assms(1) by (simp add: x s stats_inv_def)
  have o: "outView (outboundBytes t b (g, r')) = sampler (t, b) (outView (g, r'))"
    "inView (outboundBytes t b (g, r')) = inView (g, r')" "stats_inv t (outboundBytes t b (g, r'))" for b r'
    using outboundBytes_sampler [of "(g, r')" t b] i [of r']
    by (auto simp: stats_inv_def outboundBytes_def Let_def)
  have n: "inView (inboundBytes t b (g, r')) = sampler (t, b) (inView (g, r'))"
    "outView (inboundBytes t b (g, r')) = outView (g, r')" "stats_inv t (inboundBytes t b (g, r'))" for b r'
    using inboundBytes_sampler [of "(g, r')" t b] i [of r'] assms(2) by (auto simp: stats_inv_def x)
  show ?thesis
  proof (cases y)
    case (Outbound z)
    then show ?thesis
      by (cases "framesPerSecond z"; cases "byteCount z")
        (simp_all add: processStat_def x s o i outSamples_def inSamples_def map_filter_simps del: sampler.simps)
  next
    case (Inbound z)
    then show ?thesis
      by (cases "framesPerSecond z"; cases "byteCount z")
        (simp_all add: processStat_def x s n i outSamples_def inSamples_def map_filter_simps del: sampler.simps)
  next
    case OtherStat
    then show ?thesis using i by (simp add: processStat_def x s outSamples_def inSamples_def map_filter_simps)
  qed
qed

lemma samples_Cons:
  "outSamples (x # xs) = outSamples [x] @ outSamples xs" "inSamples (x # xs) = inSamples [x] @ inSamples xs"
  by (simp_all add: outSamples_def inSamples_def List.map_filter_def)

lemma processStatsReport_sampler:
  assumes "stats_inv t s" "sorted (t # map fst xs)" "\<forall>x \<in> set xs. fst x < 2 ^ 64"
  shows "outView (processStatsReport xs s) = fold sampler (outSamples xs) (outView s)
    \<and> inView (processStatsReport xs s) = fold sampler (inSamples xs) (inView s)"
  using assms
proof (induction xs arbitrary: s t)
  case Nil
  then show ?case by (simp add: processStatsReport_def outSamples_def inSamples_def List.map_filter_def)
next
  case (Cons x xs)
  have "stats_inv (fst x) s" using Cons.prems(1,2) by (simp add: stats_inv_def)
  note st = processStat_sampler [OF this]
  show ?case
    using Cons.IH [of "fst x" "processStat x s"] Cons.prems(2,3) st
    by (simp add: samples_Cons [of x xs] processStatsReport_def del: sampler.simps)
qed

subsection \<open>What is shown\<close>

text \<open>Samples of one stream that is never reset, more than a second apart, and the rate between the last two.\<close>

fun steady :: "(nat \<times> u64) list \<Rightarrow> bool" where
  "steady ((t, b) # (t', b') # xs) \<longleftrightarrow>
     0 < t \<and> 0 < b \<and> t + 1000 \<le> t' \<and> b \<le> b' \<and> (unat b' - unat b) * 8 < 2 ^ 64 \<and> steady ((t', b') # xs)"
| "steady [(t, b)] \<longleftrightarrow> 0 < t \<and> 0 < b"
| "steady [] \<longleftrightarrow> True"

fun lastRate :: "(nat \<times> u64) list \<Rightarrow> rat" where
  "lastRate [(t, b), (t', b')] = of_nat ((unat b' - unat b) * 8) / of_nat (t' - t)"
| "lastRate (x # y # z # xs) = lastRate (y # z # xs)"
| "lastRate xs = 0"

lemma bitsSince_exact:
  assumes "b \<le> b'" "(unat b' - unat b) * 8 < 2 ^ 64"
  shows "bitsSince b b' = (unat b' - unat b) * 8"
proof -
  have "unat (b' - b) = unat b' - unat b" using assms(1) by (simp add: unat_sub)
  then show ?thesis unfolding bitsSince_def using assms(2) by (subst unat_mult_lem [THEN iffD1]) simp_all
qed

lemma unat_negative:
  assumes "(x :: u64) \<noteq> 0"
  shows "unat (- x) = 2 ^ 64 - unat x"
proof -
  have "0 < x" using assms by (simp add: word_gt_0)
  then have b: "0 < uint x" by (simp add: word_less_def)
  have c: "uint x < 2 ^ 64" using uint_lt2p [of x] by simp
  have "uint (- x) = - uint x mod 2 ^ 64" by (simp add: uint_word_ariths)
  also have "\<dots> = (2 ^ 64 - uint x) mod 2 ^ 64"
    using mod_add_self1 [of "2 ^ 64" "- uint x"] by (simp only: add_uminus_conv_diff)
  also have "\<dots> = 2 ^ 64 - uint x" by (rule mod_pos_pos_trivial) (use b c in linarith)+
  finally have "unat (- x) = nat (2 ^ 64 - uint x)" by (simp only: unat_eq_nat_uint)
  also have "\<dots> = nat (2 ^ 64) - nat (uint x)" using b by (intro nat_diff_distrib') simp_all
  finally show ?thesis by (simp only: unat_eq_nat_uint nat_power_eq nat_numeral zero_le_numeral)
qed

lemma bitsSince_wraps:
  assumes "b < a" "unat a - unat b \<le> 2 ^ 60"
  shows "bitsSince a b = 2 ^ 64 - (unat a - unat b) * 8"
proof -
  have le: "b \<le> a" using assms(1) by simp
  then have m: "unat ((a - b) * 8) = (unat a - unat b) * 8"
    using bitsSince_exact [OF le] assms(2) by (simp add: bitsSince_def)
  then have "(a - b) * 8 \<noteq> 0" using assms(1) by (metis diff_is_0_eq mult_eq_0_iff not_le unat_0 word_less_nat_alt zero_neq_numeral)
  moreover have "(b - a) * 8 = - ((a - b) * 8)" by (simp add: algebra_simps)
  ultimately show ?thesis unfolding bitsSince_def using unat_negative m by metis
qed

lemma fold_sampler_steady:
  assumes "steady ((t, b) # xs)"
  shows "snd (snd (fold sampler xs (t, b, q))) = (if xs = [] then q else lastRate ((t, b) # xs))"
  using assms
proof (induction xs arbitrary: t b q)
  case (Cons x xs)
  obtain t' b' where x: "x = (t', b')" by (cases x)
  have "fold sampler (x # xs) (t, b, q) = fold sampler xs (t', b', of_nat ((unat b' - unat b) * 8) / of_nat (t' - t))"
    using Cons.prems bitsSince_exact [of b b'] by (simp add: x word_gt_0)
  then show ?case using Cons.IH [of t' b'] Cons.prems by (cases xs) (simp_all add: x)
qed simp



text \<open>
  With a camera and a screen sent at once, or after a new connection, a sample with a smaller counter is compared with
  the one before: the difference wraps around.
\<close>

theorem stats_second_stream:
  assumes "0 < out_last_time g" "b < out_last_bytes g" "unat (out_last_bytes g) - unat b \<le> 2 ^ 60"
    "out_last_time g + 1000 \<le> int t"
  shows "2 ^ 63 / of_int (int t - out_last_time g) \<le> outBitrate (snd (outboundBytes t b (g, r)))"
proof -
  have "2 ^ 63 \<le> bitsSince (out_last_bytes g) b" unfolding bitsSince_wraps [OF assms(2,3)] using assms(3) by simp
  then have "(2 ^ 63 :: rat) \<le> of_nat (bitsSince (out_last_bytes g) b)" by (metis of_nat_le_iff of_nat_numeral of_nat_power)
  moreover have "0 < out_last_bytes g" using assms(2) by (simp add: word_gt_0) (metis not_less_zero unat_0 word_less_nat_alt)
  ultimately show ?thesis using assms(1,4) by (simp add: outboundBytes_def Let_def divide_right_mono)
qed

text \<open>When the clock is set back, sent data are ignored until it has caught up; received data count at once, with a rate near zero.\<close>

theorem stats_clock_back:
  assumes "0 < out_last_time g" "0 < out_last_bytes g" "int t < out_last_time g"
    "0 < in_last_bytes g" "t + 1000 < unat (in_last_time g)" "unat (in_last_time g) < 2 ^ 63"
  shows "outboundBytes t b (g, r) = (g, r)" "in_last_time (fst (inboundBytes t b (g, r))) = of_nat t"
    "inBitrate (snd (inboundBytes t b (g, r))) < 2"
proof -
  let ?i = "of_nat t - in_last_time g"
  have u: "unat (of_nat t :: u64) = t" using assms(5,6) by (simp add: unat_of_nat)
  then have l: "of_nat t < in_last_time g" using assms(5) by (simp add: word_less_nat_alt)
  then have "unat (in_last_time g - of_nat t) = unat (in_last_time g) - t" by (simp add: unat_sub u)
  moreover have "in_last_time g - of_nat t \<noteq> 0" using l by auto
  ultimately have i: "unat ?i = 2 ^ 64 - (unat (in_last_time g) - t)"
    using unat_negative [of "in_last_time g - of_nat t"] by simp
  then have big: "2 ^ 63 < unat ?i" using assms(6) by simp
  have z: "0 < in_last_time g" using assms(5) by (simp add: word_gt_0) (metis not_less_zero unat_0)
  have "of_nat (bitsSince (in_last_bytes g) b) < (2 * of_nat (unat ?i) :: rat)"
  proof -
    have "bitsSince (in_last_bytes g) b < 2 ^ 64" unfolding bitsSince_def using unsigned_less [of "(b - in_last_bytes g) * 8"] by simp
    then have "bitsSince (in_last_bytes g) b < 2 * unat ?i" using big by simp
    then show ?thesis by (metis of_nat_less_iff of_nat_mult of_nat_numeral)
  qed
  then have f: "of_nat (bitsSince (in_last_bytes g) b) / of_nat (unat ?i) < (2 :: rat)" using big by (simp add: divide_less_eq)
  show "outboundBytes t b (g, r) = (g, r)" using assms(1-3) by (simp add: outboundBytes_def Let_def)
  show "in_last_time (fst (inboundBytes t b (g, r))) = of_nat t" "inBitrate (snd (inboundBytes t b (g, r))) < 2"
    using assms(4) z f big by (simp_all add: inboundBytes_def Let_def)
qed

end
