(* ===== verification/ScreenCapture.thy ===== *)
theory ScreenCapture
  imports Effects
begin

text \<open>
  The capturer of screens and windows (\<open>core/engine/signalBridge/VideoEngine/screenCapturer.cpp\<close>): its thread, and
  the conversion of a captured picture into the buffer that is encoded. The capturers of WebRTC are the environment;
  the conversion of libyuv is recorded with its arguments. Sizes are not negative.
\<close>

subsection \<open>State\<close>

text \<open>A captured picture: its size, the bytes of a row and the bytes in all.\<close>

record frame =
  frameWidth :: nat
  frameHeight :: nat
  frameStride :: nat
  frameBytes :: nat

text \<open>A buffer of the encoder and the call that fills it.\<close>

record i420 =
  bufWidth :: nat
  bufHeight :: nat

record conversion =
  srcStride :: nat
  srcBytes :: nat
  dst :: i420
  convWidth :: nat
  convHeight :: nat

record capturer =
  screenCapturer :: bool
  windowCapturer :: bool
  working :: bool
  isOnResult :: bool
  screenThread :: thread
  i420_buffer :: "i420 option"
  leaked :: "i420 list"
  selected :: "int list"
  conversions :: "conversion list"

definition ScreenCapturer_new :: capturer where
  "ScreenCapturer_new = \<lparr>screenCapturer = False, windowCapturer = False, working = False, isOnResult = False,
     screenThread = NoThread, i420_buffer = None, leaked = [], selected = [], conversions = []\<rparr>"

subsection \<open>The thread\<close>

text \<open>Assigning to a thread object that is still joinable ends the process.\<close>

definition startCapturer :: "capturer \<Rightarrow> (unit, capturer) eff" where
  "startCapturer c =
     (let c = c\<lparr>screenCapturer := True, selected := selected c @ [0], working := True\<rparr>
      in if screenThread c \<noteq> NoThread then (Inl ProcessExit, c) else (Inr (), c\<lparr>screenThread := Running\<rparr>))"

definition startWindowCapturer :: "capturer \<Rightarrow> (unit, capturer) eff" where
  "startWindowCapturer c =
     (let c = c\<lparr>windowCapturer := True, selected := selected c @ [0], working := True\<rparr>
      in if screenThread c \<noteq> NoThread then (Inl ProcessExit, c) else (Inr (), c\<lparr>screenThread := Running\<rparr>))"

definition sc_setScreen :: "u8 \<Rightarrow> capturer \<Rightarrow> (unit, capturer) eff" where
  "sc_setScreen i c =
     (if \<not> screenCapturer c then (Inl Undefined, c) else (Inr (), c\<lparr>selected := selected c @ [uint i]\<rparr>))"

definition sc_setWindow :: "int \<Rightarrow> capturer \<Rightarrow> (unit, capturer) eff" where
  "sc_setWindow i c =
     (if \<not> windowCapturer c then (Inl Undefined, c) else (Inr (), c\<lparr>selected := selected c @ [i]\<rparr>))"

text \<open>The capture thread sees the cleared flag and ends.\<close>

definition stopCapturer :: "capturer \<Rightarrow> capturer" where
  "stopCapturer c = c\<lparr>working := False, screenThread := NoThread\<rparr>"

subsection \<open>A captured picture\<close>

definition alignedWidth :: "nat \<Rightarrow> nat" where
  "alignedWidth width = (if width mod 16 \<noteq> 0 then (16 - width mod 16) + width else width)"

definition alignedHeight :: "nat \<Rightarrow> nat" where
  "alignedHeight height = (if height mod 2 \<noteq> 0 then height - 1 else height)"

text \<open>A buffer of the same area is used again. The old one is let go of without being freed.\<close>

definition fitBuffer :: "nat \<Rightarrow> nat \<Rightarrow> capturer \<Rightarrow> capturer" where
  "fitBuffer width height c =
     (let new = \<lparr>bufWidth = width, bufHeight = height\<rparr>
      in case i420_buffer c of
           None \<Rightarrow> c\<lparr>i420_buffer := Some new\<rparr>
         | Some b \<Rightarrow>
             if bufWidth b * bufHeight b \<noteq> width * height
             then c\<lparr>i420_buffer := Some new, leaked := leaked c @ [b]\<rparr>
             else c)"

definition OnCaptureResult :: "bool \<Rightarrow> frame \<Rightarrow> capturer \<Rightarrow> capturer" where
  "OnCaptureResult success f c =
     (if \<not> success then c
      else
        let width = alignedWidth (frameWidth f);
            height = alignedHeight (frameHeight f);
            c = fitBuffer width height c
        in (case i420_buffer c of
              None \<Rightarrow> c
            | Some b \<Rightarrow>
                c\<lparr>conversions := conversions c @ [\<lparr>srcStride = frameStride f, srcBytes = frameBytes f, dst = b,
                     convWidth = width, convHeight = height\<rparr>], isOnResult := False\<rparr>))"

text \<open>A round of the thread: a picture is asked for, and what the capturer delivers is handled.\<close>

definition captureRound :: "bool \<times> frame \<Rightarrow> capturer \<Rightarrow> capturer" where
  "captureRound x c =
     (if screenThread c \<noteq> Running then c
      else if \<not> working c then c\<lparr>screenThread := Ended\<rparr>
      else if isOnResult c then c
      else OnCaptureResult (fst x) (snd x) c)"

subsection \<open>What the conversion touches\<close>

text \<open>
  It reads four bytes of each pixel of the size given, row by row at the stride, and writes one byte of brightness for
  each and one byte of each colour for every square of four, at the strides of the buffer.
\<close>

definition readEnd :: "conversion \<Rightarrow> nat" where
  "readEnd v = (if convHeight v = 0 then 0 else (convHeight v - 1) * srcStride v + 4 * convWidth v)"

definition writeEnd :: "conversion \<Rightarrow> nat" where
  "writeEnd v = (if convHeight v = 0 then 0 else (convHeight v - 1) * bufWidth (dst v) + convWidth v)"

definition colourEnd :: "conversion \<Rightarrow> nat" where
  "colourEnd v = (if convHeight v = 0 then 0
     else ((convHeight v + 1) div 2 - 1) * ((bufWidth (dst v) + 1) div 2) + (convWidth v + 1) div 2)"

definition inBounds :: "conversion \<Rightarrow> bool" where
  "inBounds v \<longleftrightarrow> readEnd v \<le> srcBytes v \<and> writeEnd v \<le> bufWidth (dst v) * bufHeight (dst v)
     \<and> colourEnd v \<le> ((bufWidth (dst v) + 1) div 2) * ((bufHeight (dst v) + 1) div 2)"

lemma same_shape_fits:
  assumes "dst v = \<lparr>bufWidth = convWidth v, bufHeight = convHeight v\<rparr>"
  shows "writeEnd v \<le> bufWidth (dst v) * bufHeight (dst v)"
    "colourEnd v \<le> ((bufWidth (dst v) + 1) div 2) * ((bufHeight (dst v) + 1) div 2)"
proof -
  have e: "(n - 1) * w + w = n * w" if "n \<noteq> 0" for n w :: nat using that by (cases n) simp_all
  show "writeEnd v \<le> bufWidth (dst v) * bufHeight (dst v)"
    using e [of "convHeight v" "convWidth v"] by (simp add: writeEnd_def assms mult.commute)
  show "colourEnd v \<le> ((bufWidth (dst v) + 1) div 2) * ((bufHeight (dst v) + 1) div 2)"
    using e [of "(convHeight v + 1) div 2" "(convWidth v + 1) div 2"]
    by (auto simp: colourEnd_def assms mult.commute)
qed

lemma rows_within:
  assumes "4 * w \<le> stride" "h' \<le> h" "h * stride \<le> n"
  shows "(if h' = 0 then 0 else (h' - 1) * stride + 4 * w) \<le> (n :: nat)"
proof (cases h')
  case (Suc k)
  then have "k * stride + 4 * w \<le> Suc k * stride" using assms(1) by simp
  also have "\<dots> \<le> h * stride" using assms(2) Suc by (intro mult_right_mono) simp_all
  finally show ?thesis using assms(3) Suc by simp
qed simp

subsection \<open>Which pictures are safe\<close>

definition shape :: "frame \<Rightarrow> i420" where
  "shape f = \<lparr>bufWidth = alignedWidth (frameWidth f), bufHeight = alignedHeight (frameHeight f)\<rparr>"

text \<open>A picture whose width is a multiple of 16, with its rows within its bytes.\<close>

definition wellFormed :: "frame \<Rightarrow> bool" where
  "wellFormed f \<longleftrightarrow> 16 dvd frameWidth f \<and> 4 * frameWidth f \<le> frameStride f
     \<and> frameHeight f * frameStride f \<le> frameBytes f"

text \<open>No two pictures of a run have the same area in another shape.\<close>

definition areasTell :: "frame set \<Rightarrow> bool" where
  "areasTell F \<longleftrightarrow> (\<forall>f \<in> F. \<forall>g \<in> F.
     bufWidth (shape f) * bufHeight (shape f) = bufWidth (shape g) * bufHeight (shape g) \<longrightarrow> shape f = shape g)"

definition capture_inv :: "frame set \<Rightarrow> capturer \<Rightarrow> bool" where
  "capture_inv F c \<longleftrightarrow> screenThread c = Running \<and> working c \<and> \<not> isOnResult c
     \<and> (\<forall>b \<in> set_option (i420_buffer c). b \<in> shape ` F) \<and> (\<forall>v \<in> set (conversions c). inBounds v)"

lemma fitBuffer_shape:
  assumes "areasTell F" "f \<in> F" "\<forall>b \<in> set_option (i420_buffer c). b \<in> shape ` F"
  shows "i420_buffer (fitBuffer (alignedWidth (frameWidth f)) (alignedHeight (frameHeight f)) c) = Some (shape f)"
proof (cases "i420_buffer c")
  case (Some b)
  then obtain g where g: "g \<in> F" "b = shape g" using assms(3) by auto
  show ?thesis
  proof (cases "bufWidth b * bufHeight b = bufWidth (shape f) * bufHeight (shape f)")
    case True
    then have "b = shape f" using assms(1,2) g unfolding areasTell_def by metis
    then show ?thesis using Some by (simp add: fitBuffer_def shape_def)
  next
    case False
    then show ?thesis using Some by (simp add: fitBuffer_def shape_def Let_def)
  qed
qed (simp add: fitBuffer_def shape_def)

lemma wellFormed_inBounds:
  assumes "wellFormed f"
  shows "inBounds \<lparr>srcStride = frameStride f, srcBytes = frameBytes f, dst = shape f,
    convWidth = alignedWidth (frameWidth f), convHeight = alignedHeight (frameHeight f)\<rparr>" (is "inBounds ?v")
proof -
  have w: "alignedWidth (frameWidth f) = frameWidth f"
    using assms by (simp add: wellFormed_def alignedWidth_def dvd_eq_mod_eq_0)
  have h: "alignedHeight (frameHeight f) \<le> frameHeight f" by (simp add: alignedHeight_def)
  have "readEnd ?v \<le> srcBytes ?v"
    using rows_within [of "frameWidth f" "frameStride f" "alignedHeight (frameHeight f)" "frameHeight f" "frameBytes f"] assms h
    by (auto simp: readEnd_def w wellFormed_def split: if_splits)
  then show ?thesis using same_shape_fits [of ?v] by (simp add: inBounds_def shape_def)
qed

lemma captureRound_inv:
  assumes "areasTell F" "snd x \<in> F" "wellFormed (snd x)" "capture_inv F c"
  shows "capture_inv F (captureRound x c)
    \<and> length (conversions (captureRound x c)) = length (conversions c) + (if fst x then 1 else 0)"
proof -
  let ?c = "fitBuffer (alignedWidth (frameWidth (snd x))) (alignedHeight (frameHeight (snd x))) c"
  have b: "i420_buffer ?c = Some (shape (snd x))"
    using assms by (intro fitBuffer_shape) (auto simp: capture_inv_def)
  have k: "screenThread ?c = screenThread c" "working ?c = working c" "conversions ?c = conversions c"
    by (simp_all add: fitBuffer_def Let_def split: option.splits)
  show ?thesis
    using assms(2,4) b k wellFormed_inBounds [OF assms(3)]
    by (cases "fst x") (auto simp: captureRound_def OnCaptureResult_def capture_inv_def Let_def)
qed

text \<open>C30: every picture delivered is converted, and no conversion leaves the picture or the buffer, as long as the widths are
  multiples of 16 and no two sizes have the same area.
\<close>

theorem capture_run_safe:
  assumes "areasTell (snd ` set xs)" "\<forall>x \<in> set xs. wellFormed (snd x)" "startCapturer ScreenCapturer_new = (Inr (), c)"
  shows "length (conversions (fold captureRound xs c)) = length (filter fst xs)
    \<and> (\<forall>v \<in> set (conversions (fold captureRound xs c)). inBounds v)"
proof -
  let ?F = "snd ` set xs"
  have step: "capture_inv ?F (fold captureRound ys c') \<and>
      length (conversions (fold captureRound ys c')) = length (conversions c') + length (filter fst ys)"
    if "set ys \<subseteq> set xs" "capture_inv ?F c'" for ys c'
    using that
  proof (induction ys arbitrary: c')
    case (Cons y ys)
    then show ?case using captureRound_inv [of ?F y c'] assms(1,2) by auto
  qed simp
  have "capture_inv ?F c" "conversions c = []"
    using assms(3) by (auto simp: startCapturer_def ScreenCapturer_new_def capture_inv_def Let_def)
  then show ?thesis using step [of xs c] by (simp add: capture_inv_def)
qed

theorem capture_run_safe_witness:
  "list_all inBounds (conversions (fold captureRound (replicate 2 (True,
       \<lparr>frameWidth = 1920, frameHeight = 1080, frameStride = 7680, frameBytes = 8294400\<rparr>))
       (snd (startCapturer ScreenCapturer_new))))"
  using capture_run_safe [of "replicate 2 (True, \<lparr>frameWidth = 1920, frameHeight = 1080, frameStride = 7680,
      frameBytes = 8294400\<rparr>)" "snd (startCapturer ScreenCapturer_new)"]
  by (simp add: areasTell_def wellFormed_def startCapturer_def ScreenCapturer_new_def Let_def list_all_iff)

text \<open>A width that is not a multiple of 16 is rounded up: the last row is read past the end of the picture.\<close>

theorem capture_overread:
  assumes "\<not> 16 dvd frameWidth f" "even (frameHeight f)" "0 < frameHeight f" "frameStride f = 4 * frameWidth f"
    "frameBytes f = frameHeight f * frameStride f"
  shows "\<exists>v. conversions (OnCaptureResult True f c) = conversions c @ [v]
    \<and> readEnd v = srcBytes v + 4 * (16 - frameWidth f mod 16)"
proof -
  let ?w = "alignedWidth (frameWidth f)" and ?h = "alignedHeight (frameHeight f)"
  have "i420_buffer (fitBuffer ?w ?h c) \<noteq> None" "conversions (fitBuffer ?w ?h c) = conversions c"
    by (simp_all add: fitBuffer_def Let_def split: option.splits)
  then obtain b where b: "i420_buffer (fitBuffer ?w ?h c) = Some b" "conversions (fitBuffer ?w ?h c) = conversions c"
    by auto
  let ?v = "\<lparr>srcStride = frameStride f, srcBytes = frameBytes f, dst = b, convWidth = ?w, convHeight = ?h\<rparr>"
  have c: "conversions (OnCaptureResult True f c) = conversions c @ [?v]" using b by (simp add: OnCaptureResult_def Let_def)
  obtain n where s: "frameHeight f = Suc n" using assms(3) by (cases "frameHeight f") simp_all
  have "frameHeight f mod 2 = 0" using assms(2) by presburger
  then have n: "?h = Suc n" "frameHeight f = Suc n" unfolding alignedHeight_def using s by simp_all
  have "?w = (16 - frameWidth f mod 16) + frameWidth f" using assms(1) by (simp add: alignedWidth_def dvd_eq_mod_eq_0)
  then have "readEnd ?v = srcBytes ?v + 4 * (16 - frameWidth f mod 16)"
    using assms(4,5) n by (simp add: readEnd_def algebra_simps del: alignedWidth_def)
  then show ?thesis using c by blast
qed

text \<open>After a turn of the screen by a quarter the buffer of the old shape is used: it is written past its end.\<close>

theorem capture_rotated:
  assumes "16 dvd frameWidth f" "16 dvd frameHeight f" "frameHeight f < frameWidth f" "0 < frameHeight f"
    "i420_buffer c = Some (shape f)" "frameWidth g = frameHeight f" "frameHeight g = frameWidth f"
  shows "\<exists>v. conversions (OnCaptureResult True g c) = conversions c @ [v] \<and> bufWidth (dst v) * bufHeight (dst v) < writeEnd v"
proof -
  let ?W = "frameWidth f" and ?H = "frameHeight f"
  have al: "alignedWidth ?W = ?W" "alignedWidth ?H = ?H" "alignedHeight ?W = ?W" "alignedHeight ?H = ?H"
    using assms(1,2) by (auto simp: alignedWidth_def alignedHeight_def elim!: dvdE)
  then have b: "fitBuffer ?H ?W c = c" "shape f = \<lparr>bufWidth = ?W, bufHeight = ?H\<rparr>"
    using assms(5) by (simp_all add: fitBuffer_def shape_def mult.commute)
  have "?W * ?H \<le> (?W - 1) * ?W" using assms(3) mult_le_mono [of ?H "?W - 1" ?W ?W] by (simp add: mult.commute)
  then have "?W * ?H < (?W - 1) * ?W + ?H" using assms(4) by linarith
  then show ?thesis using assms(3-7) b by (simp add: OnCaptureResult_def Let_def writeEnd_def al)
qed

subsection \<open>Starting and stopping\<close>

text \<open>One object captures either screens or windows; starting it again without stopping it ends the process.\<close>

lemma capturer_thread:
  assumes "screenThread c = NoThread"
  shows "fst (thenDo (startCapturer c) (\<lambda>_. startWindowCapturer)) = Inl ProcessExit"
    "fst (thenDo (startCapturer c) (\<lambda>_ c. startCapturer (stopCapturer c))) = Inr ()"
    "fst (sc_setWindow i (snd (startCapturer (c\<lparr>windowCapturer := False\<rparr>)))) = Inl Undefined"
  using assms by (simp_all add: startCapturer_def startWindowCapturer_def stopCapturer_def sc_setWindow_def Let_def)

end
