(* ===== verification/Widgets.thy ===== *)
theory Widgets
  imports Application "HOL-Library.List_Lexorder"
begin

text \<open>
  The controls of the windows (\<open>core/component/module.h\<close>, \<open>core/component/widget.h\<close>) without their drawing:
  buttons, text fields, drop-down lists, check boxes and the volume bar as state machines over the events of
  the window. Where a control lies is the graphics library's: whether the mouse is inside its bounds is an
  argument, as is whether a text is too wide for its field. The shape of the mouse pointer is left out.
\<close>

subsection \<open>Events\<close>

text \<open>The events of \<open>sf::Event\<close> that the code distinguishes. The handlers read the mouse button as
  \<open>event.key.code\<close>, another member of the same union that starts with the same word.\<close>

datatype key = KeyLeft | KeyRight | KeyBackspace | KeyTab | KeyEnter | KeyF | KeyV | OtherKey

datatype mbutton = LeftButton | OtherButton

datatype sfevent =
    ClosedEvent
  | GainedFocus
  | KeyPressed key
  | TextEntered nat
  | MousePressed mbutton
  | MouseReleased mbutton
  | MouseMoved
  | OtherEvent

subsection \<open>Buttons\<close>

text \<open>\<open>VariableStateModule\<close> and \<open>VariableStateRoundModule\<close>; the shade is the one of the three colours that
  was last set.\<close>

datatype shade = FillShade | HoverShade | PressShade

record clicker =
  isPressed :: bool
  isHover :: bool
  activated :: bool
  filled :: bool
  shadeOf :: shade

definition clicker_new :: clicker where
  "clicker_new = \<lparr>isPressed = False, isHover = False, activated = True, filled = True, shadeOf = FillShade\<rparr>"

definition setShade :: "shade \<Rightarrow> clicker \<Rightarrow> clicker" where
  "setShade s b = (if filled b then b\<lparr>shadeOf := s\<rparr> else b)"

definition onClick :: "sfevent \<Rightarrow> bool \<Rightarrow> clicker \<Rightarrow> bool \<times> clicker" where
  "onClick e inside b =
     (if \<not> activated b then (False, b)
      else if inside then
        let b = (if \<not> isHover b then (setShade HoverShade b)\<lparr>isHover := True\<rparr> else b);
            (flag, b) = (if e = MouseReleased LeftButton \<and> isPressed b
                         then (True, setShade HoverShade (b\<lparr>isPressed := False\<rparr>)) else (False, b));
            b = (if e = MousePressed LeftButton
                 then (if \<not> isPressed b then setShade PressShade b else b)\<lparr>isPressed := True\<rparr> else b)
        in (flag, b)
      else (False, if isHover b then (setShade FillShade b)\<lparr>isHover := False\<rparr> else b))"

text \<open>\<open>TextRoundRectangle\<close> has its own \<open>onClick\<close>, which also sets the colours of its text and of its edge.\<close>

record textbutton =
  button :: clicker
  textHover :: bool
  edgePressed :: bool

definition TextRoundRectangle :: "bool \<Rightarrow> textbutton" where
  "TextRoundRectangle activate =
     \<lparr>button = clicker_new\<lparr>activated := activate\<rparr>, textHover = False, edgePressed = False\<rparr>"

definition setEdge :: "bool \<Rightarrow> textbutton \<Rightarrow> textbutton" where
  "setEdge p t = (if filled (button t) then t\<lparr>edgePressed := p\<rparr> else t)"

definition TextRoundRectangle_onClick :: "sfevent \<Rightarrow> bool \<Rightarrow> textbutton \<Rightarrow> bool \<times> textbutton" where
  "TextRoundRectangle_onClick e inside t =
     (let on = (\<lambda>f t. t\<lparr>button := f (button t)\<rparr>) in
      if \<not> activated (button t) then (False, t)
      else if inside then
        let t = (if \<not> isHover (button t)
                 then on (\<lambda>b. (setShade HoverShade b)\<lparr>isHover := True\<rparr>) (t\<lparr>textHover := True\<rparr>) else t);
            (flag, t) = (if e = MouseReleased LeftButton \<and> isPressed (button t)
                         then (True, setEdge False (on (\<lambda>b. setShade HoverShade (b\<lparr>isPressed := False\<rparr>)) t))
                         else (False, t));
            t = (if e = MousePressed LeftButton
                 then on (\<lambda>b. b\<lparr>isPressed := True\<rparr>)
                        (if \<not> isPressed (button t) then setEdge True (on (setShade PressShade) t) else t)
                 else t)
        in (flag, t)
      else
        (False,
         if isHover (button t)
         then setEdge False (on (\<lambda>b. (setShade FillShade b)\<lparr>isHover := False\<rparr>) (t\<lparr>textHover := False\<rparr>))
         else t))"

text \<open>\<open>TextRectangle\<close>: a button whose colour says whether it may be used.\<close>

record textrect =
  face :: clicker
  rectActive :: bool

definition TextRectangle_init :: textrect where
  "TextRectangle_init = \<lparr>face = clicker_new\<lparr>filled := False\<rparr>, rectActive = False\<rparr>"

definition TextRectangle_setActive :: "bool \<Rightarrow> textrect \<Rightarrow> textrect" where
  "TextRectangle_setActive v t = t\<lparr>rectActive := v\<rparr>"

text \<open>\<open>CheckBoxModule\<close>: the two rectangles it shows have their own bounds.\<close>

record checkbox =
  isCheck :: bool
  checkPress :: bool
  checkHover :: bool

definition CheckBox_new :: checkbox where
  "CheckBox_new = \<lparr>isCheck = False, checkPress = False, checkHover = False\<rparr>"

definition CheckBox_reset :: "checkbox \<Rightarrow> checkbox" where
  "CheckBox_reset c = c\<lparr>isCheck := False\<rparr>"

definition CheckBox_press :: "bool \<Rightarrow> sfevent \<Rightarrow> checkbox \<Rightarrow> bool \<times> checkbox" where
  "CheckBox_press checked e c =
     (let (flag, c) = (if e = MouseReleased LeftButton \<and> checkPress c
                       then (True, c\<lparr>checkPress := False, isCheck := checked\<rparr>) else (False, c))
      in (flag, if e = MousePressed LeftButton then c\<lparr>checkPress := True\<rparr> else c))"

definition CheckBox_onClick :: "sfevent \<Rightarrow> bool \<Rightarrow> bool \<Rightarrow> checkbox \<Rightarrow> bool \<times> checkbox" where
  "CheckBox_onClick e inBox inUncheck c =
     (if isCheck c then
        let c = c\<lparr>checkHover := True\<rparr>
        in if inBox then CheckBox_press False e c else (False, c\<lparr>checkHover := False\<rparr>)
      else if inUncheck then CheckBox_press True e (c\<lparr>checkHover := True\<rparr>)
      else (False, c\<lparr>checkHover := False\<rparr>))"

subsection \<open>Text fields\<close>

text \<open>\<open>InputBoxModule\<close>: the entered text, the text it shows and the caret.\<close>

record inputbox =
  boxFace :: clicker
  entered :: string
  shown :: wstring
  defaultDesc :: wstring
  cursorPosition :: int
  boxActive :: bool
  untouched :: bool

definition InputBox_new :: "wstring \<Rightarrow> inputbox" where
  "InputBox_new d = \<lparr>boxFace = clicker_new, entered = [], shown = d, defaultDesc = d, cursorPosition = 0,
     boxActive = False, untouched = True\<rparr>"

definition InputBox_setActive :: "bool \<Rightarrow> inputbox \<Rightarrow> inputbox" where
  "InputBox_setActive v b =
     (let b = b\<lparr>boxActive := v\<rparr>
      in if v then
           let b = (if untouched b then b\<lparr>shown := [], cursorPosition := 0, untouched := False\<rparr> else b)
           in b\<lparr>boxFace := (boxFace b)\<lparr>shadeOf := PressShade\<rparr>\<rparr>
         else b\<lparr>boxFace := (boxFace b)\<lparr>shadeOf := FillShade\<rparr>\<rparr>)"

definition resetText :: "inputbox \<Rightarrow> inputbox" where
  "resetText b = b\<lparr>untouched := True, shown := defaultDesc b, entered := [], cursorPosition := 0\<rparr>"

definition getEnterText :: "inputbox \<Rightarrow> string \<times> inputbox" where
  "getEnterText b = (entered b, resetText b)"

text \<open>\<open>truncateText\<close> drops characters from the end until the text is narrow enough.\<close>

function truncateText :: "(wstring \<Rightarrow> bool) \<Rightarrow> wstring \<Rightarrow> wstring" where
  "truncateText wider s = (if wider s \<and> s \<noteq> [] then truncateText wider (butlast s) else s)"
  by pat_completeness auto
termination
  by (relation "measure (\<lambda>(wider, s). length s)") auto

declare truncateText.simps [simp del]

text \<open>Between \<open>std::string\<close> and \<open>sf::String\<close> the characters are those of the \<open>C\<close> locale.\<close>

definition setInputVal :: "(wstring \<Rightarrow> bool) \<Rightarrow> string \<Rightarrow> inputbox \<Rightarrow> inputbox" where
  "setInputVal wider v b =
     (let s = truncateText wider (wide v)
      in b\<lparr>shown := s, entered := map char_of s, cursorPosition := int (length s), untouched := False\<rparr>)"

definition inputEmpty :: "inputbox \<Rightarrow> bool" where
  "inputEmpty b = (entered b = [])"

definition typeChar :: "(wstring \<Rightarrow> bool) \<Rightarrow> nat \<Rightarrow> inputbox \<Rightarrow> inputbox" where
  "typeChar full u b =
     (if full (shown b) then b
      else
        let ch = char_of u; c = cursorPosition b;
            b = (if 0 \<le> c \<and> c < int (length (entered b))
                 then b\<lparr>entered := take (nat c) (entered b) @ [ch] @ drop (nat c) (entered b)\<rparr>
                 else b\<lparr>entered := entered b @ [ch]\<rparr>);
            b = b\<lparr>cursorPosition := c + 1\<rparr>
        in b\<lparr>shown := wide (entered b)\<rparr>)"

text \<open>\<open>std::string::erase\<close> throws for a position behind the end.\<close>

definition eraseChar :: "inputbox \<Rightarrow> inputbox res" where
  "eraseChar b =
     (let p = nat (cursorPosition b - 1)
      in if p > length (entered b) then Inl OutOfRange
         else
           let b = b\<lparr>entered := take p (entered b) @ drop (Suc p) (entered b), cursorPosition := cursorPosition b - 1\<rparr>
           in Inr (b\<lparr>shown := wide (entered b)\<rparr>))"

definition InputBox_eventProcess :: "(wstring \<Rightarrow> bool) \<Rightarrow> sfevent \<Rightarrow> inputbox \<Rightarrow> inputbox res" where
  "InputBox_eventProcess full e b =
     (if \<not> boxActive b then Inr b
      else case e of
        TextEntered u \<Rightarrow> Inr (if 32 < u \<and> u \<le> 126 then typeChar full u b else b)
      | KeyPressed KeyLeft \<Rightarrow>
          Inr (if cursorPosition b > 0 then b\<lparr>cursorPosition := cursorPosition b - 1\<rparr> else b)
      | KeyPressed KeyRight \<Rightarrow>
          Inr (if cursorPosition b < int (length (entered b)) then b\<lparr>cursorPosition := cursorPosition b + 1\<rparr> else b)
      | KeyPressed KeyBackspace \<Rightarrow> if cursorPosition b > 0 then eraseChar b else Inr b
      | _ \<Rightarrow> Inr b)"

definition InputBox_onClick :: "sfevent \<Rightarrow> bool \<Rightarrow> inputbox \<Rightarrow> bool \<times> inputbox" where
  "InputBox_onClick e inside b =
     (let on = (\<lambda>f b. b\<lparr>boxFace := f (boxFace b)\<rparr>) in
      if \<not> activated (boxFace b) then (False, b)
      else if inside then
        let b = (if \<not> isHover (boxFace b)
                 then on (\<lambda>c. (if \<not> boxActive b then setShade HoverShade c else c)\<lparr>isHover := True\<rparr>) b else b);
            (flag, b) = (if e = MouseReleased LeftButton \<and> isPressed (boxFace b)
                         then (True, on (\<lambda>c. c\<lparr>isPressed := False\<rparr>) b) else (False, b));
            b = (if e = MousePressed LeftButton
                 then on (\<lambda>c. c\<lparr>isPressed := True\<rparr>)
                        (if \<not> isPressed (boxFace b) then InputBox_setActive True b else b)
                 else b)
        in (flag, b)
      else
        (False,
         if isHover (boxFace b)
         then on (\<lambda>c. (if \<not> boxActive b then c\<lparr>shadeOf := FillShade\<rparr> else c)\<lparr>isHover := False\<rparr>) b
         else b))"

text \<open>\<open>EnterDescriptionWidget\<close>: a text field with a caption.\<close>

definition Enter_eventProcess ::
  "(wstring \<Rightarrow> bool) \<Rightarrow> sfevent \<Rightarrow> bool \<Rightarrow> inputbox \<Rightarrow> (bool \<times> inputbox) res" where
  "Enter_eventProcess full e inside b =
     (let (isClick, b) = InputBox_onClick e inside b;
          b = (if isClick then InputBox_setActive True b
               else if e = MousePressed LeftButton \<or> e = KeyPressed KeyEnter then InputBox_setActive False b
               else b)
      in andThen (InputBox_eventProcess full e b) (\<lambda>b. Inr (isClick, b)))"

subsection \<open>Drop-down lists\<close>

text \<open>\<open>DropListModule\<close>: a map from the labels to their buttons. Which labels the mouse is inside is an
  argument.\<close>

record droplist =
  labelList :: "(wstring \<times> textbutton) list"
  selectedLabel :: wstring
  labelLimit :: nat
  showList :: bool
  isPoint :: bool

definition DropList_init :: "nat \<Rightarrow> droplist" where
  "DropList_init limit = \<lparr>labelList = [], selectedLabel = [], labelLimit = limit, showList = False, isPoint = False\<rparr>"

definition DropList_reset :: "droplist \<Rightarrow> droplist" where
  "DropList_reset l = l\<lparr>isPoint := False, selectedLabel := [], labelList := []\<rparr>"

definition DropList_setShow :: "bool \<Rightarrow> droplist \<Rightarrow> droplist" where
  "DropList_setShow v l = l\<lparr>showList := v\<rparr>"

definition switchShow :: "droplist \<Rightarrow> droplist" where
  "switchShow l = l\<lparr>showList := \<not> showList l\<rparr>"

definition addLabel :: "wstring \<Rightarrow> bool \<Rightarrow> droplist \<Rightarrow> droplist" where
  "addLabel label activate l =
     (if length (labelList l) \<ge> labelLimit l then l
      else if map_of (labelList l) label \<noteq> None then l
      else l\<lparr>labelList := map_emplace label (TextRoundRectangle activate) (labelList l)\<rparr>)"

fun clickLabels ::
  "sfevent \<Rightarrow> (wstring \<Rightarrow> bool) \<Rightarrow> (wstring \<times> textbutton) list \<Rightarrow> wstring option \<times> (wstring \<times> textbutton) list" where
  "clickLabels e inside [] = (None, [])"
| "clickLabels e inside ((k, b) # m) =
     (case TextRoundRectangle_onClick e (inside k) b of
        (True, b) \<Rightarrow> (Some k, (k, b) # m)
      | (False, b) \<Rightarrow> (case clickLabels e inside m of (r, m) \<Rightarrow> (r, (k, b) # m)))"

definition DropList_eventProcess :: "sfevent \<Rightarrow> (wstring \<Rightarrow> bool) \<Rightarrow> bool \<Rightarrow> droplist \<Rightarrow> bool \<times> droplist" where
  "DropList_eventProcess e inside clipHide l =
     (if \<not> showList l then (False, l)
      else case clickLabels e inside (labelList l) of
        (Some k, m) \<Rightarrow>
          let l = l\<lparr>labelList := m, selectedLabel := k\<rparr>;
              l = (if clipHide then switchShow l else l)
          in (True, l\<lparr>isPoint := True\<rparr>)
      | (None, m) \<Rightarrow> (False, l\<lparr>labelList := m\<rparr>))"

text \<open>\<open>DropDescriptionWidget\<close>: a button that shows the chosen label, over its list.\<close>

record dropwidget =
  rect :: clicker
  description :: wstring
  defaultDescription :: wstring
  dropList :: droplist

definition DropWidget_new :: "wstring \<Rightarrow> wstring list \<Rightarrow> dropwidget" where
  "DropWidget_new dflt labels =
     \<lparr>rect = clicker_new, description = dflt, defaultDescription = dflt,
      dropList = fold (\<lambda>k. addLabel k True) labels (DropList_init 5)\<rparr>"

definition DropWidget_reset :: "dropwidget \<Rightarrow> dropwidget" where
  "DropWidget_reset d = d\<lparr>dropList := DropList_setShow False (dropList d), description := defaultDescription d\<rparr>"

definition getSelectedLabel :: "dropwidget \<Rightarrow> wstring" where
  "getSelectedLabel d = description d"

definition DropWidget_eventProcess :: "sfevent \<Rightarrow> bool \<Rightarrow> (wstring \<Rightarrow> bool) \<Rightarrow> dropwidget \<Rightarrow> bool \<times> dropwidget" where
  "DropWidget_eventProcess e inRect inLabel d =
     (case onClick e inRect (rect d) of
        (True, b) \<Rightarrow> (False, d\<lparr>rect := b, dropList := DropList_setShow True (dropList d)\<rparr>)
      | (False, b) \<Rightarrow>
          (case DropList_eventProcess e inLabel True (dropList d) of
             (True, l) \<Rightarrow> (True, d\<lparr>rect := b, dropList := l, description := selectedLabel l\<rparr>)
           | (False, l) \<Rightarrow>
               (False, d\<lparr>rect := b,
                         dropList := if e = MouseReleased LeftButton then DropList_setShow False l else l\<rparr>)))"

subsection \<open>The volume bar\<close>

text \<open>\<open>SeekBarModule\<close>. Positions are exact numbers in place of \<open>float\<close>; the circle is at the place where it is
  drawn, \<open>pos\<close> at the place that \<open>data\<close> reads. Whether the mouse is inside the circle or the bar is an argument.\<close>

type_synonym vec = "rat \<times> rat"

record seekbar =
  originalSize :: vec
  originalPosition :: vec
  useBarOffset :: int
  defaultPosition :: vec
  barPos :: vec
  circlePos :: vec
  isHorizon :: bool
  isDragging :: bool
  circlePressed :: bool
  isBarPressed :: bool
  barHover :: bool
  barOffset :: vec

definition vplus :: "vec \<Rightarrow> vec \<Rightarrow> vec" where
  "vplus a b = (fst a + fst b, snd a + snd b)"

definition vminus :: "vec \<Rightarrow> vec \<Rightarrow> vec" where
  "vminus a b = (fst a - fst b, snd a - snd b)"

text \<open>A conversion to \<open>int\<close> drops the fraction.\<close>

definition truncInt :: "rat \<Rightarrow> int" where
  "truncInt x = (if 0 \<le> x then \<lfloor>x\<rfloor> else - \<lfloor>- x\<rfloor>)"

definition SeekBar_init :: "vec \<Rightarrow> vec \<Rightarrow> bool \<Rightarrow> rat \<Rightarrow> seekbar" where
  "SeekBar_init sz p horizon dflt =
     (let off = truncInt (fst sz * dflt);
          d = (if horizon then (fst p + of_int off, snd p + snd sz / 2)
               else (fst p + fst sz / 2, snd p + of_int off))
      in \<lparr>originalSize = sz, originalPosition = p, useBarOffset = off, defaultPosition = d, barPos = p,
          circlePos = (of_int (truncInt (fst d)), of_int (truncInt (snd d))),
          isHorizon = horizon, isDragging = False, circlePressed = False, isBarPressed = False,
          barHover = False, barOffset = (0, 0)\<rparr>)"

definition SeekBar_reset :: "seekbar \<Rightarrow> seekbar" where
  "SeekBar_reset s = s\<lparr>circlePos := defaultPosition s\<rparr>"

definition SeekBar_eventProcess :: "sfevent \<Rightarrow> vec \<Rightarrow> bool \<Rightarrow> bool \<Rightarrow> seekbar \<Rightarrow> seekbar" where
  "SeekBar_eventProcess e mouse inCircle inBar s =
     (let s = (if inCircle then
                 if e = MousePressed LeftButton then
                   (if \<not> circlePressed s then s\<lparr>isDragging := True, barOffset := vminus (circlePos s) mouse\<rparr>
                    else s)\<lparr>circlePressed := True\<rparr>
                 else s
               else if inBar then
                 if e = MousePressed LeftButton then
                   (if \<not> isBarPressed s then s\<lparr>isDragging := True, barOffset := (0, 0)\<rparr> else s)\<lparr>isBarPressed := True\<rparr>
                 else s
               else s)
      in if e = MouseReleased LeftButton then
           let s = (if circlePressed s then s\<lparr>isDragging := False\<rparr> else s);
               s = (if isBarPressed s then s\<lparr>isDragging := False\<rparr> else s)
           in s\<lparr>circlePressed := False, isBarPressed := False\<rparr>
         else s)"

definition clampTo :: "rat \<Rightarrow> rat \<Rightarrow> rat \<Rightarrow> rat" where
  "clampTo lo hi x = (if x > hi then hi else if x < lo then lo else x)"

definition SeekBar_update :: "vec \<Rightarrow> bool \<Rightarrow> bool \<Rightarrow> seekbar \<Rightarrow> bool \<times> seekbar" where
  "SeekBar_update mouse inCircle inBar s =
     (if isDragging s then
        let new = vplus mouse (barOffset s); org = originalPosition s; sz = originalSize s
        in if isHorizon s then
             let x = clampTo (fst org) (fst sz + fst org) (fst new)
             in if fst (barPos s) \<noteq> x
                then (True, s\<lparr>barPos := (x, snd (barPos s)),
                              circlePos := (x, of_int (truncInt (snd (barPos s) + snd sz / 2)))\<rparr>)
                else (False, s)
           else
             let y = clampTo (snd org) (snd sz + snd org) (snd new)
             in if snd (barPos s) \<noteq> y
                then (True, s\<lparr>barPos := (fst (barPos s), y),
                              circlePos := (of_int (truncInt (fst (barPos s) + fst sz / 2)), y)\<rparr>)
                else (False, s)
      else (False, s\<lparr>barHover := inCircle \<or> inBar\<rparr>))"

definition SeekBar_data :: "seekbar \<Rightarrow> int" where
  "SeekBar_data s =
     (if isHorizon s then truncInt ((fst (barPos s) - fst (originalPosition s)) / fst (originalSize s) * 100)
      else truncInt ((snd (barPos s) - snd (originalPosition s)) / snd (originalSize s) * 100))"

subsection \<open>Texts\<close>

text \<open>\<open>WstrConv\<close>: between UTF-8 and the 16-bit wide characters of the platform. What is not well-formed, or
  does not fit 16 bits, is a conversion error.\<close>

definition badConversion :: "'a res" where
  "badConversion = Inl (RuntimeError ''bad conversion'')"

definition byteOf :: "char \<Rightarrow> nat" where
  "byteOf c = of_char c"

definition trailByte :: "char \<Rightarrow> bool" where
  "trailByte c \<longleftrightarrow> 128 \<le> byteOf c \<and> byteOf c < 192"

definition consTo :: "nat \<Rightarrow> wstring res \<Rightarrow> wstring res" where
  "consTo u r = andThen r (\<lambda>w. Inr (u # w))"

fun from_bytes :: "string \<Rightarrow> wstring res" where
  "from_bytes [] = Inr []"
| "from_bytes (a # s) =
     (let A = byteOf a in
      if A < 128 then consTo A (from_bytes s)
      else if A < 194 then badConversion
      else if A < 224 then
        (case s of b # s' \<Rightarrow> if trailByte b then consTo ((A - 192) * 64 + (byteOf b - 128)) (from_bytes s') else badConversion
         | _ \<Rightarrow> badConversion)
      else if A < 240 then
        (case s of b # c # s' \<Rightarrow>
           let u = (A - 224) * 4096 + (byteOf b - 128) * 64 + (byteOf c - 128)
           in if trailByte b \<and> trailByte c \<and> 2048 \<le> u \<and> \<not> (55296 \<le> u \<and> u < 57344)
              then consTo u (from_bytes s') else badConversion
         | _ \<Rightarrow> badConversion)
      else badConversion)"

definition utf8 :: "nat \<Rightarrow> string" where
  "utf8 u = map char_of
     (if u < 128 then [u]
      else if u < 2048 then [192 + u div 64, 128 + u mod 64]
      else [224 + u div 4096, 128 + u div 64 mod 64, 128 + u mod 64])"

definition to_bytes :: "wstring \<Rightarrow> string res" where
  "to_bytes w =
     (if list_all (\<lambda>u. u < 65536 \<and> \<not> (55296 \<le> u \<and> u < 57344)) w then Inr (concat (map utf8 w))
      else badConversion)"

subsection \<open>What a click is\<close>

lemma setShade_simps [simp]:
  "isPressed (setShade s b) = isPressed b" "isHover (setShade s b) = isHover b"
  "activated (setShade s b) = activated b" "filled (setShade s b) = filled b"
  by (simp_all add: setShade_def)

lemma onClick_spec [simp]:
  "fst (onClick e inside b) \<longleftrightarrow> activated b \<and> inside \<and> e = MouseReleased LeftButton \<and> isPressed b"
  "isPressed (snd (onClick e inside b)) \<longleftrightarrow>
     (if activated b \<and> inside \<and> e = MouseReleased LeftButton then False
      else activated b \<and> inside \<and> e = MousePressed LeftButton \<or> isPressed b)"
  "activated (snd (onClick e inside b)) = activated b"
  "filled (snd (onClick e inside b)) = filled b"
  by (auto simp: onClick_def Let_def)

lemma TextRoundRectangle_onClick_button [simp]:
  "fst (TextRoundRectangle_onClick e inside t) = fst (onClick e inside (button t))"
  "button (snd (TextRoundRectangle_onClick e inside t)) = snd (onClick e inside (button t))"
  by (auto simp: TextRoundRectangle_onClick_def onClick_def Let_def setEdge_def)

text \<open>The answers of a button to a sequence of events, each with whether the mouse is inside.\<close>

primrec clicks :: "(sfevent \<times> bool) list \<Rightarrow> clicker \<Rightarrow> bool list" where
  "clicks [] b = []"
| "clicks (x # xs) b = (case onClick (fst x) (snd x) b of (flag, b) \<Rightarrow> flag # clicks xs b)"

definition releasedIn :: "sfevent \<times> bool \<Rightarrow> bool" where
  "releasedIn x \<longleftrightarrow> x = (MouseReleased LeftButton, True)"

definition pressedIn :: "sfevent \<times> bool \<Rightarrow> bool" where
  "pressedIn x \<longleftrightarrow> x = (MousePressed LeftButton, True)"

text \<open>An earlier press inside the button that no release inside it has answered.\<close>

fun awaiting :: "bool \<Rightarrow> (sfevent \<times> bool) list \<Rightarrow> bool" where
  "awaiting p [] = p"
| "awaiting p (x # xs) = awaiting (\<not> releasedIn x \<and> (pressedIn x \<or> p)) xs"

definition quiet :: "(sfevent \<times> bool) list \<Rightarrow> bool" where
  "quiet xs \<longleftrightarrow> (\<forall>x \<in> set xs. \<not> releasedIn x)"

lemma quiet_simps [simp]: "quiet []" "quiet (x # xs) \<longleftrightarrow> \<not> releasedIn x \<and> quiet xs"
  by (auto simp: quiet_def)

lemma pressed_not_released: "pressedIn x \<Longrightarrow> \<not> releasedIn x"
  by (auto simp: pressedIn_def releasedIn_def)

lemma awaiting_iff:
  "awaiting p xs \<longleftrightarrow> (\<exists>ys x zs. xs = ys @ x # zs \<and> pressedIn x \<and> quiet zs) \<or> p \<and> quiet xs"
proof (induction xs arbitrary: p)
  case Nil
  then show ?case by simp
next
  case (Cons a xs)
  have "(\<exists>ys x zs. a # xs = ys @ x # zs \<and> pressedIn x \<and> quiet zs) \<longleftrightarrow>
      pressedIn a \<and> quiet xs \<or> (\<exists>ys x zs. xs = ys @ x # zs \<and> pressedIn x \<and> quiet zs)"
    (is "?L \<longleftrightarrow> ?R")
  proof
    show "?L \<Longrightarrow> ?R"
      by (auto simp: Cons_eq_append_conv)
    show "?R \<Longrightarrow> ?L"
      by (metis append_Cons append_Nil)
  qed
  then show ?case
    using pressed_not_released[of a] by (auto simp: Cons.IH)
qed

lemma clicks_awaiting:
  "activated b \<Longrightarrow> i < length xs \<Longrightarrow>
     clicks xs b ! i \<longleftrightarrow> releasedIn (xs ! i) \<and> awaiting (isPressed b) (take i xs)"
proof (induction xs arbitrary: b i)
  case Nil
  then show ?case by simp
next
  case (Cons x xs)
  let ?b = "snd (onClick (fst x) (snd x) b)"
  have clicks: "clicks (x # xs) b = fst (onClick (fst x) (snd x) b) # clicks xs ?b"
    by (simp add: case_prod_beta)
  show ?case
  proof (cases i)
    case 0
    then show ?thesis
      using Cons.prems unfolding clicks by (cases x) (auto simp: releasedIn_def)
  next
    case (Suc k)
    have "isPressed ?b \<longleftrightarrow> \<not> releasedIn x \<and> (pressedIn x \<or> isPressed b)"
      using Cons.prems by (cases x) (auto simp: releasedIn_def pressedIn_def)
    then show ?thesis
      using Cons.IH[of ?b k] Cons.prems Suc unfolding clicks by simp
  qed
qed

lemma length_clicks [simp]: "length (clicks xs b) = length xs"
  by (induction xs arbitrary: b) (auto split: prod.splits)

theorem click_needs_press:
  assumes "activated b" "\<not> isPressed b" "i < length xs"
  shows "clicks xs b ! i \<longleftrightarrow>
    releasedIn (xs ! i) \<and> (\<exists>ys x zs. take i xs = ys @ x # zs \<and> pressedIn x \<and> quiet zs)"
  using assms by (simp add: clicks_awaiting awaiting_iff)

text \<open>A press inside stays in effect when the mouse leaves and is released elsewhere: entering again with a
  button pressed outside and releasing it is a click.\<close>

lemma stale_press_clicks:
  "clicks [(MousePressed LeftButton, True), (MouseReleased LeftButton, False),
           (MousePressed LeftButton, False), (MouseReleased LeftButton, True)] clicker_new =
     [False, False, False, True]"
  by code_simp

subsection \<open>Editing a text\<close>

text \<open>What a text field means: the text before the caret and the text behind it.\<close>

type_synonym caret = "string \<times> string"

definition caretOf :: "inputbox \<Rightarrow> caret" where
  "caretOf b = (take (nat (cursorPosition b)) (entered b), drop (nat (cursorPosition b)) (entered b))"

fun edit :: "(wstring \<Rightarrow> bool) \<Rightarrow> sfevent \<Rightarrow> caret \<Rightarrow> caret" where
  "edit full (TextEntered u) (l, r) =
     (if 32 < u \<and> u \<le> 126 \<and> \<not> full (wide (l @ r)) then (l @ [char_of u], r) else (l, r))"
| "edit full (KeyPressed KeyLeft) (l, r) = (if l = [] then (l, r) else (butlast l, last l # r))"
| "edit full (KeyPressed KeyRight) (l, r) = (if r = [] then (l, r) else (l @ [hd r], tl r))"
| "edit full (KeyPressed KeyBackspace) (l, r) = (butlast l, r)"
| "edit full e c = c"

text \<open>A field that may be typed into: the caret is within the text, and the text is what is shown.\<close>

definition box_inv :: "inputbox \<Rightarrow> bool" where
  "box_inv b \<longleftrightarrow> 0 \<le> cursorPosition b \<and> cursorPosition b \<le> int (length (entered b)) \<and>
     (if untouched b then entered b = [] else shown b = wide (entered b)) \<and> (boxActive b \<longrightarrow> \<not> untouched b)"

lemma length_wide [simp]: "length (wide s) = length s"
  by (simp add: wide_def)

lemma map_char_of_wide [simp]: "map char_of (wide s) = s"
  by (simp add: wide_def)

lemma truncateText_prefix: "\<exists>n. truncateText wider s = take n s"
proof (induction wider s rule: truncateText.induct)
  case (1 wider s)
  show ?case
  proof (cases "wider s \<and> s \<noteq> []")
    case True
    then obtain n where "truncateText wider (butlast s) = take n (butlast s)"
      using 1 by blast
    then have "truncateText wider s = take (min n (length s - 1)) s"
      using True by (subst truncateText.simps) (simp add: butlast_conv_take)
    then show ?thesis ..
  next
    case False
    then have "truncateText wider s = take (length s) s"
      using truncateText.simps[of wider s] by auto
    then show ?thesis ..
  qed
qed

lemma truncateText_fits: "\<not> wider [] \<Longrightarrow> \<not> wider (truncateText wider s)"
  by (induction wider s rule: truncateText.induct) (subst truncateText.simps, auto)

lemma wide_Nil [simp]: "wide [] = []"
  by (simp add: wide_def)

lemma box_inv_ops [simp]:
  "box_inv (InputBox_new d)"
  "box_inv b \<Longrightarrow> box_inv (InputBox_setActive v b)"
  "\<not> boxActive b \<Longrightarrow> box_inv (resetText b)"
  by (auto simp: box_inv_def InputBox_new_def InputBox_setActive_def resetText_def Let_def)

lemma wide_char_of: "wide (map char_of (take n (wide v))) = take n (wide v)"
  by (simp add: wide_def take_map)

lemma box_inv_setInputVal [simp]: "box_inv (setInputVal wider v b)"
proof -
  obtain n where "truncateText wider (wide v) = take n (wide v)"
    using truncateText_prefix by blast
  then show ?thesis
    by (simp add: box_inv_def setInputVal_def wide_char_of Let_def)
qed

lemma InputBox_step:
  assumes "box_inv b" "boxActive b"
  shows "\<exists>b'. InputBox_eventProcess full e b = Inr b' \<and> box_inv b' \<and> boxActive b' \<and>
    caretOf b' = edit full e (caretOf b)"
proof -
  obtain c where c: "cursorPosition b = int c" "c \<le> length (entered b)"
    using assms zero_le_imp_eq_int by (auto simp: box_inv_def)
  have shown: "shown b = wide (entered b)" "\<not> untouched b"
    using assms by (auto simp: box_inv_def)
  note defs = box_inv_def caretOf_def InputBox_eventProcess_def
  show ?thesis
  proof (cases e)
    case (TextEntered u)
    then show ?thesis
      using assms c shown by (auto simp: defs typeChar_def Let_def nat_add_distrib)
  next
    case (KeyPressed k)
    then show ?thesis
    proof (cases k)
      case KeyLeft
      have "drop (c - Suc 0) (entered b) = entered b ! (c - Suc 0) # drop c (entered b)" if "0 < c"
        using c that Cons_nth_drop_Suc[of "c - Suc 0" "entered b"] by simp
      then show ?thesis
        using KeyLeft KeyPressed assms c shown
        by (auto simp: defs nat_diff_distrib butlast_take last_conv_nth min_def)
    next
      case KeyRight
      then show ?thesis
        using KeyPressed assms c shown
        by (auto simp: defs nat_add_distrib take_Suc_conv_app_nth hd_drop_conv_nth drop_Suc tl_drop)
    next
      case KeyBackspace
      then show ?thesis
        using KeyPressed assms c shown
        by (auto simp: defs eraseChar_def Let_def nat_diff_distrib butlast_take min_def)
    qed (use assms KeyPressed in \<open>simp_all add: InputBox_eventProcess_def\<close>)
  qed (use assms in \<open>simp_all add: InputBox_eventProcess_def\<close>)
qed

text \<open>Typing into a field.\<close>

primrec type_run :: "(wstring \<Rightarrow> bool) \<Rightarrow> sfevent list \<Rightarrow> inputbox \<Rightarrow> inputbox res" where
  "type_run full [] b = Inr b"
| "type_run full (e # es) b = andThen (InputBox_eventProcess full e b) (type_run full es)"

lemma caretOf_entered: "fst (caretOf b) @ snd (caretOf b) = entered b"
  by (simp add: caretOf_def)

text \<open>C35: a text field that is in use does what an editor with a text before and a text behind its caret does, for every
  sequence of events and every limit of its width; it never throws, and what it gives out is the whole text.\<close>

theorem input_editing:
  assumes "box_inv b" "boxActive b"
  shows "\<exists>b'. type_run full es b = Inr b' \<and> box_inv b' \<and>
    caretOf b' = fold (edit full) es (caretOf b) \<and> fst (getEnterText b') = fst (caretOf b') @ snd (caretOf b')"
  using assms
proof (induction es arbitrary: b)
  case Nil
  then show ?case by (simp add: getEnterText_def caretOf_entered)
next
  case (Cons e es)
  obtain b' where b': "InputBox_eventProcess full e b = Inr b'" "box_inv b'" "boxActive b'"
      "caretOf b' = edit full e (caretOf b)"
    using InputBox_step[OF Cons.prems] by blast
  then show ?case
    using Cons.IH[of b'] by auto
qed

theorem input_editing_witness:
  "\<exists>b. type_run (\<lambda>s. length s \<ge> 20)
      [TextEntered 97, TextEntered 99, KeyPressed KeyLeft, TextEntered 98, KeyPressed KeyBackspace,
       TextEntered 66, KeyPressed KeyRight, TextEntered 100]
      (InputBox_setActive True (InputBox_new [63])) = Inr b \<and> fst (getEnterText b) = ''aBcd''"
proof -
  let ?b = "InputBox_setActive True (InputBox_new [63])"
  let ?es = "[TextEntered 97, TextEntered 99, KeyPressed KeyLeft, TextEntered 98, KeyPressed KeyBackspace,
       TextEntered 66, KeyPressed KeyRight, TextEntered 100]"
  have "fold (edit (\<lambda>s. length s \<ge> 20)) ?es (caretOf ?b) = (''aBcd'', [])"
    by code_simp
  moreover have "boxActive ?b"
    by code_simp
  ultimately show ?thesis
    using input_editing[of ?b "\<lambda>s. length s \<ge> 20" ?es] by auto
qed

text \<open>Resetting a field that is still active leaves the next text hidden: a click on the field empties what
  it shows and moves the caret, but keeps what was entered.\<close>

lemma reset_while_active:
  "(case type_run (\<lambda>s. False) [TextEntered 97] (resetText (InputBox_setActive True (InputBox_new [63]))) of
      Inr b \<Rightarrow> (let b = InputBox_setActive True b in (entered b, shown b, cursorPosition b))
    | Inl _ \<Rightarrow> ([], [], 0)) = (''a'', [], 0)"
  by code_simp

subsection \<open>Labels\<close>

lemma byteOf_less: "byteOf c < 256"
  by (simp add: byteOf_def)

lemma char_of_byteOf [simp]: "char_of (byteOf c) = c"
  by (simp add: byteOf_def)

lemma digit64:
  fixes q r :: nat
  shows "r < 64 \<Longrightarrow> (q * 64 + r) div 64 = q" "r < 64 \<Longrightarrow> (q * 64 + r) mod 64 = r"
  by simp_all

lemma two_bytes:
  fixes A B :: nat
  assumes "194 \<le> A" "A < 224" "128 \<le> B" "B < 192"
  defines "u \<equiv> (A - 192) * 64 + (B - 128)"
  shows "128 \<le> u" "u < 2048" "192 + u div 64 = A" "128 + u mod 64 = B"
proof -
  have "u div 64 = A - 192" "u mod 64 = B - 128"
    using digit64[of "B - 128" "A - 192"] assms(4) unfolding u_def by linarith+
  then show "192 + u div 64 = A" "128 + u mod 64 = B"
    using assms by simp_all
  show "128 \<le> u" "u < 2048"
    using assms unfolding u_def by linarith+
qed

lemma three_bytes:
  fixes A B C :: nat
  assumes "224 \<le> A" "A < 240" "128 \<le> B" "B < 192" "128 \<le> C" "C < 192"
  defines "u \<equiv> (A - 224) * 4096 + (B - 128) * 64 + (C - 128)"
  shows "u < 65536" "224 + u div 4096 = A" "128 + u div 64 mod 64 = B" "128 + u mod 64 = C"
proof -
  have u: "u = ((A - 224) * 64 + (B - 128)) * 64 + (C - 128)"
    unfolding u_def by simp
  have low: "u div 64 = (A - 224) * 64 + (B - 128)" "u mod 64 = C - 128"
    using digit64[of "C - 128" "(A - 224) * 64 + (B - 128)"] assms(6) unfolding u by linarith+
  have "u div 4096 = u div 64 div 64"
    by (simp add: div_mult2_eq[symmetric])
  then have "u div 4096 = A - 224" "u div 64 mod 64 = B - 128"
    using digit64[of "B - 128" "A - 224"] assms(4) unfolding low by linarith+
  then show "224 + u div 4096 = A" "128 + u div 64 mod 64 = B" "128 + u mod 64 = C"
    using assms low by simp_all
  show "u < 65536"
    using assms unfolding u_def by linarith
qed

lemma to_bytes_Cons:
  "to_bytes w = Inr s \<Longrightarrow> u < 65536 \<Longrightarrow> \<not> (55296 \<le> u \<and> u < 57344) \<Longrightarrow> to_bytes (u # w) = Inr (utf8 u @ s)"
  by (auto simp: to_bytes_def badConversion_def split: if_splits)

declare from_bytes.simps(2) [simp del]

lemma bytes_text: "from_bytes s = Inr w \<Longrightarrow> to_bytes w = Inr s"
proof (induction s arbitrary: w rule: from_bytes.induct)
  case 1
  then show ?case by (simp add: to_bytes_def)
next
  case (2 a s)
  note run = "2.prems"[unfolded from_bytes.simps(2) Let_def]
  consider "byteOf a < 128" | "194 \<le> byteOf a" "byteOf a < 224" | "224 \<le> byteOf a" "byteOf a < 240"
  proof -
    have "\<not> (128 \<le> byteOf a \<and> byteOf a < 194)" "byteOf a < 240"
      using run by (auto simp: badConversion_def split: if_splits)
    then show thesis
      using that by linarith
  qed
  then show ?case
  proof cases
    case 1
    then obtain v where "from_bytes s = Inr v" "w = byteOf a # v"
      using run by (auto simp: consTo_def andThen_eq_Inr)
    then show ?thesis
      using 1 "2.IH"(1) by (simp add: to_bytes_Cons utf8_def)
  next
    case 2
    then obtain b t v where s: "s = b # t" and b: "trailByte b" and v: "from_bytes t = Inr v"
        and w: "w = ((byteOf a - 192) * 64 + (byteOf b - 128)) # v"
      using run
      by (auto simp: consTo_def andThen_eq_Inr badConversion_def split: list.splits if_splits)
    have "to_bytes v = Inr t"
      using "2.IH"(2) 2 s b v by simp
    then show ?thesis
      using two_bytes[of "byteOf a" "byteOf b"] 2 b s w by (simp add: to_bytes_Cons utf8_def trailByte_def)
  next
    case 3
    define u where "u b c = (byteOf a - 224) * 4096 + (byteOf b - 128) * 64 + (byteOf c - 128)" for b c
    obtain b c t v where s: "s = b # c # t" and b: "trailByte b" "trailByte c"
        and v: "from_bytes t = Inr v" and w: "w = u b c # v"
        and u: "2048 \<le> u b c" "\<not> (55296 \<le> u b c \<and> u b c < 57344)"
      using run 3 unfolding u_def[symmetric]
      by (auto simp: consTo_def andThen_eq_Inr badConversion_def split: list.splits if_splits)
    have "to_bytes v = Inr t"
      using "2.IH"(3)[OF refl _ _ _ _ s refl refl] 3 b v u by (simp add: u_def)
    have bounds: "224 \<le> byteOf a" "byteOf a < 240" "128 \<le> byteOf b" "byteOf b < 192"
        "128 \<le> byteOf c" "byteOf c < 192"
      using 3 b by (simp_all add: trailByte_def)
    note tb = three_bytes[OF bounds, folded u_def]
    have "utf8 (u b c) = [a, b, c]"
      using u(1) unfolding utf8_def by (simp only: tb) simp
    then show ?thesis
      using to_bytes_Cons[OF \<open>to_bytes v = Inr t\<close> tb(1) u(2)] s w by simp
  qed
qed

subsection \<open>Labels of a list\<close>

definition keysOf :: "droplist \<Rightarrow> wstring set" where
  "keysOf l = fst ` set (labelList l)"

lemma clickLabels_Cons:
  "clickLabels e inside ((k, b) # m) =
     (if fst (onClick e (inside k) (button b)) then (Some k, (k, snd (TextRoundRectangle_onClick e (inside k) b)) # m)
      else (fst (clickLabels e inside m),
            (k, snd (TextRoundRectangle_onClick e (inside k) b)) # snd (clickLabels e inside m)))"
  using TextRoundRectangle_onClick_button(1)[of e "inside k" b]
  by (cases "TextRoundRectangle_onClick e (inside k) b"; cases "fst (onClick e (inside k) (button b))")
    (simp_all add: case_prod_beta del: onClick_spec)

declare clickLabels.simps(2) [simp del]

lemma clickLabels_keys: "map fst (snd (clickLabels e inside m)) = map fst m"
  by (induction m) (auto simp: clickLabels_Cons)

lemma clickLabels_set: "fst ` set (snd (clickLabels e inside m)) = fst ` set m"
  by (metis clickLabels_keys list.set_map)

lemma clickLabels_Some: "fst (clickLabels e inside m) = Some k \<Longrightarrow> k \<in> fst ` set m \<and> inside k"
  by (induction m) (auto simp: clickLabels_Cons split: if_splits)

lemma DropList_event_keys [simp]: "keysOf (snd (DropList_eventProcess e inside hide l)) = keysOf l"
proof (cases "clickLabels e inside (labelList l)")
  case (Pair r m)
  then have "fst ` set m = fst ` set (labelList l)"
    using clickLabels_set[of e inside "labelList l"] by simp
  then show ?thesis
    by (cases r) (simp_all add: Pair DropList_eventProcess_def keysOf_def switchShow_def Let_def)
qed

lemma DropList_event_selected:
  "fst (DropList_eventProcess e inside hide l) \<Longrightarrow>
     selectedLabel (snd (DropList_eventProcess e inside hide l)) \<in> keysOf l"
  using clickLabels_Some[of e inside "labelList l"]
  by (auto simp: DropList_eventProcess_def Let_def keysOf_def switchShow_def split: prod.splits option.splits if_splits)

lemma keysOf_simps [simp]:
  "keysOf (DropList_init n) = {}" "keysOf (DropList_reset l) = {}" "keysOf (DropList_setShow v l) = keysOf l"
  "keysOf (switchShow l) = keysOf l"
  by (simp_all add: keysOf_def DropList_init_def DropList_reset_def DropList_setShow_def switchShow_def)

lemma keysOf_addLabel:
  "keysOf (addLabel k act l) = (if length (labelList l) \<ge> labelLimit l then keysOf l else insert k (keysOf l))"
  by (auto simp: addLabel_def keysOf_def map_emplace_def keys_map_put map_of_eq_None_iff image_iff)

lemma addLabel_limit [simp]:
  "labelLimit (addLabel k act l) = labelLimit l" "showList (addLabel k act l) = showList l"
  by (simp_all add: addLabel_def)

lemma length_map_put: "length (map_put k v m) \<le> Suc (length m)"
  by (induction k v m rule: map_put.induct) auto

lemma length_addLabel: "length (labelList l) \<le> labelLimit l \<Longrightarrow> length (labelList (addLabel k act l)) \<le> labelLimit l"
  using length_map_put[of k "TextRoundRectangle act" "labelList l"]
  by (simp add: addLabel_def map_emplace_def)

text \<open>A drop-down shows its default or one of its labels.\<close>

definition drop_inv :: "wstring set \<Rightarrow> dropwidget \<Rightarrow> bool" where
  "drop_inv S d \<longleftrightarrow> defaultDescription d \<in> S \<and> keysOf (dropList d) \<subseteq> S \<and> description d \<in> S"

lemma drop_inv_label: "drop_inv S d \<Longrightarrow> getSelectedLabel d \<in> S"
  by (simp add: drop_inv_def getSelectedLabel_def)

lemma drop_inv_reset [simp]: "drop_inv S d \<Longrightarrow> drop_inv S (DropWidget_reset d)"
  by (simp add: drop_inv_def DropWidget_reset_def)

lemma drop_inv_event:
  assumes "drop_inv S d"
  shows "drop_inv S (snd (DropWidget_eventProcess e r i d))"
proof (cases "DropList_eventProcess e i True (dropList d)")
  case (Pair c l)
  have "keysOf l = keysOf (dropList d)" "c \<Longrightarrow> selectedLabel l \<in> keysOf (dropList d)"
    using DropList_event_keys[of e i True "dropList d"] DropList_event_selected[of e i True "dropList d"]
    by (simp_all add: Pair)
  then show ?thesis
    using assms by (auto simp: Pair drop_inv_def DropWidget_eventProcess_def split: prod.splits bool.splits)
qed

lemma keysOf_fold: "keysOf (fold (\<lambda>k. addLabel k act) ks l) \<subseteq> keysOf l \<union> set ks"
proof (induction ks arbitrary: l)
  case Nil
  then show ?case by simp
next
  case (Cons k ks)
  have "keysOf (addLabel k act l) \<subseteq> insert k (keysOf l)"
    by (auto simp: keysOf_addLabel)
  then show ?case
    using Cons.IH[of "addLabel k act l"] by auto
qed

lemma drop_inv_new [simp]: "dflt \<in> S \<Longrightarrow> set ks \<subseteq> S \<Longrightarrow> drop_inv S (DropWidget_new dflt ks)"
  using keysOf_fold[of True ks "DropList_init 5"] by (auto simp: drop_inv_def DropWidget_new_def)

subsection \<open>The volume\<close>

definition seek_inv :: "seekbar \<Rightarrow> bool" where
  "seek_inv s \<longleftrightarrow> 0 < fst (originalSize s) \<and> 0 < snd (originalSize s) \<and>
     fst (originalPosition s) \<le> fst (barPos s) \<and> fst (barPos s) \<le> fst (originalSize s) + fst (originalPosition s) \<and>
     snd (originalPosition s) \<le> snd (barPos s) \<and> snd (barPos s) \<le> snd (originalSize s) + snd (originalPosition s)"

lemma clampTo_bounds: "lo \<le> hi \<Longrightarrow> lo \<le> clampTo lo hi x \<and> clampTo lo hi x \<le> hi"
  by (simp add: clampTo_def)

lemma seek_inv_init: "0 < fst sz \<Longrightarrow> 0 < snd sz \<Longrightarrow> seek_inv (SeekBar_init sz p h d)"
  by (simp add: seek_inv_def SeekBar_init_def Let_def)

lemma seek_inv_event [simp]: "seek_inv (SeekBar_eventProcess e mouse c b s) = seek_inv s"
  by (simp add: seek_inv_def SeekBar_eventProcess_def Let_def)

lemma seek_inv_reset [simp]: "seek_inv (SeekBar_reset s) = seek_inv s"
  by (simp add: seek_inv_def SeekBar_reset_def)

lemma seek_inv_update [simp]: "seek_inv s \<Longrightarrow> seek_inv (snd (SeekBar_update mouse c b s))"
  using clampTo_bounds[of "fst (originalPosition s)" "fst (originalSize s) + fst (originalPosition s)"]
    clampTo_bounds[of "snd (originalPosition s)" "snd (originalSize s) + snd (originalPosition s)"]
  by (auto simp: seek_inv_def SeekBar_update_def Let_def)

lemma percent_bounds:
  fixes x w :: rat
  assumes "0 \<le> x" "x \<le> w" "0 < w"
  shows "0 \<le> truncInt (x / w * 100) \<and> truncInt (x / w * 100) \<le> 100"
proof -
  have "0 \<le> x / w * 100" "x / w * 100 \<le> 100"
    using assms by (simp_all add: divide_le_eq)
  then show ?thesis
    by (simp add: truncInt_def floor_le_iff le_floor_iff)
qed

lemma SeekBar_data_bounds: "seek_inv s \<Longrightarrow> 0 \<le> SeekBar_data s \<and> SeekBar_data s \<le> 100"
  using percent_bounds[of "fst (barPos s) - fst (originalPosition s)" "fst (originalSize s)"]
    percent_bounds[of "snd (barPos s) - snd (originalPosition s)" "snd (originalSize s)"]
  by (simp add: seek_inv_def SeekBar_data_def algebra_simps)

text \<open>Before it is first moved the bar shows its default but reads 0; a reset moves only the picture.\<close>

lemma SeekBar_start: "SeekBar_data (SeekBar_init (210, 9) (35, 455) True (1/2)) = 0"
  by (simp add: SeekBar_data_def SeekBar_init_def Let_def truncInt_def)

lemma SeekBar_reset_keeps: "SeekBar_data (SeekBar_reset s) = SeekBar_data s"
  by (simp add: SeekBar_data_def SeekBar_reset_def)

subsection \<open>Carets\<close>

text \<open>What every operation keeps, also those that leave a field active after a reset.\<close>

definition caret_ok :: "inputbox \<Rightarrow> bool" where
  "caret_ok b \<longleftrightarrow> 0 \<le> cursorPosition b \<and> cursorPosition b \<le> int (length (entered b))"

lemma caret_ok_ops [simp]:
  "caret_ok (InputBox_new d)" "caret_ok b \<Longrightarrow> caret_ok (InputBox_setActive v b)" "caret_ok (resetText b)"
  "caret_ok (setInputVal wider t b)"
  by (auto simp: caret_ok_def InputBox_new_def InputBox_setActive_def resetText_def setInputVal_def Let_def)

lemma caret_ok_event:
  assumes "caret_ok b"
  shows "\<exists>b'. InputBox_eventProcess full e b = Inr b' \<and> caret_ok b'"
proof (cases e)
  case (KeyPressed k)
  then show ?thesis
    using assms by (cases k) (auto simp: InputBox_eventProcess_def eraseChar_def Let_def caret_ok_def)
qed (use assms in \<open>auto simp: InputBox_eventProcess_def typeChar_def Let_def caret_ok_def\<close>)

lemma InputBox_onClick_frame:
  "caret_ok b \<Longrightarrow> caret_ok (snd (InputBox_onClick e inside b))"
  by (auto simp: InputBox_onClick_def Let_def caret_ok_def InputBox_setActive_def)

lemma Enter_eventProcess_ok:
  assumes "caret_ok b"
  obtains c b' where "Enter_eventProcess full e inside b = Inr (c, b')" "caret_ok b'"
proof -
  obtain c b1 where click: "InputBox_onClick e inside b = (c, b1)"
    by fastforce
  then have b1: "caret_ok b1"
    using InputBox_onClick_frame[OF assms, of e inside] by simp
  define b2 where "b2 = (if c then InputBox_setActive True b1
     else if e = MousePressed LeftButton \<or> e = KeyPressed KeyEnter then InputBox_setActive False b1 else b1)"
  have "caret_ok b2"
    using b1 by (simp add: b2_def)
  then obtain b3 where "InputBox_eventProcess full e b2 = Inr b3" "caret_ok b3"
    using caret_ok_event by blast
  then show thesis
    using that click by (simp add: Enter_eventProcess_def b2_def)
qed

end
