(* ===== verification/Screens.thy ===== *)
theory Screens
  imports Widgets
begin

text \<open>
  The windows in front of a meeting (\<open>src/screen\<close>: \<open>customscreen.cpp\<close>, \<open>startscreen.cpp\<close>, \<open>loginscreen.cpp\<close>,
  \<open>enterscreen.cpp\<close>, \<open>invitescreen.cpp\<close>): what each does with the events of its window and which messages it
  posts. Layout and drawing are left out; the places of the controls are those of the graphics library.
\<close>

subsection \<open>What a window is given\<close>

text \<open>The controls by their place.\<close>

datatype spot =
    SquareSpot | LineSpot | CrossSpot
  | CreateMeetingSpot | JoinMeetingSpot | StartLoginSpot | IsLoginSpot
  | ServerSpot | ServerLabel wstring | UserSpot | PwdSpot | LoginSpot
  | MeetingIdSpot | VideoEncSpot | VideoEncLabel wstring | AudioEncSpot | AudioEncLabel wstring
  | VideoMcuSpot | VideoMcuLabel wstring | AudioMcuSpot | AudioMcuLabel wstring
  | BoxSpot | UncheckSpot | CreateSpot | JoinSpot | DescribeSpot
  | InviteSpot

text \<open>An event with what the system answers while it is handled: which controls the mouse is inside, its position
  on the desktop and in the window, which texts fill a field or are too wide for it, whether the word that the code
  reads as a key is that of \<open>V\<close> although no key was pressed, the left control key and the clipboard.\<close>

record input =
  ev :: sfevent
  hits :: "spot \<Rightarrow> bool"
  deskMouse :: "int \<times> int"
  winMouse :: "int \<times> int"
  fullText :: "wstring \<Rightarrow> bool"
  wideText :: "wstring \<Rightarrow> bool"
  codeV :: bool
  ctrlHeld :: bool
  clipboard :: string

text \<open>What a window does outside itself.\<close>

datatype act = Post ui | Clip string

subsection \<open>Windows with a title bar of their own\<close>

datatype wstyle = CloseStyle | MinisizeStyle | AllStyle

record custom =
  wstyleOf :: wstyle
  wndWidth :: u32
  wndHeight :: u32
  screenSize :: "int \<times> int"
  square :: clicker
  horizontalLine :: clicker
  cross :: clicker
  isDesktop :: bool
  wndDragging :: bool
  dragOffset :: "int \<times> int"
  wndPos :: "int \<times> int"
  wndPosition :: "int \<times> int"
  winPos :: "int \<times> int"
  winSize :: "int \<times> int"
  minimised :: bool
  visible :: bool
  isActive :: bool

definition CustomScreen :: "wstyle \<Rightarrow> u32 \<Rightarrow> u32 \<Rightarrow> int \<times> int \<Rightarrow> int \<times> int \<Rightarrow> custom" where
  "CustomScreen style w h desktop pos =
     \<lparr>wstyleOf = style, wndWidth = w, wndHeight = h, screenSize = desktop,
      square = clicker_new, horizontalLine = clicker_new, cross = clicker_new, isDesktop = False,
      wndDragging = False, dragOffset = (0, 0), wndPos = (0, 0), wndPosition = pos, winPos = pos,
      winSize = (uint w, uint h), minimised = False, visible = False, isActive = False\<rparr>"

text \<open>The limits that the constructor computes, the lower ones with unsigned numbers.\<close>

definition maxX :: "'a custom_scheme \<Rightarrow> int" where
  "maxX s = fst (screenSize s) - 40"

definition minX :: "'a custom_scheme \<Rightarrow> int" where
  "minX s = sint (0 - (wndWidth s - 40))"

definition maxY :: "'a custom_scheme \<Rightarrow> int" where
  "maxY s = snd (screenSize s) - 40 * 3"

definition minY :: "'a custom_scheme \<Rightarrow> int" where
  "minY s = sint (0 - (wndHeight s - 40))"

definition keepIn :: "int \<Rightarrow> int \<Rightarrow> int \<Rightarrow> int" where
  "keepIn lo hi x = (if x < lo then lo else if x > hi then hi else x)"

definition toggleDesktop :: "'a custom_scheme \<Rightarrow> 'a custom_scheme" where
  "toggleDesktop s =
     (let s = s\<lparr>isDesktop := \<not> isDesktop s\<rparr>
      in if isDesktop s then s\<lparr>winSize := screenSize s, winPos := (0, 0)\<rparr>
         else s\<lparr>winSize := (uint (wndWidth s), uint (wndHeight s)), winPos := wndPos s\<rparr>)"

definition dragWindow :: "input \<Rightarrow> 'a custom_scheme \<Rightarrow> 'a custom_scheme" where
  "dragWindow i s =
     (let (x, y) = winMouse i;
          s = (if ev i = MousePressed LeftButton \<and> 0 \<le> x \<and> word_of_int x \<le> wndWidth s - 150 \<and> 0 \<le> y \<and> y \<le> 30
               then s\<lparr>wndDragging := True,
                       dragOffset := (fst (deskMouse i) - fst (winPos s), snd (deskMouse i) - snd (winPos s))\<rparr>
               else s);
          s = (if ev i = MouseReleased LeftButton then s\<lparr>wndDragging := False\<rparr> else s)
      in if ev i = MouseMoved \<and> wndDragging s
         then s\<lparr>winPos := (keepIn (minX s) (maxX s) (fst (deskMouse i) - fst (dragOffset s)),
                           keepIn (minY s) (maxY s) (snd (deskMouse i) - snd (dragOffset s)))\<rparr>
         else s)"

text \<open>The answer says whether the window has to be closed.\<close>

definition checkStatus :: "input \<Rightarrow> 'a custom_scheme \<Rightarrow> bool \<times> 'a custom_scheme" where
  "checkStatus i s =
     (let e = ev i;
          s = (if wstyleOf s \<noteq> CloseStyle
               then case onClick e (hits i LineSpot) (horizontalLine s) of (c, b) \<Rightarrow>
                 s\<lparr>horizontalLine := b, minimised := minimised s \<or> c\<rparr> else s);
          s = (if wstyleOf s = AllStyle
               then case onClick e (hits i SquareSpot) (square s) of (c, b) \<Rightarrow>
                 if c then toggleDesktop (s\<lparr>square := b\<rparr>) else s\<lparr>square := b\<rparr> else s);
          s = (if e = GainedFocus then s\<lparr>minimised := False\<rparr> else s)
      in case onClick e (hits i CrossSpot) (cross s) of
           (True, b) \<Rightarrow> (True, s\<lparr>cross := b\<rparr>)
         | (False, b) \<Rightarrow> (False, dragWindow i (s\<lparr>cross := b\<rparr>)))"

text \<open>\<open>OnEnter\<close> and \<open>OnExit\<close> of the windows that open on demand; \<open>clear\<close> is their own \<open>reset\<close>.\<close>

definition enterWindow :: "('a custom_scheme \<Rightarrow> 'a custom_scheme) \<Rightarrow> 'a custom_scheme \<Rightarrow> bool \<times> 'a custom_scheme" where
  "enterWindow clear s =
     (if isActive s then (False, s)
      else (True, clear (s\<lparr>visible := True, winPos := wndPosition s, isActive := True\<rparr>)))"

definition exitWindow :: "('a custom_scheme \<Rightarrow> 'a custom_scheme) \<Rightarrow> 'a custom_scheme \<Rightarrow> bool \<times> 'a custom_scheme" where
  "exitWindow clear s =
     (if \<not> isActive s then (False, s) else (True, clear (s\<lparr>visible := False, isActive := False\<rparr>)))"

text \<open>The loop over the pending events of a window.\<close>

primrec pollLoop :: "(input \<Rightarrow> 's \<Rightarrow> (act list \<times> 's) res) \<Rightarrow> input list \<Rightarrow> 's \<Rightarrow> (act list \<times> 's) res" where
  "pollLoop f [] s = Inr ([], s)"
| "pollLoop f (i # is) s =
     andThen (f i s) (\<lambda>(as, s). andThen (pollLoop f is s) (\<lambda>(bs, s). Inr (as @ bs, s)))"

subsection \<open>The start window\<close>

datatype login_type = OFFLINE | ONLINE

record startscreen = custom +
  createMeetingB :: clicker
  joinMeetingB :: clicker
  startLoginB :: clicker
  isLoginB :: clicker
  loginType :: login_type
  useId :: wstring
  closedWindow :: bool

definition hello :: wstring where
  "hello = [20320, 22909]"

definition StartScreen_OnEnter :: "startscreen \<Rightarrow> startscreen" where
  "StartScreen_OnEnter s = s\<lparr>visible := True, winPos := wndPosition s, isActive := True\<rparr>"

definition StartScreen_OnExit :: "startscreen \<Rightarrow> startscreen" where
  "StartScreen_OnExit s = s\<lparr>visible := False, isActive := False\<rparr>"

definition setUseId :: "string \<Rightarrow> startscreen \<Rightarrow> startscreen" where
  "setUseId i s =
     (if i = [] then s\<lparr>useId := hello, loginType := OFFLINE\<rparr> else s\<lparr>useId := wide i, loginType := ONLINE\<rparr>)"

definition StartScreen_event :: "input \<Rightarrow> startscreen \<Rightarrow> act list \<times> startscreen" where
  "StartScreen_event i s =
     (let e = ev i; (c, s) = checkStatus i s; s = (if c then s\<lparr>closedWindow := True\<rparr> else s);
          (c1, b1) = onClick e (hits i CreateMeetingSpot) (createMeetingB s); s = s\<lparr>createMeetingB := b1\<rparr>
      in if c1 then ([Post UiCreate], s)
         else
           let (c2, b2) = onClick e (hits i JoinMeetingSpot) (joinMeetingB s); s = s\<lparr>joinMeetingB := b2\<rparr>
           in if c2 then ([Post UiJoin], s)
              else
                let (c3, b3) = onClick e (hits i StartLoginSpot) (startLoginB s); s = s\<lparr>startLoginB := b3\<rparr>
                in if c3 \<and> loginType s = OFFLINE then ([Post UiLogin], s)
                   else
                     let (c4, b4) = onClick e (hits i IsLoginSpot) (isLoginB s); s = s\<lparr>isLoginB := b4\<rparr>
                     in if c4 \<and> loginType s = ONLINE
                        then ([Post UiLogout], s\<lparr>loginType := OFFLINE, useId := hello\<rparr>)
                        else ([], s))"

text \<open>A closed window has no more events.\<close>

definition StartScreen_eventProcess :: "input list \<Rightarrow> startscreen \<Rightarrow> (act list \<times> startscreen) res" where
  "StartScreen_eventProcess is s =
     (if \<not> isActive s then Inr ([], s)
      else pollLoop (\<lambda>i s. Inr (if closedWindow s then ([], s) else StartScreen_event i s)) is s)"

subsection \<open>The login window\<close>

record loginscreen = custom +
  serverMap :: "(wstring \<times> int) list"
  serverList :: "(int \<times> string) list"
  serverDrop :: dropwidget
  userBox :: inputbox
  pwdBox :: inputbox
  loginButton :: textrect
  currentInputBox :: int

text \<open>The names of the first four servers.\<close>

definition serverName :: "int \<Rightarrow> wstring option" where
  "serverName i =
     (if i = 0 then Some [74, 32452, 20844, 32593, 20449, 20196]
      else if i = 1 then Some [88, 32452, 20844, 32593, 20449, 20196]
      else if i = 2 then Some [74, 32452, 20869, 32593, 20449, 20196]
      else if i = 3 then Some [88, 32452, 20869, 32593, 20449, 20196]
      else None)"

text \<open>\<open>init\<close> with the entries of the configuration file: the number of servers, their addresses, the user
  and the password. The addresses are read one after the other.\<close>

definition addServer :: "(int \<Rightarrow> string) \<Rightarrow> int \<Rightarrow> loginscreen \<Rightarrow> loginscreen" where
  "addServer signling i s =
     (let s = s\<lparr>serverList := map_emplace i (signling i) (serverList s)\<rparr>
      in case serverName i of
           None \<Rightarrow> s
         | Some k \<Rightarrow> s\<lparr>serverMap := map_emplace k i (serverMap s),
                        serverDrop := (serverDrop s)\<lparr>dropList := addLabel k True (dropList (serverDrop s))\<rparr>\<rparr>)"

definition LoginScreen_init ::
  "(wstring \<Rightarrow> bool) \<Rightarrow> int \<Rightarrow> (int \<Rightarrow> string) \<Rightarrow> string \<Rightarrow> string \<Rightarrow> custom \<Rightarrow> loginscreen" where
  "LoginScreen_init wider serverNum signling user pwd c =
     (let orUnknown = (\<lambda>t. if t = [] then ''unknown'' else t);
          s = custom.extend c
            \<lparr>serverMap = [], serverList = [], serverDrop = DropWidget_new (the (serverName 0)) [],
             userBox = setInputVal wider (orUnknown user) (InputBox_new []),
             pwdBox = setInputVal wider (orUnknown pwd) (InputBox_new []),
             loginButton = TextRectangle_init, currentInputBox = 1\<rparr>
      in fold (addServer signling) [0..serverNum - 1] s)"

definition LoginScreen_reset :: "loginscreen \<Rightarrow> loginscreen" where
  "LoginScreen_reset s =
     s\<lparr>serverDrop := DropWidget_reset (serverDrop s), userBox := resetText (userBox s), pwdBox := resetText (pwdBox s)\<rparr>"

definition LoginScreen_OnEnter :: "loginscreen \<Rightarrow> bool \<times> loginscreen" where
  "LoginScreen_OnEnter s = enterWindow (\<lambda>s. s) s"

definition LoginScreen_OnExit :: "loginscreen \<Rightarrow> bool \<times> loginscreen" where
  "LoginScreen_OnExit s = exitWindow LoginScreen_reset s"

definition selectBoxes :: "input \<Rightarrow> loginscreen \<Rightarrow> loginscreen res" where
  "selectBoxes i s =
     (let e = ev i; inactive = InputBox_setActive False; active = InputBox_setActive True in
      if e = KeyPressed KeyTab then
        let s = s\<lparr>currentInputBox := currentInputBox s mod 2 + 1\<rparr>
        in Inr (if currentInputBox s = 1 then s\<lparr>userBox := active (userBox s), pwdBox := inactive (pwdBox s)\<rparr>
                else if currentInputBox s = 2 then s\<lparr>pwdBox := active (pwdBox s), userBox := inactive (userBox s)\<rparr>
                else s)
      else
        andThen (Enter_eventProcess (fullText i) e (hits i UserSpot) (userBox s)) (\<lambda>(c, b).
          let s = s\<lparr>userBox := b\<rparr>; s = (if c then s\<lparr>currentInputBox := 1, pwdBox := inactive (pwdBox s)\<rparr> else s)
          in andThen (Enter_eventProcess (fullText i) e (hits i PwdSpot) (pwdBox s)) (\<lambda>(c, b).
               let s = s\<lparr>pwdBox := b\<rparr>
               in Inr (if c then s\<lparr>currentInputBox := 2, userBox := inactive (userBox s)\<rparr> else s))))"

text \<open>A label that is not in the map is logged, and the end of the map is then read all the same.\<close>

definition serverAddress :: "loginscreen \<Rightarrow> string res" where
  "serverAddress s =
     (case map_of (serverMap s) (getSelectedLabel (serverDrop s)) of
        None \<Rightarrow> andThen (to_bytes (getSelectedLabel (serverDrop s))) (\<lambda>_. Inl Undefined)
      | Some k \<Rightarrow> (case map_of (serverList s) k of None \<Rightarrow> Inl Undefined | Some ip \<Rightarrow> Inr ip))"

definition submitLogin :: "input \<Rightarrow> loginscreen \<Rightarrow> (act list \<times> loginscreen) res" where
  "submitLogin i s =
     (case onClick (ev i) (hits i LoginSpot) (face (loginButton s)) of (c, b) \<Rightarrow>
        let s = s\<lparr>loginButton := (loginButton s)\<lparr>face := b\<rparr>\<rparr>
        in if (c \<or> ev i = KeyPressed KeyEnter) \<and> rectActive (loginButton s) then
             andThen (serverAddress s) (\<lambda>ip.
               let (u, ub) = getEnterText (userBox s); (p, pb) = getEnterText (pwdBox s)
               in Inr ([Post (UiIsLogin [ip, u, p])],
                       s\<lparr>userBox := ub, pwdBox := pb, loginButton := TextRectangle_setActive False (loginButton s)\<rparr>))
           else Inr ([], s))"

definition LoginScreen_event :: "input \<Rightarrow> loginscreen \<Rightarrow> (act list \<times> loginscreen) res" where
  "LoginScreen_event i s =
     (let (c, s) = checkStatus i s; s = (if c then snd (LoginScreen_OnExit s) else s);
          (chosen, d) = DropWidget_eventProcess (ev i) (hits i ServerSpot) (\<lambda>k. hits i (ServerLabel k)) (serverDrop s);
          s = s\<lparr>serverDrop := d\<rparr>
      in andThen (if chosen then andThen (to_bytes (getSelectedLabel d)) (\<lambda>_. Inr ()) else Inr ()) (\<lambda>_.
         andThen (selectBoxes i s) (\<lambda>s.
         andThen (submitLogin i s) (\<lambda>(as, s).
           let ready = \<not> inputEmpty (userBox s) \<and> \<not> inputEmpty (pwdBox s)
           in Inr (as, s\<lparr>loginButton := TextRectangle_setActive ready (loginButton s)\<rparr>)))))"

definition LoginScreen_eventProcess :: "input list \<Rightarrow> loginscreen \<Rightarrow> (act list \<times> loginscreen) res" where
  "LoginScreen_eventProcess is s = (if \<not> isActive s then Inr ([], s) else pollLoop LoginScreen_event is s)"

subsection \<open>The window that creates or joins a meeting\<close>

datatype enter_type = NoType | CreateType | JoinType

record enterscreen = custom +
  meetingIdBox :: inputbox
  videoEncDrop :: dropwidget
  audioEncDrop :: dropwidget
  videoMcuDrop :: dropwidget
  audioMcuDrop :: dropwidget
  isBooking :: checkbox
  createButton :: textrect
  joinButton :: textrect
  describeButton :: clicker
  describeText :: wstring
  enterType :: enter_type

definition notBooked :: wstring where
  "notBooked = [26410, 39044, 23450, 20250, 35758]"

definition groupName :: "nat \<Rightarrow> wstring" where
  "groupName c = [c, 32452]"

definition EnterScreen_init :: "wstring \<Rightarrow> custom \<Rightarrow> enterscreen" where
  "EnterScreen_init prompt c = custom.extend c
     \<lparr>meetingIdBox = InputBox_new prompt,
      videoEncDrop = DropWidget_new (wide ''h264'') [wide ''h264'', wide ''vp9''],
      audioEncDrop = DropWidget_new (wide ''opus'') [wide ''pcma'', wide ''opus''],
      videoMcuDrop = DropWidget_new (groupName 74) [groupName 74, groupName 89],
      audioMcuDrop = DropWidget_new (groupName 88) [groupName 88, groupName 76],
      isBooking = CheckBox_new, createButton = TextRectangle_setActive True TextRectangle_init,
      joinButton = TextRectangle_init, describeButton = clicker_new, describeText = notBooked,
      enterType = NoType\<rparr>"

definition EnterScreen_reset :: "enterscreen \<Rightarrow> enterscreen" where
  "EnterScreen_reset s =
     s\<lparr>audioEncDrop := DropWidget_reset (audioEncDrop s), videoMcuDrop := DropWidget_reset (videoMcuDrop s),
       videoEncDrop := DropWidget_reset (videoEncDrop s), audioMcuDrop := DropWidget_reset (audioMcuDrop s),
       isBooking := CheckBox_reset (isBooking s), meetingIdBox := resetText (meetingIdBox s)\<rparr>"

definition EnterScreen_OnEnter :: "enterscreen \<Rightarrow> bool \<times> enterscreen" where
  "EnterScreen_OnEnter s = enterWindow EnterScreen_reset s"

definition EnterScreen_OnExit :: "enterscreen \<Rightarrow> bool \<times> enterscreen" where
  "EnterScreen_OnExit s = exitWindow EnterScreen_reset s"

definition setType :: "enter_type \<Rightarrow> enterscreen \<Rightarrow> enterscreen" where
  "setType t s = s\<lparr>enterType := t\<rparr>"

definition setBookingId :: "string \<Rightarrow> enterscreen \<Rightarrow> enterscreen" where
  "setBookingId m s = s\<lparr>describeText := wide m\<rparr>"

definition readsV :: "input \<Rightarrow> bool" where
  "readsV i \<longleftrightarrow> (case ev i of KeyPressed k \<Rightarrow> k = KeyV | _ \<Rightarrow> codeV i)"

text \<open>The four drop-downs; the line that is logged always names the first one's label.\<close>

definition chooseIn ::
  "input \<Rightarrow> spot \<Rightarrow> (wstring \<Rightarrow> spot) \<Rightarrow> (enterscreen \<Rightarrow> dropwidget)
    \<Rightarrow> (dropwidget \<Rightarrow> enterscreen \<Rightarrow> enterscreen) \<Rightarrow> enterscreen \<Rightarrow> enterscreen res" where
  "chooseIn i place label get upd s =
     (case DropWidget_eventProcess (ev i) (hits i place) (\<lambda>k. hits i (label k)) (get s) of (c, d) \<Rightarrow>
        if c then andThen (to_bytes (getSelectedLabel (videoEncDrop (upd d s)))) (\<lambda>_. Inr (upd d s))
        else Inr (upd d s))"

definition chooseFormats :: "input \<Rightarrow> enterscreen \<Rightarrow> enterscreen res" where
  "chooseFormats i s =
     andThen (chooseIn i VideoEncSpot VideoEncLabel videoEncDrop (\<lambda>d s. s\<lparr>videoEncDrop := d\<rparr>) s) (\<lambda>s.
     andThen (chooseIn i AudioEncSpot AudioEncLabel audioEncDrop (\<lambda>d s. s\<lparr>audioEncDrop := d\<rparr>) s) (\<lambda>s.
     andThen (chooseIn i VideoMcuSpot VideoMcuLabel videoMcuDrop (\<lambda>d s. s\<lparr>videoMcuDrop := d\<rparr>) s) (\<lambda>s.
       chooseIn i AudioMcuSpot AudioMcuLabel audioMcuDrop (\<lambda>d s. s\<lparr>audioMcuDrop := d\<rparr>) s)))"

definition createEvent :: "input \<Rightarrow> enterscreen \<Rightarrow> (act list \<times> enterscreen) res" where
  "createEvent i s =
     andThen (chooseFormats i s) (\<lambda>s.
       let (_, k) = CheckBox_onClick (ev i) (hits i BoxSpot) (hits i UncheckSpot) (isBooking s);
           (c, b) = onClick (ev i) (hits i CreateSpot) (face (createButton s));
           s = s\<lparr>isBooking := k, createButton := (createButton s)\<lparr>face := b\<rparr>\<rparr>;
           labels = [getSelectedLabel (videoEncDrop s), getSelectedLabel (audioEncDrop s),
                     getSelectedLabel (videoMcuDrop s), getSelectedLabel (audioMcuDrop s)]
       in if (c \<or> ev i = KeyPressed KeyEnter) \<and> rectActive (createButton s)
          then Inr ([Post (if isCheck (isBooking s) then UiIsBooking labels else UiIsCreate labels)], s)
          else Inr ([], s))"

definition joinEvent :: "input \<Rightarrow> enterscreen \<Rightarrow> (act list \<times> enterscreen) res" where
  "joinEvent i s =
     (let (c, b) = onClick (ev i) (hits i DescribeSpot) (describeButton s); s = s\<lparr>describeButton := b\<rparr>
      in andThen (if c \<and> describeText s \<noteq> notBooked
                  then andThen (to_bytes (describeText s)) (\<lambda>t. Inr [Clip t]) else Inr []) (\<lambda>clips.
         let (c, b) = onClick (ev i) (hits i JoinSpot) (face (joinButton s));
             s = s\<lparr>joinButton := (joinButton s)\<lparr>face := b\<rparr>\<rparr>
         in if (c \<or> ev i = KeyPressed KeyEnter) \<and> rectActive (joinButton s) then
              let (m, ib) = getEnterText (meetingIdBox s)
              in Inr (clips @ [Post (UiIsJoin m)],
                      s\<lparr>meetingIdBox := ib, joinButton := TextRectangle_setActive False (joinButton s)\<rparr>)
            else Inr (clips, s)))"

definition EnterScreen_event :: "input \<Rightarrow> enterscreen \<Rightarrow> (act list \<times> enterscreen) res" where
  "EnterScreen_event i s =
     (let (c, s) = checkStatus i s; s = (if c then snd (EnterScreen_OnExit s) else s)
      in andThen (Enter_eventProcess (fullText i) (ev i) (hits i MeetingIdSpot) (meetingIdBox s)) (\<lambda>(_, b).
         let b = (if boxActive b \<and> readsV i \<and> ctrlHeld i then setInputVal (wideText i) (clipboard i) b else b);
             s = s\<lparr>meetingIdBox := b\<rparr>
         in andThen (if enterType s = CreateType then createEvent i s else joinEvent i s) (\<lambda>(as, s).
              Inr (as,
                   if \<not> inputEmpty (meetingIdBox s) then
                     if enterType s = JoinType then s\<lparr>joinButton := TextRectangle_setActive True (joinButton s)\<rparr> else s
                   else s\<lparr>joinButton := TextRectangle_setActive False (joinButton s)\<rparr>))))"

definition EnterScreen_eventProcess :: "input list \<Rightarrow> enterscreen \<Rightarrow> (act list \<times> enterscreen) res" where
  "EnterScreen_eventProcess is s = (if \<not> isActive s then Inr ([], s) else pollLoop EnterScreen_event is s)"

subsection \<open>The window that invites a user\<close>

record invitescreen = custom +
  inviteBox :: inputbox
  inviteButton :: textrect
  sessionId :: string

definition InviteScreen_init :: "wstring \<Rightarrow> custom \<Rightarrow> invitescreen" where
  "InviteScreen_init prompt c =
     custom.extend c \<lparr>inviteBox = InputBox_new prompt, inviteButton = TextRectangle_init, sessionId = []\<rparr>"

definition InviteScreen_reset :: "invitescreen \<Rightarrow> invitescreen" where
  "InviteScreen_reset s = s\<lparr>inviteBox := resetText (inviteBox s)\<rparr>"

definition InviteScreen_OnEnter :: "invitescreen \<Rightarrow> bool \<times> invitescreen" where
  "InviteScreen_OnEnter s = enterWindow (\<lambda>s. s) s"

definition InviteScreen_OnExit :: "invitescreen \<Rightarrow> bool \<times> invitescreen" where
  "InviteScreen_OnExit s = exitWindow InviteScreen_reset s"

definition InviteScreen_setSessionId :: "string \<Rightarrow> invitescreen \<Rightarrow> invitescreen" where
  "InviteScreen_setSessionId m s = s\<lparr>sessionId := m\<rparr>"

definition InviteScreen_event :: "input \<Rightarrow> invitescreen \<Rightarrow> (act list \<times> invitescreen) res" where
  "InviteScreen_event i s =
     (let (c, s) = checkStatus i s; s = (if c then snd (InviteScreen_OnExit s) else s)
      in andThen (Enter_eventProcess (fullText i) (ev i) (hits i UserSpot) (inviteBox s)) (\<lambda>(_, b).
         let s = s\<lparr>inviteBox := b\<rparr>; (c, b) = onClick (ev i) (hits i InviteSpot) (face (inviteButton s));
             s = s\<lparr>inviteButton := (inviteButton s)\<lparr>face := b\<rparr>\<rparr>;
             (as, s) = (if (c \<or> ev i = KeyPressed KeyEnter) \<and> rectActive (inviteButton s) then
                          let (u, ib) = getEnterText (inviteBox s)
                          in ([Post (UiInvite u)],
                              s\<lparr>inviteBox := ib, inviteButton := TextRectangle_setActive False (inviteButton s)\<rparr>)
                        else ([], s))
         in Inr (as, s\<lparr>inviteButton := TextRectangle_setActive (\<not> inputEmpty (inviteBox s)) (inviteButton s)\<rparr>)))"

definition InviteScreen_eventProcess :: "input list \<Rightarrow> invitescreen \<Rightarrow> (act list \<times> invitescreen) res" where
  "InviteScreen_eventProcess is s = (if \<not> isActive s then Inr ([], s) else pollLoop InviteScreen_event is s)"

subsection \<open>The title bar\<close>

lemma checkStatus_more [simp]: "custom.more (snd (checkStatus i s)) = custom.more s"
  by (auto simp: checkStatus_def dragWindow_def toggleDesktop_def Let_def split: prod.split bool.split)

text \<open>A window that is dragged keeps 40 pixels on the desktop to the left, the right and above.\<close>

lemma dragged_window_stays:
  assumes "ev i = MouseMoved" "wndDragging s" "minX s \<le> maxX s" "minY s \<le> maxY s"
  shows "minX s \<le> fst (winPos (dragWindow i s)) \<and> fst (winPos (dragWindow i s)) \<le> maxX s \<and>
    minY s \<le> snd (winPos (dragWindow i s)) \<and> snd (winPos (dragWindow i s)) \<le> maxY s"
  using assms by (auto simp: dragWindow_def keepIn_def Let_def split: prod.splits)

text \<open>The position before a window was maximised is not kept: it comes back in the corner of the desktop.\<close>

lemma restored_in_corner: "wndPos s = (0, 0) \<Longrightarrow> winPos (toggleDesktop (toggleDesktop s)) = (0, 0)"
  by (simp add: toggleDesktop_def Let_def)

subsection \<open>Logging in\<close>

text \<open>What can happen to the login window.\<close>

datatype login_action = LoginEnters | LoginExits | LoginEvents "input list"

primrec login_step :: "login_action \<Rightarrow> loginscreen \<Rightarrow> (act list \<times> loginscreen) res" where
  "login_step LoginEnters s = Inr ([], snd (LoginScreen_OnEnter s))"
| "login_step LoginExits s = Inr ([], snd (LoginScreen_OnExit s))"
| "login_step (LoginEvents is) s = LoginScreen_eventProcess is s"

primrec login_run :: "login_action list \<Rightarrow> loginscreen \<Rightarrow> (act list \<times> loginscreen) res" where
  "login_run [] s = Inr ([], s)"
| "login_run (a # as) s =
     andThen (login_step a s) (\<lambda>(bs, s). andThen (login_run as s) (\<lambda>(cs, s). Inr (bs @ cs, s)))"

text \<open>Every label on offer leads to one of the addresses \<open>A\<close>.\<close>

definition login_inv :: "string set \<Rightarrow> loginscreen \<Rightarrow> bool" where
  "login_inv A s \<longleftrightarrow>
     (\<forall>k i. map_of (serverMap s) k = Some i \<longrightarrow> (\<exists>ip \<in> A. map_of (serverList s) i = Some ip)) \<and>
     drop_inv (dom (map_of (serverMap s))) (serverDrop s) \<and>
     (\<forall>k \<in> dom (map_of (serverMap s)). isOk (to_bytes k)) \<and>
     caret_ok (userBox s) \<and> caret_ok (pwdBox s)"

definition login_post :: "string set \<Rightarrow> act \<Rightarrow> bool" where
  "login_post A a \<longleftrightarrow> (\<exists>ip u p. a = Post (UiIsLogin [ip, u, p]) \<and> ip \<in> A)"

lemma login_more:
  fixes s t :: loginscreen
  assumes "custom.more s = custom.more t"
  shows "serverMap s = serverMap t" "serverList s = serverList t" "serverDrop s = serverDrop t"
    "userBox s = userBox t" "pwdBox s = pwdBox t" "loginButton s = loginButton t"
  using assms by (cases s; cases t; simp)+

lemma login_inv_checkStatus [simp]: "login_inv A (snd (checkStatus i s)) = login_inv A s"
  using login_more[OF checkStatus_more[of i s]] by (simp add: login_inv_def)

lemma login_inv_exit [simp]: "login_inv A s \<Longrightarrow> login_inv A (snd (LoginScreen_OnExit s))"
  by (simp add: login_inv_def LoginScreen_OnExit_def exitWindow_def LoginScreen_reset_def)

lemma login_inv_enter [simp]: "login_inv A s \<Longrightarrow> login_inv A (snd (LoginScreen_OnEnter s))"
  by (simp add: login_inv_def LoginScreen_OnEnter_def enterWindow_def)

lemma login_inv_serverAddress:
  assumes "login_inv A s"
  obtains ip where "serverAddress s = Inr ip" "ip \<in> A"
proof -
  obtain k where "map_of (serverMap s) (getSelectedLabel (serverDrop s)) = Some k"
    using assms drop_inv_label by (fastforce simp: login_inv_def)
  then show thesis
    using assms that by (fastforce simp: login_inv_def serverAddress_def)
qed

lemma selectBoxes_ok:
  assumes "login_inv A s"
  obtains s' where "selectBoxes i s = Inr s'" "login_inv A s'"
proof (cases "ev i = KeyPressed KeyTab")
  case True
  have "login_inv A (the (case selectBoxes i s of Inr t \<Rightarrow> Some t | _ \<Rightarrow> None)) \<and> isOk (selectBoxes i s)"
    using assms True by (simp add: selectBoxes_def Let_def login_inv_def)
  then show thesis
    using that by (cases "selectBoxes i s") auto
next
  case False
  have carets: "caret_ok (userBox s)" "caret_ok (pwdBox s)"
    using assms by (simp_all add: login_inv_def)
  obtain c b where user: "Enter_eventProcess (fullText i) (ev i) (hits i UserSpot) (userBox s) = Inr (c, b)" "caret_ok b"
    using Enter_eventProcess_ok[OF carets(1)] by metis
  define t where "t = (let s = s\<lparr>userBox := b\<rparr> in
     if c then s\<lparr>currentInputBox := 1, pwdBox := InputBox_setActive False (pwdBox s)\<rparr> else s)"
  have t: "login_inv A t" "caret_ok (pwdBox t)"
    using assms user carets by (simp_all add: t_def Let_def login_inv_def)
  obtain d p where pwd: "Enter_eventProcess (fullText i) (ev i) (hits i PwdSpot) (pwdBox t) = Inr (d, p)" "caret_ok p"
    using Enter_eventProcess_ok[OF t(2)] by metis
  have "selectBoxes i s = Inr (let s = t\<lparr>pwdBox := p\<rparr> in
      if d then s\<lparr>currentInputBox := 2, userBox := InputBox_setActive False (userBox s)\<rparr> else s)"
    using False user pwd by (simp add: selectBoxes_def Let_def t_def)
  then show thesis
    using that t pwd by (simp add: login_inv_def Let_def)
qed

lemma submitLogin_ok:
  assumes "login_inv A s"
  obtains as s' where "submitLogin i s = Inr (as, s')" "login_inv A s'" "list_all (login_post A) as"
proof -
  obtain c b where click: "onClick (ev i) (hits i LoginSpot) (face (loginButton s)) = (c, b)"
    by fastforce
  define t where "t = s\<lparr>loginButton := (loginButton s)\<lparr>face := b\<rparr>\<rparr>"
  have t: "login_inv A t"
    using assms by (simp add: login_inv_def t_def)
  then obtain ip where ip: "serverAddress t = Inr ip" "ip \<in> A"
    using login_inv_serverAddress by blast
  define t' where "t' = t\<lparr>userBox := resetText (userBox t), pwdBox := resetText (pwdBox t),
     loginButton := TextRectangle_setActive False (loginButton t)\<rparr>"
  have "login_inv A t'"
    using t by (simp add: login_inv_def t'_def)
  moreover have "submitLogin i s =
      (if (c \<or> ev i = KeyPressed KeyEnter) \<and> rectActive (loginButton s)
       then Inr ([Post (UiIsLogin [ip, entered (userBox t), entered (pwdBox t)])], t') else Inr ([], t))"
    using click ip by (simp add: submitLogin_def getEnterText_def t'_def t_def)
  ultimately show thesis
    using that t ip by (auto simp: login_post_def split: if_splits)
qed

lemma LoginScreen_event_ok:
  assumes "login_inv A s"
  obtains as s' where "LoginScreen_event i s = Inr (as, s')" "login_inv A s'" "list_all (login_post A) as"
proof -
  obtain c s1 where status: "checkStatus i s = (c, s1)"
    by fastforce
  define s2 where "s2 = (if c then snd (LoginScreen_OnExit s1) else s1)"
  have s2: "login_inv A s2"
    using assms login_inv_checkStatus[of A i s] status by (simp add: s2_def)
  obtain ch d where drop: "DropWidget_eventProcess (ev i) (hits i ServerSpot) (\<lambda>k. hits i (ServerLabel k)) (serverDrop s2) = (ch, d)"
    by fastforce
  have d: "drop_inv (dom (map_of (serverMap s2))) d"
    using s2 drop_inv_event[of _ "serverDrop s2" "ev i" "hits i ServerSpot" "\<lambda>k. hits i (ServerLabel k)"] drop
    by (simp add: login_inv_def)
  have s3: "login_inv A (s2\<lparr>serverDrop := d\<rparr>)"
    using s2 d by (simp add: login_inv_def)
  obtain w where w: "to_bytes (getSelectedLabel d) = Inr w"
    using s2 drop_inv_label[OF d] unfolding login_inv_def isOk_def by blast
  obtain s4 where s4: "selectBoxes i (s2\<lparr>serverDrop := d\<rparr>) = Inr s4" "login_inv A s4"
    using selectBoxes_ok[OF s3] by blast
  obtain as s5 where s5: "submitLogin i s4 = Inr (as, s5)" "login_inv A s5" "list_all (login_post A) as"
    using submitLogin_ok[OF s4(2)] by blast
  have "LoginScreen_event i s = Inr (as, s5\<lparr>loginButton :=
      TextRectangle_setActive (\<not> inputEmpty (userBox s5) \<and> \<not> inputEmpty (pwdBox s5)) (loginButton s5)\<rparr>)"
    using status drop w s4 s5 by (simp add: LoginScreen_event_def Let_def flip: s2_def)
  then show thesis
    using that s5 by (simp add: login_inv_def)
qed

lemma pollLoop_ok:
  assumes "P s" and step: "\<And>i s. P s \<Longrightarrow> \<exists>as s'. f i s = Inr (as, s') \<and> P s' \<and> list_all Q as"
  shows "\<exists>as s'. pollLoop f is s = Inr (as, s') \<and> P s' \<and> list_all Q as"
  using assms(1)
proof (induction "is" arbitrary: s)
  case Nil
  then show ?case by simp
next
  case (Cons i "is")
  obtain as s' where "f i s = Inr (as, s')" "P s'" "list_all Q as"
    using step[OF Cons.prems] by blast
  then show ?case
    using Cons.IH[of s'] by auto
qed

lemma login_step_ok:
  assumes "login_inv A s"
  shows "\<exists>as s'. login_step a s = Inr (as, s') \<and> login_inv A s' \<and> list_all (login_post A) as"
proof (cases a)
  case (LoginEvents evs)
  have "\<exists>as s'. pollLoop LoginScreen_event evs s = Inr (as, s') \<and> login_inv A s' \<and> list_all (login_post A) as"
    using assms LoginScreen_event_ok[of A] by (intro pollLoop_ok[where P = "login_inv A"]) metis+
  then show ?thesis
    using assms LoginEvents by (simp add: LoginScreen_eventProcess_def)
qed (use assms in simp_all)

lemma login_run_ok:
  "login_inv A s \<Longrightarrow> \<exists>as s'. login_run acts s = Inr (as, s') \<and> login_inv A s' \<and> list_all (login_post A) as"
proof (induction acts arbitrary: s)
  case Nil
  then show ?case by simp
next
  case (Cons a acts)
  obtain as s' where "login_step a s = Inr (as, s')" "login_inv A s'" "list_all (login_post A) as"
    using login_step_ok[OF Cons.prems] by blast
  then show ?case
    using Cons.IH[of s'] by auto
qed

text \<open>What \<open>init\<close> builds up, server by server.\<close>

definition servers_inv :: "string set \<Rightarrow> loginscreen \<Rightarrow> bool" where
  "servers_inv A s \<longleftrightarrow> ordered (serverMap s) \<and> ordered (serverList s) \<and>
     (\<forall>k i. map_of (serverMap s) k = Some i \<longrightarrow> (\<exists>ip \<in> A. map_of (serverList s) i = Some ip)) \<and>
     (\<forall>i ip. map_of (serverList s) i = Some ip \<longrightarrow> ip \<in> A) \<and>
     keysOf (dropList (serverDrop s)) \<subseteq> dom (map_of (serverMap s)) \<and>
     (\<forall>k \<in> dom (map_of (serverMap s)). isOk (to_bytes k)) \<and>
     description (serverDrop s) = the (serverName 0) \<and> defaultDescription (serverDrop s) = the (serverName 0) \<and>
     caret_ok (userBox s) \<and> caret_ok (pwdBox s)"

lemma serverName_ok: "serverName i = Some k \<Longrightarrow> isOk (to_bytes k)"
  by (auto simp: serverName_def to_bytes_def split: if_splits)

lemma servers_inv_add:
  assumes "servers_inv A s" "signling i \<in> A"
  shows "servers_inv A (addServer signling i s)"
    "map_of (serverMap s) k = Some j \<Longrightarrow> map_of (serverMap (addServer signling i s)) k = Some j"
    "serverName i = Some k \<Longrightarrow> k \<in> dom (map_of (serverMap (addServer signling i s)))"
proof -
  have keys: "keysOf (addLabel n act l) \<subseteq> insert n (keysOf l)" for n act l
    by (auto simp: keysOf_addLabel)
  show "map_of (serverMap s) k = Some j \<Longrightarrow> map_of (serverMap (addServer signling i s)) k = Some j"
    "serverName i = Some k \<Longrightarrow> k \<in> dom (map_of (serverMap (addServer signling i s)))"
    using assms by (auto simp: servers_inv_def addServer_def Let_def map_of_emplace split: option.splits)
  show "servers_inv A (addServer signling i s)"
  proof (cases "serverName i")
    case None
    then show ?thesis
      using assms by (auto simp: servers_inv_def addServer_def Let_def map_of_emplace)
  next
    case (Some n)
    then show ?thesis
      using assms keys[of n True "dropList (serverDrop s)"] serverName_ok[OF Some]
      by (auto simp: servers_inv_def addServer_def Let_def map_of_emplace)
  qed
qed

lemma servers_inv_fold:
  "servers_inv A s \<Longrightarrow> signling ` set is \<subseteq> A \<Longrightarrow>
     servers_inv A (fold (addServer signling) is s) \<and>
     dom (map_of (serverMap s)) \<subseteq> dom (map_of (serverMap (fold (addServer signling) is s)))"
proof (induction "is" arbitrary: s)
  case Nil
  then show ?case by simp
next
  case (Cons i "is")
  let ?t = "addServer signling i s"
  have "servers_inv A ?t" "signling ` set is \<subseteq> A"
    using Cons.prems servers_inv_add(1) by simp_all
  note rest = Cons.IH[OF this]
  have "dom (map_of (serverMap s)) \<subseteq> dom (map_of (serverMap ?t))"
  proof
    fix k
    assume "k \<in> dom (map_of (serverMap s))"
    then obtain j where "map_of (serverMap s) k = Some j"
      by blast
    then have "map_of (serverMap ?t) k = Some j"
      using Cons.prems servers_inv_add(2) by simp
    then show "k \<in> dom (map_of (serverMap ?t))"
      by blast
  qed
  then have "dom (map_of (serverMap s)) \<subseteq> dom (map_of (serverMap (fold (addServer signling) is ?t)))"
    using rest by (rule subset_trans[OF _ conjunct2])
  then show ?case
    using rest by simp
qed

lemma login_inv_init:
  assumes "1 \<le> n"
  shows "login_inv (signling ` {0..<n}) (LoginScreen_init wider n signling user pwd c)"
proof -
  let ?A = "signling ` {0..<n}"
  define s0 where "s0 = custom.extend c
    \<lparr>serverMap = [], serverList = [], serverDrop = DropWidget_new (the (serverName 0)) [],
     userBox = setInputVal wider (if user = [] then ''unknown'' else user) (InputBox_new []),
     pwdBox = setInputVal wider (if pwd = [] then ''unknown'' else pwd) (InputBox_new []),
     loginButton = TextRectangle_init, currentInputBox = 1\<rparr>"
  have s0: "servers_inv ?A s0"
    by (simp add: servers_inv_def s0_def custom.defs DropWidget_new_def)
  have "[0..n - 1] = 0 # [1..n - 1]"
    using assms by (simp add: upto.simps)
  then have init: "LoginScreen_init wider n signling user pwd c =
      fold (addServer signling) [1..n - 1] (addServer signling 0 s0)"
    by (simp add: LoginScreen_init_def s0_def)
  have zero: "signling 0 \<in> ?A"
    using assms by auto
  then have one: "servers_inv ?A (addServer signling 0 s0)"
      "the (serverName 0) \<in> dom (map_of (serverMap (addServer signling 0 s0)))"
    using servers_inv_add[OF s0] by (simp_all add: serverName_def)
  have "signling ` set [1..n - 1] \<subseteq> ?A"
    by auto
  then have "servers_inv ?A (LoginScreen_init wider n signling user pwd c)"
      "the (serverName 0) \<in> dom (map_of (serverMap (LoginScreen_init wider n signling user pwd c)))"
    using servers_inv_fold[OF one(1)] one(2) unfolding init by blast+
  then show ?thesis
    by (simp add: servers_inv_def login_inv_def drop_inv_def)
qed

text \<open>C33: with a server in the configuration no run of the login window faults, and whatever it posts is a login at one of
  the addresses that the configuration has.\<close>

theorem login_run_safe:
  assumes "1 \<le> n"
  shows "\<exists>as s. login_run acts (LoginScreen_init wider n signling user pwd c) = Inr (as, s) \<and>
    list_all (login_post (signling ` {0..<n})) as"
  using login_run_ok[OF login_inv_init[OF assms]] by blast

text \<open>An event during which the mouse is over nothing.\<close>

definition away :: "sfevent \<Rightarrow> input" where
  "away e = \<lparr>ev = e, hits = (\<lambda>_. False), deskMouse = (0, 0), winMouse = (-1, -1), fullText = (\<lambda>_. False),
     wideText = (\<lambda>_. False), codeV = False, ctrlHeld = False, clipboard = []\<rparr>"

theorem login_run_safe_witness:
  "\<exists>as s. login_run [LoginEnters, LoginEvents [away OtherEvent, away (KeyPressed KeyEnter)]]
      (LoginScreen_init (\<lambda>_. False) 1 (\<lambda>_. ''10.1.1.1:80'') ''u'' ''p'' (CustomScreen MinisizeStyle 478 353 (1920, 1080) (0, 0)))
      = Inr (as, s) \<and> list_all (login_post ((\<lambda>_. ''10.1.1.1:80'') ` {0..<1::int})) as"
  using login_run_safe[of 1 "[LoginEnters, LoginEvents [away OtherEvent, away (KeyPressed KeyEnter)]]"
    "\<lambda>_. False" "\<lambda>_. ''10.1.1.1:80''" "''u''" "''p''" "CustomScreen MinisizeStyle 478 353 (1920, 1080) (0, 0)"]
  by blast

lemma serverAddress_cong:
  "serverMap s = serverMap t \<Longrightarrow> serverList s = serverList t \<Longrightarrow> serverDrop s = serverDrop t \<Longrightarrow>
     serverAddress s = serverAddress t"
  unfolding serverAddress_def by (simp cong: option.case_cong)

text \<open>When a successful login closes the window, the fields are emptied but the button stays as it was: opened
  again, the window answers the Enter key with an empty name and password.\<close>

lemma login_after_exit:
  assumes "isActive s" "rectActive (loginButton s)" "serverAddress (LoginScreen_reset s) = Inr ip"
  defines "t \<equiv> snd (LoginScreen_OnEnter (snd (LoginScreen_OnExit s)))"
  shows "map_option fst (case submitLogin (away (KeyPressed KeyEnter)) t of Inr r \<Rightarrow> Some r | Inl _ \<Rightarrow> None) =
    Some [Post (UiIsLogin [ip, [], []])]"
proof -
  have "serverAddress t = serverAddress (LoginScreen_reset s)"
    using assms(1) by (intro serverAddress_cong) (simp_all add: t_def LoginScreen_OnEnter_def LoginScreen_OnExit_def
        enterWindow_def exitWindow_def LoginScreen_reset_def)
  moreover have "rectActive (loginButton t)" "entered (userBox t) = []" "entered (pwdBox t) = []"
    using assms(1,2) by (simp_all add: t_def LoginScreen_OnEnter_def LoginScreen_OnExit_def enterWindow_def
        exitWindow_def LoginScreen_reset_def resetText_def)
  moreover have "serverAddress (t\<lparr>loginButton := b\<rparr>) = serverAddress t" for b
    by (intro serverAddress_cong) simp_all
  ultimately show ?thesis
    using assms(3) by (simp add: submitLogin_def away_def getEnterText_def split: prod.split)
qed

text \<open>With no server in the configuration the label leads nowhere, and the end of a map is dereferenced.\<close>

lemma login_without_servers: "n \<le> 0 \<Longrightarrow> serverAddress (LoginScreen_init wider n signling user pwd c) = Inl Undefined"
  by (simp add: LoginScreen_init_def custom.defs serverAddress_def DropWidget_new_def getSelectedLabel_def
      serverName_def to_bytes_def)

subsection \<open>Creating and joining\<close>

datatype enter_action = EnterEnters | EnterExits | EnterType enter_type | EnterBooked string | EnterEvents "input list"

primrec enter_step :: "enter_action \<Rightarrow> enterscreen \<Rightarrow> (act list \<times> enterscreen) res" where
  "enter_step EnterEnters s = Inr ([], snd (EnterScreen_OnEnter s))"
| "enter_step EnterExits s = Inr ([], snd (EnterScreen_OnExit s))"
| "enter_step (EnterType t) s = Inr ([], setType t s)"
| "enter_step (EnterBooked m) s = Inr ([], setBookingId m s)"
| "enter_step (EnterEvents is) s = EnterScreen_eventProcess is s"

primrec enter_run :: "enter_action list \<Rightarrow> enterscreen \<Rightarrow> (act list \<times> enterscreen) res" where
  "enter_run [] s = Inr ([], s)"
| "enter_run (a # as) s =
     andThen (enter_step a s) (\<lambda>(bs, s). andThen (enter_run as s) (\<lambda>(cs, s). Inr (bs @ cs, s)))"

text \<open>The labels under which the window offers what the controller calls by these names.\<close>

definition labelsOf :: "VideoCodecType \<times> AudioCodecType \<times> VideoMcu \<times> AudioMcu \<Rightarrow> wstring list" where
  "labelsOf c = (case c of (v, a, vm, am) \<Rightarrow>
     [if v = VP9 then wide ''vp9'' else wide ''h264'', if a = PCMA then wide ''pcma'' else wide ''opus'',
      if vm = Mcu_Y then groupName 89 else groupName 74, if am = Mcu_L then groupName 76 else groupName 88])"

definition enter_post :: "act \<Rightarrow> bool" where
  "enter_post a \<longleftrightarrow>
     (\<exists>v au vm am. labelsOf (choices v au vm am) = [v, au, vm, am] \<and>
        (a = Post (UiIsCreate [v, au, vm, am]) \<or> a = Post (UiIsBooking [v, au, vm, am]))) \<or>
     (\<exists>m. a = Post (UiIsJoin m)) \<or> (\<exists>t. a = Clip t)"

definition enter_inv :: "enterscreen \<Rightarrow> bool" where
  "enter_inv s \<longleftrightarrow> caret_ok (meetingIdBox s) \<and>
     drop_inv {wide ''h264'', wide ''vp9''} (videoEncDrop s) \<and> drop_inv {wide ''pcma'', wide ''opus''} (audioEncDrop s) \<and>
     drop_inv {groupName 74, groupName 89} (videoMcuDrop s) \<and> drop_inv {groupName 88, groupName 76} (audioMcuDrop s) \<and>
     (describeText s \<noteq> notBooked \<longrightarrow> isOk (to_bytes (describeText s)))"

lemma enter_labels_ok:
  "v \<in> {wide ''h264'', wide ''vp9''} \<Longrightarrow> a \<in> {wide ''pcma'', wide ''opus''} \<Longrightarrow>
     vm \<in> {groupName 74, groupName 89} \<Longrightarrow> am \<in> {groupName 88, groupName 76} \<Longrightarrow>
     labelsOf (choices v a vm am) = [v, a, vm, am]"
  by (auto simp: labelsOf_def choices_def groupName_def wide_def)

lemma wide_to_bytes: "isOk (to_bytes (wide m))"
proof -
  have "u < 256" if "u \<in> set (wide m)" for u
    using that byteOf_less by (auto simp: wide_def byteOf_def)
  then have "list_all (\<lambda>u. u < 65536 \<and> \<not> (55296 \<le> u \<and> u < 57344)) (wide m)"
    unfolding list_all_iff by fastforce
  then show ?thesis
    by (simp add: to_bytes_def)
qed

lemma enter_more:
  fixes s t :: enterscreen
  assumes "custom.more s = custom.more t"
  shows "meetingIdBox s = meetingIdBox t" "videoEncDrop s = videoEncDrop t" "audioEncDrop s = audioEncDrop t"
    "videoMcuDrop s = videoMcuDrop t" "audioMcuDrop s = audioMcuDrop t" "describeText s = describeText t"
  using assms by (cases s; cases t; simp)+

lemma enter_inv_simps [simp]:
  "enter_inv (snd (checkStatus i s)) = enter_inv s"
  "enter_inv s \<Longrightarrow> enter_inv (snd (EnterScreen_OnExit s))"
  "enter_inv s \<Longrightarrow> enter_inv (snd (EnterScreen_OnEnter s))"
  "enter_inv (setType t s) = enter_inv s"
  "enter_inv s \<Longrightarrow> enter_inv (setBookingId m s)"
  using enter_more[OF checkStatus_more[of i s]] wide_to_bytes[of m]
  by (simp_all add: enter_inv_def EnterScreen_OnExit_def exitWindow_def EnterScreen_OnEnter_def enterWindow_def
      EnterScreen_reset_def setType_def setBookingId_def)

lemma enter_inv_init [simp]: "enter_inv (EnterScreen_init prompt c)"
  by (simp add: enter_inv_def EnterScreen_init_def custom.defs)

lemma drop_label_bytes:
  assumes "drop_inv {wide a, wide b} d"
  obtains t where "to_bytes (getSelectedLabel d) = Inr t"
  using drop_inv_label[OF assms] wide_to_bytes[of a] wide_to_bytes[of b] that by (auto simp: isOk_def)

text \<open>A drop-down that has handled an event, with the line that is logged.\<close>

lemma drop_step:
  assumes "drop_inv S d"
  obtains c d' where "DropWidget_eventProcess e r i d = (c, d')" "drop_inv S d'"
  using drop_inv_event[OF assms, of e r i] by (cases "DropWidget_eventProcess e r i d") auto

lemma chooseIn_ok:
  assumes "drop_inv S (get s)" "\<And>d. drop_inv S d \<Longrightarrow> enter_inv (upd d s)"
  shows "\<exists>s'. chooseIn i place label get upd s = Inr s' \<and> enter_inv s'"
proof -
  obtain c d where step: "DropWidget_eventProcess (ev i) (hits i place) (\<lambda>k. hits i (label k)) (get s) = (c, d)"
      "drop_inv S d"
    using drop_step[OF assms(1)] by metis
  then have inv: "enter_inv (upd d s)"
    using assms(2) by blast
  then obtain t where "to_bytes (getSelectedLabel (videoEncDrop (upd d s))) = Inr t"
    using drop_label_bytes unfolding enter_inv_def by metis
  then show ?thesis
    using step inv by (simp add: chooseIn_def)
qed

lemma chooseFormats_ok:
  assumes "enter_inv s"
  obtains s' where "chooseFormats i s = Inr s'" "enter_inv s'"
proof -
  have "\<exists>s'. chooseIn i VideoEncSpot VideoEncLabel videoEncDrop (\<lambda>d s. s\<lparr>videoEncDrop := d\<rparr>) s = Inr s' \<and> enter_inv s'"
    "\<exists>s'. chooseIn i AudioEncSpot AudioEncLabel audioEncDrop (\<lambda>d s. s\<lparr>audioEncDrop := d\<rparr>) s = Inr s' \<and> enter_inv s'"
    "\<exists>s'. chooseIn i VideoMcuSpot VideoMcuLabel videoMcuDrop (\<lambda>d s. s\<lparr>videoMcuDrop := d\<rparr>) s = Inr s' \<and> enter_inv s'"
    "\<exists>s'. chooseIn i AudioMcuSpot AudioMcuLabel audioMcuDrop (\<lambda>d s. s\<lparr>audioMcuDrop := d\<rparr>) s = Inr s' \<and> enter_inv s'"
    if "enter_inv s" for s
    using that by (auto simp: enter_inv_def intro!: chooseIn_ok[unfolded enter_inv_def])
  note steps = this
  obtain s1 where s1: "chooseIn i VideoEncSpot VideoEncLabel videoEncDrop (\<lambda>d s. s\<lparr>videoEncDrop := d\<rparr>) s = Inr s1" "enter_inv s1"
    using steps(1)[OF assms] by blast
  obtain s2 where s2: "chooseIn i AudioEncSpot AudioEncLabel audioEncDrop (\<lambda>d s. s\<lparr>audioEncDrop := d\<rparr>) s1 = Inr s2" "enter_inv s2"
    using steps(2)[OF s1(2)] by blast
  obtain s3 where s3: "chooseIn i VideoMcuSpot VideoMcuLabel videoMcuDrop (\<lambda>d s. s\<lparr>videoMcuDrop := d\<rparr>) s2 = Inr s3" "enter_inv s3"
    using steps(3)[OF s2(2)] by blast
  show thesis
    using steps(4)[OF s3(2)] that s1(1) s2(1) s3(1) by (auto simp: chooseFormats_def)
qed

lemma createEvent_ok:
  assumes "enter_inv s"
  obtains as s' where "createEvent i s = Inr (as, s')" "enter_inv s'" "list_all enter_post as"
proof -
  obtain t where t: "chooseFormats i s = Inr t" "enter_inv t"
    using chooseFormats_ok[OF assms] by blast
  obtain f k where box: "CheckBox_onClick (ev i) (hits i BoxSpot) (hits i UncheckSpot) (isBooking t) = (f, k)"
    by fastforce
  obtain c b where click: "onClick (ev i) (hits i CreateSpot) (face (createButton t)) = (c, b)"
    by fastforce
  define u where "u = t\<lparr>isBooking := k, createButton := (createButton t)\<lparr>face := b\<rparr>\<rparr>"
  have u: "enter_inv u"
    using t by (simp add: enter_inv_def u_def)
  let ?v = "getSelectedLabel (videoEncDrop t)" and ?a = "getSelectedLabel (audioEncDrop t)"
  let ?vm = "getSelectedLabel (videoMcuDrop t)" and ?am = "getSelectedLabel (audioMcuDrop t)"
  have "labelsOf (choices ?v ?a ?vm ?am) = [?v, ?a, ?vm, ?am]"
    using t drop_inv_label by (intro enter_labels_ok) (simp_all only: enter_inv_def)
  then have "enter_post (Post (UiIsBooking [?v, ?a, ?vm, ?am]))" "enter_post (Post (UiIsCreate [?v, ?a, ?vm, ?am]))"
    unfolding enter_post_def by blast+
  moreover have "createEvent i s =
      (if (c \<or> ev i = KeyPressed KeyEnter) \<and> rectActive (createButton t)
       then Inr ([Post (if isCheck k then UiIsBooking [?v, ?a, ?vm, ?am] else UiIsCreate [?v, ?a, ?vm, ?am])], u)
       else Inr ([], u))"
    using t box click by (simp add: createEvent_def Let_def u_def)
  ultimately show thesis
    using that u by (auto split: if_splits)
qed

lemma joinEvent_ok:
  assumes "enter_inv s"
  obtains as s' where "joinEvent i s = Inr (as, s')" "enter_inv s'" "list_all enter_post as"
proof -
  obtain c b where click: "onClick (ev i) (hits i DescribeSpot) (describeButton s) = (c, b)"
    by fastforce
  define t where "t = s\<lparr>describeButton := b\<rparr>"
  have t: "enter_inv t" "describeText t = describeText s"
    using assms by (simp_all add: enter_inv_def t_def)
  obtain clips where clips: "(if c \<and> describeText t \<noteq> notBooked
      then andThen (to_bytes (describeText t)) (\<lambda>t. Inr [Clip t]) else Inr []) = Inr clips" "list_all enter_post clips"
    using t by (cases "c \<and> describeText t \<noteq> notBooked") (auto simp: enter_inv_def isOk_def enter_post_def)
  obtain c' b' where join: "onClick (ev i) (hits i JoinSpot) (face (joinButton s)) = (c', b')"
    by fastforce
  define u where "u = t\<lparr>joinButton := (joinButton t)\<lparr>face := b'\<rparr>\<rparr>"
  define v where "v = u\<lparr>meetingIdBox := resetText (meetingIdBox u),
    joinButton := TextRectangle_setActive False (joinButton u)\<rparr>"
  have inv: "enter_inv u" "enter_inv v"
    using t by (simp_all add: enter_inv_def u_def v_def)
  have "joinEvent i s =
      (if (c' \<or> ev i = KeyPressed KeyEnter) \<and> rectActive (joinButton s)
       then Inr (clips @ [Post (UiIsJoin (entered (meetingIdBox s)))], v) else Inr (clips, u))"
    unfolding joinEvent_def Let_def click prod.case t_def[symmetric] clips(1) andThen_Inr
    using join by (simp add: getEnterText_def u_def v_def t_def)
  moreover have "enter_post (Post (UiIsJoin (entered (meetingIdBox s))))"
    by (simp add: enter_post_def)
  ultimately show thesis
    using that inv clips by (auto split: if_splits)
qed

lemma EnterScreen_event_ok:
  assumes "enter_inv s"
  obtains as s' where "EnterScreen_event i s = Inr (as, s')" "enter_inv s'" "list_all enter_post as"
proof -
  obtain c s1 where status: "checkStatus i s = (c, s1)"
    by fastforce
  define s2 where "s2 = (if c then snd (EnterScreen_OnExit s1) else s1)"
  have s2: "enter_inv s2"
    using assms enter_inv_simps(1)[of i s] status by (simp add: s2_def)
  then obtain f b where edit: "Enter_eventProcess (fullText i) (ev i) (hits i MeetingIdSpot) (meetingIdBox s2) = Inr (f, b)"
      "caret_ok b"
    using Enter_eventProcess_ok unfolding enter_inv_def by metis
  define b' where "b' = (if boxActive b \<and> readsV i \<and> ctrlHeld i then setInputVal (wideText i) (clipboard i) b else b)"
  define s3 where "s3 = s2\<lparr>meetingIdBox := b'\<rparr>"
  have s3: "enter_inv s3"
    using s2 edit by (simp add: enter_inv_def s3_def b'_def)
  obtain as s4 where s4: "(if enterType s3 = CreateType then createEvent i s3 else joinEvent i s3) = Inr (as, s4)"
      "enter_inv s4" "list_all enter_post as"
    by (cases "enterType s3 = CreateType"; simp) (metis createEvent_ok[OF s3] joinEvent_ok[OF s3])+
  define s5 where "s5 = (if \<not> inputEmpty (meetingIdBox s4) then
      if enterType s4 = JoinType then s4\<lparr>joinButton := TextRectangle_setActive True (joinButton s4)\<rparr> else s4
    else s4\<lparr>joinButton := TextRectangle_setActive False (joinButton s4)\<rparr>)"
  have "enter_inv s5"
    using s4 by (simp add: enter_inv_def s5_def)
  moreover have "EnterScreen_event i s = Inr (as, s5)"
    using status edit s4(1) unfolding EnterScreen_event_def Let_def s5_def s3_def b'_def s2_def by simp
  ultimately show thesis
    using that s4 by blast
qed

lemma enter_step_ok:
  assumes "enter_inv s"
  shows "\<exists>as s'. enter_step a s = Inr (as, s') \<and> enter_inv s' \<and> list_all enter_post as"
proof (cases a)
  case (EnterEvents evs)
  have "\<exists>as s'. pollLoop EnterScreen_event evs s = Inr (as, s') \<and> enter_inv s' \<and> list_all enter_post as"
    using assms EnterScreen_event_ok by (intro pollLoop_ok[where P = enter_inv]) metis+
  then show ?thesis
    using assms EnterEvents by (simp add: EnterScreen_eventProcess_def)
qed (use assms in simp_all)

lemma enter_run_ok:
  "enter_inv s \<Longrightarrow> \<exists>as s'. enter_run acts s = Inr (as, s') \<and> enter_inv s' \<and> list_all enter_post as"
proof (induction acts arbitrary: s)
  case Nil
  then show ?case by simp
next
  case (Cons a acts)
  obtain as s' where "enter_step a s = Inr (as, s')" "enter_inv s'" "list_all enter_post as"
    using enter_step_ok[OF Cons.prems] by blast
  then show ?case
    using Cons.IH[of s'] by auto
qed

text \<open>C34: no run of the window for creating and joining faults. A create or booking message carries four labels that the
  controller reads back as the formats and groups of the same names; nothing else but joining and the clipboard
  comes from it.\<close>

theorem enter_choices:
  "\<exists>as s. enter_run acts (EnterScreen_init prompt c) = Inr (as, s) \<and> list_all enter_post as"
  using enter_run_ok[OF enter_inv_init] by blast

text \<open>What the create button posts is what the user sees: the controller reads the labels back as the formats
  and groups they name.\<close>

lemma enter_default_labels:
  "labelsOf (H264, OPUS, Mcu_J, Mcu_X) = [wide ''h264'', wide ''opus'', groupName 74, groupName 88]"
  by (simp add: labelsOf_def)

subsection \<open>Inviting\<close>

lemma invite_more:
  fixes s t :: invitescreen
  assumes "custom.more s = custom.more t"
  shows "inviteBox s = inviteBox t" "inviteButton s = inviteButton t"
  using assms by (cases s; cases t; simp)+

lemma InviteScreen_event_ok:
  assumes "caret_ok (inviteBox s)"
  shows "\<exists>as s'. InviteScreen_event i s = Inr (as, s') \<and> caret_ok (inviteBox s') \<and>
    list_all (\<lambda>a. \<exists>u. a = Post (UiInvite u)) as"
proof -
  obtain c s1 where status: "checkStatus i s = (c, s1)"
    by fastforce
  define s2 where "s2 = (if c then snd (InviteScreen_OnExit s1) else s1)"
  have "inviteBox s1 = inviteBox s"
    using invite_more(1)[OF checkStatus_more[of i s]] status by simp
  then have "caret_ok (inviteBox s2)"
    using assms by (simp add: s2_def InviteScreen_OnExit_def exitWindow_def InviteScreen_reset_def)
  then obtain f b where edit: "Enter_eventProcess (fullText i) (ev i) (hits i UserSpot) (inviteBox s2) = Inr (f, b)" "caret_ok b"
    using Enter_eventProcess_ok by metis
  then show ?thesis
    using status unfolding InviteScreen_event_def Let_def
    by (auto simp: getEnterText_def split: prod.splits simp flip: s2_def)
qed

subsection \<open>The start window\<close>

lemma start_more:
  fixes s t :: startscreen
  assumes "custom.more s = custom.more t"
  shows "loginType s = loginType t" "startLoginB s = startLoginB t" "isLoginB s = isLoginB t"
    "createMeetingB s = createMeetingB t" "joinMeetingB s = joinMeetingB t"
  using assms by (cases s; cases t; simp)+

text \<open>One message at most per event, logging in only while offline and out only while online.\<close>

lemma StartScreen_event_posts:
  "fst (StartScreen_event i s) \<in> {[], [Post UiCreate], [Post UiJoin]} \<union>
     (if loginType s = OFFLINE then {[Post UiLogin]} else {[Post UiLogout]})"
proof -
  have "loginType (snd (checkStatus i s)) = loginType s"
    using start_more(1)[OF checkStatus_more[of i s]] .
  then show ?thesis
    by (cases "loginType s") (auto simp: StartScreen_event_def Let_def split: prod.splits)
qed

text \<open>The two login buttons share their place. The press that starts a login also presses the hidden logout
  button, and only the release is kept from it: once the login has succeeded, releasing the mouse over the button
  logs out although nothing was pressed there.\<close>

definition overLogin :: "sfevent \<Rightarrow> input" where
  "overLogin e = (away e)\<lparr>hits := (\<lambda>p. p = StartLoginSpot \<or> p = IsLoginSpot)\<rparr>"

lemma overLogin_simps [simp]: "ev (overLogin e) = e" "hits (overLogin e) p \<longleftrightarrow> p = StartLoginSpot \<or> p = IsLoginSpot"
  by (simp_all add: overLogin_def away_def)

definition login_buttons :: "startscreen \<Rightarrow> bool" where
  "login_buttons s \<longleftrightarrow> activated (startLoginB s) \<and> activated (isLoginB s) \<and> isPressed (isLoginB s)"

lemma stale_press_logs_out:
  assumes "login_buttons s"
  shows "isPressed (startLoginB s) \<Longrightarrow> loginType s = OFFLINE \<Longrightarrow>
      fst (StartScreen_event (overLogin (MouseReleased LeftButton)) s) = [Post UiLogin] \<and>
      login_buttons (snd (StartScreen_event (overLogin (MouseReleased LeftButton)) s))"
    "loginType s = ONLINE \<Longrightarrow>
      fst (StartScreen_event (overLogin (MouseReleased LeftButton)) s) = [Post UiLogout]"
  using assms start_more[OF checkStatus_more[of "overLogin (MouseReleased LeftButton)" s]]
  by (simp_all add: StartScreen_event_def Let_def case_prod_beta login_buttons_def)

lemma login_press:
  assumes "activated (startLoginB s)" "activated (isLoginB s)"
  shows "login_buttons (snd (StartScreen_event (overLogin (MousePressed LeftButton)) s)) \<and>
    isPressed (startLoginB (snd (StartScreen_event (overLogin (MousePressed LeftButton)) s)))"
  using assms start_more[OF checkStatus_more[of "overLogin (MousePressed LeftButton)" s]]
  by (simp add: StartScreen_event_def Let_def case_prod_beta login_buttons_def)

end
