(* ===== verification/StreamScreen.thy ===== *)
theory StreamScreen
  imports Screens Text
begin

text \<open>
  The window of a meeting (\<open>src/screen/streamscreen.cpp\<close>): its switches, its device and share lists and the
  messages it posts, the texts it shows, and the renderer that turns decoded pictures into the pixels it draws.
  Drawing is left out; pictures are their sizes.
\<close>

subsection \<open>State\<close>

text \<open>The microphone, the camera and the sharing each have a button for either state.\<close>

record switch =
  closeButton :: clicker
  openButton :: clicker
  switchState :: bool

datatype streamspot =
    LeaveSpot | MeetingSpot | InfoSpot | PersonPlusSpot
  | CloseMicSpot | OpenMicSpot | CloseCamSpot | OpenCamSpot | CloseShareSpot | OpenShareSpot
  | AudioArrowSpot | CamArrowSpot | ShareArrowSpot | BackgroundSpot | SenseSpot | CircleSpot | BarSpot
  | AudioInLabel wstring | AudioOutLabel wstring | VideoLabel wstring | ScreenLabel wstring | WindowLabel wstring

record streamscreen =
  streamActive :: bool
  mic :: switch
  cam :: switch
  share :: switch
  leaveMeeting :: textbutton
  meetingDescribe :: clicker
  meetingText :: wstring
  meetingInfo :: clicker
  personPlus :: clicker
  audioDevArrow :: clicker
  camDevArrow :: clicker
  shareScreenArrow :: clicker
  micArrowClick :: bool
  camArrowClick :: bool
  shareArrowClick :: bool
  settingPop :: bool
  isFull :: bool
  infoClick :: bool
  getMeetingDataTimePoint :: int
  meetingTimePoint :: int
  meetingTime :: wstring
  volumeBar :: seekbar
  audioInputDevList :: droplist
  audioOutputDevList :: droplist
  videoDropList :: droplist
  screenDropList :: droplist
  windowDropList :: droplist
  framerate :: wstring
  videoBitrate :: wstring

definition framerateInfo :: wstring where
  "framerateInfo = [40, 21457, 36865, 47, 25509, 25910, 41, 24103, 29575, 58, 32]"

definition videoBitrateInfo :: wstring where
  "videoBitrateInfo = [40, 21457, 36865, 47, 25509, 25910, 41, 35270, 39057, 30721, 29575, 58, 32]"

definition switch_new :: switch where
  "switch_new = \<lparr>closeButton = clicker_new, openButton = clicker_new, switchState = False\<rparr>"

definition meetingPrefix :: wstring where
  "meetingPrefix = [20250, 35758, 21495, 32]"

definition shownList :: "nat \<Rightarrow> droplist" where
  "shownList limit = DropList_setShow True (DropList_init limit)"

text \<open>\<open>init\<close>; \<open>wr\<close> and \<open>hr\<close> scale the layout to the desktop.\<close>

definition StreamScreen_init :: "rat \<Rightarrow> rat \<Rightarrow> streamscreen" where
  "StreamScreen_init wr hr =
     \<lparr>streamActive = False, mic = switch_new, cam = switch_new, share = switch_new,
      leaveMeeting = TextRoundRectangle True, meetingDescribe = clicker_new,
      meetingText = meetingPrefix @ wide ''unknown'', meetingInfo = clicker_new, personPlus = clicker_new,
      audioDevArrow = clicker_new, camDevArrow = clicker_new, shareScreenArrow = clicker_new,
      micArrowClick = False, camArrowClick = False, shareArrowClick = False, settingPop = False,
      isFull = True, infoClick = False, getMeetingDataTimePoint = 0, meetingTimePoint = 0, meetingTime = [],
      volumeBar = SeekBar_init (210 * wr, 9 * hr) ((5 + 30) * wr, (400 + 55) * hr) True (1 / 2),
      audioInputDevList = shownList 5, audioOutputDevList = shownList 5, videoDropList = shownList 5,
      screenDropList = shownList 3, windowDropList = shownList 8,
      framerate = framerateInfo @ wide ''0/0'', videoBitrate = videoBitrateInfo @ wide ''0.0kbps/0.0kbps''\<rparr>"

definition StreamScreen_OnEnter :: "streamscreen \<Rightarrow> streamscreen" where
  "StreamScreen_OnEnter s = s\<lparr>streamActive := True\<rparr>"

definition StreamScreen_OnExit :: "streamscreen \<Rightarrow> streamscreen" where
  "StreamScreen_OnExit s =
     (let off = (\<lambda>w. w\<lparr>switchState := False\<rparr>)
      in s\<lparr>streamActive := False, cam := off (cam s), mic := off (mic s), share := off (share s), infoClick := False,
           volumeBar := SeekBar_reset (volumeBar s),
           audioInputDevList := DropList_reset (audioInputDevList s),
           audioOutputDevList := DropList_reset (audioOutputDevList s),
           videoDropList := DropList_reset (videoDropList s), screenDropList := DropList_reset (screenDropList s),
           windowDropList := DropList_reset (windowDropList s)\<rparr>)"

subsection \<open>Events\<close>

record streaminput =
  sev :: sfevent
  shits :: "streamspot \<Rightarrow> bool"
  inWindow :: bool
  mousePos :: vec
  clickTime :: int

text \<open>A switch: the button of its present state is asked, a click turns it over and posts the new state.\<close>

definition switchEvent :: "sfevent \<Rightarrow> bool \<Rightarrow> bool \<Rightarrow> (bool \<Rightarrow> ui) \<Rightarrow> switch \<Rightarrow> act list \<times> switch" where
  "switchEvent e inClose inOpen msg w =
     (if \<not> switchState w then
        case onClick e inClose (closeButton w) of (c, b) \<Rightarrow>
          let w = w\<lparr>closeButton := b\<rparr>
          in if c then ([Post (msg True)], w\<lparr>switchState := True\<rparr>) else ([], w)
      else
        case onClick e inOpen (openButton w) of (c, b) \<Rightarrow>
          let w = w\<lparr>openButton := b\<rparr>
          in if c then ([Post (msg False)], w\<lparr>switchState := False\<rparr>) else ([], w))"

definition streamButtons :: "streaminput \<Rightarrow> streamscreen \<Rightarrow> (act list \<times> streamscreen) res" where
  "streamButtons i s =
     (let e = sev i; h = shits i; (c1, t) = TextRoundRectangle_onClick e (h LeaveSpot) (leaveMeeting s);
          (c2, b2) = onClick e (h MeetingSpot) (meetingDescribe s); s = s\<lparr>leaveMeeting := t, meetingDescribe := b2\<rparr>
      in andThen (if c2 then andThen (to_bytes (drop 4 (meetingText s))) (\<lambda>t. Inr [Clip t]) else Inr []) (\<lambda>clips.
         let (c3, b3) = onClick e (h InfoSpot) (meetingInfo s); s = s\<lparr>meetingInfo := b3\<rparr>;
             s = (if c3 then s\<lparr>infoClick := \<not> infoClick s,
                               getMeetingDataTimePoint := if \<not> infoClick s then clickTime i else 0\<rparr> else s);
             (c4, b4) = onClick e (h PersonPlusSpot) (personPlus s);
             (m, micS) = switchEvent e (h CloseMicSpot) (h OpenMicSpot) UiMic (mic s);
             (v, camS) = switchEvent e (h CloseCamSpot) (h OpenCamSpot) UiCam (cam s);
             (x, shareS) = switchEvent e (h CloseShareSpot) (h OpenShareSpot) UiShare (share s)
         in Inr ((if c1 then [Post UiMeetingEnd] else []) @ clips @ (if c4 then [Post UiStartInvite] else []) @ m @ v @ x,
                 s\<lparr>personPlus := b4, mic := micS, cam := camS, share := shareS, isFull := False\<rparr>)))"

definition setArrows :: "bool \<Rightarrow> bool \<Rightarrow> bool \<Rightarrow> streamscreen \<Rightarrow> streamscreen" where
  "setArrows m c x s = s\<lparr>micArrowClick := m, camArrowClick := c, shareArrowClick := x\<rparr>"

text \<open>The arrows that open the settings; the answer says whether one was clicked.\<close>

definition arrowEvent :: "streaminput \<Rightarrow> streamscreen \<Rightarrow> bool \<times> act list \<times> streamscreen" where
  "arrowEvent i s =
     (let e = sev i; (c1, b1) = onClick e (shits i AudioArrowSpot) (audioDevArrow s); s = s\<lparr>audioDevArrow := b1\<rparr>
      in if c1 then (True, [], (setArrows True False False s)\<lparr>settingPop := True\<rparr>)
         else
           let (c2, b2) = onClick e (shits i CamArrowSpot) (camDevArrow s); s = s\<lparr>camDevArrow := b2\<rparr>
           in if c2 then (True, [], (setArrows False True False s)\<lparr>settingPop := True\<rparr>)
              else
                let (c3, b3) = onClick e (shits i ShareArrowSpot) (shareScreenArrow s); s = s\<lparr>shareScreenArrow := b3\<rparr>
                in if c3 then (True, [Post UiWindowList], (setArrows False False True s)\<lparr>settingPop := True\<rparr>)
                   else (False, [], s))"

text \<open>A click in a list posts the text of the label.\<close>

definition listEvent :: "sfevent \<Rightarrow> (wstring \<Rightarrow> bool) \<Rightarrow> (string \<Rightarrow> ui) \<Rightarrow> droplist \<Rightarrow> (act list \<times> droplist) res" where
  "listEvent e inLabel msg l =
     (case DropList_eventProcess e inLabel False l of
        (True, l) \<Rightarrow> andThen (to_bytes (selectedLabel l)) (\<lambda>t. Inr ([Post (msg t)], l))
      | (False, l) \<Rightarrow> Inr ([], l))"

definition settingsEvent :: "streaminput \<Rightarrow> streamscreen \<Rightarrow> (act list \<times> streamscreen) res" where
  "settingsEvent i s =
     (let e = sev i; h = shits i in
      andThen
        (if micArrowClick s then
           let s = s\<lparr>volumeBar := SeekBar_eventProcess e (mousePos i) (h CircleSpot) (h BarSpot) (volumeBar s)\<rparr>
           in andThen (listEvent e (\<lambda>k. h (AudioInLabel k)) UiAudioIn (audioInputDevList s)) (\<lambda>(as, l).
              andThen (listEvent e (\<lambda>k. h (AudioOutLabel k)) UiAudioOut (audioOutputDevList s)) (\<lambda>(bs, m).
                Inr (as @ bs, s\<lparr>audioInputDevList := l, audioOutputDevList := m\<rparr>)))
         else Inr ([], s)) (\<lambda>(as, s).
      andThen
        (if camArrowClick s then
           andThen (listEvent e (\<lambda>k. h (VideoLabel k)) UiVideoIn (videoDropList s)) (\<lambda>(bs, l).
             Inr (bs, s\<lparr>videoDropList := l\<rparr>))
         else Inr ([], s)) (\<lambda>(bs, s).
      andThen
        (if shareArrowClick s then
           andThen (listEvent e (\<lambda>k. h (ScreenLabel k)) UiScreen (screenDropList s)) (\<lambda>(cs, l).
             let s = s\<lparr>screenDropList := l\<rparr>
             in if cs \<noteq> [] then Inr (cs, s)
                else andThen (listEvent e (\<lambda>k. h (WindowLabel k)) UiWindow (windowDropList s)) (\<lambda>(ds, l).
                       Inr (ds, s\<lparr>windowDropList := l\<rparr>)))
         else Inr ([], s)) (\<lambda>(cs, s).
      Inr (as @ bs @ cs, s)))))"

definition StreamScreen_event :: "streaminput \<Rightarrow> streamscreen \<Rightarrow> (act list \<times> streamscreen) res" where
  "StreamScreen_event i s =
     (let keys = (if sev i = ClosedEvent then [Post UiMeetingEnd] else if sev i = KeyPressed KeyF then [Post UiIFrame] else [])
      in andThen (if inWindow i then streamButtons i s else Inr ([], s\<lparr>isFull := True\<rparr>)) (\<lambda>(as, s).
         let (arrow, bs, s) = arrowEvent i s
         in if shits i BackgroundSpot then
              andThen (settingsEvent i s) (\<lambda>(cs, s). Inr (keys @ as @ bs @ cs, s))
            else if shits i SenseSpot then Inr (keys @ as @ bs, s)
            else
              let s = (if \<not> arrow then s\<lparr>settingPop := False\<rparr> else s);
                  s = (if isFull s \<and> settingPop s then s\<lparr>settingPop := False\<rparr> else s)
              in Inr (keys @ as @ bs, setArrows False False False s)))"

text \<open>The duration of the meeting as \<open>hours:minutes:seconds\<close>; divisions drop the fraction.\<close>

definition quotient :: "int \<Rightarrow> int \<Rightarrow> int" where
  "quotient a b = (if 0 \<le> a then a div b else - (- a div b))"

definition intText :: "int \<Rightarrow> string" where
  "intText n = (if n < 0 then CHR ''-'' # to_string (nat (- n)) else to_string (nat n))"

definition twoDigits :: "int \<Rightarrow> string" where
  "twoDigits n = (if n < 10 then ''0'' @ intText n else intText n)"

definition timeParts :: "int \<Rightarrow> int \<times> int \<times> int" where
  "timeParts timestamp =
     (let t = quotient timestamp 1000; hour = quotient t 3600; minute = quotient t 60 - hour * 60
      in (hour, minute, t - hour * 3600 - minute * 60))"

definition parseTime :: "int \<Rightarrow> string" where
  "parseTime timestamp =
     (case timeParts timestamp of (hour, minute, sec) \<Rightarrow> twoDigits hour @ '':'' @ twoDigits minute @ '':'' @ twoDigits sec)"

definition timePrefix :: wstring where
  "timePrefix = [20250, 35758, 26102, 38271, 32]"

text \<open>One call of \<open>eventProcess\<close>: the pending events, then the clock, the volume bar and the statistics. The clock
  is read afresh each time.\<close>

record streamround =
  pending :: "streaminput list"
  shownTime :: int
  barMouse :: vec
  overCircle :: bool
  overBar :: bool
  askedTime :: int
  storedTime :: int

primrec streamLoop :: "streaminput list \<Rightarrow> streamscreen \<Rightarrow> (act list \<times> streamscreen) res" where
  "streamLoop [] s = Inr ([], s)"
| "streamLoop (i # is) s =
     andThen (StreamScreen_event i s) (\<lambda>(as, s). andThen (streamLoop is s) (\<lambda>(bs, s). Inr (as @ bs, s)))"

definition volumeStep :: "streamround \<Rightarrow> streamscreen \<Rightarrow> act list \<times> streamscreen" where
  "volumeStep r s =
     (case SeekBar_update (barMouse r) (overCircle r) (overBar r) (volumeBar s) of (moved, b) \<Rightarrow>
        (if moved then [Post (UiVolume (SeekBar_data b))] else [], s\<lparr>volumeBar := b\<rparr>))"

definition infoStep :: "streamround \<Rightarrow> streamscreen \<Rightarrow> act list \<times> streamscreen" where
  "infoStep r s =
     (if infoClick s \<and> askedTime r - getMeetingDataTimePoint s \<ge> 1000
      then ([Post UiMeetingInfo], s\<lparr>getMeetingDataTimePoint := storedTime r\<rparr>) else ([], s))"

definition StreamScreen_eventProcess :: "streamround \<Rightarrow> streamscreen \<Rightarrow> (act list \<times> streamscreen) res" where
  "StreamScreen_eventProcess r s =
     (if \<not> streamActive s then Inr ([], s)
      else andThen (streamLoop (pending r) s) (\<lambda>(as, s).
        let s = s\<lparr>meetingTime := timePrefix @ wide (parseTime (shownTime r - meetingTimePoint s))\<rparr>;
            (bs, s) = volumeStep r s;
            (cs, s) = infoStep r s
        in Inr (as @ bs @ cs, s)))"

subsection \<open>What the vision controller sets\<close>

definition setSessionId :: "string \<Rightarrow> streamscreen \<Rightarrow> (unit, streamscreen) eff" where
  "setSessionId m s = thenDo (from_bytes m, s) (\<lambda>w s. (Inr (), s\<lparr>meetingText := meetingPrefix @ w\<rparr>))"

definition setSessionTimepoint :: "int \<Rightarrow> streamscreen \<Rightarrow> streamscreen" where
  "setSessionTimepoint t s = s\<lparr>meetingTimePoint := t\<rparr>"

text \<open>Labels are added one by one; a text that cannot be converted ends the call with the labels until then.\<close>

primrec addNames :: "string list \<Rightarrow> droplist \<Rightarrow> (unit, droplist) eff" where
  "addNames [] l = (Inr (), l)"
| "addNames (n # ns) l = thenDo (from_bytes n, l) (\<lambda>w l. addNames ns (addLabel w True l))"

definition setDevList :: "(int \<times> string) list \<Rightarrow> nat \<Rightarrow> streamscreen \<Rightarrow> (unit, streamscreen) eff" where
  "setDevList m kind s =
     (let names = map snd m in
      if kind = 0 then (case addNames names (audioInputDevList s) of (r, l) \<Rightarrow> (r, s\<lparr>audioInputDevList := l\<rparr>))
      else if kind = 1 then (case addNames names (audioOutputDevList s) of (r, l) \<Rightarrow> (r, s\<lparr>audioOutputDevList := l\<rparr>))
      else if kind = 2 then (case addNames names (videoDropList s) of (r, l) \<Rightarrow> (r, s\<lparr>videoDropList := l\<rparr>))
      else (Inr (), s))"

text \<open>Windows that are not offered: the application's own, which a regular expression is to find, and some
  programs by name. The expression is an ordinary text literal, so that its escapes are lost: \<open>\s\<close> is the letter
  \<open>s\<close> and \<open>\.\<close> any character. The cases of letters are ignored; titles are taken to have one line.\<close>

definition occurs :: "string \<Rightarrow> string \<Rightarrow> bool" where
  "occurs pat s \<longleftrightarrow> find_in pat s \<noteq> None"

definition ownTitle :: "string \<Rightarrow> bool" where
  "ownTitle name =
     (let n = map tolower name; m = dropWhile (\<lambda>c. c = CHR ''s'') n
      in take 7 m = ''alllink'' \<and> dropWhile (\<lambda>c. c = CHR ''s'') (drop 7 m) = [] \<or>
         occurs ''alllink'' n \<and> occurs ''exe'' (tl n))"

definition weixin :: string where
  "weixin = map char_of [0xE5, 0xBE, 0xAE, 0xE4, 0xBF, 0xA1 :: nat]"

definition tencent :: string where
  "tencent = map char_of [0xE8, 0x85, 0xBE, 0xE8, 0xAE, 0xAF :: nat]"

definition skippedTitle :: "string \<Rightarrow> bool" where
  "skippedTitle name \<longleftrightarrow> ownTitle name \<or>
     list_ex (\<lambda>p. occurs p name) [''NVIDIA'', ''WeMail'', ''As'', weixin, ''QQ'', tencent, ''LetsVPN'']"

text \<open>The part after the last dash, as the controller cuts it too.\<close>

definition shareLabel :: "string \<Rightarrow> string" where
  "shareLabel name = (if CHR ''-'' \<in> set name then rev (takeWhile (\<lambda>c. c \<noteq> CHR ''-'') (rev name)) else name)"

definition setShareList :: "(int \<times> string) list \<Rightarrow> nat \<Rightarrow> streamscreen \<Rightarrow> (unit, streamscreen) eff" where
  "setShareList m kind s =
     (if kind = 1 then
        case addNames (map (\<lambda>x. intText (fst x)) m) (screenDropList s) of (r, l) \<Rightarrow> (r, s\<lparr>screenDropList := l\<rparr>)
      else if kind = 2 then
        if m = [] then (Inr (), s)
        else case addNames (map shareLabel (filter (\<lambda>n. \<not> skippedTitle n) (map snd m))) (windowDropList s) of
               (r, l) \<Rightarrow> (r, s\<lparr>windowDropList := l\<rparr>)
      else (Inr (), s))"

text \<open>The statistics that are shown. The texts announce what was sent before what was received; the vision
  controller passes what was sent as the parameter called \<open>recv\<close>, so that they are in that order.\<close>

definition setMeetingFrame :: "wstring \<Rightarrow> wstring \<Rightarrow> streamscreen \<Rightarrow> streamscreen" where
  "setMeetingFrame recv sent s = s\<lparr>framerate := framerateInfo @ recv @ wide ''/'' @ sent\<rparr>"

definition setMeetingVideoBitrate :: "wstring \<Rightarrow> wstring \<Rightarrow> streamscreen \<Rightarrow> streamscreen" where
  "setMeetingVideoBitrate recv sent s = s\<lparr>videoBitrate := videoBitrateInfo @ recv @ wide ''kbps/'' @ sent @ wide ''kbps''\<rparr>"

subsection \<open>The renderer\<close>

text \<open>\<open>VideoRenderer\<close>: the header of the bitmap and the bytes allocated for it. A frame is its size; converting
  it records the calls of \<open>libyuv\<close> as the size they convert, the row length and the buffer they fill.\<close>

record renderer =
  biWidth :: int
  biHeight :: int
  biSizeImage :: nat
  imageBytes :: "nat option"
  mismatched :: nat

record pixelwrite =
  writeWidth :: nat
  writeHeight :: nat
  rowBytes :: int
  bufferBytes :: nat

definition VideoRenderer :: "nat \<Rightarrow> nat \<Rightarrow> renderer" where
  "VideoRenderer width height =
     \<lparr>biWidth = int width, biHeight = - int height, biSizeImage = width * height * (32 div 8),
      imageBytes = None, mismatched = 0\<rparr>"

definition SetSize :: "nat \<Rightarrow> nat \<Rightarrow> renderer \<Rightarrow> renderer" where
  "SetSize width height r =
     (if int width = biWidth r \<and> int height = biHeight r then r
      else
        let r = r\<lparr>biWidth := int width, biHeight := - int height, biSizeImage := width * height * (32 div 8)\<rparr>
        in r\<lparr>imageBytes := Some (biSizeImage r)\<rparr>)"

text \<open>The temporary planes of a scaled frame: the row lengths, and the bytes each plane has.\<close>

record planes =
  strideY :: nat
  strideU :: nat
  planeBytes :: nat

definition scaled :: "nat \<Rightarrow> rat \<Rightarrow> nat" where
  "scaled n ratio = nat \<lfloor>of_nat n / ratio\<rfloor>"

text \<open>Every temporary array is freed by \<open>delete\<close> though it was made by \<open>new[]\<close>: that is counted. A frame larger than
  textures may be is scaled down first; its sizes are exact quotients in place of \<open>float\<close>.\<close>

definition OnFrame :: "rat \<Rightarrow> nat \<Rightarrow> nat \<Rightarrow> renderer \<Rightarrow> pixelwrite res \<times> planes option \<times> renderer" where
  "OnFrame ratio width height r =
     (let big = ratio > 1;
          (w, h) = (if big then (scaled width ratio, scaled height ratio) else (width, height));
          r = SetSize w h r;
          p = (if big then Some \<lparr>strideY = scaled width ratio,
                                 strideU = nat \<lfloor>(of_nat width / 2 + 1) / ratio\<rfloor>, planeBytes = biSizeImage r\<rparr>
               else None);
          r = r\<lparr>mismatched := mismatched r + (if big then 4 else 1)\<rparr>
      in (case imageBytes r of
            None \<Rightarrow> Inl Undefined
          | Some n \<Rightarrow> Inr \<lparr>writeWidth = w, writeHeight = h, rowBytes = biWidth r * 32 div 8, bufferBytes = n\<rparr>,
          p, r))"

text \<open>\<open>OnPaint\<close> queues a copy of the image, as many bytes as the header says.\<close>

definition OnPaint :: "bool \<Rightarrow> renderer option \<Rightarrow> (nat \<times> nat) option" where
  "OnPaint active r =
     (case r of
        Some r \<Rightarrow> if active then map_option (\<lambda>n. (biSizeImage r, n)) (imageBytes r) else None
      | None \<Rightarrow> None)"

subsection \<open>Switches and what they post\<close>

text \<open>The values posted for one switch turn it over from one state to another, one after the other.\<close>

fun flipsTo :: "(act \<Rightarrow> bool option) \<Rightarrow> bool \<Rightarrow> act list \<Rightarrow> bool \<Rightarrow> bool" where
  "flipsTo f b [] c = (b = c)"
| "flipsTo f b (a # as) c = (case f a of None \<Rightarrow> flipsTo f b as c | Some x \<Rightarrow> x = (\<not> b) \<and> flipsTo f x as c)"

definition micOf :: "act \<Rightarrow> bool option" where
  "micOf a = (case a of Post (UiMic b) \<Rightarrow> Some b | _ \<Rightarrow> None)"

definition camOf :: "act \<Rightarrow> bool option" where
  "camOf a = (case a of Post (UiCam b) \<Rightarrow> Some b | _ \<Rightarrow> None)"

definition shareOf :: "act \<Rightarrow> bool option" where
  "shareOf a = (case a of Post (UiShare b) \<Rightarrow> Some b | _ \<Rightarrow> None)"

definition toggled :: "streamscreen \<Rightarrow> act list \<Rightarrow> streamscreen \<Rightarrow> bool" where
  "toggled s as t \<longleftrightarrow>
     flipsTo micOf (switchState (mic s)) as (switchState (mic t)) \<and>
     flipsTo camOf (switchState (cam s)) as (switchState (cam t)) \<and>
     flipsTo shareOf (switchState (share s)) as (switchState (share t))"

definition calm :: "act \<Rightarrow> bool" where
  "calm a \<longleftrightarrow> micOf a = None \<and> camOf a = None \<and> shareOf a = None"

lemma calm_simps [simp]:
  "calm (Clip t)" "calm (Post UiMeetingEnd)" "calm (Post UiIFrame)" "calm (Post UiStartInvite)" "calm (Post UiWindowList)"
  "calm (Post (UiAudioIn t))" "calm (Post (UiAudioOut t))" "calm (Post (UiVideoIn t))" "calm (Post (UiScreen t))"
  "calm (Post (UiWindow t))" "calm (Post (UiVolume v))" "calm (Post UiMeetingInfo)"
  by (simp_all add: calm_def micOf_def camOf_def shareOf_def)

lemma flipsTo_append: "flipsTo f b as m \<Longrightarrow> flipsTo f m bs c \<Longrightarrow> flipsTo f b (as @ bs) c"
  by (induction as arbitrary: b) (auto split: option.splits)

lemma flipsTo_none: "list_all (\<lambda>a. f a = None) as \<Longrightarrow> flipsTo f b (as @ bs) c = flipsTo f b bs c"
  by (induction as) auto

lemma toggled_trans: "toggled s as t \<Longrightarrow> toggled t bs u \<Longrightarrow> toggled s (as @ bs) u"
  unfolding toggled_def using flipsTo_append by blast

lemma toggled_calm:
  assumes "list_all calm as"
  shows "toggled s (as @ bs) t = toggled s bs t"
proof -
  have "list_all (\<lambda>a. micOf a = None) as" "list_all (\<lambda>a. camOf a = None) as" "list_all (\<lambda>a. shareOf a = None) as"
    using assms by (simp_all add: list_all_iff calm_def)
  then show ?thesis
    by (simp add: toggled_def flipsTo_none)
qed

lemma toggled_same:
  "list_all calm as \<Longrightarrow> mic t = mic s \<Longrightarrow> cam t = cam s \<Longrightarrow> share t = share s \<Longrightarrow> toggled s as t"
  using toggled_calm[of as s "[]" t] by (simp add: toggled_def)

lemma toggled_cong:
  "mic t' = mic t \<Longrightarrow> cam t' = cam t \<Longrightarrow> share t' = share t \<Longrightarrow> toggled s as t' = toggled s as t"
  by (simp add: toggled_def)

lemma switchEvent_posts:
  assumes "switchEvent e c p msg w = (as, w')"
  shows "as = (if switchState w' = switchState w then [] else [Post (msg (switchState w'))])"
  using assms by (auto simp: switchEvent_def Let_def split: prod.splits if_splits)

subsection \<open>The window never fails\<close>

text \<open>Every label came from a text.\<close>

definition textual :: "droplist \<Rightarrow> bool" where
  "textual l \<longleftrightarrow> (\<forall>k \<in> keysOf l. isOk (to_bytes k))"

definition stream_inv :: "streamscreen \<Rightarrow> bool" where
  "stream_inv s \<longleftrightarrow> isOk (to_bytes (drop 4 (meetingText s))) \<and> textual (audioInputDevList s) \<and>
     textual (audioOutputDevList s) \<and> textual (videoDropList s) \<and> textual (screenDropList s) \<and>
     textual (windowDropList s)"

lemma listEvent_ok:
  assumes "textual l" "\<And>t. calm (Post (msg t))"
  obtains as l' where "listEvent e h msg l = Inr (as, l')" "textual l'" "list_all calm as"
proof (cases "DropList_eventProcess e h False l")
  case (Pair c l')
  have keys: "keysOf l' = keysOf l" "c \<Longrightarrow> selectedLabel l' \<in> keysOf l"
    using DropList_event_keys[of e h False l] DropList_event_selected[of e h False l] by (simp_all add: Pair)
  show thesis
  proof (cases c)
    case True
    then obtain t where "to_bytes (selectedLabel l') = Inr t"
      using assms keys unfolding textual_def isOk_def by blast
    then show thesis
      using that[of "[Post (msg t)]" l'] assms keys True by (simp add: listEvent_def Pair textual_def)
  next
    case False
    then show thesis
      using that[of "[]" l'] assms keys by (simp add: listEvent_def Pair textual_def)
  qed
qed

lemma streamButtons_ok:
  assumes "stream_inv s"
  obtains as s' where "streamButtons i s = Inr (as, s')" "stream_inv s'" "toggled s as s'"
proof -
  let ?e = "sev i" and ?h = "shits i"
  obtain c1 t where 1: "TextRoundRectangle_onClick ?e (?h LeaveSpot) (leaveMeeting s) = (c1, t)" by fastforce
  obtain c2 b2 where 2: "onClick ?e (?h MeetingSpot) (meetingDescribe s) = (c2, b2)" by fastforce
  define u where "u = s\<lparr>leaveMeeting := t, meetingDescribe := b2\<rparr>"
  have u: "stream_inv u" "mic u = mic s" "cam u = cam s" "share u = share s"
    using assms by (simp_all add: stream_inv_def u_def)
  obtain clips where clips: "(if c2 then andThen (to_bytes (drop 4 (meetingText u))) (\<lambda>t. Inr [Clip t]) else Inr []) = Inr clips"
      "list_all calm clips"
    using u by (cases c2) (auto simp: stream_inv_def isOk_def)
  obtain c3 b3 where 3: "onClick ?e (?h InfoSpot) (meetingInfo u) = (c3, b3)" by fastforce
  define v where "v = (let s = u\<lparr>meetingInfo := b3\<rparr> in if c3 then s\<lparr>infoClick := \<not> infoClick s,
    getMeetingDataTimePoint := if \<not> infoClick s then clickTime i else 0\<rparr> else s)"
  have v: "stream_inv v" "mic v = mic s" "cam v = cam s" "share v = share s"
    using u by (simp_all add: stream_inv_def v_def Let_def)
  obtain c4 b4 where 4: "onClick ?e (?h PersonPlusSpot) (personPlus v) = (c4, b4)" by fastforce
  obtain ms m where 5: "switchEvent ?e (?h CloseMicSpot) (?h OpenMicSpot) UiMic (mic v) = (ms, m)" by fastforce
  obtain cs c where 6: "switchEvent ?e (?h CloseCamSpot) (?h OpenCamSpot) UiCam (cam v) = (cs, c)" by fastforce
  obtain xs x where 7: "switchEvent ?e (?h CloseShareSpot) (?h OpenShareSpot) UiShare (share v) = (xs, x)" by fastforce
  define w where "w = v\<lparr>personPlus := b4, mic := m, cam := c, share := x, isFull := False\<rparr>"
  define pre where "pre = (if c1 then [Post UiMeetingEnd] else []) @ clips @ (if c4 then [Post UiStartInvite] else [])"
  have eq: "streamButtons i s = Inr (pre @ ms @ cs @ xs, w)"
    unfolding streamButtons_def Let_def 1 2 prod.case u_def[symmetric] clips(1) andThen_Inr 3
      v_def[unfolded Let_def, symmetric] 4 5 6 7 by (simp add: pre_def w_def)
  have "stream_inv w"
    using v by (simp add: stream_inv_def w_def)
  moreover have "ms = (if switchState m = switchState (mic s) then [] else [Post (UiMic (switchState m))])"
    "cs = (if switchState c = switchState (cam s) then [] else [Post (UiCam (switchState c))])"
    "xs = (if switchState x = switchState (share s) then [] else [Post (UiShare (switchState x))])"
    using switchEvent_posts[OF 5] switchEvent_posts[OF 6] switchEvent_posts[OF 7] v by simp_all
  then have "toggled s (ms @ cs @ xs) w"
    by (auto simp: toggled_def w_def micOf_def camOf_def shareOf_def)
  moreover have "list_all calm pre"
    using clips by (simp add: pre_def)
  ultimately show thesis
    using that eq toggled_calm by blast
qed

lemma arrowEvent_ok:
  "list_all calm (fst (snd (arrowEvent i s)))" "mic (snd (snd (arrowEvent i s))) = mic s"
  "cam (snd (snd (arrowEvent i s))) = cam s" "share (snd (snd (arrowEvent i s))) = share s"
  "stream_inv (snd (snd (arrowEvent i s))) = stream_inv s"
  by (simp_all add: arrowEvent_def Let_def case_prod_beta stream_inv_def setArrows_def)

lemma settingsEvent_ok:
  assumes "stream_inv s"
  obtains as s' where "settingsEvent i s = Inr (as, s')" "stream_inv s'" "toggled s as s'"
proof -
  let ?e = "sev i" and ?h = "shits i"
  note le = listEvent_ok[where e = ?e]
  have texts: "textual (audioInputDevList s)" "textual (audioOutputDevList s)" "textual (videoDropList s)"
      "textual (screenDropList s)" "textual (windowDropList s)"
    using assms by (simp_all add: stream_inv_def)
  obtain as l where a: "listEvent ?e (\<lambda>k. ?h (AudioInLabel k)) UiAudioIn (audioInputDevList s) = Inr (as, l)"
      "textual l" "list_all calm as"
    using le[OF texts(1)] by (metis calm_simps(6))
  obtain bs m where b: "listEvent ?e (\<lambda>k. ?h (AudioOutLabel k)) UiAudioOut (audioOutputDevList s) = Inr (bs, m)"
      "textual m" "list_all calm bs"
    using le[OF texts(2)] by (metis calm_simps(7))
  obtain cs n where c: "listEvent ?e (\<lambda>k. ?h (VideoLabel k)) UiVideoIn (videoDropList s) = Inr (cs, n)"
      "textual n" "list_all calm cs"
    using le[OF texts(3)] by (metis calm_simps(8))
  obtain ds p where d: "listEvent ?e (\<lambda>k. ?h (ScreenLabel k)) UiScreen (screenDropList s) = Inr (ds, p)"
      "textual p" "list_all calm ds"
    using le[OF texts(4)] by (metis calm_simps(9))
  obtain xs q where x: "listEvent ?e (\<lambda>k. ?h (WindowLabel k)) UiWindow (windowDropList s) = Inr (xs, q)"
      "textual q" "list_all calm xs"
    using le[OF texts(5)] by (metis calm_simps(10))
  define s1 where "s1 = (if micArrowClick s then
     s\<lparr>volumeBar := SeekBar_eventProcess ?e (mousePos i) (?h CircleSpot) (?h BarSpot) (volumeBar s),
       audioInputDevList := l, audioOutputDevList := m\<rparr> else s)"
  define s2 where "s2 = (if camArrowClick s then s1\<lparr>videoDropList := n\<rparr> else s1)"
  define s3 where "s3 = (if shareArrowClick s then
     if ds \<noteq> [] then s2\<lparr>screenDropList := p\<rparr> else s2\<lparr>screenDropList := p, windowDropList := q\<rparr> else s2)"
  define out where "out = (if micArrowClick s then as @ bs else []) @ (if camArrowClick s then cs else []) @
     (if shareArrowClick s then if ds \<noteq> [] then ds else xs else [])"
  have "settingsEvent i s = Inr (out, s3)"
    by (simp add: settingsEvent_def Let_def a b c d x s1_def s2_def s3_def out_def)
  moreover have "stream_inv s3"
    using assms a b c d x by (simp add: stream_inv_def s1_def s2_def s3_def)
  moreover have "toggled s out s3"
    using a b c d x by (intro toggled_same) (simp_all add: s1_def s2_def s3_def out_def)
  ultimately show thesis
    using that by blast
qed

lemma StreamScreen_event_ok:
  assumes "stream_inv s"
  shows "\<exists>as s'. StreamScreen_event i s = Inr (as, s') \<and> stream_inv s' \<and> toggled s as s'"
proof -
  define keys where "keys = (if sev i = ClosedEvent then [Post UiMeetingEnd]
     else if sev i = KeyPressed KeyF then [Post UiIFrame] else [])"
  have keys: "list_all calm keys"
    by (simp add: keys_def)
  obtain as s1 where 1: "(if inWindow i then streamButtons i s else Inr ([], s\<lparr>isFull := True\<rparr>)) = Inr (as, s1)"
      "stream_inv s1" "toggled s as s1"
  proof (cases "inWindow i")
    case True
    then show thesis
      using streamButtons_ok[OF assms] that by metis
  next
    case False
    then show thesis
      using assms that[of "[]" "s\<lparr>isFull := True\<rparr>"] by (simp add: stream_inv_def toggled_same)
  qed
  obtain arrow bs s2 where 2: "arrowEvent i s1 = (arrow, bs, s2)"
    by (metis prod_cases3)
  have s2: "stream_inv s2" "list_all calm bs" "toggled s1 bs s2"
    using arrowEvent_ok[of i s1] 1 by (simp_all add: 2 toggled_same)
  have two: "toggled s (keys @ as @ bs) s2"
    using 1 s2 toggled_trans toggled_calm[OF keys] by blast
  show ?thesis
  proof (cases "shits i BackgroundSpot")
    case True
    obtain cs s3 where 3: "settingsEvent i s2 = Inr (cs, s3)" "stream_inv s3" "toggled s2 cs s3"
      using settingsEvent_ok[OF s2(1)] by metis
    have "toggled s ((keys @ as @ bs) @ cs) s3"
      using two 3(3) by (rule toggled_trans)
    then show ?thesis
      unfolding StreamScreen_event_def Let_def keys_def[symmetric] 1(1) andThen_Inr prod.case 2
      using 3 True by simp
  next
    case False
    then show ?thesis
      unfolding StreamScreen_event_def Let_def keys_def[symmetric] 1(1) andThen_Inr prod.case 2
      using s2 two by (auto simp: stream_inv_def setArrows_def toggled_def)
  qed
qed

lemma streamLoop_ok:
  "stream_inv s \<Longrightarrow> \<exists>as s'. streamLoop is s = Inr (as, s') \<and> stream_inv s' \<and> toggled s as s'"
proof (induction "is" arbitrary: s)
  case Nil
  then show ?case by (simp add: toggled_def)
next
  case (Cons i "is")
  obtain as t where 1: "StreamScreen_event i s = Inr (as, t)" "stream_inv t" "toggled s as t"
    using StreamScreen_event_ok[OF Cons.prems] by blast
  obtain bs u where 2: "streamLoop is t = Inr (bs, u)" "stream_inv u" "toggled t bs u"
    using Cons.IH[OF 1(2)] by blast
  show ?case
    using 1 2 toggled_trans by auto
qed

lemma StreamScreen_eventProcess_ok:
  assumes "stream_inv s"
  shows "\<exists>as s'. StreamScreen_eventProcess r s = Inr (as, s') \<and> stream_inv s' \<and> toggled s as s'"
proof (cases "streamActive s")
  case False
  then show ?thesis
    using assms by (simp add: StreamScreen_eventProcess_def toggled_def)
next
  case True
  obtain as t where 1: "streamLoop (pending r) s = Inr (as, t)" "stream_inv t" "toggled s as t"
    using streamLoop_ok[OF assms] by blast
  define t0 where "t0 = t\<lparr>meetingTime := timePrefix @ wide (parseTime (shownTime r - meetingTimePoint t))\<rparr>"
  obtain bs u where 2: "volumeStep r t0 = (bs, u)" by fastforce
  obtain cs v where 3: "infoStep r u = (cs, v)" by fastforce
  have "list_all calm bs" "mic u = mic t" "cam u = cam t" "share u = share t" "stream_inv u = stream_inv t"
    using 2 by (auto simp: volumeStep_def t0_def stream_inv_def split: prod.splits)
  moreover have "list_all calm cs" "mic v = mic u" "cam v = cam u" "share v = share u" "stream_inv v = stream_inv u"
    using 3 by (auto simp: infoStep_def stream_inv_def split: if_splits)
  ultimately have "toggled t (bs @ cs) v" "stream_inv v"
    using 1 by (simp_all add: toggled_same)
  moreover have "StreamScreen_eventProcess r s = Inr (as @ bs @ cs, v)"
    using True unfolding StreamScreen_eventProcess_def Let_def by (simp add: 1 2 3 flip: t0_def)
  ultimately show ?thesis
    using 1 toggled_trans by blast
qed

subsection \<open>A meeting\<close>

text \<open>While a meeting lasts the vision controller sets lists and texts between the calls of \<open>eventProcess\<close>; it
  catches what these calls throw.\<close>

datatype stream_action =
    StreamRound streamround
  | StreamDevices "(int \<times> string) list" nat
  | StreamShares "(int \<times> string) list" nat
  | StreamSession string
  | StreamTimepoint int

primrec stream_step :: "stream_action \<Rightarrow> streamscreen \<Rightarrow> (act list \<times> streamscreen) res" where
  "stream_step (StreamRound r) s = StreamScreen_eventProcess r s"
| "stream_step (StreamDevices m k) s = Inr ([], snd (setDevList m k s))"
| "stream_step (StreamShares m k) s = Inr ([], snd (setShareList m k s))"
| "stream_step (StreamSession m) s = Inr ([], snd (setSessionId m s))"
| "stream_step (StreamTimepoint t) s = Inr ([], setSessionTimepoint t s)"

primrec stream_run :: "stream_action list \<Rightarrow> streamscreen \<Rightarrow> (act list \<times> streamscreen) res" where
  "stream_run [] s = Inr ([], s)"
| "stream_run (a # as) s =
     andThen (stream_step a s) (\<lambda>(bs, s). andThen (stream_run as s) (\<lambda>(cs, s). Inr (bs @ cs, s)))"

lemma textual_simps [simp]: "textual (DropList_reset l)" "textual (shownList n)"
  by (simp_all add: textual_def shownList_def)

lemma textual_addNames: "textual l \<Longrightarrow> textual (snd (addNames ns l))"
proof (induction ns arbitrary: l)
  case Nil
  then show ?case by simp
next
  case (Cons n ns)
  show ?case
  proof (cases "from_bytes n")
    case (Inr w)
    then have "isOk (to_bytes w)"
      using bytes_text by simp
    then have "textual (addLabel w True l)"
      using Cons.prems by (auto simp: textual_def keysOf_addLabel)
    then show ?thesis
      using Cons.IH Inr by simp
  qed (use Cons.prems in simp)
qed

lemma stream_inv_sets:
  "stream_inv s \<Longrightarrow> stream_inv (snd (setDevList m k s))"
  "stream_inv s \<Longrightarrow> stream_inv (snd (setShareList m k s))"
  "stream_inv s \<Longrightarrow> stream_inv (setSessionTimepoint t s)"
  using textual_addNames
  by (auto simp: stream_inv_def setDevList_def setShareList_def setSessionTimepoint_def Let_def case_prod_beta)

lemma stream_inv_session: "stream_inv s \<Longrightarrow> stream_inv (snd (setSessionId m s))"
  using bytes_text[of m]
  by (cases "from_bytes m") (simp_all add: stream_inv_def setSessionId_def meetingPrefix_def)

lemma switches_set:
  "mic (snd (setDevList m k s)) = mic s" "cam (snd (setDevList m k s)) = cam s" "share (snd (setDevList m k s)) = share s"
  "mic (snd (setShareList m k s)) = mic s" "cam (snd (setShareList m k s)) = cam s" "share (snd (setShareList m k s)) = share s"
  "mic (snd (setSessionId n s)) = mic s" "cam (snd (setSessionId n s)) = cam s" "share (snd (setSessionId n s)) = share s"
  "mic (setSessionTimepoint t s) = mic s" "cam (setSessionTimepoint t s) = cam s" "share (setSessionTimepoint t s) = share s"
  by (simp_all add: setDevList_def setShareList_def setSessionId_def setSessionTimepoint_def Let_def case_prod_beta thenDo_def split: sum.split)

lemma stream_step_ok:
  assumes "stream_inv s"
  shows "\<exists>as s'. stream_step a s = Inr (as, s') \<and> stream_inv s' \<and> toggled s as s'"
  using assms StreamScreen_eventProcess_ok
  by (cases a) (simp_all add: stream_inv_sets stream_inv_session toggled_same switches_set)

lemma stream_run_ok:
  "stream_inv s \<Longrightarrow> \<exists>as s'. stream_run acts s = Inr (as, s') \<and> stream_inv s' \<and> toggled s as s'"
proof (induction acts arbitrary: s)
  case Nil
  then show ?case by (simp add: toggled_def)
next
  case (Cons a acts)
  obtain as t where 1: "stream_step a s = Inr (as, t)" "stream_inv t" "toggled s as t"
    using stream_step_ok[OF Cons.prems] by blast
  obtain bs u where 2: "stream_run acts t = Inr (bs, u)" "stream_inv u" "toggled t bs u"
    using Cons.IH[OF 1(2)] by blast
  show ?case
    using 1 2 toggled_trans by auto
qed

lemma stream_inv_init: "stream_inv (StreamScreen_init wr hr)"
  using wide_to_bytes[of "''unknown''"] by (simp add: stream_inv_def StreamScreen_init_def meetingPrefix_def)

lemma stream_inv_screen [simp]:
  "stream_inv s \<Longrightarrow> stream_inv (StreamScreen_OnEnter s)" "stream_inv s \<Longrightarrow> stream_inv (StreamScreen_OnExit s)"
  by (simp_all add: stream_inv_def StreamScreen_OnEnter_def StreamScreen_OnExit_def Let_def)

lemma fresh_switches:
  "switchState (mic (StreamScreen_OnEnter (StreamScreen_OnExit s))) = False"
  "switchState (cam (StreamScreen_OnEnter (StreamScreen_OnExit s))) = False"
  "switchState (share (StreamScreen_OnEnter (StreamScreen_OnExit s))) = False"
  by (simp_all add: StreamScreen_OnEnter_def StreamScreen_OnExit_def Let_def)

text \<open>C37: over a whole meeting, whatever happens in the window and whatever the vision controller sets, the window never
  faults, and the states posted for the microphone, the camera and the sharing alternate, beginning with on and
  ending with the state that the window shows.\<close>

theorem meeting_switches:
  assumes "stream_inv s"
  shows "\<exists>as t. stream_run acts (StreamScreen_OnEnter (StreamScreen_OnExit s)) = Inr (as, t) \<and>
    flipsTo micOf False as (switchState (mic t)) \<and> flipsTo camOf False as (switchState (cam t)) \<and>
    flipsTo shareOf False as (switchState (share t))"
  using stream_run_ok[of "StreamScreen_OnEnter (StreamScreen_OnExit s)" acts] assms fresh_switches[of s]
  by (auto simp: toggled_def)

text \<open>A round in which the mouse button is pressed and released at one place.\<close>

definition clickAt :: "streamspot \<Rightarrow> streamround" where
  "clickAt p =
     (let i = (\<lambda>e. \<lparr>sev = e, shits = (\<lambda>q. q = p), inWindow = True, mousePos = (0, 0), clickTime = 0\<rparr>)
      in \<lparr>pending = [i (MousePressed LeftButton), i (MouseReleased LeftButton)], shownTime = 0, barMouse = (0, 0),
          overCircle = False, overBar = False, askedTime = 0, storedTime = 0\<rparr>)"

theorem meeting_switches_witness:
  "\<exists>as t. stream_run [StreamRound (clickAt OpenMicSpot), StreamRound (clickAt CloseCamSpot), StreamRound (clickAt CloseMicSpot)]
      (StreamScreen_OnEnter (StreamScreen_OnExit (StreamScreen_init 1 1))) = Inr (as, t) \<and>
    flipsTo micOf False as (switchState (mic t)) \<and> flipsTo camOf False as (switchState (cam t)) \<and>
    flipsTo shareOf False as (switchState (share t))"
  by (rule meeting_switches[OF stream_inv_init])

text \<open>What the statement about a switch means: the values alternate.\<close>

lemma flipsTo_posts:
  "flipsTo f b as c \<Longrightarrow> List.map_filter f as = map (\<lambda>n. if even n then \<not> b else b) [0..<length (List.map_filter f as)]"
proof (induction f b as c rule: flipsTo.induct)
  case (1 f b c)
  then show ?case by (simp add: List.map_filter_simps)
next
  case (2 f b a as c)
  show ?case
  proof (cases "f a")
    case None
    then show ?thesis
      using 2 by (simp add: List.map_filter_simps)
  next
    case (Some x)
    have "x = (\<not> b) \<and> flipsTo f x as c"
      using 2(3) unfolding flipsTo.simps Some option.case .
    then have fl: "x = (\<not> b)" "flipsTo f x as c"
      by blast+
    then have x: "x = (\<not> b)" "List.map_filter f as = map (\<lambda>n. if even n then \<not> x else x) [0..<length (List.map_filter f as)]"
      using "2.IH"(2)[OF Some] by blast+
    have "map (\<lambda>n. if even n then \<not> b else b) [0..<Suc k] = (\<not> b) # map (\<lambda>n. if even n then b else \<not> b) [0..<k]" for k
      unfolding upt_conv_Cons[OF zero_less_Suc] by (simp add: map_Suc_upt[symmetric] del: upt_Suc)
    moreover define k where "k = length (List.map_filter f as)"
    moreover have "List.map_filter f as = map (\<lambda>n. if even n then b else \<not> b) [0..<k]"
      using x(2) unfolding k_def fl(1) not_not .
    ultimately have "List.map_filter f (a # as) = map (\<lambda>n. if even n then \<not> b else b) [0..<Suc k]"
        "length (List.map_filter f (a # as)) = Suc k"
      using Some unfolding List.map_filter_simps fl(1) by (simp_all only: option.case list.size add_0_right add_Suc_right)
    then show ?thesis
      by (simp only:)
  qed
qed

subsection \<open>What is offered can be chosen\<close>

lemma keysOf_addNames:
  "keysOf (snd (addNames ns l)) \<subseteq> keysOf l \<union> {w. \<exists>n \<in> set ns. from_bytes n = Inr w}"
proof (induction ns arbitrary: l)
  case Nil
  then show ?case by simp
next
  case (Cons n ns)
  show ?case
  proof (cases "from_bytes n")
    case (Inr w)
    have "keysOf (addLabel w True l) \<subseteq> insert w (keysOf l)"
      by (auto simp: keysOf_addLabel)
    then show ?thesis
      using Cons.IH[of "addLabel w True l"] Inr by auto
  qed simp
qed

lemma keysOf_addNamesD:
  "k \<in> keysOf (snd (addNames ns l)) \<Longrightarrow> keysOf l = {} \<Longrightarrow> \<exists>n \<in> set ns. from_bytes n = Inr k"
  using keysOf_addNames[of ns l] by blast

lemma pick_some:
  assumes "x \<in> set m" "P x"
  obtains i y where "pick P m = Some i" "(i, y) \<in> set m" "P (i, y)"
proof -
  obtain z where "find P m = Some z" "z \<in> set m" "P z"
    using assms by (metis find_None_iff2 find_Some_iff not_Some_eq nth_mem)
  then show thesis
    using that by (cases z) (simp add: pick_def)
qed

lemma shareLabel_window: "shareLabel n = windowLabel n"
  by (simp add: shareLabel_def windowLabel_def)

text \<open>C36: whatever label the list of windows offers, filled from the controller's map: posted by a click and handled by
  the controller it makes the engine capture a window of the map that has this label.\<close>

theorem offered_window_captured:
  assumes "keysOf (windowDropList s) = {}" "shareWindowMap a = m"
    and "k \<in> keysOf (windowDropList (snd (setShareList m 2 s)))"
  shows "\<exists>t i name. to_bytes k = Inr t \<and> (i, name) \<in> set m \<and> windowLabel name = t \<and>
    CustomMessageCallback e info (uiMsg (UiWindow t)) a = engDo (setWindow e i) a"
proof -
  let ?names = "map shareLabel (filter (\<lambda>n. \<not> skippedTitle n) (map snd m))"
  have "windowDropList (snd (setShareList m 2 s)) = snd (addNames ?names (windowDropList s)) \<or>
      windowDropList (snd (setShareList m 2 s)) = windowDropList s"
    by (simp add: setShareList_def case_prod_beta)
  then have "\<exists>n \<in> set ?names. from_bytes n = Inr k"
    using assms(1,3) keysOf_addNamesD[of k ?names "windowDropList s"] by (metis empty_iff)
  then obtain n where n: "n \<in> set ?names" "from_bytes n = Inr k"
    by blast
  then have t: "to_bytes k = Inr n"
    using bytes_text by blast
  obtain x where "x \<in> set m" "n = windowLabel (snd x)"
    using n(1) by (auto simp: shareLabel_window)
  then obtain i name where "pick (\<lambda>(i, name). n = windowLabel name) m = Some i" "(i, name) \<in> set m" "n = windowLabel name"
    using pick_some[of x m "\<lambda>(i, name). n = windowLabel name"] by (auto simp: case_prod_beta)
  then show ?thesis
    using t assms(2)
    by (auto simp: CustomMessageCallback_def mkMsg_def switchShareWindow_def castString_def pickDo_def Let_def)
qed

theorem offered_window_captured_witness:
  "\<forall>e info. \<exists>t i name. to_bytes (wide '' Editor'') = Inr t \<and>
    (i, name) \<in> set [(3, ''allLink''), (7, ''report.txt - Editor'')] \<and> windowLabel name = t \<and>
    CustomMessageCallback e info (uiMsg (UiWindow t)) (app_new\<lparr>shareWindowMap := [(3, ''allLink''), (7, ''report.txt - Editor'')]\<rparr>) =
      engDo (setWindow e i) (app_new\<lparr>shareWindowMap := [(3, ''allLink''), (7, ''report.txt - Editor'')]\<rparr>)"
proof (intro allI offered_window_captured[of "StreamScreen_init 1 1"])
  let ?m = "[(3, ''allLink''), (7, ''report.txt - Editor'')] :: (int \<times> string) list"
  show empty: "keysOf (windowDropList (StreamScreen_init 1 1)) = {}"
    by (simp add: StreamScreen_init_def shownList_def)
  have "skippedTitle ''allLink'' \<and> \<not> skippedTitle ''report.txt - Editor''"
    by code_simp
  moreover have "from_bytes (shareLabel ''report.txt - Editor'') = Inr (wide '' Editor'')"
    by code_simp
  moreover have "labelLimit (windowDropList (StreamScreen_init 1 1)) = 8" "labelList (windowDropList (StreamScreen_init 1 1)) = []"
    by (simp_all add: StreamScreen_init_def shownList_def DropList_init_def DropList_setShow_def)
  ultimately show "wide '' Editor'' \<in> keysOf (windowDropList (snd (setShareList ?m 2 (StreamScreen_init 1 1))))"
    by (simp add: setShareList_def thenDo_def keysOf_addLabel)
qed simp

text \<open>The window need not be the one that was clicked: a window that is not offered may come first.\<close>

lemma hidden_window_first:
  "skippedTitle ''As - plan'' \<and> \<not> skippedTitle ''my - plan'' \<and>
   pick (\<lambda>(i, name). '' plan'' = windowLabel name) [(1, ''As - plan''), (2, ''my - plan'')] = Some 1"
  by code_simp

text \<open>The expression for the application's own windows does not see the blanks that its escapes were meant for.\<close>

lemma own_title_blank: "ownTitle ''allLink'' \<and> ownTitle ''sallLinks'' \<and> \<not> ownTitle ''allLink ''"
  by code_simp

text \<open>A title beyond 16-bit characters ends the list: the windows behind it are not offered.\<close>

lemma wide_title_ends_list:
  "from_bytes n = Inl e \<Longrightarrow> addNames (n # ns) l = (Inl e, l)"
  by simp

text \<open>Devices are chosen by their full name.\<close>

lemma offered_microphone_chosen:
  assumes "keysOf (audioInputDevList s) = {}" "audioInputDevMap a = m"
    and "k \<in> keysOf (audioInputDevList (snd (setDevList m 0 s)))"
  shows "\<exists>n i. to_bytes k = Inr n \<and> (i, n) \<in> set m \<and>
    CustomMessageCallback e info (uiMsg (UiAudioIn n)) a = engDo (setMicphone e i) a"
proof -
  have "audioInputDevList (snd (setDevList m 0 s)) = snd (addNames (map snd m) (audioInputDevList s))"
    by (simp add: setDevList_def Let_def case_prod_beta)
  then obtain x where x: "x \<in> set m" "from_bytes (snd x) = Inr k"
    using assms keysOf_addNamesD[of k "map snd m" "audioInputDevList s"] by auto
  then obtain i where "pick (\<lambda>(i, name). snd x = name) m = Some i" "(i, snd x) \<in> set m"
    using pick_some[of x m "\<lambda>(i, name). snd x = name"] by (auto simp: case_prod_beta)
  then show ?thesis
    using assms(2) bytes_text[OF x(2)]
    by (auto simp: CustomMessageCallback_def mkMsg_def switchBy_def castString_def pickDo_def Let_def)
qed

text \<open>Screens are chosen by the text of their number.\<close>

lemma number_snoc: "number (s @ [c]) = number s * 10 + (of_char c - 48)"
  by (simp add: number_def)

lemma to_string_digits:
  "list_all isDigit (to_string n) \<and> to_string n \<noteq> [] \<and> number (to_string n) = int n"
proof (induction n rule: to_string.induct)
  case (1 n)
  have digit: "of_char (char_of (48 + n mod 10) :: char) = 48 + n mod 10" for n :: nat
    using less_trans[of "48 + n mod 10" 58 256] by (simp add: of_char_of take_bit_eq_mod)
  have nat_int: "(of_char c :: int) = int (of_char c)" for c :: char
    by (rule of_nat_of_char[symmetric])
  have int_digit: "(of_char (char_of (48 + n mod 10) :: char) :: int) = 48 + int (n mod 10)" for n :: nat
    unfolding nat_int digit by simp
  have split: "n div 10 * 10 + n mod 10 = n"
    by simp
  show ?case
  proof (cases "n < 10")
    case True
    then show ?thesis
      using digit[of n, unfolded mod_less[OF True]] int_digit[of n, unfolded mod_less[OF True]]
      by (subst (1 2 3) to_string.simps) (simp add: isDigit_def number_def)
  next
    case False
    then have IH: "list_all isDigit (to_string (n div 10))" "number (to_string (n div 10)) = int (n div 10)"
      using 1 by simp_all
    have "to_string n = to_string (n div 10) @ [char_of (48 + n mod 10)]"
      using False by (subst to_string.simps) simp
    moreover have "int (n div 10) * 10 + int (n mod 10) = int n"
      using split by (metis of_nat_add of_nat_mult of_nat_numeral)
    moreover have "isDigit (char_of (48 + n mod 10))"
      using digit[of n] pos_mod_bound[of 10 n] by (simp add: isDigit_def less_Suc_eq_le)
    ultimately show ?thesis
      using IH int_digit by (simp add: number_snoc)
  qed
qed

lemma atoi_to_string: "n \<le> 2147483647 \<Longrightarrow> atoi (to_string n) = Inr (int n)"
proof -
  assume le: "n \<le> 2147483647"
  obtain c cs where shape: "to_string n = c # cs"
    using to_string_digits by (cases "to_string n") auto
  have c: "isDigit c" "list_all isDigit (to_string n)"
    using to_string_digits[of n] by (simp_all add: shape)
  have plain: "\<not> isspace c" "c \<noteq> CHR ''-''" "c \<noteq> CHR ''+''"
    using c(1) by (auto simp: isDigit_def isspace_def)
  have "digits (to_string n) = to_string n"
    using c(2) unfolding digits_def by (intro takeWhile_eq_all_conv[THEN iffD2]) (simp add: list_all_iff)
  then show ?thesis
    using le plain to_string_digits[of n] by (simp add: atoi_def shape Let_def)
qed

lemma digits_not_zero: "takeWhile (\<lambda>c. c \<noteq> CHR 0x00) (to_string n) = to_string n"
  using to_string_digits[of n] by (intro takeWhile_eq_all_conv[THEN iffD2]) (auto simp: list_all_iff isDigit_def)

lemma offered_screen_captured:
  assumes "keysOf (screenDropList s) = {}" "shareScreenMap a = m" "list_all (\<lambda>(i, n). 0 \<le> i \<and> i \<le> 2147483647) m"
    and "k \<in> keysOf (screenDropList (snd (setShareList m 1 s)))"
  shows "\<exists>t i n. to_bytes k = Inr t \<and> (i, n) \<in> set m \<and> t = intText i \<and>
    CustomMessageCallback e info (uiMsg (UiScreen t)) a = engDo (setScreen e i) a"
proof -
  have "screenDropList (snd (setShareList m 1 s)) = snd (addNames (map (\<lambda>x. intText (fst x)) m) (screenDropList s))"
    by (simp add: setShareList_def case_prod_beta)
  then obtain x where x: "x \<in> set m" "from_bytes (intText (fst x)) = Inr k"
    using assms keysOf_addNamesD[of k "map (\<lambda>x. intText (fst x)) m" "screenDropList s"] by auto
  have small: "0 \<le> fst x" "fst x \<le> 2147483647"
    using x(1) assms(3) by (auto simp: list_all_iff)
  then have t: "intText (fst x) = to_string (nat (fst x))" "atoi (to_string (nat (fst x))) = Inr (fst x)"
    using atoi_to_string[of "nat (fst x)"] by (simp_all add: intText_def)
  obtain i n where i: "pick (\<lambda>(i, name). fst x = i) m = Some i" "(i, n) \<in> set m" "fst x = i"
    using pick_some[of x m "\<lambda>(i, name). fst x = i"] x(1) by (auto simp: case_prod_beta)
  have "m \<noteq> []"
    using x(1) by auto
  then have "CustomMessageCallback e info (uiMsg (UiScreen (intText i))) a = engDo (setScreen e i) a"
    using i assms(2) t
    by (simp add: CustomMessageCallback_def mkMsg_def switchShareScreen_def castString_def pickDo_def Let_def digits_not_zero)
  then show ?thesis
    using bytes_text[OF x(2)] i by blast
qed

text \<open>The lists are only cleared when the meeting is left: once eight windows have been offered no other is, and
  those that were closed stay.\<close>

lemma full_list_stays:
  "labelLimit l \<le> length (labelList l) \<Longrightarrow> snd (addNames ns l) = l"
proof (induction ns)
  case (Cons n ns)
  then show ?case
    by (cases "from_bytes n") (simp_all add: addLabel_def)
qed simp

lemma labels_stay: "keysOf l \<subseteq> keysOf (snd (addNames ns l))"
proof (induction ns arbitrary: l)
  case (Cons n ns)
  show ?case
  proof (cases "from_bytes n")
    case (Inr w)
    have "keysOf l \<subseteq> keysOf (addLabel w True l)"
      by (auto simp: keysOf_addLabel)
    then show ?thesis
      using Cons[of "addLabel w True l"] Inr by auto
  qed simp
qed simp

subsection \<open>Clocks\<close>

lemma timeParts_spec:
  assumes "0 \<le> t"
  shows "case timeParts t of (h, m, s) \<Rightarrow> 0 \<le> h \<and> 0 \<le> m \<and> m < 60 \<and> 0 \<le> s \<and> s < 60 \<and> h * 3600 + m * 60 + s = t div 1000"
proof -
  define n where "n = t div 1000"
  have n: "0 \<le> n"
    using assms by (simp add: n_def)
  define m where "m = n div 60"
  define h where "h = m div 60"
  have h: "n div 3600 = h"
    by (simp add: h_def m_def zdiv_zmult2_eq[symmetric])
  have bounds: "0 \<le> m" "0 \<le> h" "0 \<le> m - h * 60" "m - h * 60 < 60" "0 \<le> n - m * 60" "n - m * 60 < 60"
    using n unfolding h_def m_def by (auto simp: minus_div_mult_eq_mod)
  have "timeParts t = (h, m - h * 60, n - h * 3600 - (m - h * 60) * 60)"
    using assms n by (simp add: timeParts_def quotient_def Let_def h flip: n_def m_def)
  then show ?thesis
    using bounds by (simp flip: n_def)
qed

text \<open>Statistics are asked for at most once a second.\<close>

lemma info_asked_once:
  assumes "fst (infoStep r s) \<noteq> []" "getMeetingDataTimePoint t = getMeetingDataTimePoint (snd (infoStep r s))"
    and "fst (infoStep r' t) \<noteq> []"
  shows "storedTime r + 1000 \<le> askedTime r'"
  using assms by (auto simp: infoStep_def split: if_splits)

subsection \<open>Pictures\<close>

definition renderer_inv :: "renderer \<Rightarrow> bool" where
  "renderer_inv r \<longleftrightarrow> 0 \<le> biWidth r \<and> biHeight r \<le> 0 \<and>
     biSizeImage r = nat (biWidth r) * nat (- biHeight r) * 4 \<and>
     (case imageBytes r of Some n \<Rightarrow> n = biSizeImage r | None \<Rightarrow> True)"

text \<open>The bytes up to the end of the last of \<open>h\<close> rows of \<open>w\<close> bytes.\<close>

definition lastByte :: "nat \<Rightarrow> nat \<Rightarrow> nat \<Rightarrow> nat" where
  "lastByte h stride w = (h - 1) * stride + w"

definition write_ok :: "pixelwrite \<Rightarrow> bool" where
  "write_ok w \<longleftrightarrow> lastByte (writeHeight w) (nat (rowBytes w)) (4 * writeWidth w) \<le> bufferBytes w"

definition planes_ok :: "nat \<Rightarrow> nat \<Rightarrow> planes \<Rightarrow> bool" where
  "planes_ok w h p \<longleftrightarrow> lastByte h (strideY p) w \<le> planeBytes p \<and>
     lastByte ((h + 1) div 2) (strideU p) ((w + 1) div 2) \<le> planeBytes p"

lemma renderer_inv_new: "renderer_inv (VideoRenderer w h)"
  by (simp add: renderer_inv_def VideoRenderer_def)

text \<open>The height is stored with a minus sign, so that the comparison that should keep the buffer never holds.\<close>

lemma SetSize_reallocates:
  assumes "renderer_inv r" "0 < h"
  shows "SetSize w h r = r\<lparr>biWidth := int w, biHeight := - int h, biSizeImage := w * h * 4,
    imageBytes := Some (w * h * 4)\<rparr>"
  using assms by (auto simp: SetSize_def renderer_inv_def Let_def)

lemma lastByte_full: "0 < h \<Longrightarrow> lastByte h (4 * w) (4 * w) \<le> w * h * 4"
  by (cases h) (auto simp: lastByte_def algebra_simps)

lemma planes_fit:
  assumes "1 < ratio" "0 < scaled width ratio" "0 < scaled height ratio"
  defines "w \<equiv> scaled width ratio" and "h \<equiv> scaled height ratio"
  shows "planes_ok w h \<lparr>strideY = w, strideU = nat \<lfloor>(of_nat width / 2 + 1) / ratio\<rfloor>, planeBytes = w * h * 4\<rparr>"
proof -
  define u where "u = nat \<lfloor>(of_nat width / 2 + 1) / ratio\<rfloor>"
  have "of_nat width / ratio < of_nat w + 1"
    using assms unfolding w_def scaled_def by linarith
  moreover have "1 / ratio < 1"
    using assms(1) by simp
  moreover have "(of_nat width / 2 + 1) / ratio = of_nat width / ratio / 2 + 1 / ratio"
    by (simp add: add_divide_distrib)
  moreover have "x / 2 + y < (z + 1) / 2 + 1" if "x < z + 1" "y < 1" for x y z :: rat
    using that by (intro add_strict_mono divide_strict_right_mono) simp_all
  ultimately have less: "(of_nat width / 2 + 1) / ratio < (of_nat w + 1) / 2 + 1"
    by metis
  have "of_nat u \<le> (of_nat width / 2 + 1) / ratio"
    using assms(1) unfolding u_def by simp
  then have "(of_nat u :: rat) < (of_nat w + 1) / 2 + 1"
    using less by (rule le_less_trans)
  then have "(of_nat (2 * u) :: rat) < of_nat (w + 3)"
    by (simp add: field_simps)
  then have u: "2 * u < w + 3"
    unfolding of_nat_less_iff .
  have wh: "1 \<le> w" "1 \<le> h"
    using assms by simp_all
  obtain k where k: "h = Suc k"
    using wh(2) by (cases h) auto
  have "k * u \<le> k * (2 * w)"
    using u wh by (intro mult_le_mono2) linarith
  moreover have "(h + 1) div 2 - 1 \<le> k"
    using k by simp
  then have "((h + 1) div 2 - 1) * u \<le> k * u"
    by (rule mult_le_mono1)
  ultimately have "((h + 1) div 2 - 1) * u + (w + 1) div 2 \<le> k * (2 * w) + w"
    using wh by linarith
  also have "\<dots> \<le> w * h * 4"
    by (simp add: k algebra_simps)
  finally have "lastByte ((h + 1) div 2) u ((w + 1) div 2) \<le> w * h * 4"
    by (simp add: lastByte_def)
  moreover have "lastByte h w w \<le> w * h * 4"
    by (simp add: lastByte_def k algebra_simps)
  ultimately show ?thesis
    by (simp add: planes_ok_def flip: u_def)
qed

text \<open>A run of the renderer over frames.\<close>

primrec render_run :: "rat \<Rightarrow> (nat \<times> nat) list \<Rightarrow> renderer \<Rightarrow> (pixelwrite res \<times> planes option) list \<times> renderer" where
  "render_run ratio [] r = ([], r)"
| "render_run ratio (f # fs) r =
     (case OnFrame ratio (fst f) (snd f) r of (x, p, r) \<Rightarrow>
        case render_run ratio fs r of (xs, r) \<Rightarrow> ((x, p) # xs, r))"

definition frame_ok :: "pixelwrite res \<times> planes option \<Rightarrow> bool" where
  "frame_ok x \<longleftrightarrow> (case x of (Inr w, None) \<Rightarrow> write_ok w
     | (Inr w, Some p) \<Rightarrow> write_ok w \<and> planes_ok (writeWidth w) (writeHeight w) p | _ \<Rightarrow> False)"

definition sizable :: "rat \<Rightarrow> nat \<times> nat \<Rightarrow> bool" where
  "sizable ratio f \<longleftrightarrow>
     (if 1 < ratio then 0 < scaled (fst f) ratio \<and> 0 < scaled (snd f) ratio else 0 < fst f \<and> 0 < snd f)"

lemma OnFrame_ok:
  assumes "renderer_inv r" "sizable ratio f"
  shows "case OnFrame ratio (fst f) (snd f) r of (x, p, r') \<Rightarrow> frame_ok (x, p) \<and> renderer_inv r'"
proof (cases "1 < ratio")
  case True
  let ?w = "scaled (fst f) ratio" and ?h = "scaled (snd f) ratio"
  have pos: "0 < ?w" "0 < ?h"
    using assms True by (simp_all add: sizable_def)
  have row: "nat (4 * int ?w) = 4 * ?w"
    by simp
  show ?thesis
    using True pos planes_fit[OF True pos] lastByte_full[OF pos(2), of ?w]
    by (simp add: OnFrame_def Let_def SetSize_reallocates[OF assms(1) pos(2)] frame_ok_def write_ok_def row renderer_inv_def)
next
  case False
  obtain w h where f: "f = (w, h)"
    by fastforce
  have pos: "0 < w" "0 < h"
    using assms False by (simp_all add: sizable_def f)
  have row: "nat (4 * int w) = 4 * w"
    by simp
  show ?thesis
    using False pos lastByte_full[OF pos(2), of w]
    by (simp add: f OnFrame_def Let_def SetSize_reallocates[OF assms(1) pos(2)] frame_ok_def write_ok_def row renderer_inv_def)
qed

lemma render_run_ok:
  "renderer_inv r \<Longrightarrow> list_all (sizable ratio) fs \<Longrightarrow>
     list_all frame_ok (fst (render_run ratio fs r)) \<and> renderer_inv (snd (render_run ratio fs r))"
proof (induction fs arbitrary: r)
  case Nil
  then show ?case by simp
next
  case (Cons f fs)
  obtain x p r' where 1: "OnFrame ratio (fst f) (snd f) r = (x, p, r')"
    by (metis prod_cases3)
  then have "frame_ok (x, p)" "renderer_inv r'"
    using OnFrame_ok[of r ratio f] Cons.prems by simp_all
  then show ?case
    using Cons.IH[of r'] Cons.prems 1 by (simp add: case_prod_beta)
qed

theorem frames_in_bounds:
  assumes "list_all (sizable ratio) fs"
  shows "list_all frame_ok (fst (render_run ratio fs (VideoRenderer w h))) \<and>
    (case OnPaint True (Some (snd (render_run ratio fs (VideoRenderer w h)))) of
       Some (copied, held) \<Rightarrow> copied = held | None \<Rightarrow> True)"
  using render_run_ok[OF renderer_inv_new assms, of w h]
  by (auto simp: OnPaint_def renderer_inv_def split: option.splits)

theorem frames_in_bounds_witness:
  "list_all frame_ok (fst (render_run (3/2) [(640, 480), (1280, 720)] (VideoRenderer 1 1)))"
  using frames_in_bounds[of "3/2" "[(640, 480), (1280, 720)]" 1 1] by (simp add: sizable_def scaled_def)

end
