(* ===== verification/JanusMessage.thy ===== *)
theory JanusMessage
  imports WsMessage
begin

text \<open>
  The class \<open>Message\<close> of \<open>mod/janitor/src/janitor/wsUtil.hpp\<close>: the messages of the Janus gateway, a JSON
  value with accessors that reach into nested objects. As in \<open>WsMessage\<close> the accessors are not
  constant methods: an access inserts what is absent as null, on every level of the path.
\<close>

primrec js_path :: "string list \<Rightarrow> json \<Rightarrow> (json \<times> json) res" where
  "js_path [] js = Inr (js, js)"
| "js_path (k # ks) js =
     andThen (js_index k js) (\<lambda>(v, js).
     andThen (js_path ks v) (\<lambda>(r, v).
     andThen (js_set k v js) (\<lambda>js. Inr (r, js))))"

primrec js_set_path :: "string list \<Rightarrow> json \<Rightarrow> json \<Rightarrow> json res" where
  "js_set_path [] x js = Inr x"
| "js_set_path (k # ks) x js =
     andThen (js_index k js) (\<lambda>(v, js).
     andThen (js_set_path ks x v) (\<lambda>v. js_set k v js))"

definition getPath :: "(json \<Rightarrow> 'a res) \<Rightarrow> 'a \<Rightarrow> string list \<Rightarrow> json \<Rightarrow> ('a \<times> json) res" where
  "getPath conv dflt ks js =
     andThen (js_path ks js) (\<lambda>(v, js).
       if v = JNull then Inr (dflt, js) else andThen (conv v) (\<lambda>x. Inr (x, js)))"

definition js_contains :: "string \<Rightarrow> json \<Rightarrow> bool" where
  "js_contains key js = (case js of JObject m \<Rightarrow> map_of m key \<noteq> None | _ \<Rightarrow> False)"

named_theorems jn_defs \<open>the accessors of the gateway message\<close>

definition jn_janus :: "json \<Rightarrow> (string \<times> json) res" where
  "jn_janus = getPath as_string [] [''janus'']"

definition jn_set_janus :: "string \<Rightarrow> json \<Rightarrow> json res" where
  "jn_set_janus inp = js_set_path [''janus''] (JString inp)"

definition jn_transaction :: "json \<Rightarrow> (string \<times> json) res" where
  "jn_transaction = getPath as_string [] [''transaction'']"

definition jn_set_transaction :: "string \<Rightarrow> json \<Rightarrow> json res" where
  "jn_set_transaction inp = js_set_path [''transaction''] (JString inp)"

definition jn_session_id :: "json \<Rightarrow> (int \<times> json) res" where
  "jn_session_id = getPath as_int (-1) [''session_id'']"

definition jn_set_session_id :: "int \<Rightarrow> json \<Rightarrow> json res" where
  "jn_set_session_id inp = js_set_path [''session_id''] (JInt inp)"

definition jn_set_plugin :: "string \<Rightarrow> json \<Rightarrow> json res" where
  "jn_set_plugin inp = js_set_path [''plugin''] (JString inp)"

definition jn_set_handle_id :: "int \<Rightarrow> json \<Rightarrow> json res" where
  "jn_set_handle_id inp = js_set_path [''handle_id''] (JInt inp)"

definition jn_sdp :: "json \<Rightarrow> (string \<times> json) res" where
  "jn_sdp = getPath as_string [] [''SDP'']"

definition jn_set_sdp :: "string \<Rightarrow> json \<Rightarrow> json res" where
  "jn_set_sdp inp = js_set_path [''SDP''] (JString inp)"

definition jn_set_body_request :: "string \<Rightarrow> json \<Rightarrow> json res" where
  "jn_set_body_request inp = js_set_path [''body'', ''request''] (JString inp)"

definition jn_set_body_type :: "string \<Rightarrow> json \<Rightarrow> json res" where
  "jn_set_body_type inp = js_set_path [''body'', ''type''] (JString inp)"

definition jn_set_body_sdp :: "string \<Rightarrow> json \<Rightarrow> json res" where
  "jn_set_body_sdp inp = js_set_path [''body'', ''sdp''] (JString inp)"

definition jn_set_body_info :: "string \<Rightarrow> json \<Rightarrow> json res" where
  "jn_set_body_info inp = js_set_path [''body'', ''info''] (JString inp)"

definition jn_set_body_srtp :: "string \<Rightarrow> json \<Rightarrow> json res" where
  "jn_set_body_srtp inp = js_set_path [''body'', ''srtp''] (JString inp)"

definition jn_set_body_srtp_profile :: "string \<Rightarrow> json \<Rightarrow> json res" where
  "jn_set_body_srtp_profile inp = js_set_path [''body'', ''srtp_profile''] (JString inp)"

definition jn_jsep_sdp :: "json \<Rightarrow> (string \<times> json) res" where
  "jn_jsep_sdp = getPath as_string [] [''jsep'', ''sdp'']"

definition jn_set_jsep_sdp :: "string \<Rightarrow> json \<Rightarrow> json res" where
  "jn_set_jsep_sdp inp = js_set_path [''jsep'', ''sdp''] (JString inp)"

definition jn_jsep_type :: "json \<Rightarrow> (string \<times> json) res" where
  "jn_jsep_type = getPath as_string [] [''jsep'', ''type'']"

definition jn_set_jsep_type :: "string \<Rightarrow> json \<Rightarrow> json res" where
  "jn_set_jsep_type inp = js_set_path [''jsep'', ''type''] (JString inp)"

definition jn_sender :: "json \<Rightarrow> (int \<times> json) res" where
  "jn_sender = getPath as_int (-1) [''sender'']"

definition jn_data_id :: "json \<Rightarrow> (int \<times> json) res" where
  "jn_data_id = getPath (as_number 64) (-1) [''data'', ''id'']"

definition jn_plugindata_plugin :: "json \<Rightarrow> (string \<times> json) res" where
  "jn_plugindata_plugin = getPath as_string [] [''plugindata'', ''plugin'']"

definition jn_plugindata_data_nosip :: "json \<Rightarrow> (string \<times> json) res" where
  "jn_plugindata_data_nosip = getPath as_string [] [''plugindata'', ''data'', ''nosip'']"

definition jn_plugindata_data_result_event :: "json \<Rightarrow> (string \<times> json) res" where
  "jn_plugindata_data_result_event = getPath as_string [] [''plugindata'', ''data'', ''result'', ''event'']"

definition jn_plugindata_data_result_srtp :: "json \<Rightarrow> (string \<times> json) res" where
  "jn_plugindata_data_result_srtp = getPath as_string [] [''plugindata'', ''data'', ''result'', ''srtp'']"

definition jn_plugindata_data_result_sdp :: "json \<Rightarrow> (string \<times> json) res" where
  "jn_plugindata_data_result_sdp = getPath as_string [] [''plugindata'', ''data'', ''result'', ''sdp'']"

definition jn_plugindata_data_result_type :: "json \<Rightarrow> (string \<times> json) res" where
  "jn_plugindata_data_result_type = getPath as_string [] [''plugindata'', ''data'', ''result'', ''type'']"

lemmas janus_message_defs [jn_defs] =
  jn_janus_def jn_set_janus_def jn_transaction_def jn_set_transaction_def jn_session_id_def
  jn_set_session_id_def jn_set_plugin_def jn_set_handle_id_def jn_sdp_def jn_set_sdp_def
  jn_set_body_request_def jn_set_body_type_def jn_set_body_sdp_def jn_set_body_info_def
  jn_set_body_srtp_def jn_set_body_srtp_profile_def jn_jsep_sdp_def jn_set_jsep_sdp_def
  jn_jsep_type_def jn_set_jsep_type_def jn_sender_def jn_data_id_def jn_plugindata_plugin_def
  jn_plugindata_data_nosip_def jn_plugindata_data_result_event_def
  jn_plugindata_data_result_srtp_def jn_plugindata_data_result_sdp_def
  jn_plugindata_data_result_type_def

text \<open>What a setter stores, the accessor of the same path reads, and reading it changes nothing.\<close>

lemma set_path_get:
  "x \<noteq> JNull \<Longrightarrow> js_set_path ks x js = Inr js' \<Longrightarrow> js_path ks js' = Inr (x, js')"
proof (induction ks arbitrary: js js')
  case (Cons k ks)
  obtain v j v' where j: "js_index k js = Inr (v, j)" "js_set_path ks x v = Inr v'" "js_set k v' j = Inr js'"
    using Cons.prems(2) by (auto simp: andThen_eq_Inr)
  obtain m where m: "j = JObject m" using j(1) by (auto simp: js_index_def split: json.splits option.splits)
  then have "js' = JObject (AList.update k v' m)" using j(3) by (simp add: js_set_def)
  then have "js_index k js' = Inr (v', js')" "js_set k v' js' = Inr js'"
    by (simp_all add: js_index_def js_set_def update_triv update_conv')
  then show ?case using Cons.IH [OF Cons.prems(1) j(2)] by simp
qed simp

lemma set_text_get:
  "js_set_path ks (JString t) js = Inr js' \<Longrightarrow> getPath as_string d ks js' = Inr (t, js')"
  using set_path_get [of "JString t" ks js js'] by (simp add: getPath_def as_string_def)

end
