(* ===== verification/Janus.thy ===== *)
theory Janus
  imports JanusMessage Effects
begin

text \<open>
  The client of the Janus gateway: \<open>rtcengine::Janitor\<close> and \<open>JanitorListener\<close>
  (\<open>mod/janitor/src/janitor/janitor.cpp\<close>, \<open>janitor.h\<close>, \<open>janitorListener.cpp\<close>). The members are a record
  with the log of the frames handed to the web socket and of the calls to the observer. Each public
  call, each message from the gateway and each round of the keep-alive, ping and reconnect threads is
  one step; the clock and the success of a connection attempt are inputs.
\<close>

subsection \<open>The state\<close>

datatype JanusState = OFFLINE | ONLINE | SESSIONING | HANDLEING | WAIT | GENERATING | PROCESSING

primrec JanusState_value :: "JanusState \<Rightarrow> nat" where
  "JanusState_value OFFLINE = 0"
| "JanusState_value ONLINE = 1"
| "JanusState_value SESSIONING = 2"
| "JanusState_value HANDLEING = 3"
| "JanusState_value WAIT = 4"
| "JanusState_value GENERATING = 5"
| "JanusState_value PROCESSING = 6"

datatype callback = OnGenerated string string | OnProcessed string string | OnReconnect

text \<open>
  \<open>socketSet\<close> is whether the pointer \<open>socket\<close> is set, \<open>listening\<close> whether its \<open>listen\<close> goes on, \<open>pongSet\<close>
  whether the ping thread has stored its first time, \<open>mutexAlive\<close> whether the mutex the listener refers
  to still exists.
\<close>

record janitor =
  engineState :: JanusState
  sessionID :: int
  handleID :: int
  transaction :: int
  destory :: bool
  receivePongTime :: int
  pongSet :: bool
  socketSet :: bool
  listening :: bool
  mutexAlive :: bool
  hasObserver :: bool
  pingThread :: thread
  aliveThread :: thread
  listenThread :: thread
  reconnectThread :: thread
  messageBuffer :: string
  sentText :: "json list"
  sentPings :: nat
  calls :: "callback list"

text \<open>
  The constructor: a failure to connect throws. The mutex handed to the listener by reference is a local
  variable, gone when the constructor returns.
\<close>

definition Janitor_new :: "bool \<Rightarrow> janitor res" where
  "Janitor_new conn =
     (if \<not> conn then Inl (RuntimeError ''connect'')
      else Inr \<lparr>engineState = ONLINE, sessionID = 0, handleID = 0, transaction = 0, destory = False,
        receivePongTime = 0, pongSet = False, socketSet = True, listening = True, mutexAlive = False,
        hasObserver = False, pingThread = NoThread, aliveThread = NoThread, listenThread = Running,
        reconnectThread = NoThread, messageBuffer = [], sentText = [], sentPings = 0, calls = []\<rparr>)"

subsection \<open>Requests\<close>

text \<open>\<open>std::to_string(transaction++)\<close> on a signed 64-bit integer.\<close>

definition nextTransaction :: "janitor \<Rightarrow> (string, janitor) eff" where
  "nextTransaction s =
     (if transaction s = 2 ^ 63 - 1 then (Inl Undefined, s)
      else (Inr (to_string (nat (transaction s))), s\<lparr>transaction := transaction s + 1\<rparr>))"

text \<open>\<open>socket->sendOneFrame\<close> of the text of a JSON value.\<close>

definition sendFrame :: "json \<Rightarrow> janitor \<Rightarrow> (unit, janitor) eff" where
  "sendFrame js s =
     (if socketSet s then (Inr (), s\<lparr>sentText := sentText s @ [js]\<rparr>) else (Inl Undefined, s))"

definition request :: "string \<Rightarrow> (janitor \<Rightarrow> (string \<times> json) list) \<Rightarrow> janitor \<Rightarrow> (unit, janitor) eff" where
  "request name flds s =
     thenDo (nextTransaction s) (\<lambda>t s.
       sendFrame (JObject ((''janus'', JString name) # (''transaction'', JString t) # flds s)) s)"

definition sessionField :: "janitor \<Rightarrow> (string \<times> json) list" where
  "sessionField s = [(''session_id'', JInt (sessionID s))]"

definition handleFields :: "janitor \<Rightarrow> (string \<times> json) list" where
  "handleFields s = sessionField s @ [(''handle_id'', JInt (handleID s))]"

text \<open>Assigning to a thread object that was not joined ends the process.\<close>

definition replaceable :: "thread \<Rightarrow> bool" where
  "replaceable t \<longleftrightarrow> t = NoThread"

definition janusInit :: "janitor \<Rightarrow> (unit, janitor) eff" where
  "janusInit s =
     thenDo (request ''create'' (\<lambda>_. []) s) (\<lambda>_ s.
       let s = s\<lparr>engineState := SESSIONING\<rparr>
       in if \<not> replaceable (aliveThread s) then (Inl ProcessExit, s)
          else
            let s = s\<lparr>aliveThread := Running\<rparr>
            in if \<not> replaceable (pingThread s) then (Inl ProcessExit, s)
               else (Inr (), s\<lparr>pingThread := Running, pongSet := False\<rparr>))"

definition addNoSIP :: "janitor \<Rightarrow> (unit, janitor) eff" where
  "addNoSIP s =
     thenDo (if 0 < handleID s then request ''detach'' handleFields s else (Inr (), s)) (\<lambda>_ s.
     thenDo (request ''attach'' (\<lambda>s. sessionField s @ [(''plugin'', JString ''janus.plugin.nosip'')]) s) (\<lambda>_ s.
       (Inr (), s\<lparr>engineState := HANDLEING\<rparr>)))"

definition generateSDP :: "string \<Rightarrow> string \<Rightarrow> janitor \<Rightarrow> (unit, janitor) eff" where
  "generateSDP jsepSdp typ s =
     thenDo (request ''message'' (\<lambda>s. handleFields s @
         [(''body'', JObject [(''request'', JString ''generate'')]),
          (''jsep'', JObject [(''sdp'', JString jsepSdp), (''type'', JString typ)])]) s) (\<lambda>_ s.
       (Inr (), s\<lparr>engineState := GENERATING\<rparr>))"

definition processSDP :: "string \<Rightarrow> string \<Rightarrow> janitor \<Rightarrow> (unit, janitor) eff" where
  "processSDP normalSdp typ s =
     thenDo (request ''message'' (\<lambda>s. handleFields s @
         [(''body'', JObject [(''request'', JString ''process''), (''type'', JString typ),
            (''sdp'', JString normalSdp)])]) s) (\<lambda>_ s.
       (Inr (), s\<lparr>engineState := PROCESSING\<rparr>))"

text \<open>A candidate is parsed first; the members are copied one by one after the number has been taken.\<close>

definition copyMember :: "string \<Rightarrow> json \<times> json \<Rightarrow> (json \<times> json) res" where
  "copyMember k = (\<lambda>(icedata, j).
     andThen (js_index k icedata) (\<lambda>(v, icedata).
     andThen (js_set_path [''candidate'', k] v j) (\<lambda>j. Inr (icedata, j))))"

definition sendTrickleToJanus :: "(string \<Rightarrow> json option) \<Rightarrow> string \<Rightarrow> janitor \<Rightarrow> (unit, janitor) eff" where
  "sendTrickleToJanus parse ice s =
     (case parse ice of
        None \<Rightarrow> (Inl JsonError, s)
      | Some icedata \<Rightarrow>
          thenDo (nextTransaction s) (\<lambda>t s.
            let j = JObject ((''janus'', JString ''trickle'') # (''transaction'', JString t) # handleFields s)
            in thenDo (pure (andThen (copyMember ''sdpMid'' (icedata, j)) (\<lambda>x.
                 andThen (copyMember ''sdpMLineIndex'' x) (copyMember ''candidate''))) s) (\<lambda>(_, j) s.
               sendFrame j s)))"

definition sendTrickleCompleteToJanus :: "janitor \<Rightarrow> (unit, janitor) eff" where
  "sendTrickleCompleteToJanus s =
     request ''trickle'' (\<lambda>s. handleFields s @ [(''candidate'', JObject [(''completed'', JBool True)])]) s"

definition registerObserver :: "janitor \<Rightarrow> janitor" where
  "registerObserver s = s\<lparr>hasObserver := True\<rparr>"

text \<open>A call through \<open>callback_\<close>, which has no value before an observer is registered.\<close>

definition janusNotify :: "callback \<Rightarrow> janitor \<Rightarrow> (unit, janitor) eff" where
  "janusNotify c s = (if hasObserver s then (Inr (), s\<lparr>calls := calls s @ [c]\<rparr>) else (Inl Undefined, s))"

subsection \<open>Messages from the gateway\<close>

definition janusOnSuccess :: "json \<Rightarrow> janitor \<Rightarrow> (unit, janitor) eff" where
  "janusOnSuccess js s =
     (if engineState s = SESSIONING then
        thenDo (pure (jn_data_id js) s) (\<lambda>(i, _) s. addNoSIP (s\<lparr>sessionID := i\<rparr>))
      else if engineState s = HANDLEING then
        if js_contains ''data'' js then
          thenDo (pure (js_index ''data'' js) s) (\<lambda>(d, js) s.
            if js_contains ''id'' d then
              thenDo (pure (jn_data_id js) s) (\<lambda>(i, _) s. (Inr (), s\<lparr>handleID := i, engineState := WAIT\<rparr>))
            else (Inr (), s))
        else (Inr (), s)
      else (Inr (), s))"

definition janusOnEvent :: "json \<Rightarrow> janitor \<Rightarrow> (unit, janitor) eff" where
  "janusOnEvent js s =
     thenDo (pure (jn_plugindata_data_result_event js) s) (\<lambda>(ev, js) s.
       if ev = ''generated'' then
         thenDo (pure (jn_plugindata_data_result_sdp js) s) (\<lambda>(sdp, js) s.
         thenDo (pure (jn_plugindata_data_result_type js) s) (\<lambda>(typ, js) s.
           janusNotify (OnGenerated sdp typ) (s\<lparr>engineState := WAIT\<rparr>)))
       else if ev = ''processed'' then
         thenDo (pure (jn_jsep_sdp js) s) (\<lambda>(sdp, js) s.
         thenDo (pure (jn_jsep_type js) s) (\<lambda>(typ, js) s.
           janusNotify (OnProcessed sdp typ) (s\<lparr>engineState := WAIT\<rparr>)))
       else (Inr (), s))"

definition OnPong :: "int \<Rightarrow> janitor \<Rightarrow> janitor" where
  "OnPong clk s = s\<lparr>receivePongTime := clk\<rparr>"

text \<open>The other kinds are only logged.\<close>

definition janusDispatch :: "json \<Rightarrow> janitor \<Rightarrow> (unit, janitor) eff" where
  "janusDispatch js s =
     thenDo (pure (jn_janus js) s) (\<lambda>(kind, js) s.
       if kind = ''success'' then janusOnSuccess js s
       else if kind = ''event'' then janusOnEvent js s
       else (Inr (), s))"

text \<open>The text is parsed outside the try block: a text that is no JSON value throws to the listening thread.\<close>

definition janusReadMessage :: "(string \<Rightarrow> json option) \<Rightarrow> string \<Rightarrow> janitor \<Rightarrow> (unit, janitor) eff" where
  "janusReadMessage parse data s =
     (if data \<noteq> [] then (Inr (), s\<lparr>messageBuffer := messageBuffer s @ data\<rparr>)
      else
        let whole = messageBuffer s; s = s\<lparr>messageBuffer := []\<rparr>
        in case parse (takeWhile (\<lambda>c. c \<noteq> CHR 0x00) whole) of
             None \<Rightarrow> (Inl JsonError, s)
           | Some js \<Rightarrow> catching () (janusDispatch js s))"

text \<open>The answer to a ping of the gateway takes the mutex.\<close>

definition janusOnPing :: "janitor \<Rightarrow> (unit, janitor) eff" where
  "janusOnPing s = (if mutexAlive s then (Inr (), s) else (Inl Undefined, s))"

subsection \<open>The threads\<close>

text \<open>One round of the keep-alive loop, with its test at the end.\<close>

definition aliveRound :: "janitor \<Rightarrow> (unit, janitor) eff" where
  "aliveRound s =
     thenDo (if JanusState_value WAIT \<le> JanusState_value (engineState s)
             then request ''keepalive'' sessionField s else (Inr (), s)) (\<lambda>_ s.
       (Inr (), if destory s then s\<lparr>aliveThread := Ended\<rparr> else s))"

text \<open>
  One round of the ping loop, its first round storing the time. More than three seconds after the last
  answer the thread stops the socket, waits for the other threads, starts the reconnection and ends.
\<close>

definition pingRound :: "int \<Rightarrow> janitor \<Rightarrow> (unit, janitor) eff" where
  "pingRound clk s =
     (let s = (if pongSet s then s else s\<lparr>receivePongTime := clk, pongSet := True\<rparr>)
      in if destory s then (Inr (), s\<lparr>pingThread := Ended\<rparr>)
         else if \<not> socketSet s then (Inl Undefined, s)
         else
           let s = s\<lparr>sentPings := sentPings s + 1\<rparr>
           in if 3000 < clk - receivePongTime s then
                let s = s\<lparr>listening := False, destory := True, aliveThread := NoThread\<rparr>
                in if reconnectThread s = Running then (Inl Hang, s)
                   else (Inr (), s\<lparr>reconnectThread := Running, pingThread := Ended\<rparr>)
              else (Inr (), s))"

text \<open>
  One attempt of the reconnection; the first one also drops the socket. With a connection the session is
  opened anew and the observer told, on a thread of its own. A thread that goes on cannot be joined.
\<close>

definition reconnectRound :: "bool \<Rightarrow> janitor \<Rightarrow> (unit, janitor) eff" where
  "reconnectRound conn s =
     (let s = s\<lparr>socketSet := False, engineState := OFFLINE\<rparr>
      in if \<not> conn then (Inr (), s)
         else
           let s = s\<lparr>socketSet := True, sessionID := 0, handleID := 0, destory := False, engineState := ONLINE\<rparr>
           in if pingThread s = Running then (Inl Hang, s)
              else if listenThread s = Running \<and> listening s then (Inl Hang, s)
              else
                thenDo (janusInit (s\<lparr>pingThread := NoThread, listenThread := Running, listening := True\<rparr>)) (\<lambda>_ s.
                thenDo (janusNotify OnReconnect s) (\<lambda>_ s.
                  (Inr (), s\<lparr>reconnectThread := Ended\<rparr>))))"

text \<open>
  The destructor, with the outcomes of the attempts that the reconnection makes while it is joined. A member
  thread that is still joinable at the end terminates the process.
\<close>

primrec joinReconnect :: "bool list \<Rightarrow> janitor \<Rightarrow> (unit, janitor) eff" where
  "joinReconnect [] s = (Inl Hang, s)"
| "joinReconnect (c # cs) s =
     thenDo (reconnectRound c s) (\<lambda>_ s. if c then (Inr (), s) else joinReconnect cs s)"

definition Janitor_destroy :: "bool list \<Rightarrow> janitor \<Rightarrow> (unit, janitor) eff" where
  "Janitor_destroy attempts s =
     (let s = s\<lparr>destory := True, pingThread := NoThread, aliveThread := NoThread\<rparr>
      in thenDo (if reconnectThread s = Running then joinReconnect attempts s else (Inr (), s)) (\<lambda>_ s.
           let s = s\<lparr>reconnectThread := NoThread, listening := False, listenThread := NoThread, socketSet := False\<rparr>
           in if replaceable (pingThread s) \<and> replaceable (aliveThread s) then (Inr (), s)
              else (Inl ProcessExit, s)))"

subsection \<open>Runs\<close>

datatype janus_event =
    Init | AddNoSIP | Generate string string | Process string string
  | Trickle string | TrickleComplete | Register
  | Gateway string | Pong int
  | Alive | Ping int | Attempt bool

definition janus_step :: "(string \<Rightarrow> json option) \<Rightarrow> janus_event \<Rightarrow> janitor \<Rightarrow> (unit, janitor) eff" where
  "janus_step parse ev s =
     (case ev of
        Init \<Rightarrow> janusInit s
      | AddNoSIP \<Rightarrow> addNoSIP s
      | Generate sdp t \<Rightarrow> generateSDP sdp t s
      | Process sdp t \<Rightarrow> processSDP sdp t s
      | Trickle ice \<Rightarrow> sendTrickleToJanus parse ice s
      | TrickleComplete \<Rightarrow> sendTrickleCompleteToJanus s
      | Register \<Rightarrow> (Inr (), registerObserver s)
      | Gateway data \<Rightarrow>
          if listenThread s = Running \<and> listening s then janusReadMessage parse data s else (Inr (), s)
      | Pong clk \<Rightarrow> (Inr (), if listenThread s = Running \<and> listening s then OnPong clk s else s)
      | Alive \<Rightarrow> if aliveThread s = Running then aliveRound s else (Inr (), s)
      | Ping clk \<Rightarrow> if pingThread s = Running then pingRound clk s else (Inr (), s)
      | Attempt c \<Rightarrow> if reconnectThread s = Running then reconnectRound c s else (Inr (), s))"

primrec run_janus :: "(string \<Rightarrow> json option) \<Rightarrow> janus_event list \<Rightarrow> janitor \<Rightarrow> (unit, janitor) eff" where
  "run_janus parse [] s = (Inr (), s)"
| "run_janus parse (ev # evs) s = thenDo (janus_step parse ev s) (\<lambda>_ s. run_janus parse evs s)"

end
