(* ===== verification/JanusRuns.thy ===== *)
theory JanusRuns
  imports Janus
begin

text \<open>
  What holds of the runs of the gateway client (theory \<open>Janus\<close>): the transaction numbers of its requests,
  the thread objects and the socket through losses and reconnections, the opening of a session, and
  the destructor.
\<close>

subsection \<open>Transaction numbers\<close>

definition frameTransaction :: "json \<Rightarrow> json option" where
  "frameTransaction js = (case js of JObject m \<Rightarrow> map_of m ''transaction'' | _ \<Rightarrow> None)"

definition numberText :: "int \<Rightarrow> json option" where
  "numberText n = Some (JString (to_string (nat n)))"

text \<open>The frames sent in between carry increasing numbers out of those the counter has passed.\<close>

definition numbered :: "janitor \<Rightarrow> janitor \<Rightarrow> bool" where
  "numbered s t \<longleftrightarrow> (\<exists>fs ns. sentText t = sentText s @ fs \<and> map frameTransaction fs = map numberText ns
     \<and> sorted_wrt (<) ns \<and> (\<forall>n \<in> set ns. transaction s \<le> n \<and> n < transaction t) \<and> transaction s \<le> transaction t)"

lemma numbered_refl: "numbered s s"
  by (auto simp: numbered_def)

lemma numbered_trans:
  assumes "numbered s t" "numbered t u"
  shows "numbered s u"
proof -
  obtain fs ns where 1: "sentText t = sentText s @ fs" "map frameTransaction fs = map numberText ns"
    "sorted_wrt (<) ns" "\<forall>n \<in> set ns. transaction s \<le> n \<and> n < transaction t" "transaction s \<le> transaction t"
    using assms(1) unfolding numbered_def by blast
  obtain gs ms where 2: "sentText u = sentText t @ gs" "map frameTransaction gs = map numberText ms"
    "sorted_wrt (<) ms" "\<forall>n \<in> set ms. transaction t \<le> n \<and> n < transaction u" "transaction t \<le> transaction u"
    using assms(2) unfolding numbered_def by blast
  show ?thesis
    unfolding numbered_def using 1 2
    by (intro exI [of _ "fs @ gs"] exI [of _ "ns @ ms"]) (fastforce simp: sorted_wrt_append)
qed

interpretation transactions: trace_order numbered
  by unfold_locales (fact numbered_refl, fact numbered_trans)

lemma numbered_same: "sentText t = sentText s \<Longrightarrow> transaction t = transaction s \<Longrightarrow> numbered s t"
  by (auto simp: numbered_def)

lemma numbered_update [simp]:
  "numbered s (engineState_update f1 t) = numbered s t"
  "numbered s (sessionID_update f2 t) = numbered s t"
  "numbered s (handleID_update f3 t) = numbered s t"
  "numbered s (destory_update f4 t) = numbered s t"
  "numbered s (receivePongTime_update f5 t) = numbered s t"
  "numbered s (pongSet_update f6 t) = numbered s t"
  "numbered s (socketSet_update f7 t) = numbered s t"
  "numbered s (listening_update f8 t) = numbered s t"
  "numbered s (hasObserver_update f9 t) = numbered s t"
  "numbered s (pingThread_update f10 t) = numbered s t"
  "numbered s (aliveThread_update f11 t) = numbered s t"
  "numbered s (listenThread_update f12 t) = numbered s t"
  "numbered s (reconnectThread_update f13 t) = numbered s t"
  "numbered s (messageBuffer_update f14 t) = numbered s t"
  "numbered s (sentPings_update f15 t) = numbered s t"
  "numbered s (calls_update f16 t) = numbered s t"
  by (simp_all add: numbered_def)

lemma numbered_number:
  assumes "\<And>x. nextTransaction t = (Inr x, t\<lparr>transaction := transaction t + 1\<rparr>) \<Longrightarrow> numberText (transaction t) = Some (JString x) \<Longrightarrow>
     (\<exists>fs. sentText (snd (k x (t\<lparr>transaction := transaction t + 1\<rparr>))) = sentText t @ fs \<and> length fs \<le> 1 \<and>
       (\<forall>f \<in> set fs. frameTransaction f = Some (JString x))) \<and>
     transaction (snd (k x (t\<lparr>transaction := transaction t + 1\<rparr>))) = transaction t + 1"
  shows "numbered t (snd (thenDo (nextTransaction t) k))"
proof (cases "transaction t = 2 ^ 63 - 1")
  case True
  then show ?thesis by (simp add: nextTransaction_def numbered_refl)
next
  case False
  define x where "x = to_string (nat (transaction t))"
  have n: "nextTransaction t = (Inr x, t\<lparr>transaction := transaction t + 1\<rparr>)"
    using False by (simp add: nextTransaction_def x_def)
  obtain fs where fs: "sentText (snd (k x (t\<lparr>transaction := transaction t + 1\<rparr>))) = sentText t @ fs"
    "length fs \<le> 1" "\<forall>f \<in> set fs. frameTransaction f = Some (JString x)"
    "transaction (snd (k x (t\<lparr>transaction := transaction t + 1\<rparr>))) = transaction t + 1"
    using assms [OF n] by (auto simp: numberText_def x_def)
  then show ?thesis
    unfolding numbered_def n thenDo_simps using fs
    by (intro exI [of _ fs] exI [of _ "replicate (length fs) (transaction t)"])
      (cases fs; auto simp: numberText_def x_def)
qed

lemma numbered_request:
  assumes "\<And>s. map_of (flds s) ''transaction'' = None"
  shows "numbered t (snd (request name flds t))"
  unfolding request_def
  by (rule numbered_number) (auto simp: sendFrame_def frameTransaction_def)

lemma numbered_after_request:
  "numbered s t \<Longrightarrow> (\<And>s. map_of (flds s) ''transaction'' = None) \<Longrightarrow> numbered s (snd (request name flds t))"
  using numbered_request transactions.R_trans by blast

lemma copyMember_transaction:
  assumes "copyMember k (i, j) = Inr (i', j')" "frameTransaction j = Some x"
  shows "frameTransaction j' = Some x"
proof -
  obtain m where m: "j = JObject m" "map_of m ''transaction'' = Some x"
    using assms(2) by (auto simp: frameTransaction_def split: json.splits)
  then show ?thesis
    using assms(1)
    by (auto simp: copyMember_def andThen_eq_Inr js_index_def js_set_def frameTransaction_def update_conv
        map_add_Some_iff split: option.splits)
qed

lemma numbered_trickle: "numbered s (snd (sendTrickleToJanus parse ice s))"
proof (cases "parse ice")
  case (Some icedata)
  have c: "frameTransaction j' = Some x"
    if "andThen (copyMember ''sdpMid'' (icedata, j)) (\<lambda>x. andThen (copyMember ''sdpMLineIndex'' x) (copyMember ''candidate''))
          = Inr (i', j')" "frameTransaction j = Some x" for i' j j' x
    using that by (auto simp: andThen_eq_Inr dest: copyMember_transaction)
  show ?thesis
    unfolding sendTrickleToJanus_def Some option.case
  proof (rule numbered_number)
    fix x
    let ?t = "s\<lparr>transaction := transaction s + 1\<rparr>"
    let ?j = "JObject ((''janus'', JString ''trickle'') # (''transaction'', JString x) # handleFields ?t)"
    have j: "frameTransaction ?j = Some (JString x)" by (simp add: frameTransaction_def)
    let ?k = "\<lambda>t s. let j = JObject ((''janus'', JString ''trickle'') # (''transaction'', JString t) # handleFields s)
            in thenDo (pure (andThen (copyMember ''sdpMid'' (icedata, j)) (\<lambda>x.
                 andThen (copyMember ''sdpMLineIndex'' x) (copyMember ''candidate''))) s) (\<lambda>(_, j) s.
               sendFrame j s)"
    show "(\<exists>fs. sentText (snd (?k x ?t)) = sentText s @ fs \<and> length fs \<le> 1 \<and>
        (\<forall>f \<in> set fs. frameTransaction f = Some (JString x))) \<and> transaction (snd (?k x ?t)) = transaction s + 1"
      using c [OF _ j]
      by (cases "andThen (copyMember ''sdpMid'' (icedata, ?j)) (\<lambda>x. andThen (copyMember ''sdpMLineIndex'' x) (copyMember ''candidate''))")
        (auto simp: sendFrame_def Let_def)
  qed
qed (simp add: sendTrickleToJanus_def numbered_refl)

lemma field_names [simp]:
  "map_of (sessionField s) ''transaction'' = None"
  "map_of (handleFields s) ''transaction'' = None"
  "map_of (handleFields s @ xs) ''transaction'' = map_of xs ''transaction''"
  by (simp_all add: sessionField_def handleFields_def map_add_def)

lemmas numbered_intros = transactions.order_intros numbered_after_request

lemma numbered_init: "numbered s t \<Longrightarrow> numbered s (snd (janusInit t))"
  unfolding janusInit_def Let_def by (intro numbered_intros) simp_all

lemma numbered_addNoSIP: "numbered s t \<Longrightarrow> numbered s (snd (addNoSIP t))"
  unfolding addNoSIP_def by (intro numbered_intros) (simp_all add: sessionField_def)

lemma numbered_notify: "numbered s t \<Longrightarrow> numbered s (snd (janusNotify c t))"
  by (simp add: janusNotify_def)

lemma numbered_generate: "numbered s (snd (generateSDP x y s))"
  unfolding generateSDP_def by (intro numbered_intros numbered_refl) simp_all

lemma numbered_process: "numbered s (snd (processSDP x y s))"
  unfolding processSDP_def by (intro numbered_intros numbered_refl) simp_all

lemma numbered_complete: "numbered s (snd (sendTrickleCompleteToJanus s))"
  unfolding sendTrickleCompleteToJanus_def by (intro numbered_intros numbered_refl) simp_all

lemma numbered_dispatch: "numbered s t \<Longrightarrow> numbered s (snd (janusDispatch js t))"
  unfolding janusDispatch_def janusOnSuccess_def janusOnEvent_def
  by (intro numbered_intros numbered_addNoSIP numbered_notify) simp_all

lemma numbered_readMessage: "numbered s (snd (janusReadMessage parse data s))"
  unfolding janusReadMessage_def Let_def
  by (intro numbered_intros numbered_dispatch) (simp_all add: numbered_refl)

lemma numbered_alive: "numbered s (snd (aliveRound s))"
  unfolding aliveRound_def by (intro numbered_intros numbered_refl) simp_all

lemma numbered_ping: "numbered s (snd (pingRound clk s))"
  by (auto simp: pingRound_def Let_def numbered_refl)

lemma numbered_reconnect: "numbered s (snd (reconnectRound c s))"
  unfolding reconnectRound_def Let_def
  by (intro numbered_intros numbered_init numbered_notify) (simp_all add: numbered_refl)

lemma numbered_step: "numbered s (snd (janus_step parse ev s))"
  by (cases ev)
    (auto simp: janus_step_def OnPong_def registerObserver_def numbered_refl intro: numbered_init numbered_addNoSIP
      numbered_generate numbered_process numbered_trickle numbered_complete numbered_readMessage numbered_alive
      numbered_ping numbered_reconnect)

lemma numbered_run: "numbered s t \<Longrightarrow> numbered s (snd (run_janus parse evs t))"
proof (induction evs arbitrary: t)
  case (Cons ev evs)
  show ?case
    unfolding run_janus.simps
    using Cons.IH transactions.R_trans [OF _ numbered_step] Cons.prems
    by (intro transactions.then_order) blast+
qed simp

text \<open>
  In every run, whatever the gateway sends and whichever operations fail, the requests carry the texts of
  strictly increasing transaction numbers, all below the counter.
\<close>

theorem janus_transactions:
  assumes "Janitor_new conn = Inr s"
  shows "\<exists>ns. map frameTransaction (sentText (snd (run_janus parse evs s))) = map numberText ns \<and>
           sorted_wrt (<) ns \<and> (\<forall>n \<in> set ns. 0 \<le> n \<and> n < transaction (snd (run_janus parse evs s)))"
  using numbered_run [OF numbered_refl, of s parse evs] assms
  by (fastforce simp: numbered_def Janitor_new_def split: if_splits)

theorem janus_transactions_witness:
  "\<exists>s ns. Janitor_new True = Inr s \<and> length ns = 2 \<and> sorted_wrt (<) ns \<and>
     map frameTransaction (sentText (snd (run_janus (\<lambda>_. None) [Init, TrickleComplete] s))) = map numberText ns"
proof -
  obtain s where s: "Janitor_new True = Inr s" by (simp add: Janitor_new_def)
  then have "length (sentText (snd (run_janus (\<lambda>_. None) [Init, TrickleComplete] s))) = 2"
    by (auto simp: Janitor_new_def janus_step_def janusInit_def request_def nextTransaction_def sendFrame_def
        sendTrickleCompleteToJanus_def replaceable_def Let_def)
  moreover obtain ns where "map frameTransaction (sentText (snd (run_janus (\<lambda>_. None) [Init, TrickleComplete] s))) = map numberText ns"
    "sorted_wrt (<) ns"
    using janus_transactions [OF s, of "\<lambda>_. None" "[Init, TrickleComplete]"] by blast
  ultimately show ?thesis using s by (metis length_map)
qed

subsection \<open>Opening a session\<close>

definition answer :: "int \<Rightarrow> json" where
  "answer i = JObject [(''janus'', JString ''success''), (''data'', JObject [(''id'', JInt i)])]"

lemma answer_dispatch: "janusDispatch (answer i) s = janusOnSuccess (answer i) s"
  by (simp add: janusDispatch_def answer_def jn_janus_def getPath_def js_index_def js_set_def as_string_def)

lemma answer_id: "\<bar>i\<bar> < 2 ^ 63 \<Longrightarrow> \<exists>js. jn_data_id (answer i) = Inr (i, js)"
  by (auto simp: answer_def jn_data_id_def getPath_def js_index_def js_set_def as_number_def
      signed_take_bit_int_eq_self)

text \<open>C16: from a new client: \<open>init\<close>, the answer with the session's number, the answer with the handle's number. The
  client then waits for work, with both numbers, and has sent the two requests of the handshake. In parts and
  with other steps of the threads that send nothing in between the same holds; here the messages come whole.
\<close>

theorem janus_handshake:
  assumes "Janitor_new True = Inr s" "0 < h" "h < 2 ^ 63" "\<bar>i\<bar> < 2 ^ 63"
    "parse w1 = Some (answer i)" "parse w2 = Some (answer h)" "w1 \<noteq> []" "w2 \<noteq> []"
    "CHR 0x00 \<notin> set w1" "CHR 0x00 \<notin> set w2"
  shows "\<exists>t. run_janus parse [Init, Gateway w1, Gateway [], Gateway w2, Gateway []] s = (Inr (), t) \<and>
     engineState t = WAIT \<and> sessionID t = i \<and> handleID t = h \<and> transaction t = 2 \<and>
     sentText t = [JObject [(''janus'', JString ''create''), (''transaction'', JString ''0'')],
       JObject [(''janus'', JString ''attach''), (''transaction'', JString ''1''), (''session_id'', JInt i),
         (''plugin'', JString ''janus.plugin.nosip'')]]"
proof -
  have w: "takeWhile (\<lambda>c. c \<noteq> CHR 0x00) w1 = w1" "takeWhile (\<lambda>c. c \<noteq> CHR 0x00) w2 = w2"
    using assms(9,10) by (auto simp: takeWhile_eq_all_conv)
  obtain js1 js2 where j: "jn_data_id (answer i) = Inr (i, js1)" "jn_data_id (answer h) = Inr (h, js2)"
    using answer_id [of i] answer_id [of h] assms(2-4) by auto
  have c: "js_contains ''data'' (answer h)" "js_contains ''id'' (JObject [(''id'', JInt h)])" "js_index ''data'' (answer h) = Inr (JObject [(''id'', JInt h)], answer h)"
    by (simp_all add: answer_def js_contains_def js_index_def)
  have n: "to_string 0 = ''0''" "to_string 1 = ''1''" by code_simp+
  show ?thesis
    using assms(1,5-8)
    by (auto simp: Janitor_new_def janus_step_def janusInit_def request_def nextTransaction_def sendFrame_def
        replaceable_def Let_def janusReadMessage_def w answer_dispatch janusOnSuccess_def j c catching_def
        addNoSIP_def sessionField_def n n [unfolded One_nat_def])
qed

theorem janus_handshake_witness:
  "\<exists>s t. Janitor_new True = Inr s \<and>
     run_janus (\<lambda>w. if w = ''a'' then Some (answer 7) else if w = ''b'' then Some (answer 9) else None)
       [Init, Gateway ''a'', Gateway [], Gateway ''b'', Gateway []] s = (Inr (), t) \<and>
     engineState t = WAIT \<and> sessionID t = 7 \<and> handleID t = 9"
proof -
  obtain s where s: "Janitor_new True = Inr s" by (simp add: Janitor_new_def)
  show ?thesis
    using s janus_handshake [OF s, of 9 7 "\<lambda>w. if w = ''a'' then Some (answer 7) else if w = ''b'' then Some (answer 9) else None"
        "''a''" "''b''"] by auto
qed

text \<open>A request made before the session is open takes over the state, and the gateway's answer is then ignored.\<close>

theorem early_request_stalls:
  assumes "engineState s = SESSIONING" "socketSet s" "transaction s < 2 ^ 63 - 1"
  shows "\<exists>t. generateSDP sdp typ s = (Inr (), t) \<and> engineState t = GENERATING \<and> janusDispatch (answer i) t = (Inr (), t)"
  using assms by (auto simp: generateSDP_def request_def nextTransaction_def sendFrame_def answer_dispatch janusOnSuccess_def)

subsection \<open>Threads and the socket\<close>

text \<open>
  The phases of a client with an observer: before \<open>init\<close>; with a connection, when the keep-alive and the ping
  thread run; after a loss, when only the reconnection runs.
\<close>

definition janus_inv :: "janitor \<Rightarrow> bool" where
  "janus_inv s \<longleftrightarrow> hasObserver s \<and> 0 \<le> transaction s \<and> listenThread s = Running \<and>
     ((socketSet s \<and> listening s \<and> \<not> destory s \<and> pingThread s = NoThread \<and> aliveThread s = NoThread \<and>
         reconnectThread s = NoThread) \<or>
      (socketSet s \<and> listening s \<and> \<not> destory s \<and> pingThread s = Running \<and> aliveThread s = Running \<and>
         reconnectThread s \<noteq> Running) \<or>
      (\<not> listening s \<and> destory s \<and> pingThread s = Ended \<and> aliveThread s = NoThread \<and> reconnectThread s = Running))"

text \<open>The fields the phases depend on stay, at most two numbers are taken, and the only fault is a text that is no
  JSON value of the right shape.\<close>

definition harmless :: "janitor \<Rightarrow> (unit, janitor) eff \<Rightarrow> bool" where
  "harmless s r \<longleftrightarrow> fst r \<in> {Inr (), Inl JsonError} \<and>
     hasObserver (snd r) = hasObserver s \<and> listenThread (snd r) = listenThread s \<and> socketSet (snd r) = socketSet s \<and>
     listening (snd r) = listening s \<and> destory (snd r) = destory s \<and> pingThread (snd r) = pingThread s \<and>
     aliveThread (snd r) = aliveThread s \<and> reconnectThread (snd r) = reconnectThread s \<and>
     transaction s \<le> transaction (snd r) \<and> transaction (snd r) \<le> transaction s + 2"

lemma harmless_inv: "harmless s r \<Longrightarrow> janus_inv s \<Longrightarrow> janus_inv (snd r)"
  by (auto simp: harmless_def janus_inv_def)

text \<open>The gateway's numbers are integers: converting a floating point number out of range is undefined.\<close>

definition floatId :: "json \<Rightarrow> bool" where
  "floatId js = (case js of JObject m \<Rightarrow>
     (case map_of m ''data'' of Some (JObject d) \<Rightarrow>
        (case map_of d ''id'' of Some (JFloat r) \<Rightarrow> True | _ \<Rightarrow> False) | _ \<Rightarrow> False) | _ \<Rightarrow> False)"

lemma index_floatId: "js_index k js = Inr (v, js') \<Longrightarrow> floatId js' \<Longrightarrow> floatId js"
  by (auto simp: js_index_def floatId_def map_add_def split: json.splits option.splits if_splits)

lemma index_set: "js_index k js = Inr (v, js') \<Longrightarrow> js_set k v js' = Inr js'"
  by (auto simp: js_index_def js_set_def map_add_def update_triv split: json.splits option.splits)

lemma js_path_single: "js_path [k] js = js_index k js"
  by (cases "js_index k js") (auto simp: index_set)

lemma index_fault: "js_index k js = Inl e \<Longrightarrow> e = JsonError"
  by (auto simp: js_index_def split: json.splits option.splits)

lemma set_fault: "js_set k v js = Inl e \<Longrightarrow> e = JsonError"
  by (auto simp: js_set_def split: json.splits)

lemma path_fault: "js_path ks js = Inl e \<Longrightarrow> e = JsonError"
  by (induction ks arbitrary: js) (auto simp: andThen_eq_Inl dest: index_fault set_fault)

lemma text_fault: "getPath as_string d ks js = Inl e \<Longrightarrow> e = JsonError"
  by (auto simp: getPath_def andThen_eq_Inl as_string_def dest: path_fault split: if_splits json.splits)

lemma janus_floatId: "jn_janus js = Inr (x, js') \<Longrightarrow> floatId js' \<Longrightarrow> floatId js"
  by (auto simp: jn_janus_def getPath_def andThen_eq_Inr js_path_single simp del: js_path.simps
      dest: index_floatId split: if_splits)

lemma data_id_fault:
  assumes "jn_data_id js = Inl e" "\<not> floatId js"
  shows "e = JsonError"
proof -
  have "e = JsonError" if "js_path [''data'', ''id''] js = Inr (v, js')" "as_number 64 v = Inl e" for v js'
    using that assms(2)
    by (auto simp: andThen_eq_Inr js_index_def floatId_def as_number_def map_add_def
        split: json.splits option.splits if_splits)
  then show ?thesis
    using assms(1) by (auto simp: jn_data_id_def getPath_def andThen_eq_Inl simp del: js_path.simps
        dest: path_fault split: if_splits)
qed

lemma harmless_request:
  assumes "socketSet t" "transaction t < 2 ^ 63 - 1"
  shows "request name flds t = (Inr (), t\<lparr>transaction := transaction t + 1,
     sentText := sentText t @ [JObject ((''janus'', JString name) # (''transaction'', JString (to_string (nat (transaction t))))
       # flds (t\<lparr>transaction := transaction t + 1\<rparr>))]\<rparr>)"
  using assms by (simp add: request_def nextTransaction_def sendFrame_def)

lemma harmless_addNoSIP:
  "socketSet s \<Longrightarrow> transaction s + 2 < 2 ^ 63 \<Longrightarrow> harmless s (addNoSIP s)"
  by (simp add: addNoSIP_def harmless_request harmless_def)

lemma harmless_notify: "hasObserver s \<Longrightarrow> harmless s (janusNotify c s)"
  by (simp add: janusNotify_def harmless_def)

lemma harmless_value: "harmless s (Inr (), s)" "harmless s (Inl JsonError, s)"
  by (simp_all add: harmless_def)

lemma harmless_updates:
  "socketSet s \<Longrightarrow> transaction s + 2 < 2 ^ 63 \<Longrightarrow> harmless s (addNoSIP (s\<lparr>sessionID := i\<rparr>))"
  "hasObserver s \<Longrightarrow> harmless s (janusNotify c (s\<lparr>engineState := x\<rparr>))"
  "harmless s (Inr (), s\<lparr>handleID := i, engineState := x\<rparr>)"
  using harmless_addNoSIP [of "s\<lparr>sessionID := i\<rparr>"] harmless_notify [of "s\<lparr>engineState := x\<rparr>"]
  by (simp_all add: harmless_def)

lemma harmless_id:
  assumes "\<not> floatId js" "\<And>i js'. harmless s (k (i, js') s)"
  shows "harmless s (thenDo (pure (jn_data_id js) s) k)"
  using assms by (cases "jn_data_id js") (auto simp: harmless_value dest: data_id_fault)

lemma harmless_index:
  assumes "\<And>d js'. js_index k js = Inr (d, js') \<Longrightarrow> harmless s (f (d, js') s)"
  shows "harmless s (thenDo (pure (js_index k js) s) f)"
  using assms by (cases "js_index k js") (auto simp: harmless_value dest: index_fault)

lemma harmless_success:
  assumes "socketSet s" "transaction s + 2 < 2 ^ 63" "\<not> floatId js"
  shows "harmless s (janusOnSuccess js s)"
proof (cases "engineState s = SESSIONING")
  case True
  have "harmless s (thenDo (pure (jn_data_id js) s) (\<lambda>(i, _) s. addNoSIP (s\<lparr>sessionID := i\<rparr>)))"
    using assms by (intro harmless_id) (auto intro: harmless_updates)
  then show ?thesis using True by (simp add: janusOnSuccess_def)
next
  case False
  have "harmless s (thenDo (pure (js_index ''data'' js) s) (\<lambda>(d, js) s.
      if js_contains ''id'' d
      then thenDo (pure (jn_data_id js) s) (\<lambda>(i, _) s. (Inr (), s\<lparr>handleID := i, engineState := WAIT\<rparr>))
      else (Inr (), s)))"
  proof (rule harmless_index)
    fix d js' assume "js_index ''data'' js = Inr (d, js')"
    then have "\<not> floatId js'" using index_floatId assms(3) by blast
    then have "harmless s (thenDo (pure (jn_data_id js') s) (\<lambda>(i, _) s. (Inr (), s\<lparr>handleID := i, engineState := WAIT\<rparr>)))"
      by (intro harmless_id) (auto intro: harmless_updates)
    then show "harmless s ((\<lambda>(d, js) s. if js_contains ''id'' d
        then thenDo (pure (jn_data_id js) s) (\<lambda>(i, _) s. (Inr (), s\<lparr>handleID := i, engineState := WAIT\<rparr>))
        else (Inr (), s)) (d, js') s)"
      by (simp add: harmless_value)
  qed
  then show ?thesis using False by (simp add: janusOnSuccess_def harmless_value)
qed

lemma harmless_text:
  "(\<And>x js'. harmless s (k (x, js') s)) \<Longrightarrow> harmless s (thenDo (pure (getPath as_string d ks js) s) k)"
  by (cases "getPath as_string d ks js") (auto simp: harmless_value dest!: text_fault)

lemma harmless_event: "hasObserver s \<Longrightarrow> harmless s (janusOnEvent js s)"
  unfolding janusOnEvent_def jn_defs
  by (intro harmless_text) (auto intro!: harmless_text harmless_updates harmless_value(1))

lemma harmless_dispatch:
  assumes "hasObserver s" "socketSet s" "transaction s + 2 < 2 ^ 63" "\<not> floatId js"
  shows "harmless s (janusDispatch js s)"
proof (cases "jn_janus js")
  case (Inl e)
  then show ?thesis
    using text_fault [of "[]" "[''janus'']" js e] by (simp add: janusDispatch_def jn_janus_def harmless_value)
next
  case (Inr r)
  then show ?thesis
    using assms janus_floatId [of js "fst r" "snd r"]
    by (cases r) (auto simp: janusDispatch_def harmless_value intro: harmless_success harmless_event)
qed

lemma harmless_catching: "harmless s r \<Longrightarrow> harmless s (catching () r)"
  by (cases r; cases "fst r") (auto simp: harmless_def catching_def)

lemma harmless_readMessage:
  assumes "hasObserver s" "socketSet s" "transaction s + 2 < 2 ^ 63" "\<And>w js. parse w = Some js \<Longrightarrow> \<not> floatId js"
  shows "harmless s (janusReadMessage parse data s)"
proof (cases "data = []")
  case True
  let ?t = "s\<lparr>messageBuffer := []\<rparr>"
  have t: "harmless ?t r \<Longrightarrow> harmless s r" for r by (simp add: harmless_def)
  show ?thesis
    using assms True unfolding janusReadMessage_def Let_def
    by (auto intro!: t harmless_catching harmless_dispatch harmless_value(2) split: option.split)
qed (simp add: janusReadMessage_def harmless_def)

lemma copyMember_fault: "copyMember k x = Inl e \<Longrightarrow> e = JsonError"
  by (cases x) (auto simp: copyMember_def andThen_eq_Inl dest: index_fault set_fault)

lemma harmless_trickle:
  assumes "socketSet s" "transaction s + 2 < 2 ^ 63"
  shows "harmless s (sendTrickleToJanus parse ice s)"
proof (cases "parse ice")
  case (Some icedata)
  have f: "e = JsonError" if "andThen (copyMember a x) (\<lambda>x. andThen (copyMember b x) (copyMember c)) = Inl e" for a b c x e
    using that by (auto simp: andThen_eq_Inl dest: copyMember_fault)
  let ?t = "s\<lparr>transaction := transaction s + 1\<rparr>"
  let ?j = "JObject ((''janus'', JString ''trickle'') # (''transaction'', JString (to_string (nat (transaction s)))) # handleFields ?t)"
  show ?thesis
    using assms f
    by (cases "andThen (copyMember ''sdpMid'' (icedata, ?j)) (\<lambda>x. andThen (copyMember ''sdpMLineIndex'' x) (copyMember ''candidate''))")
      (auto simp: sendTrickleToJanus_def Some nextTransaction_def sendFrame_def harmless_def)
qed (simp add: sendTrickleToJanus_def harmless_value)

text \<open>
  What the user of the client has to keep to: \<open>init\<close> only once, and no call while there is no socket.
\<close>

definition allowed :: "janus_event \<Rightarrow> janitor \<Rightarrow> bool" where
  "allowed ev s = (case ev of
      Init \<Rightarrow> pingThread s = NoThread
    | AddNoSIP \<Rightarrow> socketSet s | Generate x y \<Rightarrow> socketSet s | Process x y \<Rightarrow> socketSet s
    | Trickle ice \<Rightarrow> socketSet s | TrickleComplete \<Rightarrow> socketSet s
    | _ \<Rightarrow> True)"

primrec allowed_run :: "(string \<Rightarrow> json option) \<Rightarrow> janus_event list \<Rightarrow> janitor \<Rightarrow> bool" where
  "allowed_run parse [] s = True"
| "allowed_run parse (ev # evs) s \<longleftrightarrow>
     allowed ev s \<and> (fst (janus_step parse ev s) = Inr () \<longrightarrow> allowed_run parse evs (snd (janus_step parse ev s)))"

text \<open>What a step may do: no fault but a bad text, the invariant kept, at most two numbers taken.\<close>

definition keeps :: "janitor \<Rightarrow> (unit, janitor) eff \<Rightarrow> bool" where
  "keeps s r \<longleftrightarrow> fst r \<in> {Inr (), Inl JsonError} \<and> janus_inv (snd r) \<and> transaction (snd r) \<le> transaction s + 2"

lemma harmless_keeps: "harmless s r \<Longrightarrow> janus_inv s \<Longrightarrow> keeps s r"
  using harmless_inv [of s r] by (auto simp: keeps_def harmless_def)

lemma keeps_init:
  "janus_inv s \<Longrightarrow> pingThread s = NoThread \<Longrightarrow> transaction s + 2 < 2 ^ 63 \<Longrightarrow> keeps s (janusInit s)"
  by (auto simp: janusInit_def harmless_request Let_def replaceable_def janus_inv_def keeps_def)

lemma keeps_alive: "janus_inv s \<Longrightarrow> aliveThread s = Running \<Longrightarrow> transaction s + 2 < 2 ^ 63 \<Longrightarrow> keeps s (aliveRound s)"
  by (auto simp: aliveRound_def harmless_request janus_inv_def keeps_def)

lemma keeps_ping: "janus_inv s \<Longrightarrow> pingThread s = Running \<Longrightarrow> keeps s (pingRound clk s)"
  by (auto simp: pingRound_def Let_def janus_inv_def keeps_def)

lemma keeps_reconnect:
  "janus_inv s \<Longrightarrow> reconnectThread s = Running \<Longrightarrow> transaction s + 2 < 2 ^ 63 \<Longrightarrow> keeps s (reconnectRound c s)"
  by (auto simp: reconnectRound_def Let_def janusInit_def harmless_request replaceable_def janusNotify_def janus_inv_def keeps_def)

lemma harmless_send:
  assumes "socketSet s" "transaction s + 2 < 2 ^ 63"
  shows "harmless s (generateSDP x y s)" "harmless s (processSDP x y s)" "harmless s (sendTrickleCompleteToJanus s)"
  using assms
  by (simp_all add: generateSDP_def processSDP_def sendTrickleCompleteToJanus_def harmless_request harmless_def)

lemma keeps_refl: "janus_inv s \<Longrightarrow> keeps s (Inr (), s)"
  by (simp add: keeps_def)

lemma keeps_step:
  assumes "janus_inv s" "allowed ev s" "transaction s + 2 < 2 ^ 63" "\<And>w js. parse w = Some js \<Longrightarrow> \<not> floatId js"
  shows "keeps s (janus_step parse ev s)"
proof -
  have o: "hasObserver s" using assms(1) by (simp add: janus_inv_def)
  have l: "listening s \<Longrightarrow> socketSet s" using assms(1) by (auto simp: janus_inv_def)
  have p: "keeps s (Inr (), OnPong clk s)" "keeps s (Inr (), registerObserver s)" for clk
    using assms(1) by (auto simp: OnPong_def registerObserver_def keeps_def janus_inv_def)
  have c: "keeps s (addNoSIP s)" "keeps s (generateSDP x y s)" "keeps s (processSDP x y s)"
    "keeps s (sendTrickleToJanus parse x s)" "keeps s (sendTrickleCompleteToJanus s)"
    "keeps s (janusReadMessage parse x s)" if "socketSet s" for x y
    using that assms(1,3,4) o
    by (intro harmless_keeps harmless_addNoSIP harmless_send harmless_trickle harmless_readMessage; blast)+
  show ?thesis
    using assms(1,2) l c p keeps_init [OF assms(1) _ assms(3)] keeps_alive [OF assms(1) _ assms(3)]
      keeps_reconnect [OF assms(1) _ assms(3)]
    by (cases ev) (simp_all add: janus_step_def allowed_def keeps_ping keeps_refl)
qed

lemma keeps_run:
  assumes "janus_inv s" "allowed_run parse evs s" "transaction s + 2 * int (length evs) < 2 ^ 63"
    and parse: "\<And>w js. parse w = Some js \<Longrightarrow> \<not> floatId js"
  shows "fst (run_janus parse evs s) \<in> {Inr (), Inl JsonError} \<and> janus_inv (snd (run_janus parse evs s)) \<and>
    transaction (snd (run_janus parse evs s)) \<le> transaction s + 2 * int (length evs)"
  using assms(1-3)
proof (induction evs arbitrary: s)
  case (Cons ev evs)
  have k: "keeps s (janus_step parse ev s)"
    using Cons.prems by (intro keeps_step parse) auto
  obtain t where t: "janus_step parse ev s = (Inr (), t) \<or> janus_step parse ev s = (Inl JsonError, t)"
    using k by (cases "janus_step parse ev s") (auto simp: keeps_def)
  then show ?case
  proof
    assume s: "janus_step parse ev s = (Inr (), t)"
    then have "janus_inv t" "allowed_run parse evs t" "transaction t \<le> transaction s + 2"
      using k Cons.prems by (auto simp: keeps_def)
    then show ?thesis using Cons.IH [of t] Cons.prems(3) s by auto
  qed (use k in \<open>auto simp: keeps_def\<close>)
qed simp

lemma janus_inv_new: "Janitor_new True = Inr s \<Longrightarrow> janus_inv (registerObserver s) \<and> transaction s = 0"
  by (auto simp: Janitor_new_def registerObserver_def janus_inv_def)



lemma joinReconnect_fails:
  assumes "hasObserver s" "transaction s < 2 ^ 63 - 1" "\<not> listening s" "pingThread s = NoThread" "aliveThread s = NoThread"
  shows "case joinReconnect cs s of (r, t) \<Rightarrow>
    r = (if True \<in> set cs then Inr () else Inl Hang) \<and> (True \<in> set cs \<longrightarrow> pingThread t = Running)"
  using assms
proof (induction cs arbitrary: s)
  case (Cons c cs)
  show ?case
  proof (cases c)
    case True
    then show ?thesis
      using Cons.prems by (simp add: reconnectRound_def Let_def janusInit_def harmless_request replaceable_def janusNotify_def)
  next
    case False
    then show ?thesis
      using Cons.IH [of "s\<lparr>socketSet := False, engineState := OFFLINE\<rparr>"] Cons.prems
      by (simp add: reconnectRound_def)
  qed
qed simp

text \<open>C17: the destructor: with no reconnection under way it joins every thread and returns. While a reconnection is under way
  it blocks for as long as no attempt succeeds, and when one does the threads it starts are never joined, which ends
  the process: the loop does not look at the flag the destructor sets.
\<close>

theorem janus_destroy:
  assumes "janus_inv s" "transaction s < 2 ^ 63 - 1"
  shows "if reconnectThread s = Running
    then fst (Janitor_destroy attempts s) = Inl (if True \<in> set attempts then ProcessExit else Hang)
    else \<exists>t. Janitor_destroy attempts s = (Inr (), t) \<and> pingThread t = NoThread \<and>
      aliveThread t = NoThread \<and> listenThread t = NoThread \<and> reconnectThread t = NoThread"
proof (cases "reconnectThread s = Running")
  case True
  let ?s = "s\<lparr>destory := True, pingThread := NoThread, aliveThread := NoThread\<rparr>"
  have "\<not> listening s" "hasObserver s" using assms(1) True by (auto simp: janus_inv_def)
  then have "fst (Janitor_destroy attempts s) = Inl (if True \<in> set attempts then ProcessExit else Hang)"
    using joinReconnect_fails [of ?s attempts] assms(2) True
    by (cases "joinReconnect attempts ?s") (auto simp: Janitor_destroy_def replaceable_def Let_def split: if_splits)
  then show ?thesis using True by simp
qed (simp add: Janitor_destroy_def replaceable_def Let_def)

text \<open>A client that has lost its connection: its destructor fails whatever the attempts bring.\<close>

definition lostClient :: janitor where
  "lostClient = \<lparr>engineState = OFFLINE, sessionID = 7, handleID = 9, transaction = 4, destory = True,
     receivePongTime = 0, pongSet = True, socketSet = False, listening = False, mutexAlive = False,
     hasObserver = True, pingThread = Ended, aliveThread = NoThread, listenThread = Running,
     reconnectThread = Running, messageBuffer = [], sentText = [], sentPings = 4, calls = []\<rparr>"

theorem janus_destroy_witness:
  "fst (Janitor_destroy [False, True] lostClient) = Inl ProcessExit \<and> fst (Janitor_destroy [False] lostClient) = Inl Hang"
  using janus_destroy [of lostClient "[False, True]"] janus_destroy [of lostClient "[False]"]
  by (simp add: lostClient_def janus_inv_def)

lemma failed_attempts:
  "reconnectThread s = Running \<Longrightarrow>
   run_janus parse (replicate n (Attempt False) @ evs) s =
   run_janus parse evs (if n = 0 then s else s\<lparr>socketSet := False, engineState := OFFLINE\<rparr>)"
proof (induction n arbitrary: s)
  case (Suc n)
  then show ?case
    using Suc.IH [of "s\<lparr>socketSet := False, engineState := OFFLINE\<rparr>"]
    by (simp add: janus_step_def reconnectRound_def)
qed simp

text \<open>C15: a lost connection is opened again: the ping thread notices that no answer came for more than three seconds, and after
  any number of failed attempts the one that succeeds leaves a client that has asked for a new session.
\<close>

theorem janus_reconnects:
  assumes "janus_inv s" "pingThread s = Running" "pongSet s" "receivePongTime s + 3000 < clk" "transaction s < 2 ^ 63 - 1"
  shows "\<exists>t. run_janus parse (Ping clk # replicate n (Attempt False) @ [Attempt True]) s = (Inr (), t) \<and>
    janus_inv t \<and> engineState t = SESSIONING \<and> sessionID t = 0 \<and> handleID t = 0 \<and> pingThread t = Running \<and>
    aliveThread t = Running \<and> calls t = calls s @ [OnReconnect] \<and>
    frameTransaction (last (sentText t)) = numberText (transaction s)"
proof -
  define p where "p = s\<lparr>sentPings := sentPings s + 1, listening := False, destory := True, aliveThread := NoThread,
      reconnectThread := Running, pingThread := Ended\<rparr>"
  have i: "hasObserver s" "0 \<le> transaction s" "listenThread s = Running" "socketSet s" "\<not> destory s" "reconnectThread s \<noteq> Running"
    using assms(1,2) by (auto simp: janus_inv_def)
  have 1: "janus_step parse (Ping clk) s = (Inr (), p)"
    using assms i by (simp add: janus_step_def pingRound_def p_def Let_def)
  define q where "q = (if n = 0 then p else p\<lparr>socketSet := False, engineState := OFFLINE\<rparr>)"
  have "reconnectThread p = Running" by (simp add: p_def)
  then have 2: "run_janus parse (replicate n (Attempt False) @ [Attempt True]) p = run_janus parse [Attempt True] q"
    unfolding q_def by (rule failed_attempts)
  have q: "reconnectThread q = Running" "pingThread q = Ended" "aliveThread q = NoThread" "listenThread q = Running" "\<not> listening q"
    "hasObserver q" "transaction q = transaction s" "calls q = calls s"
    using i by (simp_all add: q_def p_def)
  have 3: "\<exists>t. janus_step parse (Attempt True) q = (Inr (), t) \<and>
    janus_inv t \<and> engineState t = SESSIONING \<and> sessionID t = 0 \<and> handleID t = 0 \<and> pingThread t = Running \<and>
    aliveThread t = Running \<and> calls t = calls s @ [OnReconnect] \<and>
    frameTransaction (last (sentText t)) = numberText (transaction s)"
    using q assms(5) i(2) by (simp add: janus_step_def reconnectRound_def Let_def janusInit_def harmless_request replaceable_def
        janusNotify_def janus_inv_def frameTransaction_def numberText_def)
  then show ?thesis by (auto simp: 1 2)
qed

theorem janus_reconnects_witness:
  "\<exists>s t. Janitor_new True = Inr s \<and>
     run_janus (\<lambda>_. None) [Init, Ping 0] (registerObserver s) = (Inr (), t) \<and>
     (\<exists>v. run_janus (\<lambda>_. None) (Ping 4000 # replicate 3 (Attempt False) @ [Attempt True]) t = (Inr (), v) \<and>
        engineState v = SESSIONING \<and> calls v = [OnReconnect])"
proof -
  obtain s where s: "Janitor_new True = Inr s" by (simp add: Janitor_new_def)
  obtain t where t: "run_janus (\<lambda>_. None) [Init, Ping 0] (registerObserver s) = (Inr (), t)" "janus_inv t"
    "pingThread t = Running" "pongSet t" "receivePongTime t = 0" "transaction t = 1" "calls t = []"
    using s by (auto simp: Janitor_new_def registerObserver_def janus_step_def janusInit_def request_def nextTransaction_def
        sendFrame_def replaceable_def pingRound_def Let_def janus_inv_def)
  then have "\<exists>v. run_janus (\<lambda>_. None) (Ping 4000 # replicate 3 (Attempt False) @ [Attempt True]) t = (Inr (), v) \<and>
      engineState v = SESSIONING \<and> calls v = [OnReconnect]"
    using janus_reconnects [of t 4000 "\<lambda>_. None" 3] by auto
  then show ?thesis using s t(1) by blast
qed

subsection \<open>Misuse\<close>

theorem janus_misuse:
  shows "aliveThread s \<noteq> NoThread \<Longrightarrow> socketSet s \<Longrightarrow> transaction s < 2 ^ 63 - 1 \<Longrightarrow> fst (janusInit s) = Inl ProcessExit"
    and "\<not> socketSet s \<Longrightarrow> transaction s < 2 ^ 63 - 1 \<Longrightarrow> fst (generateSDP x y s) = Inl Undefined"
    and "Janitor_new conn = Inr s \<Longrightarrow> fst (janusOnPing s) = Inl Undefined"
    and "\<not> hasObserver s \<Longrightarrow> fst (janusNotify c s) = Inl Undefined"
  by (auto simp: janusInit_def harmless_request Let_def replaceable_def generateSDP_def request_def nextTransaction_def
      sendFrame_def Janitor_new_def janusOnPing_def janusNotify_def split: if_splits)

end
