(* ===== verification/Http.thy ===== *)
theory Http
  imports Text Maps Effects "HOL-Library.List_Lexorder" "HOL-Library.Char_ord"
begin

text \<open>
  Cookies, queries and sessions as text, after \<open>inc/seeker/http.hpp\<close>. The loop of \<open>split\<close> has one pass of fuel for each character and one more, which is enough.
\<close>

subsection \<open>Splitting at a character\<close>

definition split :: "string \<Rightarrow> string \<Rightarrow> u32 \<Rightarrow> string list res" where
  "split target sp limit = string_split (Suc (length target)) target sp limit"

text \<open>The reference: at most \<open>n\<close> cuts.\<close>

primrec cuts :: "nat \<Rightarrow> char \<Rightarrow> string \<Rightarrow> string list" where
  "cuts 0 c s = [s]"
| "cuts (Suc n) c s =
     (if c \<in> set s then takeWhile (\<lambda>d. d \<noteq> c) s # cuts n c (tl (dropWhile (\<lambda>d. d \<noteq> c) s)) else [s])"

lemma find_in_char: "find_in [c] s = (if c \<in> set s then Some (length (takeWhile (\<lambda>d. d \<noteq> c) s)) else None)"
  by (induction s) auto

lemma string_splitLoop_cuts:
  assumes "pos \<le> length target" "length target - pos < fuel" "cnt < limit"
  shows "string_splitLoop fuel limit cnt target [c] pos rst = Inr (rst @ cuts (limit - 1 - cnt) c (drop pos target))"
  using assms
proof (induction fuel arbitrary: pos rst cnt)
  case (Suc fuel)
  let ?s = "drop pos target"
  let ?k = "length (takeWhile (\<lambda>d. d \<noteq> c) ?s)"
  show ?case
  proof (cases "c \<in> set ?s \<and> cnt < limit - 1")
    case False
    then show ?thesis
      using Suc.prems(1) by (cases "limit - 1 - cnt") (auto simp: find_pos_def find_in_char substr_def)
  next
    case True
    then have "find_in [c] ?s = Some ?k" by (simp add: find_in_char)
    then have "?k + 1 \<le> length ?s" using find_in_bound by fastforce
    then have p: "pos + ?k + 1 \<le> length target" by simp
    have q: "length target - (pos + ?k + 1) < fuel" "cnt + 1 < limit" using p Suc.prems(2) conjunct2 [OF True] by linarith+
    obtain n where n: "limit - 1 - cnt = Suc n" "limit - 1 - (cnt + 1) = n" using True by (cases "limit - 1 - cnt") auto
    have "tl (dropWhile (\<lambda>d. d \<noteq> c) ?s) = drop (pos + ?k + 1) target"
      by (simp add: dropWhile_eq_drop drop_Suc tl_drop add.commute)
    moreover have "take ?k ?s = takeWhile (\<lambda>d. d \<noteq> c) ?s" by (simp add: takeWhile_eq_take [symmetric])
    ultimately show ?thesis
      using True Suc.prems(1) Suc.IH [OF p q, of "rst @ [takeWhile (\<lambda>d. d \<noteq> c) ?s]"] n
      by (simp add: find_pos_def find_in_char substr_def)
  qed
qed simp

lemma split_cuts:
  assumes "limit \<noteq> 0"
  shows "split target [c] limit = Inr (cuts (unat limit - 1) c target)"
proof (cases "target = [] \<or> limit = 1")
  case True
  then show ?thesis by (cases "unat limit - 1") (auto simp: split_def string_split_def)
next
  case False
  then show ?thesis
    using assms string_splitLoop_cuts [of 0 target "Suc (length target)" 0 "unat limit" c "[]"]
    by (simp add: split_def string_split_def unat_gt_0)
qed

subsection \<open>Cookies\<close>

definition cookieFlags :: "string \<Rightarrow> string \<Rightarrow> bool \<Rightarrow> bool \<Rightarrow> string \<Rightarrow> string" where
  "cookieFlags path domain secure httpOnly sameSite =
     (if 0 < length domain then ''Domain='' @ domain @ ''; '' else [])
     @ (if 0 < length path then ''Path='' @ path @ ''; '' else [])
     @ (if 0 < length sameSite then ''SameSite='' @ sameSite @ ''; '' else [])
     @ (if secure then ''Secure; '' else []) @ (if httpOnly then ''HttpOnly; '' else [])"

definition cleanCookie :: "string \<Rightarrow> string \<Rightarrow> string \<Rightarrow> bool \<Rightarrow> bool \<Rightarrow> string \<Rightarrow> string" where
  "cleanCookie name path domain secure httpOnly sameSite =
     name @ ''=; '' @ cookieFlags path domain secure httpOnly sameSite
     @ ''Expires=Wed, 30 Aug 1970 00:00:00 GMT; ''"

text \<open>\<open>fmt::format\<close> writes a number in decimal.\<close>

definition createCookie :: "string \<Rightarrow> string \<Rightarrow> string \<Rightarrow> string \<Rightarrow> bool \<Rightarrow> bool \<Rightarrow> u32 \<Rightarrow> string \<Rightarrow> string" where
  "createCookie name val path domain secure httpOnly maxAge sameSite =
     name @ ''='' @ val @ ''; '' @ cookieFlags path domain secure httpOnly sameSite
     @ (if 0 < maxAge then ''Max-Age='' @ to_string (unat maxAge) @ ''; '' else [])"

text \<open>The first cookie that begins with the name; what follows the name is not tested.\<close>

primrec findCookie :: "string \<Rightarrow> string list \<Rightarrow> string res" where
  "findCookie cookieName [] = Inr []"
| "findCookie cookieName (cookieStr # rest) =
     andThen (string_trim cookieStr) (\<lambda>cookieString.
       if startWith cookieString cookieName
       then substr cookieString (length cookieName + 1) (length cookieString)
       else findCookie cookieName rest)"

definition getCookieValue :: "string \<Rightarrow> string \<Rightarrow> string res" where
  "getCookieValue cookieContent cookieName =
     (if 0 < length cookieName \<and> length cookieName < length cookieContent
      then andThen (split cookieContent '';'' 0xFFFFFFFF) (findCookie cookieName)
      else Inr [])"

subsection \<open>Queries and sessions\<close>

primrec queryLoop :: "string list \<Rightarrow> (string \<times> string) list \<Rightarrow> (string \<times> string) list res" where
  "queryLoop [] m = Inr m"
| "queryLoop (kvStr # rest) m =
     (if 0 < length kvStr then
        andThen (split kvStr ''='' 2) (\<lambda>kv.
          if 1 < length kv
          then andThen (at_throw kv 0) (\<lambda>k. andThen (at_throw kv 1) (\<lambda>v. queryLoop rest (map_emplace k v m)))
          else andThen (at_throw kv 0) (\<lambda>k. queryLoop rest (map_emplace k [] m)))
      else queryLoop rest m)"

definition parseUrlQuery :: "string \<Rightarrow> (string \<times> string) list res" where
  "parseUrlQuery urlQuery = andThen (split urlQuery ''&'' 0xFFFFFFFF) (\<lambda>kvStrList. queryLoop kvStrList [])"

primrec sessionLoop :: "string list \<Rightarrow> (string \<times> string) list \<Rightarrow> (string \<times> string) list res" where
  "sessionLoop [] m = Inr m"
| "sessionLoop (kvStr # rest) m =
     andThen (split kvStr ''='' 2) (\<lambda>kv.
       if length kv = 2
       then andThen (at kv 0) (\<lambda>k. andThen (at kv 1) (\<lambda>v. sessionLoop rest (map_put k v m)))
       else sessionLoop rest m)"

definition parseSessioString :: "string \<Rightarrow> (string \<times> string) list res" where
  "parseSessioString sessionString = andThen (split sessionString ''&'' 0xFFFFFFFF) (\<lambda>kvVector. sessionLoop kvVector [])"

definition createSessionString :: "(string \<times> string) list \<Rightarrow> string" where
  "createSessionString sessionMap =
     foldl (\<lambda>ss kv. ss @ ''&'' @ fst kv @ ''='' @ snd kv) ''signatureHere_TODO'' sessionMap"

subsection \<open>Pieces\<close>

lemma cuts_piece: "c \<notin> set p \<Longrightarrow> cuts n c p = [p]"
  by (cases n) simp_all

lemma cuts_append: "c \<notin> set p \<Longrightarrow> cuts (Suc n) c (p @ c # s) = p # cuts n c s"
  by (subst cuts.simps(2), subst takeWhile_append2, blast, subst dropWhile_append2, blast) simp

lemma cuts_join:
  assumes "ps \<noteq> []" "\<forall>p \<in> set ps. c \<notin> set p" "length ps \<le> Suc n"
  shows "cuts n c (join [c] ps) = ps"
  using assms
proof (induction ps arbitrary: n)
  case (Cons p ps)
  show ?case
  proof (cases "ps = []")
    case True
    then show ?thesis using Cons.prems(2) by (simp add: cuts_piece)
  next
    case False
    then obtain m where m: "n = Suc m" using Cons.prems(3) by (cases n) auto
    show ?thesis using Cons.IH [OF False, of m] Cons.prems False cuts_append [of c p m "join [c] ps"] by (simp add: m)
  qed
qed simp

lemma split_pair:
  "CHR ''='' \<notin> set k \<Longrightarrow> split (k @ ''='' @ v) ''='' 2 = Inr [k, v]"
  "CHR ''='' \<notin> set s \<Longrightarrow> split s ''='' 2 = Inr [s]"
  using cuts_append [of "CHR ''=''" k 0 v] by (simp_all add: split_cuts cuts_piece)

lemma split_join:
  assumes "ps \<noteq> []" "\<forall>p \<in> set ps. c \<notin> set p" "length ps < 2 ^ 32"
  shows "split (join [c] ps) [c] 0xFFFFFFFF = Inr ps"
  using cuts_join [OF assms(1,2), of "4294967294"] assms(3) by (simp add: split_cuts)

definition pair :: "string \<times> string \<Rightarrow> string" where
  "pair kv = fst kv @ ''='' @ snd kv"

lemma set_pair: "set (pair kv) = insert (CHR ''='') (set (fst kv) \<union> set (snd kv))"
  by (auto simp: pair_def)

subsection \<open>Sessions and queries read back\<close>

definition plain :: "(string \<times> string) list \<Rightarrow> bool" where
  "plain kvs \<longleftrightarrow> (\<forall>(k, v) \<in> set kvs. CHR ''='' \<notin> set k \<and> CHR ''&'' \<notin> set k \<and> CHR ''&'' \<notin> set v)"

lemma plain_Cons [simp]:
  "plain ((k, v) # kvs) \<longleftrightarrow> CHR ''='' \<notin> set k \<and> CHR ''&'' \<notin> set k \<and> CHR ''&'' \<notin> set v \<and> plain kvs" "plain []"
  by (auto simp: plain_def)

lemma plain_pieces: "plain kvs \<Longrightarrow> \<forall>p \<in> set (map pair kvs). CHR ''&'' \<notin> set p"
  by (auto simp: plain_def set_pair)

lemma sessionLoop_pairs: "plain kvs \<Longrightarrow> sessionLoop (map pair kvs) m = Inr (fold (\<lambda>(k, v). map_put k v) kvs m)"
proof (induction kvs arbitrary: m)
  case (Cons kv kvs)
  then show ?case by (cases kv) (simp add: pair_def split_pair at_def del: append.simps)
qed simp

lemma queryLoop_pairs: "plain kvs \<Longrightarrow> queryLoop (map pair kvs) m = Inr (fold (\<lambda>(k, v). map_emplace k v) kvs m)"
proof (induction kvs arbitrary: m)
  case (Cons kv kvs)
  then show ?case by (cases kv) (simp add: pair_def split_pair del: append.simps)
qed simp

lemma fold_put_ordered:
  assumes "ordered (m @ kvs)"
  shows "fold (\<lambda>(k, v). map_put k v) kvs m = m @ kvs"
  using assms
proof (induction kvs arbitrary: m)
  case (Cons kv kvs)
  obtain k v where kv: "kv = (k, v)" by (cases kv)
  have "\<forall>k' \<in> fst ` set m. k' < k" using Cons.prems by (auto simp: kv ordered_def sorted_wrt_append)
  then show ?case using Cons.IH [of "m @ [(k, v)]"] Cons.prems by (simp add: kv map_put_last)
qed simp

lemma fold_put:
  "ordered m \<Longrightarrow> ordered (fold (\<lambda>(k, v). map_put k v) kvs m)
     \<and> map_of (fold (\<lambda>(k, v). map_put k v) kvs m) = map_of m ++ map_of (rev kvs)"
  by (induction kvs arbitrary: m) (auto simp: map_of_put map_add_assoc [symmetric] split: prod.splits)

lemma fold_emplace:
  "ordered m \<Longrightarrow> ordered (fold (\<lambda>(k, v). map_emplace k v) kvs m)
     \<and> map_of (fold (\<lambda>(k, v). map_emplace k v) kvs m) = map_of kvs ++ map_of m"
  by (induction kvs arbitrary: m) (auto simp: map_of_emplace map_add_def split: prod.splits option.splits)

lemma createSessionString_join: "createSessionString m = join ''&'' (''signatureHere_TODO'' # map pair m)"
proof -
  have "foldl (\<lambda>ss kv. ss @ ''&'' @ fst kv @ ''='' @ snd kv) acc m = (if m = [] then acc else acc @ ''&'' @ join ''&'' (map pair m))"
    for acc
    by (induction m arbitrary: acc) (simp_all add: pair_def)
  then show ?thesis by (simp add: createSessionString_def)
qed

text \<open>C38: a session written as text is read back, where keys and values are free of the separators.\<close>

theorem session_roundtrip:
  assumes "ordered m" "plain m" "length m + 1 < 2 ^ 32"
  shows "parseSessioString (createSessionString m) = Inr m"
proof -
  let ?ps = "''signatureHere_TODO'' # map pair m"
  have "split (join ''&'' ?ps) ''&'' 0xFFFFFFFF = Inr ?ps"
    by (rule split_join) (use plain_pieces [OF assms(2)] assms(3) in auto)
  moreover have "sessionLoop ?ps [] = Inr m"
    using fold_put_ordered [of "[]" m] assms(1,2) by (simp add: split_pair sessionLoop_pairs)
  ultimately show ?thesis by (simp add: parseSessioString_def createSessionString_join)
qed

theorem session_roundtrip_witness:
  "parseSessioString ''signatureHere_TODO&id=7&user=bob'' = Inr [(''id'', ''7''), (''user'', ''bob'')]"
  using session_roundtrip [of "[(''id'', ''7''), (''user'', ''bob'')]"] by (simp add: createSessionString_def)

text \<open>Of a key that occurs twice a query keeps the first value, a session the last one.\<close>

theorem repeated_keys:
  assumes "plain kvs" "length kvs < 2 ^ 32" "kvs \<noteq> []"
  shows "\<exists>q s. parseUrlQuery (join ''&'' (map pair kvs)) = Inr q \<and> ordered q \<and> map_of q = map_of kvs
    \<and> parseSessioString (join ''&'' (map pair kvs)) = Inr s \<and> ordered s \<and> map_of s = map_of (rev kvs)"
proof -
  have "split (join ''&'' (map pair kvs)) ''&'' 0xFFFFFFFF = Inr (map pair kvs)"
    by (rule split_join) (use plain_pieces [OF assms(1)] assms(2,3) in auto)
  then show ?thesis
    using fold_put [of "[]" kvs] fold_emplace [of "[]" kvs] assms(1)
    by (simp add: parseUrlQuery_def parseSessioString_def queryLoop_pairs sessionLoop_pairs)
qed

subsection \<open>Cookies read back\<close>

lemma prefix_pair:
  assumes "CHR ''='' \<notin> set name" "prefix name (n @ ''='' @ v)"
  shows "prefix name n"
  using assms by (auto simp: prefix_append prefix_Cons)

text \<open>Blanks, a name and a value.\<close>

definition cookie :: "string \<times> string \<times> string \<Rightarrow> string" where
  "cookie c = fst c @ pair (snd c)"

lemma string_trim_cookie:
  assumes "\<forall>d \<in> set b. isBlank d" "n \<noteq> []" "\<not> isBlank (hd n)"
  shows "string_trim (cookie (b, n, v)) = Inr (pair (n, v))"
  using assms by (cases n) (simp_all add: string_trim_left cookie_def pair_def dropWhile_append2)

definition goodCookie :: "string \<Rightarrow> string \<times> string \<times> string \<Rightarrow> bool" where
  "goodCookie name c = (case c of (b, n, v) \<Rightarrow>
     (\<forall>d \<in> set b. isBlank d) \<and> n \<noteq> [] \<and> \<not> isBlank (hd n) \<and> CHR '';'' \<notin> set n \<and> CHR '';'' \<notin> set v
     \<and> (prefix name n \<longrightarrow> n = name))"

lemma findCookie_pairs:
  assumes "CHR ''='' \<notin> set name" "\<forall>c \<in> set cs. goodCookie name c"
  shows "findCookie name (map cookie cs) = Inr (case map_of (map snd cs) name of Some v \<Rightarrow> v | None \<Rightarrow> [])"
  using assms(2)
proof (induction cs)
  case (Cons c cs)
  obtain b n v where c: "c = (b, n, v)" by (cases c)
  have t: "string_trim (cookie c) = Inr (pair (n, v))"
    using Cons.prems string_trim_cookie [of b n v] by (simp add: c goodCookie_def)
  show ?case
  proof (cases "n = name")
    case True
    then have "startWith (pair (n, v)) name" by (simp add: startWith_prefix pair_def)
    then show ?thesis using t True by (simp add: c substr_def pair_def)
  next
    case False
    then have "\<not> prefix name n" using Cons.prems by (simp add: c goodCookie_def)
    then have "\<not> startWith (pair (n, v)) name"
      using prefix_pair [OF assms(1), of n v] by (auto simp: startWith_prefix pair_def)
    then show ?thesis using t False Cons by (simp add: c)
  qed
qed simp

text \<open>In a header whose names do not begin with the one asked for, its cookie is found, or nothing.\<close>

theorem getCookieValue_found:
  assumes "name \<noteq> []" "CHR ''='' \<notin> set name" "\<forall>c \<in> set cs. goodCookie name c" "cs \<noteq> []" "length cs < 2 ^ 32"
  shows "getCookieValue (join '';'' (map cookie cs)) name = Inr (case map_of (map snd cs) name of Some v \<Rightarrow> v | None \<Rightarrow> [])"
proof -
  let ?s = "join '';'' (map cookie cs)"
  have blank: "\<not> isBlank (CHR '';'')" by (simp add: isBlank_def)
  have "\<forall>p \<in> set (map cookie cs). CHR '';'' \<notin> set p"
    using assms(3) blank by (auto simp: goodCookie_def cookie_def set_pair)
  then have s: "split ?s '';'' 0xFFFFFFFF = Inr (map cookie cs)"
    by (intro split_join) (use assms(4,5) in auto)
  show ?thesis
  proof (cases "length name < length ?s")
    case True
    then show ?thesis using assms(1) by (simp add: getCookieValue_def s findCookie_pairs [OF assms(2,3)])
  next
    case False
    have "map_of (map snd cs) name = None"
    proof (rule ccontr)
      assume "map_of (map snd cs) name \<noteq> None"
      then obtain v where "(name, v) \<in> set (map snd cs)" by (auto dest: map_of_SomeD)
      then obtain c where c: "c \<in> set cs" "snd c = (name, v)" by auto
      have "length (cookie c) \<le> length ?s"
        using c(1) by (induction cs) (auto simp: join_Cons)
      then show False using False c(2) by (simp add: cookie_def pair_def)
    qed
    then show ?thesis using False by (simp add: getCookieValue_def)
  qed
qed

text \<open>The value of a cookie made is read back, whatever its attributes.\<close>

theorem createCookie_roundtrip:
  assumes "name \<noteq> []" "\<not> isBlank (hd name)" "CHR '';'' \<notin> set name" "CHR '';'' \<notin> set val"
  shows "getCookieValue (createCookie name val path domain secure httpOnly maxAge sameSite) name = Inr val
    \<and> getCookieValue (cleanCookie name path domain secure httpOnly sameSite) name = Inr []"
proof -
  have g: "getCookieValue (name @ ''='' @ v @ '';'' @ rest) name = Inr v" if "CHR '';'' \<notin> set v" for v rest
  proof -
    have "CHR '';'' \<notin> set (name @ ''='' @ v)" using assms(3) that by simp
    then have "cuts (Suc 4294967293) (CHR '';'') ((name @ ''='' @ v) @ CHR '';'' # rest)
        = (name @ ''='' @ v) # cuts 4294967293 (CHR '';'') rest"
      by (rule cuts_append)
    moreover have "string_trim (name @ ''='' @ v) = Inr (name @ ''='' @ v)"
      using assms(1,2) by (cases name) (simp_all add: string_trim_left)
    ultimately show ?thesis using assms(1) by (simp add: getCookieValue_def split_cuts startWith_def substr_def)
  qed
  show ?thesis
    using g [OF assms(4)] g [of "[]"] by (simp add: createCookie_def cleanCookie_def)
qed

text \<open>The name of another cookie may begin with the one asked for, and a name alone ends in an exception.\<close>

theorem cookie_prefix_trap:
  "getCookieValue ''sid2=x; sid=y'' ''sid'' = Inr ''=x''" "getCookieValue ''a=b; sid'' ''sid'' = Inl OutOfRange"
  using split_join [of "[''sid2=x'', '' sid=y'']" "CHR '';''"] split_join [of "[''a=b'', '' sid'']" "CHR '';''"]
  by (simp_all add: getCookieValue_def string_trim_left isBlank_def startWith_def substr_def)

end
