(* ===== verification/InvokeTimer.thy ===== *)
theory InvokeTimer
  imports Effects
begin

text \<open>
  \<open>aom::InvokeTimer\<close> (\<open>inc/utils/InvokeTimer.hpp\<close>): a callback after a duration, once, some number of times or for
  ever. The timer of asio is the environment: a wait completes with success, or with an error when it was cancelled
  before. What the callback does is an input of the step.
\<close>

record timer =
  periodic :: bool
  count :: u64
  trigger_count :: u64
  isTriggered :: bool
  selfSet :: bool
  waits :: nat
  timeThread :: thread
  calls :: nat

text \<open>The constructors for a flag and for a number of times; the argument \<open>io\<close> of the first is not used.\<close>

definition InvokeTimer_period :: "bool \<Rightarrow> timer" where
  "InvokeTimer_period period =
     \<lparr>periodic = period, count = 0, trigger_count = 0, isTriggered = False, selfSet = False, waits = 0,
      timeThread = NoThread, calls = 0\<rparr>"

definition InvokeTimer_count :: "u64 \<Rightarrow> timer" where
  "InvokeTimer_count n =
     \<lparr>periodic = True, count = n, trigger_count = 0, isTriggered = False, selfSet = False, waits = 0,
      timeThread = NoThread, calls = 0\<rparr>"

text \<open>
  \<open>CreateTimer\<close> for a flag. With a callback that has a name the constructor for \<open>Function&&\<close> is not viable, and the
  one for a flag and \<open>Function&\<close> wants a context: the flag is converted to a number of times.
\<close>

definition CreateTimer_period :: "bool \<Rightarrow> bool \<Rightarrow> timer" where
  "CreateTimer_period named period =
     (if named then InvokeTimer_count (if period then 1 else 0) else InvokeTimer_period period)\<lparr>selfSet := True\<rparr>"

definition CreateTimer_count :: "u64 \<Rightarrow> timer" where
  "CreateTimer_count n = (InvokeTimer_count n)\<lparr>selfSet := True\<rparr>"

text \<open>Assigning to a thread object that is still joinable ends the process.\<close>

definition Start :: "timer \<Rightarrow> (unit, timer) eff" where
  "Start t =
     (let t = t\<lparr>waits := waits t + 1\<rparr>
      in if timeThread t \<noteq> NoThread then (Inl ProcessExit, t) else (Inr (), t\<lparr>timeThread := Running\<rparr>))"

text \<open>
  What the callback does: nothing when there is none, return, throw an \<open>std::error_code\<close> (caught), throw anything else (passed on by the thread,
  which ends the process), or cancel the timer, which joins the thread it runs on and throws.
\<close>

datatype called = Empty | Returns | ThrowsCode | ThrowsOther | CancelsTimer

definition runCallback :: "called \<Rightarrow> timer \<Rightarrow> (unit, timer) eff" where
  "runCallback c t =
     (let t = (if c = Empty then t else t\<lparr>calls := calls t + 1\<rparr>)
      in case c of
           Empty \<Rightarrow> (Inr (), t)
         | Returns \<Rightarrow> (Inr (), t)
         | ThrowsCode \<Rightarrow> (Inr (), t)
         | ThrowsOther \<Rightarrow> (Inl ProcessExit, t)
         | CancelsTimer \<Rightarrow> (Inl ProcessExit, t\<lparr>periodic := False\<rparr>))"

text \<open>Of the three branches on the count the second cannot be reached.\<close>

definition OnTrigger :: "bool \<Rightarrow> called \<Rightarrow> timer \<Rightarrow> (unit, timer) eff" where
  "OnTrigger failed c t =
     (if failed then (Inr (), t\<lparr>selfSet := False\<rparr>)
      else
        let t = t\<lparr>isTriggered := True, trigger_count := trigger_count t + 1\<rparr>
        in thenDo (runCallback c t) (\<lambda>_ t.
             if periodic t then
               if count t = 0 \<or> trigger_count t < count t then (Inr (), t\<lparr>waits := waits t + 1\<rparr>)
               else if trigger_count t < count t then (Inr (), t\<lparr>waits := waits t + 1\<rparr>)
               else (Inr (), t)
             else (Inr (), t)))"

text \<open>The thread: one wait completes; without any left \<open>run\<close> returns.\<close>

definition timerStep :: "bool \<Rightarrow> called \<Rightarrow> timer \<Rightarrow> (unit, timer) eff" where
  "timerStep failed c t =
     (if timeThread t \<noteq> Running then (Inr (), t)
      else if waits t = 0 then (Inr (), t\<lparr>timeThread := Ended\<rparr>)
      else OnTrigger failed c (t\<lparr>waits := waits t - 1\<rparr>))"

text \<open>
  \<open>Cancel\<close> from another thread. A pending wait ends with an error, unless its time has passed already (\<open>late\<close>): then the
  callback is called once more.
\<close>

definition Cancel :: "bool \<Rightarrow> called \<Rightarrow> timer \<Rightarrow> (unit, timer) eff" where
  "Cancel late c t =
     (let t = t\<lparr>periodic := False\<rparr>
      in if timeThread t = NoThread then (Inr (), t)
         else thenDo (timerStep (\<not> late) c t) (\<lambda>_ t.
              if waits t = 0 then (Inr (), t\<lparr>timeThread := NoThread\<rparr>) else (Inl Hang, t)))"

definition InvokeTimer_destroy :: "timer \<Rightarrow> (unit, timer) eff" where
  "InvokeTimer_destroy t = (if timeThread t \<noteq> NoThread then (Inl ProcessExit, t) else (Inr (), t))"

definition getTickCount :: "timer \<Rightarrow> u64" where
  "getTickCount t = trigger_count t"

primrec elapse :: "nat \<Rightarrow> timer \<Rightarrow> (unit, timer) eff" where
  "elapse 0 t = (Inr (), t)"
| "elapse (Suc n) t = thenDo (timerStep False Returns t) (\<lambda>_ t. elapse n t)"

subsection \<open>How often the callback is called\<close>

lemma elapse_Ended [simp]: "timeThread t = Ended \<Longrightarrow> elapse k t = (Inr (), t)"
  by (induction k) (simp_all add: timerStep_def)

lemma elapse_idle:
  assumes "timeThread t = Running" "waits t = 0"
  shows "snd (elapse k t) = (if k = 0 then t else t\<lparr>timeThread := Ended\<rparr>)"
  using assms by (cases k) (simp_all add: timerStep_def)

text \<open>A timer with no count that repeats never stops.\<close>

lemma elapse_forever:
  assumes "timeThread t = Running" "waits t = 1" "periodic t" "count t = 0"
  shows "\<exists>u. elapse k t = (Inr (), u) \<and> calls u = calls t + k \<and> waits u = 1"
  using assms
proof (induction k arbitrary: t)
  case (Suc k)
  have "timerStep False Returns t =
      (Inr (), t\<lparr>isTriggered := True, trigger_count := trigger_count t + 1, calls := calls t + 1\<rparr>)"
    using Suc.prems by (simp add: timerStep_def OnTrigger_def runCallback_def Let_def)
  then show ?case
    using Suc.IH [of "t\<lparr>isTriggered := True, trigger_count := trigger_count t + 1, calls := calls t + 1\<rparr>"] Suc.prems
    by simp
qed simp

text \<open>A timer with a count calls back that many times, then its thread ends.\<close>

lemma elapse_counted:
  assumes "timeThread t = Running" "waits t = 1" "periodic t" "trigger_count t < count t"
  shows "\<exists>u. elapse k t = (Inr (), u) \<and> calls u = calls t + min k (unat (count t) - unat (trigger_count t))
    \<and> (timeThread u = Ended \<longleftrightarrow> unat (count t) - unat (trigger_count t) < k)"
  using assms
proof (induction k arbitrary: t)
  case (Suc k)
  let ?u = "t\<lparr>isTriggered := True, trigger_count := trigger_count t + 1, calls := calls t + 1\<rparr>"
  have nz: "count t \<noteq> 0" using Suc.prems(4) by auto
  have l: "unat (trigger_count t) < unat (count t)" using Suc.prems(4) by (simp add: word_less_nat_alt)
  then have "unat (trigger_count t) + 1 < 2 ^ 64" using unsigned_less [of "count t", where ?'a = nat] by simp
  then have s: "unat (trigger_count t + 1) = unat (trigger_count t) + 1" by (simp add: unat_word_ariths)
  show ?case
  proof (cases "trigger_count t + 1 < count t")
    case True
    then have "timerStep False Returns t = (Inr (), ?u)"
      using Suc.prems by (simp add: timerStep_def OnTrigger_def runCallback_def Let_def)
    then show ?thesis using Suc.IH [of ?u] Suc.prems True s l by (auto simp: word_less_nat_alt)
  next
    case False
    then have e: "unat (count t) - unat (trigger_count t) = 1" using s l by (simp add: word_less_nat_alt)
    have "timerStep False Returns t = (Inr (), ?u\<lparr>waits := 0\<rparr>)"
      using Suc.prems False nz by (simp add: timerStep_def OnTrigger_def runCallback_def Let_def)
    then show ?thesis using Suc.prems(1) e by (cases k) (simp_all add: timerStep_def)
  qed
qed simp

theorem counted_timer:
  assumes "n \<noteq> 0"
  shows "\<exists>u. thenDo (Start (CreateTimer_count n)) (\<lambda>_. elapse k) = (Inr (), u) \<and> calls u = min k (unat n)
    \<and> (timeThread u = Ended \<longleftrightarrow> unat n < k)"
  using elapse_counted [of "snd (Start (CreateTimer_count n))" k] assms
  by (simp add: Start_def CreateTimer_count_def InvokeTimer_count_def word_gt_0)

text \<open>
  The flag of a timer whose callback has a name means the opposite of what it says: a repeating timer calls back once,
  one that should call back once never stops.
\<close>

theorem named_callback_reverses:
  "\<exists>u. thenDo (Start (CreateTimer_period True True)) (\<lambda>_. elapse k) = (Inr (), u) \<and> calls u = min k 1"
  "\<exists>u. thenDo (Start (CreateTimer_period True False)) (\<lambda>_. elapse k) = (Inr (), u) \<and> calls u = k"
  "\<exists>u. thenDo (Start (CreateTimer_period False True)) (\<lambda>_. elapse k) = (Inr (), u) \<and> calls u = k"
  "\<exists>u. thenDo (Start (CreateTimer_period False False)) (\<lambda>_. elapse k) = (Inr (), u) \<and> calls u = min k 1"
proof -
  note starts = Start_def CreateTimer_period_def InvokeTimer_count_def InvokeTimer_period_def
  show "\<exists>u. thenDo (Start (CreateTimer_period True True)) (\<lambda>_. elapse k) = (Inr (), u) \<and> calls u = min k 1"
    using elapse_counted [of "snd (Start (CreateTimer_period True True))" k] by (auto simp: starts)
  show "\<exists>u. thenDo (Start (CreateTimer_period True False)) (\<lambda>_. elapse k) = (Inr (), u) \<and> calls u = k"
    using elapse_forever [of "snd (Start (CreateTimer_period True False))" k] by (auto simp: starts)
  show "\<exists>u. thenDo (Start (CreateTimer_period False True)) (\<lambda>_. elapse k) = (Inr (), u) \<and> calls u = k"
    using elapse_forever [of "snd (Start (CreateTimer_period False True))" k] by (auto simp: starts)
  show "\<exists>u. thenDo (Start (CreateTimer_period False False)) (\<lambda>_. elapse k) = (Inr (), u) \<and> calls u = min k 1"
  proof (cases k)
    case (Suc j)
    then show ?thesis
      by (cases j) (simp_all add: starts timerStep_def OnTrigger_def runCallback_def Let_def)
  qed (simp add: starts)
qed

subsection \<open>Ending a timer\<close>

text \<open>\<open>Cancel\<close> returns, with at most one more call; only after it the timer can be let go of.\<close>

theorem Cancel_returns:
  assumes "timeThread t = Running" "waits t \<le> 1" "c \<noteq> ThrowsOther" "c \<noteq> CancelsTimer"
  shows "\<exists>u. Cancel late c t = (Inr (), u) \<and> timeThread u = NoThread \<and> calls u \<le> calls t + (if late then 1 else 0)
    \<and> InvokeTimer_destroy u = (Inr (), u)"
proof (cases "waits t")
  case 0
  then show ?thesis using assms by (simp add: Cancel_def timerStep_def InvokeTimer_destroy_def)
next
  case (Suc n)
  then have "waits t = 1" using assms(2) by simp
  then show ?thesis
    using assms
    by (cases c; cases late)
      (simp_all add: Cancel_def timerStep_def OnTrigger_def runCallback_def InvokeTimer_destroy_def Let_def)
qed

lemma elapse_thread:
  "timeThread t \<noteq> NoThread \<Longrightarrow> \<exists>u. elapse k t = (Inr (), u) \<and> timeThread u \<noteq> NoThread"
proof (induction k arbitrary: t)
  case (Suc k)
  have "\<exists>u. timerStep False Returns t = (Inr (), u) \<and> timeThread u \<noteq> NoThread"
    using Suc.prems by (simp add: timerStep_def OnTrigger_def runCallback_def Let_def)
  then show ?case using Suc.IH by auto
qed simp

theorem started_timer_destroy:
  assumes "timeThread t = NoThread"
  shows "fst (thenDo (thenDo (Start t) (\<lambda>_. elapse k)) (\<lambda>_. InvokeTimer_destroy)) = Inl ProcessExit"
  using elapse_thread [of "snd (Start t)" k] assms by (auto simp: Start_def InvokeTimer_destroy_def)

end
