(* ===== verification/Secure.thy ===== *)
theory Secure
  imports Prelude
begin

text \<open>
  Digests and random texts, after \<open>inc/seeker/secure.h\<close>. The hash functions of Botan are arguments: the state a new one
  has, the state after more input, and the digest. The random bits are an input list. The engine and its distribution
  are static variables of a function, so the whole program shares them.
\<close>

subsection \<open>Digests\<close>

record 's hash =
  start :: 's
  absorb :: "'s \<Rightarrow> bytes \<Rightarrow> 's"
  digest :: "'s \<Rightarrow> bytes"

text \<open>
  Reading a stream into a buffer of \<open>n\<close> bytes while it is good: a read that gets fewer ends the loop, so a text that
  fills the last buffer is followed by an empty read.
\<close>

function chunks :: "nat \<Rightarrow> bytes \<Rightarrow> bytes list" where
  "chunks n rest = (if n = 0 \<or> length rest < n then [rest] else take n rest # chunks n (drop n rest))"
  by pat_completeness auto

termination
  by (relation "measure (\<lambda>(n, rest). length rest)") auto

declare chunks.simps [simp del]

definition process :: "'s hash \<Rightarrow> bytes \<Rightarrow> nat \<Rightarrow> bytes" where
  "process hashFunction target bufSize =
     (if 0 < bufSize \<or> 8192 < length target
      then digest hashFunction (foldl (absorb hashFunction) (start hashFunction)
             (chunks (if bufSize < 32 then 4096 else bufSize) target))
      else digest hashFunction (absorb hashFunction (start hashFunction) target))"

text \<open>\<open>HashFunction::create\<close> may return nothing; the hexadecimal text is Botan's.\<close>

definition sha1 :: "(bytes \<Rightarrow> string) \<Rightarrow> 's hash option \<Rightarrow> bytes \<Rightarrow> nat \<Rightarrow> string" where
  "sha1 hex_encode sha1Func target bufSize =
     (case sha1Func of None \<Rightarrow> ''NULL'' | Some h \<Rightarrow> hex_encode (process h target bufSize))"

definition md5 :: "(bytes \<Rightarrow> string) \<Rightarrow> 's hash option \<Rightarrow> bytes \<Rightarrow> nat \<Rightarrow> string" where
  "md5 hex_encode md5Func target bufSize =
     (case md5Func of None \<Rightarrow> ''NULL'' | Some h \<Rightarrow> hex_encode (process h target bufSize))"

lemma concat_chunks: "concat (chunks n rest) = rest"
proof (induction n rest rule: chunks.induct)
  case (1 n rest)
  show ?case
  proof (cases "n = 0 \<or> length rest < n")
    case False
    then show ?thesis using 1 by (subst chunks.simps) simp
  qed (auto simp: chunks.simps)
qed

text \<open>
  The digest does not depend on the size of the buffer, for a hash function to which input can be given in parts.
\<close>

theorem process_streams:
  assumes "\<And>s a b. absorb h (absorb h s a) b = absorb h s (a @ b)" "\<And>s. absorb h s [] = s"
  shows "process h target bufSize = digest h (absorb h (start h) target)"
proof -
  have "foldl (absorb h) s cs = absorb h s (concat cs)" for s cs
    by (induction cs arbitrary: s) (simp_all add: assms)
  then show ?thesis by (simp add: process_def concat_chunks)
qed

theorem process_streams_witness:
  "process \<lparr>start = [], absorb = (@), digest = rev\<rparr> [1, 2, 3] 64 = [3, 2, 1]"
  using process_streams [of "\<lparr>start = [], absorb = (@), digest = rev\<rparr>" "[1, 2, 3]" 64] by simp

subsection \<open>Random texts\<close>

text \<open>The bounds of the distribution once it is there.\<close>

type_synonym rng = "(int \<times> int) option"

text \<open>Only the first call makes the distribution, with bounds that must not cross.\<close>

definition uniformIntDistribution :: "int \<Rightarrow> int \<Rightarrow> rng \<Rightarrow> rng res" where
  "uniformIntDistribution lo hi s =
     (case s of
        Some b \<Rightarrow> Inr (Some b)
      | None \<Rightarrow> if hi - 1 < lo then Inl Undefined else Inr (Some (lo, hi - 1)))"

text \<open>\<open>dis(gen)\<close>: a number between the bounds, from random bits.\<close>

definition dis :: "int \<times> int \<Rightarrow> nat \<Rightarrow> int" where
  "dis b r = fst b + int r mod (snd b - fst b + 1)"

definition charMap :: string where
  "charMap = ''abcdefghijklmnopqrstuvwxyzABCDEFGHIJKLMNOPQRSTUVWXYZ0123456789''"

primrec randomText :: "int \<times> int \<Rightarrow> nat list \<Rightarrow> string \<Rightarrow> string res" where
  "randomText b [] out = Inr out"
| "randomText b (r # rs) out =
     (let i = dis b r
      in if i < 0 then Inl Undefined else andThen (at charMap (nat i)) (\<lambda>c. randomText b rs (out @ [c])))"

text \<open>One element of the list for each character.\<close>

definition secure_randomChars :: "nat list \<Rightarrow> rng \<Rightarrow> (string \<times> rng) res" where
  "secure_randomChars rs s =
     andThen (uniformIntDistribution 0 (10 + 26 + 26) s) (\<lambda>s.
       case s of None \<Rightarrow> Inl Undefined | Some b \<Rightarrow> andThen (randomText b rs []) (\<lambda>out. Inr (out, s)))"

lemma length_charMap: "length charMap = 62"
  by (simp add: charMap_def)

lemma randomText_ok:
  assumes "b = (0, 61)"
  shows "\<exists>cs. randomText b rs out = Inr (out @ cs) \<and> length cs = length rs \<and> set cs \<subseteq> set charMap"
proof (induction rs arbitrary: out)
  case (Cons r rs)
  have i: "0 \<le> dis b r" "nat (dis b r) < length charMap" by (simp_all add: dis_def assms length_charMap)
  let ?c = "charMap ! nat (dis b r)"
  obtain cs where "randomText b rs (out @ [?c]) = Inr ((out @ [?c]) @ cs)" "length cs = length rs" "set cs \<subseteq> set charMap"
    using Cons.IH by blast
  then show ?case using i by (intro exI [of _ "?c # cs"]) (simp add: Let_def at_def)
qed simp

text \<open>
  When nothing else has used the distribution, a random text has the length asked for and consists of letters and
  digits.
\<close>

theorem randomText_alphabet:
  "\<exists>cs. secure_randomChars rs None = Inr (cs, Some (0, 61)) \<and> length cs = length rs \<and> set cs \<subseteq> set charMap"
  using randomText_ok [of "(0, 61)" rs "[]"] by (auto simp: secure_randomChars_def uniformIntDistribution_def)

text \<open>
  After a call with wider bounds the table is read past its end; after \<open>secure_randomChars\<close> any other distribution gives numbers
  up to 61.
\<close>

theorem shared_distribution:
  "andThen (uniformIntDistribution 0 100 None) (secure_randomChars [70]) = Inl Undefined"
  "andThen (secure_randomChars [] None) (\<lambda>x. uniformIntDistribution 1000 2000 (snd x)) = Inr (Some (0, 61))"
  by (simp_all add: uniformIntDistribution_def secure_randomChars_def dis_def at_def length_charMap)

end
